(* ===== verification/ZPrelude.thy ===== *)
theory ZPrelude
  imports Main "HOL-Library.Word" "HOL-Library.Monad_Syntax"
begin

text \<open>
  Shared vocabulary of the development.

  \<^item> A C function with undefined behaviour on some inputs is a HOL function into \<open>'a option\<close>:
    \<open>None\<close> means that the C program reads or writes outside an object or dereferences NULL,
    so nothing can be said about what follows. A failure the code reports itself
    (\<open>return -1\<close>, \<open>return NULL\<close>) is an ordinary value inside \<open>Some\<close>.
  \<^item> A call of the C library that can fail for reasons outside the program (\<open>calloc\<close>,
    \<open>realloc\<close>, \<open>open\<close>, \<open>write\<close>, \<open>rename\<close>, ...) consumes the head of an
    \<open>outcomes\<close> list, where the empty list stands for "from here on every call
    succeeds". Theorems are stated for every outcomes, hence for every pattern of failures.
  \<^item> Arrays are lists; \<open>arr_get\<close>, \<open>arr_set\<close>, \<open>put_bytes\<close> and \<open>get_bytes\<close> are the
    bounds-checked accesses \<open>a[i]\<close>, \<open>a[i] = x\<close>, \<open>memcpy(a + i, ...)\<close> and \<open>memcpy(..., a + i, n)\<close>.
\<close>

named_theorems ub_simps \<open>rules that evaluate bounds-checked accesses\<close>

type_synonym outcomes = "bool list"

fun ask :: "outcomes \<Rightarrow> bool \<times> outcomes" where
  "ask [] = (True, [])"
| "ask (b # bs) = (b, bs)"

definition arr_get :: "'a list \<Rightarrow> int \<Rightarrow> 'a option" where
  "arr_get xs i = (if 0 \<le> i \<and> nat i < length xs then Some (xs ! nat i) else None)"

definition arr_set :: "'a list \<Rightarrow> int \<Rightarrow> 'a \<Rightarrow> 'a list option" where
  "arr_set xs i x = (if 0 \<le> i \<and> nat i < length xs then Some (xs[nat i := x]) else None)"

definition get_bytes :: "'a list \<Rightarrow> nat \<Rightarrow> nat \<Rightarrow> 'a list option" where
  "get_bytes xs i n = (if i + n \<le> length xs then Some (take n (drop i xs)) else None)"

definition put_bytes :: "'a list \<Rightarrow> nat \<Rightarrow> 'a list \<Rightarrow> 'a list option" where
  "put_bytes xs i ys = (if i + length ys \<le> length xs
     then Some (take i xs @ ys @ drop (i + length ys) xs) else None)"

lemma arr_get_in [ub_simps]: "0 \<le> i \<Longrightarrow> i < int (length xs) \<Longrightarrow> arr_get xs i = Some (xs ! nat i)"
  by (simp add: arr_get_def)

lemma arr_get_out [ub_simps]: "i < 0 \<or> int (length xs) \<le> i \<Longrightarrow> arr_get xs i = None"
  by (auto simp: arr_get_def)

lemma arr_set_in [ub_simps]: "0 \<le> i \<Longrightarrow> i < int (length xs) \<Longrightarrow> arr_set xs i x = Some (xs[nat i := x])"
  by (simp add: arr_set_def)

lemma arr_set_out [ub_simps]: "i < 0 \<or> int (length xs) \<le> i \<Longrightarrow> arr_set xs i x = None"
  by (auto simp: arr_set_def)

lemma arr_get_eq_Some: "arr_get xs i = Some x \<longleftrightarrow> 0 \<le> i \<and> i < int (length xs) \<and> x = xs ! nat i"
  by (auto simp: arr_get_def)

lemma get_bytes_in [ub_simps]: "i + n \<le> length xs \<Longrightarrow> get_bytes xs i n = Some (take n (drop i xs))"
  by (simp add: get_bytes_def)

lemma put_bytes_in [ub_simps]: "i + length ys \<le> length xs \<Longrightarrow>
    put_bytes xs i ys = Some (take i xs @ ys @ drop (i + length ys) xs)"
  by (simp add: put_bytes_def)

lemma put_bytes_length: "put_bytes xs i ys = Some zs \<Longrightarrow> length zs = length xs"
  by (auto simp: put_bytes_def split: if_splits)

lemma put_bytes_take: "put_bytes xs i ys = Some zs \<Longrightarrow> take (i + length ys) zs = take i xs @ ys"
  by (auto simp: put_bytes_def split: if_splits)

lemma put_bytes_prefix: "put_bytes xs i ys = Some zs \<Longrightarrow> n \<le> i \<Longrightarrow> take n zs = take n xs"
  by (auto simp: put_bytes_def min_def split: if_splits)

text \<open>The elements of the non-empty slots of an array of pointers.\<close>

fun somes :: "'a option list \<Rightarrow> 'a list" where
  "somes [] = []"
| "somes (None # xs) = somes xs"
| "somes (Some x # xs) = x # somes xs"

lemma somes_append [simp]: "somes (xs @ ys) = somes xs @ somes ys"
  by (induction xs rule: somes.induct) auto

lemma somes_map_Some [simp]: "somes (map Some xs) = xs"
  by (induction xs) auto

lemma set_somes: "set (somes xs) = {x. Some x \<in> set xs}"
  by (induction xs rule: somes.induct) auto

end
