(* ===== verification/Arraylist.thy ===== *)
theory Arraylist
  imports ZPrelude "HOL-Library.Multiset"
begin

text \<open>
  \<^verbatim>\<open>zlog/zc_arraylist.c\<close>: the growable array of pointers every list of zlog is built on (levels,
  formats, specs, rules, archive files). A slot is \<open>None\<close> for NULL. \<open>al_del\<close> says whether a
  destructor was given; the operations return the elements they hand to it.
\<close>

record 'a arraylist =
  al_array :: "'a option list"
  al_len :: int
  al_size :: int
  al_del :: bool

definition ARRAY_LIST_DEFAULT_SIZE :: int where
  "ARRAY_LIST_DEFAULT_SIZE = 32"

definition zc_arraylist_new :: "bool \<Rightarrow> outcomes \<Rightarrow> 'a arraylist option \<times> outcomes" where
  "zc_arraylist_new del orc =
     (let (ok1, orc1) = ask orc in
      if \<not> ok1 then (None, orc1)
      else let (ok2, orc2) = ask orc1 in
        if \<not> ok2 then (None, orc2)
        else (Some \<lparr>al_array = replicate (nat ARRAY_LIST_DEFAULT_SIZE) None, al_len = 0,
                    al_size = ARRAY_LIST_DEFAULT_SIZE, al_del = del\<rparr>, orc2))"

definition zc_arraylist_foreach :: "'a arraylist \<Rightarrow> 'a option list" where
  "zc_arraylist_foreach l = take (nat (al_len l)) (al_array l)"

text \<open>The elements \<open>zc_arraylist_del\<close> passes to the destructor, in order.\<close>

definition zc_arraylist_del :: "'a arraylist \<Rightarrow> 'a list" where
  "zc_arraylist_del l = (if al_del l then somes (zc_arraylist_foreach l) else [])"

definition zc_arraylist_get :: "'a arraylist \<Rightarrow> int \<Rightarrow> 'a option option" where
  "zc_arraylist_get l i = (if i \<ge> al_len l then Some None else arr_get (al_array l) i)"

definition zc_arraylist_expand_inner :: "'a arraylist \<Rightarrow> int \<Rightarrow> outcomes \<Rightarrow> int \<times> 'a arraylist \<times> outcomes" where
  "zc_arraylist_expand_inner l mx orc =
     (let new_size = max (al_size l * 2) mx; (ok, orc1) = ask orc in
      if \<not> ok then (-1, l, orc1)
      else let diff_size = new_size - al_size l in
        (0, l\<lparr>al_array := take (nat new_size) (al_array l) @ replicate (nat diff_size) None,
              al_size := new_size\<rparr>, orc1))"

definition zc_arraylist_set ::
  "'a arraylist \<Rightarrow> int \<Rightarrow> 'a option \<Rightarrow> outcomes \<Rightarrow> (int \<times> 'a arraylist \<times> 'a list \<times> outcomes) option" where
  "zc_arraylist_set l idx d orc =
     (let (rc, l1, orc1) = (if idx > al_size l - 1 then zc_arraylist_expand_inner l idx orc
                            else (0, l, orc)) in
      if rc \<noteq> 0 then Some (-1, l1, [], orc1)
      else do {
        old \<leftarrow> arr_get (al_array l1) idx;
        arr \<leftarrow> arr_set (al_array l1) idx d;
        Some (0, l1\<lparr>al_array := arr, al_len := (if al_len l1 \<le> idx then idx + 1 else al_len l1)\<rparr>,
              (case old of Some x \<Rightarrow> if al_del l1 then [x] else [] | None \<Rightarrow> []), orc1) })"

definition zc_arraylist_add ::
  "'a arraylist \<Rightarrow> 'a option \<Rightarrow> outcomes \<Rightarrow> (int \<times> 'a arraylist \<times> 'a list \<times> outcomes) option" where
  "zc_arraylist_add l d orc = zc_arraylist_set l (al_len l) d orc"

definition zc_arraylist_insert_inner ::
  "'a arraylist \<Rightarrow> int \<Rightarrow> 'a option \<Rightarrow> outcomes \<Rightarrow> (int \<times> 'a arraylist \<times> 'a list \<times> outcomes) option" where
  "zc_arraylist_insert_inner l idx d orc = do {
     cur \<leftarrow> arr_get (al_array l) idx;
     if cur = None then do {
       arr \<leftarrow> arr_set (al_array l) idx d;
       Some (0, l\<lparr>al_array := arr\<rparr>, [], orc) }
     else
       let (rc, l1, orc1) = (if al_len l > al_size l - 1 then zc_arraylist_expand_inner l 0 orc
                             else (0, l, orc)) in
       if rc \<noteq> 0 then Some (-1, l1, [], orc1)
       else do {
         moved \<leftarrow> get_bytes (al_array l1) (nat idx) (nat (al_len l1 - idx));
         arr1 \<leftarrow> put_bytes (al_array l1) (nat idx + 1) moved;
         arr2 \<leftarrow> arr_set arr1 idx d;
         Some (0, l1\<lparr>al_array := arr2, al_len := al_len l1 + 1\<rparr>, [], orc1) } }"

text \<open>The search loop of \<open>zc_arraylist_sortadd\<close>: the first index whose element compares above \<open>d\<close>.\<close>

fun zc_arraylist_sort_index :: "('a option \<Rightarrow> 'a option \<Rightarrow> int) \<Rightarrow> 'a option list \<Rightarrow> 'a option \<Rightarrow> nat" where
  "zc_arraylist_sort_index cmp [] d = 0"
| "zc_arraylist_sort_index cmp (x # xs) d =
     (if cmp x d > 0 then 0 else Suc (zc_arraylist_sort_index cmp xs d))"

definition zc_arraylist_sortadd ::
  "'a arraylist \<Rightarrow> ('a option \<Rightarrow> 'a option \<Rightarrow> int) \<Rightarrow> 'a option \<Rightarrow> outcomes \<Rightarrow>
   (int \<times> 'a arraylist \<times> 'a list \<times> outcomes) option" where
  "zc_arraylist_sortadd l cmp d orc =
     (let i = int (zc_arraylist_sort_index cmp (zc_arraylist_foreach l) d) in
      if i = al_len l then zc_arraylist_add l d orc
      else zc_arraylist_insert_inner l i d orc)"


subsection \<open>The invariant and what every operation does to the list\<close>

definition al_inv :: "'a arraylist \<Rightarrow> bool" where
  "al_inv l \<longleftrightarrow> 0 \<le> al_len l \<and> al_len l \<le> al_size l \<and> 0 < al_size l \<and>
     int (length (al_array l)) = al_size l \<and>
     (\<forall>i < length (al_array l). nat (al_len l) \<le> i \<longrightarrow> al_array l ! i = None)"

lemma al_inv_rest: "al_inv l \<Longrightarrow> drop (nat (al_len l)) (al_array l) =
    replicate (nat (al_size l - al_len l)) None"
  by (rule nth_equalityI) (auto simp: al_inv_def)

lemma length_foreach [simp]: "al_inv l \<Longrightarrow> length (zc_arraylist_foreach l) = nat (al_len l)"
  by (auto simp: zc_arraylist_foreach_def al_inv_def)

lemma foreach_nth: "al_inv l \<Longrightarrow> i < nat (al_len l) \<Longrightarrow> zc_arraylist_foreach l ! i = al_array l ! i"
  by (auto simp: zc_arraylist_foreach_def al_inv_def)

lemma al_array_eq: "al_inv l \<Longrightarrow> al_array l =
    zc_arraylist_foreach l @ replicate (nat (al_size l - al_len l)) None"
  using al_inv_rest[of l] append_take_drop_id[of "nat (al_len l)" "al_array l"]
  by (simp add: zc_arraylist_foreach_def)

text \<open>A list is determined by its visible elements and its capacity: the converse of \<open>al_array_eq\<close>.\<close>

lemma al_inv_intro:
  assumes "al_array l = xs @ replicate (nat (al_size l - al_len l)) None"
    and "al_len l = int (length xs)" and "al_len l \<le> al_size l" and "0 < al_size l"
  shows "al_inv l \<and> zc_arraylist_foreach l = xs"
  using assms by (auto simp: al_inv_def zc_arraylist_foreach_def nth_append)

lemma zc_arraylist_new_inv:
  "zc_arraylist_new del orc = (Some l, orc') \<Longrightarrow>
     al_inv l \<and> zc_arraylist_foreach l = [] \<and> al_del l = del"
  by (auto simp: zc_arraylist_new_def al_inv_def zc_arraylist_foreach_def
      ARRAY_LIST_DEFAULT_SIZE_def Let_def split: prod.splits if_splits)

lemma expand_inner_fields:
  assumes "al_inv l" and "zc_arraylist_expand_inner l mx orc = (rc, l1, orc1)"
  shows "al_inv l1" and "zc_arraylist_foreach l1 = zc_arraylist_foreach l"
    and "al_len l1 = al_len l" and "al_del l1 = al_del l"
    and "rc \<noteq> 0 \<Longrightarrow> l1 = l \<and> rc = -1" and "rc = 0 \<Longrightarrow> al_size l1 = max (al_size l * 2) mx"
proof -
  let ?n = "max (al_size l * 2) mx"
  have sz: "0 < al_size l" "al_len l \<le> al_size l" "0 \<le> al_len l" "int (length (al_array l)) = al_size l"
    using assms(1) by (auto simp: al_inv_def)
  have "al_inv l1 \<and> zc_arraylist_foreach l1 = zc_arraylist_foreach l \<and> al_len l1 = al_len l \<and>
    al_del l1 = al_del l \<and> (rc \<noteq> 0 \<longrightarrow> l1 = l \<and> rc = -1) \<and> (rc = 0 \<longrightarrow> al_size l1 = ?n)"
  proof (cases "fst (ask orc)")
    case False
    with assms show ?thesis by (auto simp: zc_arraylist_expand_inner_def Let_def split: prod.splits)
  next
    case True
    then have l1: "l1 = l\<lparr>al_array := take (nat ?n) (al_array l) @ replicate (nat (?n - al_size l)) None,
        al_size := ?n\<rparr>" and rc: "rc = 0"
      using assms(2) by (auto simp: zc_arraylist_expand_inner_def Let_def split: prod.splits)
    have "take (nat ?n) (al_array l) = al_array l" using sz by simp
    moreover have "nat (al_size l - al_len l) + nat (?n - al_size l) = nat (?n - al_len l)"
      using sz by simp
    ultimately have "al_array l1 = zc_arraylist_foreach l @ replicate (nat (al_size l1 - al_len l1)) None"
      using l1 al_array_eq[OF assms(1)] by (simp add: replicate_add[symmetric])
    then have "al_inv l1 \<and> zc_arraylist_foreach l1 = zc_arraylist_foreach l"
      using sz l1 assms(1) by (intro al_inv_intro) auto
    then show ?thesis using l1 rc by simp
  qed
  then show "al_inv l1" and "zc_arraylist_foreach l1 = zc_arraylist_foreach l"
    and "al_len l1 = al_len l" and "al_del l1 = al_del l"
    and "rc \<noteq> 0 \<Longrightarrow> l1 = l \<and> rc = -1" and "rc = 0 \<Longrightarrow> al_size l1 = ?n"
    by auto
qed

text \<open>What the visible list becomes when slot \<open>i\<close> is set, with NULL slots up to \<open>i\<close>.\<close>

definition list_put :: "'a option list \<Rightarrow> nat \<Rightarrow> 'a option \<Rightarrow> 'a option list" where
  "list_put xs i d = (if i < length xs then xs[i := d] else xs @ replicate (i - length xs) None @ [d])"

lemma list_put_end [simp]: "list_put xs (length xs) d = xs @ [d]"
  by (simp add: list_put_def)

lemma arraylist_write:
  fixes l :: "'a arraylist" and d :: "'a option"
  assumes inv: "al_inv l" and idx: "0 \<le> idx" "idx < al_size l"
  defines "l' \<equiv> l\<lparr>al_array := (al_array l)[nat idx := d],
                  al_len := (if al_len l \<le> idx then idx + 1 else al_len l)\<rparr>"
  shows "al_inv l' \<and> zc_arraylist_foreach l' = list_put (zc_arraylist_foreach l) (nat idx) d"
proof (rule al_inv_intro)
  let ?xs = "zc_arraylist_foreach l"
  have sz: "0 < al_size l" "al_len l \<le> al_size l" "0 \<le> al_len l" "length ?xs = nat (al_len l)"
    using inv by (auto simp: al_inv_def)
  show "al_len l' = int (length (list_put ?xs (nat idx) d))" and "al_len l' \<le> al_size l'" and "0 < al_size l'"
    using sz idx by (auto simp: l'_def list_put_def)
  show "al_array l' = list_put ?xs (nat idx) d @ replicate (nat (al_size l' - al_len l')) None"
  proof (cases "idx < al_len l")
    case True
    then show ?thesis using sz idx al_array_eq[OF inv]
      by (simp add: l'_def list_put_def list_update_append)
  next
    case False
    let ?k = "nat idx - nat (al_len l)"
    have k: "nat (al_size l - al_len l) = ?k + Suc (nat (al_size l - (idx + 1)))"
      using False sz idx by simp
    have "(replicate (nat (al_size l - al_len l)) None)[?k := d] =
      replicate ?k None @ d # replicate (nat (al_size l - (idx + 1))) None"
      by (subst k, subst replicate_add) (simp add: list_update_append)
    then show ?thesis using False sz idx al_array_eq[OF inv]
      by (simp add: l'_def list_put_def list_update_append nat_diff_distrib)
  qed
qed

lemma zc_arraylist_set_spec:
  assumes inv: "al_inv l" and idx: "0 \<le> idx" "idx < 2 * al_size l"
  obtains rc l' fr orc' where "zc_arraylist_set l idx d orc = Some (rc, l', fr, orc')" and "al_inv l'"
    and "al_del l' = al_del l"
    and "rc \<noteq> 0 \<longrightarrow> rc = -1 \<and> l' = l \<and> fr = [] \<and> al_size l \<le> idx"
    and "rc = 0 \<longrightarrow> zc_arraylist_foreach l' = list_put (zc_arraylist_foreach l) (nat idx) d"
    and "rc = 0 \<longrightarrow> al_size l' = (if al_size l \<le> idx then 2 * al_size l else al_size l)"
proof -
  obtain rc1 l1 orc1 where e: "(if idx > al_size l - 1 then zc_arraylist_expand_inner l idx orc
      else (0, l, orc)) = (rc1, l1, orc1)" by (cases "if idx > al_size l - 1 then
        zc_arraylist_expand_inner l idx orc else (0, l, orc)") auto
  have l1: "al_inv l1" "zc_arraylist_foreach l1 = zc_arraylist_foreach l" "al_del l1 = al_del l"
    "al_len l1 = al_len l" "rc1 \<noteq> 0 \<Longrightarrow> l1 = l \<and> al_size l \<le> idx"
    using e inv expand_inner_fields[OF inv] by (auto split: if_splits)
  have sz: "rc1 = 0 \<Longrightarrow> al_size l1 = (if al_size l \<le> idx then 2 * al_size l else al_size l)"
    using e idx expand_inner_fields(6)[OF inv] by (auto split: if_splits)
  show ?thesis
  proof (cases "rc1 = 0")
    case False
    then show ?thesis using that[of "-1" l "[]" orc1] e l1 inv
      by (auto simp: zc_arraylist_set_def)
  next
    case True
    then have in_range: "idx < al_size l1" using sz idx by auto
    moreover have "int (length (al_array l1)) = al_size l1" using l1(1) by (simp add: al_inv_def)
    ultimately show ?thesis
      using that e True idx sz l1 arraylist_write[OF l1(1) idx(1) in_range, of d]
      by (simp add: zc_arraylist_set_def ub_simps)
  qed
qed

text \<open>The growth step reserves \<open>max (2 * size) idx\<close> slots, one too few when \<open>idx\<close> is at least twice
  the capacity: the write to \<open>array[idx]\<close> is then outside the block.\<close>

lemma zc_arraylist_set_beyond:
  assumes "al_inv l" and "2 * al_size l \<le> idx" and "fst (ask orc)"
  shows "zc_arraylist_set l idx d orc = None"
proof -
  obtain rc1 l1 orc1 where e: "zc_arraylist_expand_inner l idx orc = (rc1, l1, orc1)"
    by (metis prod.exhaust)
  have "rc1 = 0" using e assms(3) by (auto simp: zc_arraylist_expand_inner_def Let_def split: prod.splits)
  moreover have "int (length (al_array l1)) = idx"
    using expand_inner_fields(1,6)[OF assms(1) e] \<open>rc1 = 0\<close> assms(1,2) by (auto simp: al_inv_def)
  moreover have "al_size l - 1 < idx" using assms(1,2) by (auto simp: al_inv_def)
  ultimately show ?thesis using e by (simp add: zc_arraylist_set_def ub_simps)
qed

lemma zc_arraylist_add_spec:
  assumes inv: "al_inv l"
  obtains rc l' orc' where "zc_arraylist_add l d orc = Some (rc, l', [], orc')" and "al_inv l'"
    and "al_del l' = al_del l" and "rc \<noteq> 0 \<longrightarrow> rc = -1 \<and> l' = l"
    and "rc = 0 \<longrightarrow> zc_arraylist_foreach l' = zc_arraylist_foreach l @ [d]"
proof -
  have sz: "0 \<le> al_len l" "al_len l \<le> al_size l" "0 < al_size l" using inv by (auto simp: al_inv_def)
  obtain rc l' fr orc' where s: "zc_arraylist_set l (al_len l) d orc = Some (rc, l', fr, orc')"
    "al_inv l'" "al_del l' = al_del l" "rc \<noteq> 0 \<longrightarrow> rc = -1 \<and> l' = l \<and> fr = []"
    "rc = 0 \<longrightarrow> zc_arraylist_foreach l' = list_put (zc_arraylist_foreach l) (nat (al_len l)) d"
    by (rule zc_arraylist_set_spec[OF inv, of "al_len l" d orc]) (use sz in auto)
  have "list_put (zc_arraylist_foreach l) (nat (al_len l)) d = zc_arraylist_foreach l @ [d]"
    using length_foreach[OF inv] list_put_end by metis
  moreover have "fr = []"
  proof (rule ccontr)
    assume "fr \<noteq> []"
    obtain rc1 l1 orc1 where e: "(if al_len l > al_size l - 1 then zc_arraylist_expand_inner l (al_len l) orc
      else (0, l, orc)) = (rc1, l1, orc1)" by (cases "if al_len l > al_size l - 1 then
        zc_arraylist_expand_inner l (al_len l) orc else (0, l, orc)") auto
    have "al_inv l1" "al_len l1 = al_len l"
      using e inv expand_inner_fields[OF inv] by (auto split: if_splits)
    then have "arr_get (al_array l1) (al_len l) \<in> {None, Some None}"
      by (auto simp: arr_get_def al_inv_def)
    then show False using s(1) e \<open>fr \<noteq> []\<close>
      by (auto simp: zc_arraylist_set_def Option.bind_eq_Some_conv split: if_splits)
  qed
  ultimately show ?thesis using that s by (auto simp: zc_arraylist_add_def)
qed

subsection \<open>Sorted insertion\<close>

lemma sort_index_le: "zc_arraylist_sort_index cmp xs d \<le> length xs"
  by (induction xs) auto

lemma zc_arraylist_insert_inner_spec:
  assumes inv: "al_inv l" and idx: "0 \<le> idx" "idx < al_len l"
    and full: "zc_arraylist_foreach l ! nat idx \<noteq> None"
  obtains rc l' orc' where "zc_arraylist_insert_inner l idx d orc = Some (rc, l', [], orc')"
    and "al_inv l'" and "al_del l' = al_del l" and "rc \<noteq> 0 \<longrightarrow> rc = -1 \<and> l' = l"
    and "rc = 0 \<longrightarrow> zc_arraylist_foreach l' =
           take (nat idx) (zc_arraylist_foreach l) @ d # drop (nat idx) (zc_arraylist_foreach l)"
proof -
  let ?xs = "zc_arraylist_foreach l" and ?i = "nat idx"
  have sz: "al_len l \<le> al_size l" "0 < al_size l" "int (length (al_array l)) = al_size l"
    using inv by (auto simp: al_inv_def)
  have cur: "arr_get (al_array l) idx = Some (?xs ! ?i)" "?xs ! ?i \<noteq> None"
    using idx sz full foreach_nth[OF inv, of ?i] by (auto simp: ub_simps)
  obtain rc1 l1 orc1 where e: "(if al_len l > al_size l - 1 then zc_arraylist_expand_inner l 0 orc
      else (0, l, orc)) = (rc1, l1, orc1)" by (cases "if al_len l > al_size l - 1 then
        zc_arraylist_expand_inner l 0 orc else (0, l, orc)") auto
  have l1: "al_inv l1" "zc_arraylist_foreach l1 = ?xs" "al_len l1 = al_len l" "al_del l1 = al_del l"
    "rc1 \<noteq> 0 \<Longrightarrow> l1 = l"
    using e inv expand_inner_fields[OF inv] by (auto split: if_splits)
  show ?thesis
  proof (cases "rc1 = 0")
    case False
    then show ?thesis using that[of "-1" l1 orc1] cur e l1
      by (auto simp: zc_arraylist_insert_inner_def)
  next
    case True
    define k where "k = nat (al_size l1 - al_len l1) - 1"
    have room: "al_len l1 < al_size l1"
      using e True sz l1(3) expand_inner_fields(6)[OF inv, of 0 orc rc1 l1 orc1]
      by (auto split: if_splits)
    then have arr: "al_array l1 = ?xs @ None # replicate k None"
      using al_array_eq[OF l1(1)] l1(2) by (cases "nat (al_size l1 - al_len l1)") (auto simp: k_def)
    have len: "length ?xs = nat (al_len l)" "?i < length ?xs" using inv idx by simp_all
    let ?arr1 = "take (?i + 1) ?xs @ drop ?i ?xs @ replicate k None"
    have "nat (al_len l - idx) = length ?xs - ?i" using len idx by simp
    then have g: "get_bytes (al_array l1) ?i (nat (al_len l1 - idx)) = Some (drop ?i ?xs)"
      using len(2) l1(3) by (simp add: arr get_bytes_def)
    have p: "put_bytes (al_array l1) (?i + 1) (drop ?i ?xs) = Some ?arr1"
      using len(2) by (simp add: arr put_bytes_def)
    have t: "take (?i + 1) ?xs = take ?i ?xs @ [?xs ! ?i]" using len(2) by (simp add: take_Suc_conv_app_nth)
    have q: "arr_set ?arr1 idx d = Some (take ?i ?xs @ d # drop ?i ?xs @ replicate k None)"
      using len(2) idx(1) by (simp add: arr_set_def t[simplified] list_update_append)
    let ?l' = "l1\<lparr>al_array := take ?i ?xs @ d # drop ?i ?xs @ replicate k None, al_len := al_len l1 + 1\<rparr>"
    have "al_inv ?l' \<and> zc_arraylist_foreach ?l' = take ?i ?xs @ d # drop ?i ?xs"
      by (rule al_inv_intro) (use room len l1(3) inv idx k_def in \<open>auto simp: al_inv_def nat_diff_distrib\<close>)
    then show ?thesis
      using that[of 0 ?l' orc1] cur e l1 True g p q by (auto simp: zc_arraylist_insert_inner_def)
  qed
qed

text \<open>The visible list after a sorted insertion.\<close>

definition sort_insert :: "('a option \<Rightarrow> 'a option \<Rightarrow> int) \<Rightarrow> 'a option \<Rightarrow> 'a option list \<Rightarrow> 'a option list" where
  "sort_insert cmp d xs = (let i = zc_arraylist_sort_index cmp xs d in take i xs @ d # drop i xs)"

lemma zc_arraylist_sortadd_spec:
  assumes inv: "al_inv l" and full: "None \<notin> set (zc_arraylist_foreach l)"
  obtains rc l' orc' where "zc_arraylist_sortadd l cmp d orc = Some (rc, l', [], orc')"
    and "al_inv l'" and "al_del l' = al_del l" and "rc \<noteq> 0 \<longrightarrow> rc = -1 \<and> l' = l"
    and "rc = 0 \<longrightarrow> zc_arraylist_foreach l' = sort_insert cmp d (zc_arraylist_foreach l)"
proof -
  let ?xs = "zc_arraylist_foreach l" and ?i = "zc_arraylist_sort_index cmp (zc_arraylist_foreach l) d"
  have len: "length ?xs = nat (al_len l)" "0 \<le> al_len l" using inv by (auto simp: al_inv_def)
  show ?thesis
  proof (cases "int ?i = al_len l")
    case True
    then have "sort_insert cmp d ?xs = ?xs @ [d]"
      using len by (simp add: sort_insert_def Let_def)
    then show ?thesis
      using zc_arraylist_add_spec[OF inv, of d orc] that True
      by (auto simp: zc_arraylist_sortadd_def)
  next
    case False
    have "?i \<le> length ?xs" by (rule sort_index_le)
    then have lt: "int ?i < al_len l" using False len by linarith
    then have "?xs ! ?i \<in> set ?xs" using len by (intro nth_mem) simp
    then have nn: "?xs ! nat (int ?i) \<noteq> None" using full by (metis nat_int)
    obtain rc l' orc' where "zc_arraylist_insert_inner l (int ?i) d orc = Some (rc, l', [], orc')"
      "al_inv l'" "al_del l' = al_del l" "rc \<noteq> 0 \<longrightarrow> rc = -1 \<and> l' = l"
      "rc = 0 \<longrightarrow> zc_arraylist_foreach l' = take (nat (int ?i)) ?xs @ d # drop (nat (int ?i)) ?xs"
      using zc_arraylist_insert_inner_spec[OF inv _ lt nn, of d orc] by auto
    then show ?thesis using False that
      by (auto simp: zc_arraylist_sortadd_def sort_insert_def Let_def)
  qed
qed

text \<open>With a comparison that orders by a key (as \<open>zlog_file_cmp\<close> does), sorted insertion keeps the list
  sorted by that key, adds exactly the new element, and puts it after the elements of equal key.\<close>

definition key_cmp :: "('a \<Rightarrow> int) \<Rightarrow> 'a option \<Rightarrow> 'a option \<Rightarrow> int" where
  "key_cmp f x y = (if f (the x) > f (the y) then 1 else 0)"

lemma sort_insert_Nil [simp]: "sort_insert cmp d [] = [d]"
  by (simp add: sort_insert_def)

lemma sort_insert_Cons: "sort_insert (key_cmp f) d (x # xs) =
    (if f (the x) > f (the d) then d # x # xs else x # sort_insert (key_cmp f) d xs)"
  by (simp add: sort_insert_def key_cmp_def Let_def)

lemma set_sort_insert: "set (sort_insert cmp d xs) = insert d (set xs)"
proof -
  let ?i = "zc_arraylist_sort_index cmp xs d"
  have "set (sort_insert cmp d xs) = insert d (set (take ?i xs) \<union> set (drop ?i xs))"
    by (simp add: sort_insert_def Let_def)
  also have "set (take ?i xs) \<union> set (drop ?i xs) = set xs"
    by (metis append_take_drop_id set_append)
  finally show ?thesis .
qed

lemma mset_sort_insert: "mset (sort_insert cmp d xs) = add_mset d (mset xs)"
proof -
  let ?i = "zc_arraylist_sort_index cmp xs d"
  have "mset (take ?i xs) + mset (drop ?i xs) = mset xs"
    by (metis append_take_drop_id mset_append)
  then show ?thesis by (simp add: sort_insert_def Let_def)
qed

lemma sorted_sort_insert: "sorted (map (f \<circ> the) xs) \<Longrightarrow>
    sorted (map (f \<circ> the) (sort_insert (key_cmp f) d xs))"
  by (induction xs) (auto simp: sort_insert_Cons set_sort_insert)

subsection \<open>The interface the clients use: a store one can append to\<close>

text \<open>
  Formats, rules, fit rules and pattern specs are all built the same way: a loop makes an element,
  appends it and gives up at the first failure. The contract of the append and what such a loop
  leaves behind are stated once.
\<close>

fun add_all :: "('s \<Rightarrow> 'a \<Rightarrow> outcomes \<Rightarrow> (int \<times> 's \<times> 'f \<times> outcomes) option) \<Rightarrow> 's \<Rightarrow> 'a list \<Rightarrow> outcomes \<Rightarrow>
    (int \<times> 's \<times> outcomes) option" where
  "add_all add s [] orc = Some (0, s, orc)"
| "add_all add s (x # xs) orc = do {
     (rc, s', fr, orc') \<leftarrow> add s x orc;
     if rc \<noteq> 0 then Some (-1, s', orc') else add_all add s' xs orc' }"

locale append_store =
  fixes add :: "'s \<Rightarrow> 'a \<Rightarrow> outcomes \<Rightarrow> (int \<times> 's \<times> 'f \<times> outcomes) option"
    and elems :: "'s \<Rightarrow> 'a list"
    and wf :: "'s \<Rightarrow> bool"
  assumes add_defined: "wf s \<Longrightarrow> add s x orc \<noteq> None"
    and add_wf: "wf s \<Longrightarrow> add s x orc = Some (rc, s', fr, orc') \<Longrightarrow> wf s'"
    and add_ok: "wf s \<Longrightarrow> add s x orc = Some (0, s', fr, orc') \<Longrightarrow> elems s' = elems s @ [x]"
    and add_fail: "wf s \<Longrightarrow> add s x orc = Some (rc, s', fr, orc') \<Longrightarrow> rc \<noteq> 0 \<Longrightarrow> s' = s"
begin

lemma add_all_defined: "wf s \<Longrightarrow> add_all add s xs orc \<noteq> None"
proof (induction xs arbitrary: s orc)
  case (Cons x xs)
  obtain rc s' fr orc' where a: "add s x orc = Some (rc, s', fr, orc')"
    using add_defined[OF Cons.prems, of x orc] by auto
  with Cons.IH[OF add_wf[OF Cons.prems a]] show ?case by simp
qed simp

lemma add_all_spec: "wf s \<Longrightarrow> add_all add s xs orc = Some (rc, s', orc') \<Longrightarrow>
    wf s' \<and> (rc = 0 \<longrightarrow> elems s' = elems s @ xs) \<and>
    (\<exists>n. n \<le> length xs \<and> elems s' = elems s @ take n xs)"
proof (induction xs arbitrary: s orc)
  case Nil
  then show ?case by simp
next
  case (Cons x xs)
  obtain rc1 s1 fr orc1 where a: "add s x orc = Some (rc1, s1, fr, orc1)"
    using add_defined[OF Cons.prems(1), of x orc] by auto
  show ?case
  proof (cases "rc1 = 0")
    case False
    with a Cons.prems add_wf[OF Cons.prems(1) a] add_fail[OF Cons.prems(1) a]
    have "s' = s" "rc = -1" "wf s'" by auto
    then show ?thesis by (auto intro: exI[of _ 0])
  next
    case True
    then have "wf s1" "elems s1 = elems s @ [x]"
      using a add_wf[OF Cons.prems(1) a] add_ok[OF Cons.prems(1)] by auto
    moreover have "add_all add s1 xs orc1 = Some (rc, s', orc')" using a True Cons.prems by simp
    ultimately have ih: "wf s'" "rc = 0 \<longrightarrow> elems s' = elems s @ x # xs"
      "\<exists>n \<le> length xs. elems s' = elems s @ x # take n xs"
      using Cons.IH[of s1 orc1] by auto
    then obtain n where "n \<le> length xs" "elems s' = elems s @ take (Suc n) (x # xs)" by auto
    with ih(1,2) show ?thesis by (intro conjI exI[of _ "Suc n"]) auto
  qed
qed

end

interpretation al: append_store zc_arraylist_add zc_arraylist_foreach al_inv
proof unfold_locales
  fix s :: "'a arraylist" and x orc
  assume inv: "al_inv s"
  obtain rc s' orc' where a: "zc_arraylist_add s x orc = Some (rc, s', [], orc')" "al_inv s'"
    "rc \<noteq> 0 \<longrightarrow> rc = -1 \<and> s' = s" "rc = 0 \<longrightarrow> zc_arraylist_foreach s' = zc_arraylist_foreach s @ [x]"
    using zc_arraylist_add_spec[OF inv] by metis
  show "zc_arraylist_add s x orc \<noteq> None" using a by simp
  fix rc2 s2 fr2 orc2
  assume b: "zc_arraylist_add s x orc = Some (rc2, s2, fr2, orc2)"
  show "al_inv s2" using a b by simp
  show "s2 = s" if "rc2 \<noteq> 0" using a b that by simp
next
  fix s :: "'a arraylist" and x orc s' fr orc'
  assume "al_inv s" "zc_arraylist_add s x orc = Some (0, s', fr, orc')"
  then show "zc_arraylist_foreach s' = zc_arraylist_foreach s @ [x]"
    using zc_arraylist_add_spec[of s x orc] by (metis option.inject prod.inject)
qed

subsection \<open>Properties\<close>

definition sample_list :: "nat arraylist" where
  "sample_list = \<lparr>al_array = [Some 5, Some 9, None, None], al_len = 2, al_size = 4, al_del = False\<rparr>"

lemma sample_list: "al_inv sample_list" "al_size sample_list = 4" "zc_arraylist_foreach sample_list = [Some 5, Some 9]"
  by (simp_all add: al_inv_def sample_list_def zc_arraylist_foreach_def nth_Cons' numeral_eq_Suc less_Suc_eq)

text \<open>
  \<open>zc_arraylist_set\<close> at an index below twice the capacity is safe whether or not \<open>realloc\<close> succeeds:
  the invariant holds after it, a failure leaves the list as it was, a success puts the element at its
  index with NULL slots in between, and the new capacity is the old one or twice the old one.
\<close>

theorem zc_arraylist_set_safe:
  assumes "al_inv l" "0 \<le> idx" "idx < 2 * al_size l"
  shows "\<exists>rc l' fr orc'. zc_arraylist_set l idx d orc = Some (rc, l', fr, orc') \<and> al_inv l' \<and>
    (if rc = 0 then zc_arraylist_foreach l' = list_put (zc_arraylist_foreach l) (nat idx) d \<and>
        al_size l' = (if al_size l \<le> idx then 2 * al_size l else al_size l)
     else rc = -1 \<and> l' = l \<and> fr = [])"
proof -
  obtain rc l' fr orc' where "zc_arraylist_set l idx d orc = Some (rc, l', fr, orc')" "al_inv l'"
    "rc \<noteq> 0 \<longrightarrow> rc = -1 \<and> l' = l \<and> fr = [] \<and> al_size l \<le> idx"
    "rc = 0 \<longrightarrow> zc_arraylist_foreach l' = list_put (zc_arraylist_foreach l) (nat idx) d"
    "rc = 0 \<longrightarrow> al_size l' = (if al_size l \<le> idx then 2 * al_size l else al_size l)"
    by (rule zc_arraylist_set_spec[OF assms])
  then show ?thesis by auto
qed

theorem zc_arraylist_set_safe_witness:
  "\<exists>rc l' fr orc'. zc_arraylist_set sample_list 6 (Some 7) [] = Some (rc, l', fr, orc') \<and> al_inv l'"
  using zc_arraylist_set_safe[of sample_list 6 "Some 7" "[]"] sample_list by auto

text \<open>
  Beyond that the growth is one slot short: \<open>expand_inner\<close> reserves \<open>max (2 * size) idx\<close> slots where
  \<open>idx + 1\<close> are needed, and \<open>array[idx]\<close> is outside the block.
\<close>

theorem zc_arraylist_set_one_short:
  assumes "al_inv l" "2 * al_size l \<le> idx" "fst (ask orc)"
  shows "zc_arraylist_set l idx d orc = None"
  by (rule zc_arraylist_set_beyond[OF assms])

theorem zc_arraylist_set_one_short_witness: "zc_arraylist_set sample_list 8 (Some 7) [] = None"
  by (rule zc_arraylist_set_one_short) (simp_all add: sample_list)

text \<open>
  \<open>zc_arraylist_sortadd\<close> with a comparison by a key, on a list without NULL slots: never undefined; a
  success adds exactly the new element and keeps the list sorted, a failure changes nothing.
\<close>

theorem zc_arraylist_sortadd_sorted:
  assumes "al_inv l" "None \<notin> set (zc_arraylist_foreach l)" "sorted (map (f \<circ> the) (zc_arraylist_foreach l))"
  shows "\<exists>rc l' orc'. zc_arraylist_sortadd l (key_cmp f) d orc = Some (rc, l', [], orc') \<and> al_inv l' \<and>
    (if rc = 0 then mset (zc_arraylist_foreach l') = add_mset d (mset (zc_arraylist_foreach l)) \<and>
        sorted (map (f \<circ> the) (zc_arraylist_foreach l'))
     else rc = -1 \<and> l' = l)"
proof -
  obtain rc l' orc' where "zc_arraylist_sortadd l (key_cmp f) d orc = Some (rc, l', [], orc')" "al_inv l'"
    "rc \<noteq> 0 \<longrightarrow> rc = -1 \<and> l' = l"
    "rc = 0 \<longrightarrow> zc_arraylist_foreach l' = sort_insert (key_cmp f) d (zc_arraylist_foreach l)"
    by (rule zc_arraylist_sortadd_spec[OF assms(1,2)])
  then show ?thesis using mset_sort_insert sorted_sort_insert[OF assms(3)] by auto
qed

theorem zc_arraylist_sortadd_sorted_witness:
  "\<exists>rc l' orc'. zc_arraylist_sortadd sample_list (key_cmp int) (Some 7) [] = Some (rc, l', [], orc') \<and> al_inv l'"
  using zc_arraylist_sortadd_sorted[of sample_list int "Some 7" "[]"] sample_list by auto

end
