(* ===== verification/Hashtable.thy ===== *)
theory Hashtable
  imports ZPrelude "HOL-Library.Multiset"
begin

text \<open>
  \<^verbatim>\<open>zlog/zc_hashtable.c\<close>: the chained hash table behind the categories, the records and the MDC.
  The model is at the level of the pointers: \<open>entries\<close> is the heap of the table's entries (address
  to node), a bucket is the address of its first node, and the nodes are doubly linked by \<open>e_prev\<close>
  and \<open>e_next\<close>. \<open>brk\<close> is the next address \<open>calloc\<close> hands out. An operation that would dereference
  NULL or a dead node, or walk a cyclic chain, has no value (\<open>None\<close>).
\<close>

record ('k, 'v) entry =
  e_hash_key :: "32 word"
  e_key :: 'k
  e_value :: 'v
  e_prev :: "nat option"
  e_next :: "nat option"

type_synonym ('k, 'v) heap = "nat \<Rightarrow> ('k, 'v) entry option"

record ('k, 'v) hashtable =
  nelem :: nat
  tab :: "nat option list"
  tab_size :: nat
  ht_hash :: "'k \<Rightarrow> 32 word"
  ht_equal :: "'k \<Rightarrow> 'k \<Rightarrow> bool"
  ht_key_del :: bool
  ht_value_del :: bool
  entries :: "('k, 'v) heap"
  brk :: nat

definition zc_hashtable_new ::
  "nat \<Rightarrow> ('k \<Rightarrow> 32 word) \<Rightarrow> ('k \<Rightarrow> 'k \<Rightarrow> bool) \<Rightarrow> bool \<Rightarrow> bool \<Rightarrow> outcomes \<Rightarrow>
   ('k, 'v) hashtable option \<times> outcomes" where
  "zc_hashtable_new a_size hash equal key_del value_del orc =
     (let (ok1, orc1) = ask orc in
      if \<not> ok1 then (None, orc1)
      else let (ok2, orc2) = ask orc1 in
        if \<not> ok2 then (None, orc2)
        else (Some \<lparr>nelem = 0, tab = replicate a_size None, tab_size = a_size, ht_hash = hash,
                    ht_equal = equal, ht_key_del = key_del, ht_value_del = value_del,
                    entries = Map.empty, brk = 0\<rparr>, orc2))"

text \<open>The bucket of a hash value: \<open>h % tab_size\<close>, a division by zero when the table has no bucket.\<close>

definition bucket :: "nat \<Rightarrow> 32 word \<Rightarrow> nat" where
  "bucket ts h = unat h mod ts"

definition slot :: "nat option list \<Rightarrow> nat \<Rightarrow> nat option option" where
  "slot tb i = (if i < length tb then Some (tb ! i) else None)"

partial_function (option) chain_find ::
  "('k, 'v) heap \<Rightarrow> ('k \<Rightarrow> 'k \<Rightarrow> bool) \<Rightarrow> 'k \<Rightarrow> nat option \<Rightarrow> nat option option" where
  "chain_find h eq k p = (case p of None \<Rightarrow> Some None
     | Some a \<Rightarrow> (case h a of None \<Rightarrow> None
       | Some n \<Rightarrow> if eq k (e_key n) then Some (Some a) else chain_find h eq k (e_next n)))"

definition zc_hashtable_get_entry :: "('k, 'v) hashtable \<Rightarrow> 'k \<Rightarrow> nat option option" where
  "zc_hashtable_get_entry t k =
     (if tab_size t = 0 then None else do {
        p \<leftarrow> slot (tab t) (bucket (tab_size t) (ht_hash t k));
        chain_find (entries t) (ht_equal t) k p })"

definition zc_hashtable_get :: "('k, 'v) hashtable \<Rightarrow> 'k \<Rightarrow> 'v option option" where
  "zc_hashtable_get t k =
     (if tab_size t = 0 then None else do {
        p \<leftarrow> slot (tab t) (bucket (tab_size t) (ht_hash t k));
        q \<leftarrow> chain_find (entries t) (ht_equal t) k p;
        case q of None \<Rightarrow> Some None | Some a \<Rightarrow> do { n \<leftarrow> entries t a; Some (Some (e_value n)) } })"

text \<open>The five lines that put a fresh node in front of a bucket, in \<open>zc_hashtable_put\<close> and in
  \<open>zc_hashtable_rehash\<close>.\<close>

definition link_front ::
  "nat option list \<Rightarrow> ('k, 'v) heap \<Rightarrow> nat \<Rightarrow> nat \<Rightarrow> (nat option list \<times> ('k, 'v) heap) option" where
  "link_front tb h j a = do {
     hd \<leftarrow> slot tb j;
     case hd of None \<Rightarrow> Some (tb[j := Some a], h)
     | Some b \<Rightarrow> do {
         nb \<leftarrow> h b;
         let h1 = h(b \<mapsto> nb\<lparr>e_prev := Some a\<rparr>);
         na \<leftarrow> h1 a;
         Some (tb[j := Some a], h1(a \<mapsto> na\<lparr>e_next := Some b\<rparr>)) } }"

partial_function (option) rehash_chain ::
  "nat \<Rightarrow> nat option list \<Rightarrow> ('k, 'v) heap \<Rightarrow> nat option \<Rightarrow> (nat option list \<times> ('k, 'v) heap) option" where
  "rehash_chain ts tb h p = (case p of None \<Rightarrow> Some (tb, h)
     | Some a \<Rightarrow> Option.bind (h a) (\<lambda>n.
         Option.bind (link_front tb (h(a \<mapsto> n\<lparr>e_next := None, e_prev := None\<rparr>)) (bucket ts (e_hash_key n)) a)
           (\<lambda>r. rehash_chain ts (fst r) (snd r) (e_next n))))"

fun rehash_buckets ::
  "nat \<Rightarrow> nat option list \<Rightarrow> ('k, 'v) heap \<Rightarrow> nat option list \<Rightarrow> (nat option list \<times> ('k, 'v) heap) option" where
  "rehash_buckets ts tb h [] = Some (tb, h)"
| "rehash_buckets ts tb h (p # ps) = do {
     (tb1, h1) \<leftarrow> rehash_chain ts tb h p;
     rehash_buckets ts tb1 h1 ps }"

definition zc_hashtable_rehash ::
  "('k, 'v) hashtable \<Rightarrow> outcomes \<Rightarrow> (int \<times> ('k, 'v) hashtable \<times> outcomes) option" where
  "zc_hashtable_rehash t orc =
     (let ts = 2 * tab_size t; (ok, orc1) = ask orc in
      if \<not> ok then Some (-1, t, orc1)
      else do {
        (tb, h) \<leftarrow> rehash_buckets ts (replicate ts None) (entries t) (tab t);
        Some (0, t\<lparr>tab := tb, tab_size := ts, entries := h\<rparr>, orc1) })"

text \<open>\<open>nelem > tab_size * 1.3\<close>, in integers; the code compares in \<open>double\<close>, which decides the same
  for the table sizes that occur (multiples of 20).\<close>

definition over_full :: "('k, 'v) hashtable \<Rightarrow> bool" where
  "over_full t \<longleftrightarrow> 10 * nelem t > 13 * tab_size t"

definition zc_hashtable_put ::
  "('k, 'v) hashtable \<Rightarrow> 'k \<Rightarrow> 'v \<Rightarrow> outcomes \<Rightarrow>
   (int \<times> ('k, 'v) hashtable \<times> ('k list \<times> 'v list) \<times> outcomes) option" where
  "zc_hashtable_put t k v orc = do {
     p \<leftarrow> zc_hashtable_get_entry t k;
     case p of
       Some a \<Rightarrow> do {
         n \<leftarrow> entries t a;
         Some (0, t\<lparr>entries := (entries t)(a \<mapsto> n\<lparr>e_key := k, e_value := v\<rparr>)\<rparr>,
               (if ht_key_del t then [e_key n] else [], if ht_value_del t then [e_value n] else []), orc) }
     | None \<Rightarrow> do {
         (rc, t1, orc1) \<leftarrow> (if over_full t then zc_hashtable_rehash t orc else Some (0, t, orc));
         if rc \<noteq> 0 then Some (-1, t1, ([], []), orc1)
         else let (ok, orc2) = ask orc1 in
           if \<not> ok then Some (-1, t1, ([], []), orc2)
           else let a = brk t1;
                    n = \<lparr>e_hash_key = ht_hash t1 k, e_key = k, e_value = v, e_prev = None, e_next = None\<rparr> in do {
             (tb, h) \<leftarrow> link_front (tab t1) ((entries t1)(a \<mapsto> n)) (bucket (tab_size t1) (e_hash_key n)) a;
             Some (0, t1\<lparr>tab := tb, entries := h, nelem := nelem t1 + 1, brk := brk t1 + 1\<rparr>, ([], []), orc2) } } }"

definition zc_hashtable_remove ::
  "('k, 'v) hashtable \<Rightarrow> 'k \<Rightarrow> (('k, 'v) hashtable \<times> 'k list \<times> 'v list) option" where
  "zc_hashtable_remove t k = do {
     p \<leftarrow> zc_hashtable_get_entry t k;
     case p of
       None \<Rightarrow> Some (t, [], [])
     | Some a \<Rightarrow> do {
         n \<leftarrow> entries t a;
         h1 \<leftarrow> (case e_next n of None \<Rightarrow> Some (entries t)
               | Some b \<Rightarrow> do { nb \<leftarrow> entries t b; Some ((entries t)(b \<mapsto> nb\<lparr>e_prev := e_prev n\<rparr>)) });
         (tb, h2) \<leftarrow> (case e_prev n of
                 Some c \<Rightarrow> do { nc \<leftarrow> h1 c; Some (tab t, h1(c \<mapsto> nc\<lparr>e_next := e_next n\<rparr>)) }
               | None \<Rightarrow> (let i = bucket (tab_size t) (e_hash_key n) in
                   if i < length (tab t) then Some ((tab t)[i := e_next n], h1) else None));
         Some (t\<lparr>tab := tb, entries := h2(a := None), nelem := nelem t - 1\<rparr>,
               if ht_key_del t then [e_key n] else [], if ht_value_del t then [e_value n] else []) } }"

text \<open>The freeing loops of \<open>zc_hashtable_clean\<close> and \<open>zc_hashtable_del\<close>: every node of a chain is read
  before it is freed. They return what is left of the heap and the nodes freed, in order.\<close>

partial_function (option) free_chain ::
  "('k, 'v) heap \<Rightarrow> nat option \<Rightarrow> ('k, 'v) entry list \<Rightarrow> (('k, 'v) heap \<times> ('k, 'v) entry list) option" where
  "free_chain h p acc = (case p of None \<Rightarrow> Some (h, acc)
     | Some a \<Rightarrow> (case h a of None \<Rightarrow> None
       | Some n \<Rightarrow> free_chain (h(a := None)) (e_next n) (acc @ [n])))"

fun free_buckets ::
  "('k, 'v) heap \<Rightarrow> nat option list \<Rightarrow> ('k, 'v) entry list \<Rightarrow> (('k, 'v) heap \<times> ('k, 'v) entry list) option" where
  "free_buckets h [] acc = Some (h, acc)"
| "free_buckets h (p # ps) acc = do {
     (h1, acc1) \<leftarrow> free_chain h p acc;
     free_buckets h1 ps acc1 }"

definition zc_hashtable_clean :: "('k, 'v) hashtable \<Rightarrow> (('k, 'v) hashtable \<times> ('k, 'v) entry list) option" where
  "zc_hashtable_clean t = do {
     (h, freed) \<leftarrow> free_buckets (entries t) (tab t) [];
     Some (t\<lparr>entries := h, tab := replicate (length (tab t)) None, nelem := 0\<rparr>, freed) }"

definition zc_hashtable_del :: "('k, 'v) hashtable \<Rightarrow> (('k, 'v) heap \<times> ('k, 'v) entry list) option" where
  "zc_hashtable_del t = free_buckets (entries t) (tab t) []"

text \<open>Iteration: the first non-empty bucket from \<open>i\<close> on, then \<open>next\<close> pointers.\<close>

fun first_head :: "nat option list \<Rightarrow> nat option" where
  "first_head [] = None"
| "first_head (None # ps) = first_head ps"
| "first_head (Some a # ps) = Some a"

definition zc_hashtable_begin :: "('k, 'v) hashtable \<Rightarrow> nat option" where
  "zc_hashtable_begin t = first_head (tab t)"

definition zc_hashtable_next :: "('k, 'v) hashtable \<Rightarrow> nat \<Rightarrow> nat option option" where
  "zc_hashtable_next t a = do {
     n \<leftarrow> entries t a;
     case e_next n of Some b \<Rightarrow> Some (Some b)
     | None \<Rightarrow> Some (first_head (drop (bucket (tab_size t) (e_hash_key n) + 1) (tab t))) }"

text \<open>The addresses \<open>zc_hashtable_foreach\<close> visits, from \<open>p\<close> on.\<close>

partial_function (option) foreach_from ::
  "('k, 'v) hashtable \<Rightarrow> nat option \<Rightarrow> nat list \<Rightarrow> nat list option" where
  "foreach_from t p acc = (case p of None \<Rightarrow> Some acc
     | Some a \<Rightarrow> Option.bind (zc_hashtable_next t a) (\<lambda>q. foreach_from t q (acc @ [a])))"

definition zc_hashtable_foreach :: "('k, 'v) hashtable \<Rightarrow> nat list option" where
  "zc_hashtable_foreach t = foreach_from t (zc_hashtable_begin t) []"

text \<open>\<open>zc_hashtable_str_hash\<close>: \<open>h = ((h << 5) + h) + c\<close> in 32-bit unsigned arithmetic. Plain \<open>char\<close> is
  unsigned, as on the ARM targets the build is configured for.\<close>

fun str_hash_loop :: "32 word \<Rightarrow> string \<Rightarrow> 32 word" where
  "str_hash_loop h [] = h"
| "str_hash_loop h (c # cs) = str_hash_loop ((push_bit 5 h + h) + of_nat (of_char c)) cs"

definition zc_hashtable_str_hash :: "string \<Rightarrow> 32 word" where
  "zc_hashtable_str_hash s = str_hash_loop 5381 s"

definition zc_hashtable_str_equal :: "string \<Rightarrow> string \<Rightarrow> bool" where
  "zc_hashtable_str_equal a b \<longleftrightarrow> a = b"


subsection \<open>Doubly linked segments\<close>

text \<open>\<open>dseg h pv p as l q\<close>: from \<open>p\<close>, whose predecessor is \<open>pv\<close>, the nodes at the addresses \<open>as\<close> are linked
  in both directions; \<open>l\<close> is the last of them and \<open>q\<close> is what its \<open>next\<close> points to.\<close>

fun dseg :: "('k, 'v) heap \<Rightarrow> nat option \<Rightarrow> nat option \<Rightarrow> nat list \<Rightarrow> nat option \<Rightarrow> nat option \<Rightarrow> bool" where
  "dseg h pv p [] l q \<longleftrightarrow> p = q \<and> pv = l"
| "dseg h pv p (a # as) l q \<longleftrightarrow> p = Some a \<and>
     (case h a of None \<Rightarrow> False | Some n \<Rightarrow> e_prev n = pv \<and> dseg h (Some a) (e_next n) as l q)"

definition dlist :: "('k, 'v) heap \<Rightarrow> nat option \<Rightarrow> nat list \<Rightarrow> bool" where
  "dlist h p as \<longleftrightarrow> (\<exists>l. dseg h None p as l None)"

text \<open>The same without the \<open>prev\<close> links, for chains that are being taken apart.\<close>

fun slist :: "('k, 'v) heap \<Rightarrow> nat option \<Rightarrow> nat list \<Rightarrow> bool" where
  "slist h p [] \<longleftrightarrow> p = None"
| "slist h p (a # as) \<longleftrightarrow> p = Some a \<and> (case h a of None \<Rightarrow> False | Some n \<Rightarrow> slist h (e_next n) as)"

lemma dseg_append: "dseg h pv p (xs @ ys) l q \<longleftrightarrow> (\<exists>m x. dseg h pv p xs m x \<and> dseg h m x ys l q)"
  by (induction xs arbitrary: pv p) (auto split: option.splits)

lemma dseg_frame: "dseg h pv p as l q \<Longrightarrow> (\<And>a. a \<in> set as \<Longrightarrow> h' a = h a) \<Longrightarrow> dseg h' pv p as l q"
  by (induction as arbitrary: pv p) (auto split: option.splits)

lemma dlist_frame: "dlist h p as \<Longrightarrow> (\<And>a. a \<in> set as \<Longrightarrow> h' a = h a) \<Longrightarrow> dlist h' p as"
  unfolding dlist_def using dseg_frame by blast

lemma slist_frame: "slist h p as \<Longrightarrow> (\<And>a. a \<in> set as \<Longrightarrow> h' a = h a) \<Longrightarrow> slist h' p as"
  by (induction as arbitrary: p) (auto split: option.splits)

lemma dseg_slist: "dseg h pv p as l None \<Longrightarrow> slist h p as"
  by (induction as arbitrary: pv p) (auto split: option.splits)

lemma dlist_slist: "dlist h p as \<Longrightarrow> slist h p as"
  by (auto simp: dlist_def dest: dseg_slist)

lemma slist_dom: "slist h p as \<Longrightarrow> set as \<subseteq> dom h"
  by (induction as arbitrary: p) (auto split: option.splits)

lemma dlist_Nil [simp]: "dlist h p [] \<longleftrightarrow> p = None"
  by (auto simp: dlist_def)

lemma dseg_reprev: "dseg h x (Some b) (b # bs) l q \<Longrightarrow> b \<notin> set bs \<Longrightarrow> h b = Some nb \<Longrightarrow>
    dseg (h(b \<mapsto> nb\<lparr>e_prev := y\<rparr>)) y (Some b) (b # bs) l q"
  by (auto intro: dseg_frame)

lemma dseg_renext:
  assumes "dseg h pv p (xs @ [c]) l q" and "c \<notin> set xs" and "h c = Some nc"
  shows "dseg (h(c \<mapsto> nc\<lparr>e_next := q'\<rparr>)) pv p (xs @ [c]) l q'"
proof -
  from assms(1) obtain m x where "dseg h pv p xs m x" and "dseg h m x [c] l q"
    by (auto simp: dseg_append)
  moreover from this(1) assms(2) have "dseg (h(c \<mapsto> nc\<lparr>e_next := q'\<rparr>)) pv p xs m x"
    by (auto intro: dseg_frame)
  ultimately show ?thesis using assms(3) by (auto simp: dseg_append)
qed

lemma dseg_last: "dseg h pv p as l q \<Longrightarrow> l = (if as = [] then pv else Some (last as))"
  by (induction as arbitrary: pv p) (auto split: option.splits)

subsection \<open>Searching a chain\<close>

lemma chain_find_None [simp]: "chain_find h eq k None = Some None"
  by (simp add: chain_find.simps)

lemma chain_find_Some: "h a = Some n \<Longrightarrow> chain_find h eq k (Some a) =
    (if eq k (e_key n) then Some (Some a) else chain_find h eq k (e_next n))"
  by (subst chain_find.simps) simp

lemma chain_find_slist: "slist h p as \<Longrightarrow>
    chain_find h eq k p = Some (find (\<lambda>a. eq k (e_key (the (h a)))) as)"
  by (induction as arbitrary: p) (auto simp: chain_find_Some split: option.splits)

subsection \<open>Tables of buckets\<close>

text \<open>\<open>buckets_ok ts tb h cs\<close>: the \<open>ts\<close> buckets of \<open>tb\<close> head well-linked chains with the addresses \<open>cs\<close>, and
  every node is in the bucket its stored hash names.\<close>

definition buckets_ok :: "nat \<Rightarrow> nat option list \<Rightarrow> ('k, 'v) heap \<Rightarrow> nat list list \<Rightarrow> bool" where
  "buckets_ok ts tb h cs \<longleftrightarrow> length tb = ts \<and> length cs = ts \<and>
     (\<forall>i < ts. dlist h (tb ! i) (cs ! i) \<and>
        (\<forall>a \<in> set (cs ! i). bucket ts (e_hash_key (the (h a))) = i))"

text \<open>Two heaps hold the same hash, key and value at every address: they differ in links only.\<close>

definition datum :: "('k, 'v) entry \<Rightarrow> 32 word \<times> 'k \<times> 'v" where
  "datum n = (e_hash_key n, e_key n, e_value n)"

definition same_data :: "('k, 'v) heap \<Rightarrow> ('k, 'v) heap \<Rightarrow> bool" where
  "same_data h h' \<longleftrightarrow> (\<forall>a. map_option datum (h' a) = map_option datum (h a))"

lemma same_data_refl [simp]: "same_data h h"
  by (simp add: same_data_def)

lemma same_data_trans: "same_data h h1 \<Longrightarrow> same_data h1 h2 \<Longrightarrow> same_data h h2"
  by (simp add: same_data_def)

lemma same_data_upd: "h a = Some n \<Longrightarrow> datum n' = datum n \<Longrightarrow> same_data h (h(a \<mapsto> n'))"
  by (simp add: same_data_def)

lemma same_data_Some: "same_data h h' \<Longrightarrow> h a = Some n \<Longrightarrow> \<exists>n'. h' a = Some n' \<and> datum n' = datum n"
  unfolding same_data_def by (metis map_option_eq_Some option.map(2))

lemma same_data_dom: "same_data h h' \<Longrightarrow> dom h' = dom h"
  unfolding same_data_def dom_def by (metis (no_types, lifting) map_option_is_None)

lemma same_data_sym: "same_data h h' \<Longrightarrow> same_data h' h"
  by (simp add: same_data_def)

lemma same_data_hash: "same_data h h' \<Longrightarrow> a \<in> dom h \<Longrightarrow> e_hash_key (the (h' a)) = e_hash_key (the (h a))"
  using same_data_Some[of h h' a] by (auto simp: datum_def)

lemma buckets_okD:
  assumes "buckets_ok ts tb h cs" and "i < ts"
  shows "length tb = ts" and "length cs = ts" and "dlist h (tb ! i) (cs ! i)"
    and "a \<in> set (cs ! i) \<Longrightarrow> bucket ts (e_hash_key (the (h a))) = i"
  using assms by (auto simp: buckets_ok_def)

lemma buckets_ok_empty: "buckets_ok ts (replicate ts None) h (replicate ts [])"
  by (simp add: buckets_ok_def)

lemma bucket_less [simp]: "0 < ts \<Longrightarrow> bucket ts h < ts"
  by (simp add: bucket_def)

lemma buckets_dom: "buckets_ok ts tb h cs \<Longrightarrow> set (concat cs) \<subseteq> dom h"
  using slist_dom[OF dlist_slist] by (fastforce simp: buckets_ok_def in_set_conv_nth)

lemma concat_update: "j < length cs \<Longrightarrow> mset (concat (cs[j := xs])) + mset (cs ! j) = mset xs + mset (concat cs)"
  by (induction cs arbitrary: j) (auto simp: ac_simps split: nat.splits)

lemma mset_eq_distinct: "mset xs = mset ys \<Longrightarrow> distinct xs \<longleftrightarrow> distinct ys"
  by (metis mset_eq_imp_distinct_iff)

lemma nth_in_concat: "i < length cs \<Longrightarrow> a \<in> set (cs ! i) \<Longrightarrow> a \<in> set (concat cs)"
  by (auto simp: set_concat)

lemma distinct_concat_nth: "distinct (concat cs) \<Longrightarrow> i < length cs \<Longrightarrow> distinct (cs ! i)"
  by (auto simp: distinct_concat_iff)

lemma distinct_concat_disjoint: "distinct (concat cs) \<Longrightarrow> i < length cs \<Longrightarrow> j < length cs \<Longrightarrow> i \<noteq> j \<Longrightarrow>
    set (cs ! i) \<inter> set (cs ! j) = {}"
proof (induction cs arbitrary: i j)
  case (Cons c cs)
  have c: "set c \<inter> set (cs ! k) = {}" if "k < length cs" for k
    using Cons.prems(1) that nth_mem by fastforce
  show ?case
    using Cons c by (cases i; cases j) (auto simp: Int_commute)
qed simp

lemma link_front_ok:
  assumes ok: "buckets_ok ts tb h cs" and dist: "distinct (concat cs)"
    and a: "a \<notin> set (concat cs)" "h a = Some n" "e_prev n = None" "e_next n = None"
    and j: "j < ts" "bucket ts (e_hash_key n) = j"
  obtains tb' h' where "link_front tb h j a = Some (tb', h')"
    and "buckets_ok ts tb' h' (cs[j := a # cs ! j])" and "same_data h h'"
    and "\<And>x. x \<noteq> a \<Longrightarrow> x \<notin> set (concat cs) \<Longrightarrow> h' x = h x"
proof -
  note result = that
  note len = buckets_okD(1,2)[OF ok j(1)]
  have dj: "dlist h (tb ! j) (cs ! j)" by (rule buckets_okD(3)[OF ok j(1)])
  have aj: "a \<notin> set (cs ! j)" using a(1) j len nth_in_concat by metis
  have others: "set (cs ! j) \<inter> set (cs ! i) = {}" "a \<notin> set (cs ! i)" if "i < ts" "i \<noteq> j" for i
    using distinct_concat_disjoint[OF dist, of j i] that j len a(1) nth_in_concat by (metis, metis)
  have finish: ?thesis
    if l: "link_front tb h j a = Some (tb[j := Some a], h')"
      and new: "dlist h' (Some a) (a # cs ! j)" and sd: "same_data h h'"
      and fr: "\<And>x. x \<noteq> a \<Longrightarrow> x \<notin> set (cs ! j) \<Longrightarrow> h' x = h x" for h'
  proof (rule result)
    show "link_front tb h j a = Some (tb[j := Some a], h')" "same_data h h'" by (fact l, fact sd)
    have dom: "set (concat cs) \<subseteq> dom h" "a \<in> dom h" using buckets_dom[OF ok] a(2) by auto
    show "buckets_ok ts (tb[j := Some a]) h' (cs[j := a # cs ! j])"
      unfolding buckets_ok_def
    proof (intro conjI allI impI)
      fix i assume i: "i < ts"
      show "dlist h' (tb[j := Some a] ! i) (cs[j := a # cs ! j] ! i)"
      proof (cases "i = j")
        case False
        have "dlist h' (tb ! i) (cs ! i)"
          using buckets_okD(3)[OF ok i] by (rule dlist_frame) (rule fr; use others[OF i] False in blast)
        then show ?thesis using False by simp
      qed (use new len i in auto)
      show "\<forall>x \<in> set (cs[j := a # cs ! j] ! i). bucket ts (e_hash_key (the (h' x))) = i"
      proof
        fix x assume x: "x \<in> set (cs[j := a # cs ! j] ! i)"
        have "x \<in> dom h" using x dom i len nth_in_concat[of i cs x]
          by (cases "i = j") auto
        then show "bucket ts (e_hash_key (the (h' x))) = i"
          using same_data_hash[OF sd] x i j a(2) len buckets_okD(4)[OF ok i, of x]
          by (cases "i = j") auto
      qed
    qed (use len in auto)
    show "h' x = h x" if "x \<noteq> a" "x \<notin> set (concat cs)" for x
      using that fr j len nth_in_concat by metis
  qed
  show ?thesis
  proof (cases "cs ! j")
    case Nil
    then have "tb ! j = None" using dj by simp
    then have "link_front tb h j a = Some (tb[j := Some a], h)"
      using j len by (simp add: link_front_def slot_def)
    then show ?thesis
      by (rule finish) (use Nil a in \<open>auto simp: dlist_def\<close>)
  next
    case (Cons b bs)
    then obtain nb l where hb: "tb ! j = Some b" "h b = Some nb" "dseg h None (Some b) (b # bs) l None"
      using dj by (auto simp: dlist_def split: option.splits)
    have ab: "a \<noteq> b" "b \<notin> set bs"
      using aj Cons distinct_concat_nth[OF dist, of j] j len by auto
    let ?h1 = "h(b \<mapsto> nb\<lparr>e_prev := Some a\<rparr>)" and ?na = "n\<lparr>e_next := Some b\<rparr>"
    have l: "link_front tb h j a = Some (tb[j := Some a], ?h1(a \<mapsto> ?na))"
      using j len hb ab a(2) by (simp add: link_front_def slot_def)
    have "dseg ?h1 (Some a) (Some b) (b # bs) l None"
      by (rule dseg_reprev[OF hb(3) ab(2) hb(2)])
    then have "dseg (?h1(a \<mapsto> ?na)) (Some a) (Some b) (b # bs) l None"
      by (rule dseg_frame) (use aj Cons in auto)
    then have new: "dlist (?h1(a \<mapsto> ?na)) (Some a) (a # cs ! j)"
      using a(3) Cons by (auto simp: dlist_def)
    have "same_data h ?h1" by (rule same_data_upd[where n = nb]) (simp_all add: hb(2) datum_def)
    moreover have "same_data ?h1 (?h1(a \<mapsto> ?na))"
      by (rule same_data_upd[of _ _ n]) (use a(2) ab in \<open>auto simp: datum_def\<close>)
    ultimately have "same_data h (?h1(a \<mapsto> ?na))" by (rule same_data_trans)
    with l new show ?thesis by (rule finish) (use Cons in auto)
  qed
qed

subsection \<open>Rehashing\<close>

lemma rehash_chain_ok:
  assumes "slist h p as" and "distinct as" and "buckets_ok ts tb h cs" and "distinct (concat cs)"
    and "set as \<inter> set (concat cs) = {}" and "0 < ts"
  obtains tb' h' cs' where "rehash_chain ts tb h p = Some (tb', h')"
    and "buckets_ok ts tb' h' cs'" and "mset (concat cs') = mset as + mset (concat cs)"
    and "same_data h h'" and "\<And>x. x \<notin> set as \<Longrightarrow> x \<notin> set (concat cs) \<Longrightarrow> h' x = h x"
  using assms
proof (induction as arbitrary: p tb h cs thesis)
  case Nil
  show ?case by (rule Nil.prems(1)[of tb h cs]) (use Nil.prems in \<open>simp_all add: rehash_chain.simps\<close>)
next
  case (Cons a as)
  from Cons.prems(2) obtain n where n: "p = Some a" "h a = Some n" "slist h (e_next n) as"
    by (auto split: option.splits)
  let ?n0 = "n\<lparr>e_next := None, e_prev := None\<rparr>"
  let ?h0 = "h(a \<mapsto> ?n0)" and ?j = "bucket ts (e_hash_key n)"
  have a: "a \<notin> set as" "a \<notin> set (concat cs)" "set as \<inter> set (concat cs) = {}" "distinct as"
    using Cons.prems(3,6) by auto
  have sd0: "same_data h ?h0" by (rule same_data_upd[where n = n]) (simp_all add: n datum_def)
  have ok0: "buckets_ok ts tb ?h0 cs"
    unfolding buckets_ok_def
  proof (intro conjI allI impI ballI)
    fix i assume i: "i < ts"
    have nin: "x \<noteq> a" if "x \<in> set (cs ! i)" for x
      using that a(2) nth_in_concat[of i cs x] buckets_okD(2)[OF Cons.prems(4) i] i by metis
    show "dlist ?h0 (tb ! i) (cs ! i)"
      using buckets_okD(3)[OF Cons.prems(4) i] by (rule dlist_frame) (use nin in simp)
    show "bucket ts (e_hash_key (the (?h0 x))) = i" if "x \<in> set (cs ! i)" for x
      using buckets_okD(4)[OF Cons.prems(4) i that] nin[OF that] by simp
  qed (use Cons.prems(4) in \<open>auto simp: buckets_ok_def\<close>)
  have j: "?j < ts" using Cons.prems(7) by simp
  have "?h0 a = Some ?n0" "e_prev ?n0 = None" "e_next ?n0 = None" "bucket ts (e_hash_key ?n0) = ?j" by simp_all
  from link_front_ok[OF ok0 Cons.prems(5) a(2) this(1-3) j this(4)]
  obtain tb1 h1 where l: "link_front tb ?h0 ?j a = Some (tb1, h1)"
    and ok1: "buckets_ok ts tb1 h1 (cs[?j := a # cs ! ?j])" and sd1: "same_data ?h0 h1"
    and fr1: "\<And>x. x \<noteq> a \<Longrightarrow> x \<notin> set (concat cs) \<Longrightarrow> h1 x = ?h0 x" by metis
  let ?cs = "cs[?j := a # cs ! ?j]"
  have jc: "?j < length cs" using buckets_okD(2)[OF Cons.prems(4) j] j by simp
  have ms: "mset (concat ?cs) = {#a#} + mset (concat cs)"
    using concat_update[OF jc, of "a # cs ! ?j"] by simp
  have "distinct (concat ?cs) \<longleftrightarrow> distinct (a # concat cs)"
    by (rule mset_eq_distinct) (simp add: ms)
  then have d1: "distinct (concat ?cs)" using a(2) Cons.prems(5) by simp
  have "set_mset (mset (concat ?cs)) = insert a (set (concat cs))" by (simp only: ms) simp
  then have set1: "set (concat ?cs) = insert a (set (concat cs))" by (simp only: set_mset_mset)
  have sl1: "slist h1 (e_next n) as"
  proof (rule slist_frame[OF n(3)])
    fix x assume "x \<in> set as"
    then have "x \<noteq> a" "x \<notin> set (concat cs)" using a by auto
    then show "h1 x = h x" using fr1[of x] by simp
  qed
  obtain tb' h' cs' where r: "rehash_chain ts tb1 h1 (e_next n) = Some (tb', h')"
    "buckets_ok ts tb' h' cs'" "mset (concat cs') = mset as + mset (concat ?cs)" "same_data h1 h'"
    "\<And>x. x \<notin> set as \<Longrightarrow> x \<notin> set (concat ?cs) \<Longrightarrow> h' x = h1 x"
    using Cons.IH[OF _ sl1 a(4) ok1 d1 _ Cons.prems(7)] set1 a by (metis Int_insert_right_if0)
  show ?case
  proof (rule Cons.prems(1))
    show "rehash_chain ts tb h p = Some (tb', h')"
      by (subst rehash_chain.simps) (simp add: n l r(1))
    show "buckets_ok ts tb' h' cs'" by (rule r(2))
    show "mset (concat cs') = mset (a # as) + mset (concat cs)" by (simp add: r(3) ms)
    show "same_data h h'" using sd0 sd1 r(4) same_data_trans by blast
    show "h' x = h x" if "x \<notin> set (a # as)" "x \<notin> set (concat cs)" for x
    proof -
      have "x \<notin> set (concat ?cs)" unfolding set1 using that by simp
      then show ?thesis using that r(5)[of x] fr1[of x] by simp
    qed
  qed
qed

lemma rehash_buckets_ok:
  assumes "list_all2 (slist h) ps olds" and "distinct (concat olds)" and "buckets_ok ts tb h cs"
    and "distinct (concat cs)" and "set (concat olds) \<inter> set (concat cs) = {}" and "0 < ts"
  obtains tb' h' cs' where "rehash_buckets ts tb h ps = Some (tb', h')"
    and "buckets_ok ts tb' h' cs'" and "mset (concat cs') = mset (concat olds) + mset (concat cs)"
    and "same_data h h'"
  using assms
proof (induction ps arbitrary: tb h cs olds thesis)
  case Nil
  show ?case by (rule Nil.prems(1)[of tb h cs]) (use Nil.prems in auto)
next
  case (Cons p ps)
  from Cons.prems(2) obtain as rest where olds: "olds = as # rest" "slist h p as" "list_all2 (slist h) ps rest"
    by (auto simp: list_all2_Cons1)
  have d: "distinct as" "set as \<inter> set (concat cs) = {}" "set as \<inter> set (concat rest) = {}"
    "set (concat rest) \<inter> set (concat cs) = {}" "distinct (concat rest)"
    using Cons.prems(3,6) by (auto simp: olds)
  obtain tb1 h1 cs1 where r1: "rehash_chain ts tb h p = Some (tb1, h1)" "buckets_ok ts tb1 h1 cs1"
    "mset (concat cs1) = mset as + mset (concat cs)" "same_data h h1"
    "\<And>x. x \<notin> set as \<Longrightarrow> x \<notin> set (concat cs) \<Longrightarrow> h1 x = h x"
    using rehash_chain_ok[OF olds(2) d(1) Cons.prems(4,5) d(2) Cons.prems(7)] by blast
  have "distinct (concat cs1) \<longleftrightarrow> distinct (as @ concat cs)"
    by (rule mset_eq_distinct) (simp add: r1(3))
  then have d1: "distinct (concat cs1)" using d(1,2) Cons.prems(5) by simp
  have "set_mset (mset (concat cs1)) = set as \<union> set (concat cs)" by (simp only: r1(3)) simp
  then have set1: "set (concat cs1) = set as \<union> set (concat cs)" by (simp only: set_mset_mset)
  have "list_all2 (slist h1) ps rest"
  proof (rule list.rel_mono_strong[OF olds(3)])
    fix q bs assume bs: "bs \<in> set rest" "slist h q bs"
    have "set bs \<subseteq> set (concat rest)" using bs(1) by auto
    then show "slist h1 q bs" by (intro slist_frame[OF bs(2)] r1(5)) (use d in blast)+
  qed
  then obtain tb' h' cs' where r2: "rehash_buckets ts tb1 h1 ps = Some (tb', h')"
    "buckets_ok ts tb' h' cs'" "mset (concat cs') = mset (concat rest) + mset (concat cs1)" "same_data h1 h'"
    using Cons.IH[OF _ _ d(5) r1(2) d1 _ Cons.prems(7)] set1 d(3,4) by blast
  show ?case
    by (rule Cons.prems(1)[of tb' h' cs'])
      (use r1 r2 olds same_data_trans in \<open>auto simp: ac_simps\<close>)
qed

subsection \<open>The table invariant and the map a table stands for\<close>

definition ht_ok :: "('k, 'v) hashtable \<Rightarrow> nat list list \<Rightarrow> bool" where
  "ht_ok t cs \<longleftrightarrow> 0 < tab_size t \<and> ht_equal t = (=) \<and>
     buckets_ok (tab_size t) (tab t) (entries t) cs \<and> distinct (concat cs) \<and>
     dom (entries t) = set (concat cs) \<and> nelem t = length (concat cs) \<and>
     (\<forall>a \<in> dom (entries t). a < brk t) \<and>
     (\<forall>a n. entries t a = Some n \<longrightarrow> e_hash_key n = ht_hash t (e_key n)) \<and>
     (\<forall>a b n m. entries t a = Some n \<and> entries t b = Some m \<and> e_key n = e_key m \<longrightarrow> a = b)"

definition ht_inv :: "('k, 'v) hashtable \<Rightarrow> bool" where
  "ht_inv t \<longleftrightarrow> (\<exists>cs. ht_ok t cs)"

text \<open>The abstract map: the value of the live entry with the key, whatever the links are.\<close>

definition ht_map :: "('k, 'v) hashtable \<Rightarrow> 'k \<Rightarrow> 'v option" where
  "ht_map t k = map_option (\<lambda>a. e_value (the (entries t a)))
     (find (\<lambda>a. case entries t a of None \<Rightarrow> False | Some n \<Rightarrow> e_key n = k) [0..<brk t])"

lemma ht_okD:
  assumes "ht_ok t cs"
  shows "0 < tab_size t" "ht_equal t = (=)" "buckets_ok (tab_size t) (tab t) (entries t) cs"
    "distinct (concat cs)" "dom (entries t) = set (concat cs)" "nelem t = length (concat cs)"
    "entries t a = Some n \<Longrightarrow> a < brk t" "entries t a = Some n \<Longrightarrow> e_hash_key n = ht_hash t (e_key n)"
    "entries t a = Some n \<Longrightarrow> entries t b = Some m \<Longrightarrow> e_key n = e_key m \<Longrightarrow> a = b"
  using assms unfolding ht_ok_def by blast+

lemma ht_map_Some:
  assumes ok: "ht_ok t cs"
  shows "ht_map t k = Some v \<longleftrightarrow> (\<exists>a n. entries t a = Some n \<and> e_key n = k \<and> e_value n = v)"
proof -
  let ?P = "\<lambda>a. case entries t a of None \<Rightarrow> False | Some n \<Rightarrow> e_key n = k"
  show ?thesis
  proof
    assume "ht_map t k = Some v"
    then obtain a where a: "find ?P [0..<brk t] = Some a" "e_value (the (entries t a)) = v"
      by (auto simp: ht_map_def)
    then have "?P a" by (metis find_Some_iff)
    then show "\<exists>a n. entries t a = Some n \<and> e_key n = k \<and> e_value n = v"
      using a(2) by (auto split: option.splits)
  next
    assume "\<exists>a n. entries t a = Some n \<and> e_key n = k \<and> e_value n = v"
    then obtain a n where a: "entries t a = Some n" "e_key n = k" "e_value n = v" by blast
    then have "find ?P [0..<brk t] \<noteq> None" using ht_okD(7)[OF ok a(1)]
      by (auto simp: find_None_iff)
    then obtain b where b: "find ?P [0..<brk t] = Some b" by auto
    then have "?P b" by (metis find_Some_iff)
    then have "b = a" using a ht_okD(9)[OF ok] by (auto split: option.splits)
    then show "ht_map t k = Some v" using b a by (simp add: ht_map_def)
  qed
qed

lemma ht_map_None:
  assumes "ht_ok t cs"
  shows "ht_map t k = None \<longleftrightarrow> (\<forall>a n. entries t a = Some n \<longrightarrow> e_key n \<noteq> k)"
  using ht_map_Some[OF assms, of k] by (metis not_Some_eq)

text \<open>Two maps agree as soon as the same key/value pairs are live.\<close>

lemma ht_map_eqI:
  assumes "ht_ok t cs" and "\<And>k v. (\<exists>a n. entries t a = Some n \<and> e_key n = k \<and> e_value n = v) \<longleftrightarrow> m k = Some v"
  shows "ht_map t = m"
proof
  fix k show "ht_map t k = m k"
    using assms ht_map_Some[OF assms(1)] by (metis not_Some_eq)
qed

lemma zc_hashtable_get_entry_ok:
  assumes ok: "ht_ok t cs"
  shows "\<exists>r. zc_hashtable_get_entry t k = Some r \<and>
    (case r of None \<Rightarrow> (\<forall>a n. entries t a = Some n \<longrightarrow> e_key n \<noteq> k)
     | Some a \<Rightarrow> (\<exists>n. entries t a = Some n \<and> e_key n = k))"
proof -
  let ?i = "bucket (tab_size t) (ht_hash t k)"
  let ?P = "\<lambda>a. ht_equal t k (e_key (the (entries t a)))"
  have i: "?i < tab_size t" using ht_okD(1)[OF ok] by simp
  note b = buckets_okD[OF ht_okD(3)[OF ok] i]
  have sl: "slist (entries t) (tab t ! ?i) (cs ! ?i)" using b(3) by (rule dlist_slist)
  have g: "zc_hashtable_get_entry t k = Some (find ?P (cs ! ?i))"
    using ht_okD(1)[OF ok] i b(1) by (simp add: zc_hashtable_get_entry_def slot_def chain_find_slist[OF sl])
  have in_dom: "x \<in> dom (entries t)" if "x \<in> set (cs ! ?i)" for x
    using slist_dom[OF sl] that by blast
  show ?thesis
  proof (cases "find ?P (cs ! ?i)")
    case (Some a)
    then have "a \<in> set (cs ! ?i)" "?P a" by (auto simp: find_Some_iff)
    then show ?thesis using g Some in_dom ht_okD(2)[OF ok] by fastforce
  next
    case None
    have "e_key n \<noteq> k" if e: "entries t a = Some n" for a n
    proof
      assume "e_key n = k"
      then have hk: "e_hash_key n = ht_hash t k" using ht_okD(8)[OF ok e] by simp
      have "a \<in> set (concat cs)" using ht_okD(5)[OF ok] e by blast
      then obtain j where j: "j < length cs" "a \<in> set (cs ! j)" by (auto simp: set_conv_nth[of cs])
      then have "bucket (tab_size t) (e_hash_key (the (entries t a))) = j"
        using buckets_okD(4)[OF ht_okD(3)[OF ok], of j a] b(2) by simp
      then have "a \<in> set (cs ! ?i)" using j e hk by simp
      then show False using None e \<open>e_key n = k\<close> ht_okD(2)[OF ok] by (auto simp: find_None_iff)
    qed
    then show ?thesis using g None by auto
  qed
qed

lemma zc_hashtable_get_eq:
  "zc_hashtable_get t k = do { q \<leftarrow> zc_hashtable_get_entry t k;
     case q of None \<Rightarrow> Some None | Some a \<Rightarrow> do { n \<leftarrow> entries t a; Some (Some (e_value n)) } }"
  by (simp add: zc_hashtable_get_def zc_hashtable_get_entry_def)

lemma zc_hashtable_get_ok:
  assumes "ht_inv t"
  shows "zc_hashtable_get t k = Some (ht_map t k)"
proof -
  from assms obtain cs where ok: "ht_ok t cs" by (auto simp: ht_inv_def)
  obtain r where r: "zc_hashtable_get_entry t k = Some r"
    "case r of None \<Rightarrow> (\<forall>a n. entries t a = Some n \<longrightarrow> e_key n \<noteq> k)
     | Some a \<Rightarrow> (\<exists>n. entries t a = Some n \<and> e_key n = k)"
    using zc_hashtable_get_entry_ok[OF ok] by blast
  show ?thesis
  proof (cases r)
    case None
    then have "ht_map t k = None" using r(2) ht_map_None[OF ok, of k] by simp
    then show ?thesis using r(1) None by (simp add: zc_hashtable_get_eq)
  next
    case (Some a)
    with r obtain n where "entries t a = Some n" "e_key n = k" by auto
    then show ?thesis using r(1) Some ht_map_Some[OF ok, of k "e_value n"]
      by (auto simp: zc_hashtable_get_eq)
  qed
qed

lemma zc_hashtable_new_ok:
  assumes "zc_hashtable_new n hash equal kd vd orc = (Some t, orc')" and "0 < n" and "equal = (=)"
  shows "ht_inv t" and "ht_map t = Map.empty" and "ht_value_del t = vd" and "ht_key_del t = kd"
    and "nelem t = 0" and "tab_size t = n" and "ht_hash t = hash"
proof -
  have t: "t = \<lparr>nelem = 0, tab = replicate n None, tab_size = n, ht_hash = hash, ht_equal = equal,
      ht_key_del = kd, ht_value_del = vd, entries = Map.empty, brk = 0\<rparr>"
    using assms(1) by (auto simp: zc_hashtable_new_def Let_def split: prod.splits if_splits)
  have "ht_ok t (replicate n [])"
    using assms(2,3) buckets_ok_empty[of n Map.empty] by (simp add: ht_ok_def t)
  then show "ht_inv t" by (auto simp: ht_inv_def)
  show "ht_map t = Map.empty" by (rule ext) (simp add: ht_map_def t)
qed (use assms(1) in \<open>auto simp: zc_hashtable_new_def Let_def split: prod.splits if_splits\<close>)

lemma dseg_links:
  "dseg h pv p as l q \<Longrightarrow> (\<And>a. a \<in> set as \<Longrightarrow>
     map_option (\<lambda>n. (e_prev n, e_next n)) (h' a) = map_option (\<lambda>n. (e_prev n, e_next n)) (h a)) \<Longrightarrow>
   dseg h' pv p as l q"
  by (induction as arbitrary: pv p) (fastforce split: option.splits)+

lemma buckets_ok_links:
  assumes "buckets_ok ts tb h cs"
    and "\<And>a. map_option (\<lambda>n. (e_prev n, e_next n, e_hash_key n)) (h' a) =
             map_option (\<lambda>n. (e_prev n, e_next n, e_hash_key n)) (h a)"
  shows "buckets_ok ts tb h' cs"
  unfolding buckets_ok_def
proof (intro conjI allI impI ballI)
  have l: "map_option (\<lambda>n. (e_prev n, e_next n)) (h' a) = map_option (\<lambda>n. (e_prev n, e_next n)) (h a)" for a
    using arg_cong[OF assms(2)[of a], of "map_option (\<lambda>(x, y, z). (x, y))"]
    by (simp add: option.map_comp comp_def)
  fix i assume i: "i < ts"
  show "dlist h' (tb ! i) (cs ! i)"
  proof -
    obtain m where "dseg h None (tb ! i) (cs ! i) m None"
      using buckets_okD(3)[OF assms(1) i] by (auto simp: dlist_def)
    then have "dseg h' None (tb ! i) (cs ! i) m None" by (rule dseg_links) (rule l)
    then show ?thesis by (auto simp: dlist_def)
  qed
  fix a assume a: "a \<in> set (cs ! i)"
  then have "a \<in> dom h" using slist_dom[OF dlist_slist[OF buckets_okD(3)[OF assms(1) i]]] by blast
  then have "e_hash_key (the (h' a)) = e_hash_key (the (h a))" using assms(2)[of a] by auto
  then show "bucket ts (e_hash_key (the (h' a))) = i" using buckets_okD(4)[OF assms(1) i a] by simp
qed (use assms(1) in \<open>auto simp: buckets_ok_def\<close>)

lemma zc_hashtable_rehash_ok:
  assumes ok: "ht_ok t cs"
  obtains rc t' orc' where "zc_hashtable_rehash t orc = Some (rc, t', orc')"
    and "rc \<noteq> 0 \<longrightarrow> rc = -1 \<and> t' = t"
    and "\<exists>cs'. ht_ok t' cs'" and "same_data (entries t) (entries t')"
    and "nelem t' = nelem t" and "brk t' = brk t" and "ht_hash t' = ht_hash t"
    and "ht_key_del t' = ht_key_del t" and "ht_value_del t' = ht_value_del t"
    and "tab_size t' = (if rc = 0 then 2 * tab_size t else tab_size t)"
proof (cases "fst (ask orc)")
  case False
  then have "zc_hashtable_rehash t orc = Some (-1, t, snd (ask orc))"
    by (cases "ask orc") (simp add: zc_hashtable_rehash_def)
  then show ?thesis by (rule that) (use ok in auto)
next
  case True
  let ?ts = "2 * tab_size t"
  have ts: "0 < ?ts" using ht_okD(1)[OF ok] by simp
  have len: "length (tab t) = length cs" using ht_okD(3)[OF ok] by (simp add: buckets_ok_def)
  have sl: "list_all2 (slist (entries t)) (tab t) cs"
    using ht_okD(3)[OF ok] by (auto simp: buckets_ok_def list_all2_conv_all_nth intro: dlist_slist)
  have empty: "distinct (concat (replicate ?ts []))" "set (concat cs) \<inter> set (concat (replicate ?ts [])) = {}"
    by (simp_all add: concat_replicate_trivial)
  obtain tb h cs' where r: "rehash_buckets ?ts (replicate ?ts None) (entries t) (tab t) = Some (tb, h)"
    "buckets_ok ?ts tb h cs'" "mset (concat cs') = mset (concat cs) + mset (concat (replicate ?ts []))"
    "same_data (entries t) h"
    using rehash_buckets_ok[OF sl ht_okD(4)[OF ok] buckets_ok_empty empty ts] by blast
  have ms: "mset (concat cs') = mset (concat cs)" using r(3) by (simp add: concat_replicate_trivial)
  have st: "set (concat cs') = set (concat cs)" using ms by (metis set_mset_mset)
  let ?t = "t\<lparr>tab := tb, tab_size := ?ts, entries := h\<rparr>"
  have sd': "same_data h (entries t)" by (rule same_data_sym[OF r(4)])
  have "ht_ok ?t cs'"
    unfolding ht_ok_def
  proof (intro conjI allI impI ballI)
    show "distinct (concat cs')" using mset_eq_distinct[OF ms] ht_okD(4)[OF ok] by simp
    show "nelem ?t = length (concat cs')" using ht_okD(6)[OF ok] mset_eq_length[OF ms] by simp
    show "dom (entries ?t) = set (concat cs')"
      using ht_okD(5)[OF ok] st same_data_dom[OF r(4)] by simp
    show "a < brk ?t" if "a \<in> dom (entries ?t)" for a
      using that ht_okD(7)[OF ok] same_data_dom[OF r(4)] by auto
    show "e_hash_key n = ht_hash ?t (e_key n)" if "entries ?t a = Some n" for a n
      using same_data_Some[OF sd', of a n] that ht_okD(8)[OF ok] by (auto simp: datum_def)
    show "a = b" if "entries ?t a = Some n \<and> entries ?t b = Some m \<and> e_key n = e_key m" for a b n m
      using same_data_Some[OF sd', of a n] same_data_Some[OF sd', of b m] that ht_okD(9)[OF ok]
      by (fastforce simp: datum_def)
  qed (use ts r(2) ht_okD(2)[OF ok] in simp_all)
  then have "\<exists>cs'. ht_ok ?t cs'" ..
  have "zc_hashtable_rehash t orc = Some (0, ?t, snd (ask orc))"
    using True r(1) by (cases "ask orc") (simp add: zc_hashtable_rehash_def Let_def)
  then show ?thesis by (rule that) (use \<open>\<exists>cs'. ht_ok ?t cs'\<close> r(4) in simp_all)
qed

lemma mset_concat_update_front: "j < length cs \<Longrightarrow>
    mset (concat (cs[j := a # cs ! j])) = add_mset a (mset (concat cs))"
  using concat_update[of j cs "a # cs ! j"] by simp

lemma same_data_pairs_imp:
  assumes "same_data h h'" and "\<exists>a n. h a = Some n \<and> e_key n = k \<and> e_value n = v"
  shows "\<exists>a n. h' a = Some n \<and> e_key n = k \<and> e_value n = v"
proof -
  from assms(2) obtain a n where n: "h a = Some n" "e_key n = k" "e_value n = v" by blast
  from same_data_Some[OF assms(1) n(1)] obtain n' where "h' a = Some n'" "datum n' = datum n" by blast
  then have "h' a = Some n' \<and> e_key n' = k \<and> e_value n' = v" using n by (simp add: datum_def)
  then show ?thesis by blast
qed

lemma same_data_pairs:
  assumes "same_data h h'"
  shows "(\<exists>a n. h' a = Some n \<and> e_key n = k \<and> e_value n = v) \<longleftrightarrow>
    (\<exists>a n. h a = Some n \<and> e_key n = k \<and> e_value n = v)"
  by (rule iffI) (erule same_data_pairs_imp[OF same_data_sym[OF assms]] same_data_pairs_imp[OF assms])+

text \<open>Insertion of a key that is not there: a fresh node in front of its bucket.\<close>

lemma ht_insert_ok:
  fixes t :: "('k, 'v) hashtable" and k :: 'k and v :: 'v
  assumes ok: "ht_ok t cs" and fresh: "\<forall>a n. entries t a = Some n \<longrightarrow> e_key n \<noteq> k"
  defines "n \<equiv> \<lparr>e_hash_key = ht_hash t k, e_key = k, e_value = v, e_prev = None, e_next = None\<rparr>"
  obtains tb h where
    "link_front (tab t) ((entries t)(brk t \<mapsto> n)) (bucket (tab_size t) (e_hash_key n)) (brk t) = Some (tb, h)"
    and "ht_inv (t\<lparr>tab := tb, entries := h, nelem := nelem t + 1, brk := brk t + 1\<rparr>)"
    and "ht_map (t\<lparr>tab := tb, entries := h, nelem := nelem t + 1, brk := brk t + 1\<rparr>) = (ht_map t)(k \<mapsto> v)"
proof -
  let ?a = "brk t" and ?j = "bucket (tab_size t) (e_hash_key n)"
  let ?h0 = "(entries t)(?a \<mapsto> n)"
  have a: "?a \<notin> dom (entries t)" using ht_okD(7)[OF ok] by fastforce
  then have ac: "?a \<notin> set (concat cs)" using ht_okD(5)[OF ok] by simp
  have j: "?j < tab_size t" using ht_okD(1)[OF ok] by simp
  have ok0: "buckets_ok (tab_size t) (tab t) ?h0 cs"
    unfolding buckets_ok_def
  proof (intro conjI allI impI ballI)
    fix i assume i: "i < tab_size t"
    note b = buckets_okD[OF ht_okD(3)[OF ok] i]
    have nin: "x \<noteq> ?a" if "x \<in> set (cs ! i)" for x
      using that ac nth_in_concat[of i cs x] b(2) i by metis
    show "dlist ?h0 (tab t ! i) (cs ! i)" using b(3) by (rule dlist_frame) (use nin in simp)
    show "bucket (tab_size t) (e_hash_key (the (?h0 x))) = i" if "x \<in> set (cs ! i)" for x
      using b(4)[OF that] nin[OF that] by simp
  qed (use ht_okD(3)[OF ok] in \<open>auto simp: buckets_ok_def\<close>)
  have "?h0 ?a = Some n" "e_prev n = None" "e_next n = None" by (simp_all add: n_def)
  from link_front_ok[OF ok0 ht_okD(4)[OF ok] ac this j refl]
  obtain tb h where l: "link_front (tab t) ?h0 ?j ?a = Some (tb, h)"
    and ok1: "buckets_ok (tab_size t) tb h (cs[?j := ?a # cs ! ?j])" and sd: "same_data ?h0 h" by metis
  let ?t = "t\<lparr>tab := tb, entries := h, nelem := nelem t + 1, brk := brk t + 1\<rparr>"
  let ?cs = "cs[?j := ?a # cs ! ?j]"
  have jc: "?j < length cs" using j buckets_okD(2)[OF ht_okD(3)[OF ok] j] by simp
  note ms = mset_concat_update_front[OF jc, of ?a]
  have st: "set (concat ?cs) = insert ?a (set (concat cs))"
    using arg_cong[OF ms, of set_mset] by (simp only: set_mset_mset set_mset_add_mset_insert)
  have bwd: "\<exists>m'. ?h0 b = Some m' \<and> datum m' = datum m" if "h b = Some m" for b m
    using same_data_Some[OF same_data_sym[OF sd] that] .
  have old: "(b = ?a \<and> datum m = datum n) \<or> (\<exists>m'. entries t b = Some m' \<and> datum m' = datum m)"
    if "h b = Some m" for b m
    using bwd[OF that] by (auto split: if_splits)
  have ok': "ht_ok ?t ?cs"
    unfolding ht_ok_def
  proof (intro conjI allI impI ballI)
    show "distinct (concat ?cs)"
      using mset_eq_distinct[of "concat ?cs" "?a # concat cs"] ms ac ht_okD(4)[OF ok] by simp
    show "dom (entries ?t) = set (concat ?cs)"
      using st same_data_dom[OF sd] ht_okD(5)[OF ok] by simp
    show "nelem ?t = length (concat ?cs)"
      using arg_cong[OF ms, of size] ht_okD(6)[OF ok] by simp
    show "b < brk ?t" if "b \<in> dom (entries ?t)" for b
    proof -
      obtain m where "entries ?t b = Some m" using \<open>b \<in> dom (entries ?t)\<close> by blast
      then show ?thesis using old[of b m] ht_okD(7)[OF ok, of b] by fastforce
    qed
    show "e_hash_key m = ht_hash ?t (e_key m)" if "entries ?t b = Some m" for b m
      using old[of b m] that ht_okD(8)[OF ok, of b] by (auto simp: datum_def n_def)
    show "b = c" if "entries ?t b = Some m \<and> entries ?t c = Some m2 \<and> e_key m = e_key m2" for b c m m2
    proof -
      have "b = ?a \<and> e_key m = k \<or> (\<exists>x. entries t b = Some x \<and> e_key x = e_key m)"
        using old[of b m] that by (auto simp: datum_def n_def)
      moreover have "c = ?a \<and> e_key m2 = k \<or> (\<exists>x. entries t c = Some x \<and> e_key x = e_key m2)"
        using old[of c m2] that by (auto simp: datum_def n_def)
      ultimately show ?thesis using that fresh ht_okD(9)[OF ok] by metis
    qed
  qed (use ht_okD(1,2)[OF ok] ok1 in simp_all)
  have "ht_map ?t = (ht_map t)(k \<mapsto> v)"
  proof (rule ht_map_eqI[OF ok'])
    fix k' v'
    have "(\<exists>b m. entries ?t b = Some m \<and> e_key m = k' \<and> e_value m = v') \<longleftrightarrow>
      (\<exists>b m. ?h0 b = Some m \<and> e_key m = k' \<and> e_value m = v')"
      using same_data_pairs[OF sd] by simp
    also have "\<dots> \<longleftrightarrow> (k' = k \<and> v' = v) \<or> (\<exists>b m. entries t b = Some m \<and> e_key m = k' \<and> e_value m = v')"
    proof -
      have "?h0 b = Some m \<longleftrightarrow> b = ?a \<and> m = n \<or> entries t b = Some m" for b m
        using a by (cases "b = ?a") auto
      then have "(\<exists>b m. ?h0 b = Some m \<and> e_key m = k' \<and> e_value m = v') \<longleftrightarrow>
        (e_key n = k' \<and> e_value n = v') \<or> (\<exists>b m. entries t b = Some m \<and> e_key m = k' \<and> e_value m = v')"
        by metis
      then show ?thesis by (simp only: n_def entry.simps) metis
    qed
    also have "\<dots> \<longleftrightarrow> ((ht_map t)(k \<mapsto> v)) k' = Some v'"
      using ht_map_Some[OF ok, of k' v'] fresh by auto
    finally show "(\<exists>b m. entries ?t b = Some m \<and> e_key m = k' \<and> e_value m = v') \<longleftrightarrow>
      ((ht_map t)(k \<mapsto> v)) k' = Some v'" .
  qed
  with ok' l show ?thesis using that by (auto simp: ht_inv_def)
qed

text \<open>Replacement of the value of a key that is there: the node keeps its links.\<close>

lemma ht_replace_ok:
  fixes t :: "('k, 'v) hashtable" and k :: 'k and v :: 'v
  assumes ok: "ht_ok t cs" and a: "entries t a = Some n" "e_key n = k"
  defines "t' \<equiv> t\<lparr>entries := (entries t)(a \<mapsto> n\<lparr>e_key := k, e_value := v\<rparr>)\<rparr>"
  shows "ht_ok t' cs" and "ht_map t' = (ht_map t)(k \<mapsto> v)"
proof -
  let ?n = "n\<lparr>e_key := k, e_value := v\<rparr>"
  have key: "\<exists>m'. entries t b = Some m' \<and> e_key m' = e_key m \<and> e_hash_key m' = e_hash_key m"
    if "entries t' b = Some m" for b m
    using that a by (cases "b = a") (auto simp: t'_def)
  show ok': "ht_ok t' cs"
    unfolding ht_ok_def
  proof (intro conjI allI impI ballI)
    have "buckets_ok (tab_size t) (tab t) (entries t') cs"
      by (rule buckets_ok_links[OF ht_okD(3)[OF ok]]) (simp add: t'_def a)
    then show "buckets_ok (tab_size t') (tab t') (entries t') cs" by (simp add: t'_def)
    show "dom (entries t') = set (concat cs)" using ht_okD(5)[OF ok] a by (auto simp: t'_def)
    show "b < brk t'" if "b \<in> dom (entries t')" for b
      using that ht_okD(7)[OF ok, of b] a by (auto simp: t'_def split: if_splits)
    show "e_hash_key m = ht_hash t' (e_key m)" if "entries t' b = Some m" for b m
      using key[OF that] ht_okD(8)[OF ok, of b] by (auto simp: t'_def)
    show "b = c" if "entries t' b = Some m \<and> entries t' c = Some m2 \<and> e_key m = e_key m2" for b c m m2
      using key[of b m] key[of c m2] that ht_okD(9)[OF ok] by metis
  qed (use ht_okD[OF ok] in \<open>simp_all add: t'_def\<close>)
  show "ht_map t' = (ht_map t)(k \<mapsto> v)"
  proof (rule ht_map_eqI[OF ok'])
    fix k' v'
    have only: "e_key m = k \<Longrightarrow> entries t b = Some m \<Longrightarrow> b = a" for b m
      using ht_okD(9)[OF ok] a by metis
    show "(\<exists>b m. entries t' b = Some m \<and> e_key m = k' \<and> e_value m = v') \<longleftrightarrow>
      ((ht_map t)(k \<mapsto> v)) k' = Some v'"
    proof (cases "k' = k")
      case True
      have "entries t' b = Some m \<and> e_key m = k \<longleftrightarrow> b = a \<and> m = ?n" for b m
        using only[of m b] by (cases "b = a") (auto simp: t'_def)
      then have "(\<exists>b m. entries t' b = Some m \<and> e_key m = k \<and> e_value m = v') \<longleftrightarrow> e_value ?n = v'"
        by metis
      then show ?thesis using True by auto
    next
      case False
      then have "(\<exists>b m. entries t' b = Some m \<and> e_key m = k' \<and> e_value m = v') \<longleftrightarrow>
        (\<exists>b m. entries t b = Some m \<and> e_key m = k' \<and> e_value m = v')"
      proof -
        have "entries t' b = Some m \<and> e_key m = k' \<longleftrightarrow> entries t b = Some m \<and> e_key m = k'" for b m
          using a False by (cases "b = a") (auto simp: t'_def)
        then show ?thesis by metis
      qed
      then show ?thesis using False ht_map_Some[OF ok, of k' v'] by simp
    qed
  qed
qed

text \<open>The load the growth policy keeps: \<open>nelem \<le> 1.3 * tab_size + 1\<close>.\<close>

definition ht_load :: "('k, 'v) hashtable \<Rightarrow> bool" where
  "ht_load t \<longleftrightarrow> 10 * nelem t \<le> 13 * tab_size t + 10"

lemma zc_hashtable_put_ok:
  assumes inv: "ht_inv t"
  obtains rc t' kf vf orc' where "zc_hashtable_put t k v orc = Some (rc, t', (kf, vf), orc')"
    and "ht_inv t'" and "rc = 0 \<longrightarrow> ht_map t' = (ht_map t)(k \<mapsto> v)"
    and "rc \<noteq> 0 \<longrightarrow> rc = -1 \<and> ht_map t' = ht_map t \<and> vf = [] \<and> kf = []"
    and "rc = 0 \<longrightarrow> vf = (case ht_map t k of Some w \<Rightarrow> if ht_value_del t then [w] else [] | None \<Rightarrow> [])"
    and "ht_value_del t' = ht_value_del t" and "ht_hash t' = ht_hash t"
    and "ht_load t \<longrightarrow> ht_load t'"
proof -
  note result = that
  obtain cs where ok: "ht_ok t cs" using inv by (auto simp: ht_inv_def)
  obtain p where p: "zc_hashtable_get_entry t k = Some p"
    "case p of None \<Rightarrow> (\<forall>a n. entries t a = Some n \<longrightarrow> e_key n \<noteq> k)
     | Some a \<Rightarrow> (\<exists>n. entries t a = Some n \<and> e_key n = k)"
    using zc_hashtable_get_entry_ok[OF ok] by blast
  show ?thesis
  proof (cases p)
    case (Some a)
    with p obtain n where n: "entries t a = Some n" "e_key n = k" by auto
    let ?t = "t\<lparr>entries := (entries t)(a \<mapsto> n\<lparr>e_key := k, e_value := v\<rparr>)\<rparr>"
    have m: "ht_map t k = Some (e_value n)" using n ht_map_Some[OF ok] by auto
    have "zc_hashtable_put t k v orc = Some (0, ?t,
        (if ht_key_del t then [e_key n] else [], if ht_value_del t then [e_value n] else []), orc)"
      using p(1) Some n(1) by (simp add: zc_hashtable_put_def)
    then show ?thesis
      by (rule result) (use ht_replace_ok[OF ok n, of v] m in \<open>auto simp: ht_inv_def ht_load_def\<close>)
  next
    case None
    have fresh: "e_key n \<noteq> k" if "entries t a = Some n" for a n using p(2) None that by auto
    have m: "ht_map t k = None" using ht_map_None[OF ok] fresh by blast
    obtain rc t1 orc1 where r: "(if over_full t then zc_hashtable_rehash t orc else Some (0, t, orc)) = Some (rc, t1, orc1)"
      "rc \<noteq> 0 \<longrightarrow> rc = -1 \<and> t1 = t" "\<exists>cs'. ht_ok t1 cs'" "same_data (entries t) (entries t1)"
      "nelem t1 = nelem t" "ht_hash t1 = ht_hash t" "ht_value_del t1 = ht_value_del t"
      "ht_load t \<longrightarrow> ht_load t1 \<and> (rc = 0 \<longrightarrow> 10 * nelem t1 \<le> 13 * tab_size t1)"
    proof (cases "over_full t")
      case True
      obtain rc t1 orc1 where "zc_hashtable_rehash t orc = Some (rc, t1, orc1)"
        "rc \<noteq> 0 \<longrightarrow> rc = -1 \<and> t1 = t" "\<exists>cs'. ht_ok t1 cs'" "same_data (entries t) (entries t1)"
        "nelem t1 = nelem t" "ht_hash t1 = ht_hash t" "ht_value_del t1 = ht_value_del t"
        "tab_size t1 = (if rc = 0 then 2 * tab_size t else tab_size t)"
        by (rule zc_hashtable_rehash_ok[OF ok, of orc], rule that)
      then show ?thesis
        by (intro that[of rc t1 orc1]) (use True ht_okD(1)[OF ok] in \<open>auto simp: ht_load_def\<close>)
    next
      case False
      then show ?thesis by (intro that[of 0 t orc]) (use ok in \<open>auto simp: over_full_def\<close>)
    qed
    obtain cs1 where ok1: "ht_ok t1 cs1" using r(3) by blast
    have "e_key n \<noteq> k" if "entries t1 a = Some n" for a n
      using same_data_Some[OF same_data_sym[OF r(4)] that] fresh by (auto simp: datum_def)
    then have fresh1: "\<forall>a n. entries t1 a = Some n \<longrightarrow> e_key n \<noteq> k" by blast
    have map1: "ht_map t1 = ht_map t"
    proof (rule ht_map_eqI[OF ok1])
      fix k' v'
      show "(\<exists>a n. entries t1 a = Some n \<and> e_key n = k' \<and> e_value n = v') \<longleftrightarrow> ht_map t k' = Some v'"
        unfolding ht_map_Some[OF ok] by (rule same_data_pairs[OF r(4)])
    qed
    show ?thesis
    proof (cases "rc \<noteq> 0 \<or> \<not> fst (ask orc1)")
      case True
      then have "zc_hashtable_put t k v orc = Some (-1, t1, ([], []), if rc \<noteq> 0 then orc1 else snd (ask orc1))"
        using p(1) None r(1) by (cases "ask orc1") (auto simp: zc_hashtable_put_def)
      then show ?thesis by (rule result) (use r map1 in \<open>auto simp: ht_inv_def\<close>)
    next
      case False
      obtain tb h where l: "link_front (tab t1) ((entries t1)(brk t1 \<mapsto> \<lparr>e_hash_key = ht_hash t1 k, e_key = k,
          e_value = v, e_prev = None, e_next = None\<rparr>)) (bucket (tab_size t1) (ht_hash t1 k)) (brk t1) = Some (tb, h)"
        "ht_inv (t1\<lparr>tab := tb, entries := h, nelem := nelem t1 + 1, brk := brk t1 + 1\<rparr>)"
        "ht_map (t1\<lparr>tab := tb, entries := h, nelem := nelem t1 + 1, brk := brk t1 + 1\<rparr>) = (ht_map t1)(k \<mapsto> v)"
        using ht_insert_ok[OF ok1 fresh1, where v = v] by auto
      have "zc_hashtable_put t k v orc = Some (0, t1\<lparr>tab := tb, entries := h, nelem := nelem t1 + 1,
          brk := brk t1 + 1\<rparr>, ([], []), snd (ask orc1))"
        using p(1) None r(1) False l(1) by (cases "ask orc1") (simp add: zc_hashtable_put_def Let_def)
      then show ?thesis
        by (rule result) (use l(2,3) r map1 m False in \<open>auto simp: ht_load_def\<close>)
    qed
  qed
qed

subsection \<open>Removal\<close>

text \<open>The relinking of \<open>zc_hashtable_remove\<close>, on the chain \<open>xs @ a # ys\<close>.\<close>

definition unlink :: "nat option list \<Rightarrow> ('k, 'v) heap \<Rightarrow> nat \<Rightarrow> ('k, 'v) entry \<Rightarrow>
    (nat option list \<times> ('k, 'v) heap) option" where
  "unlink tb h i n = do {
     h1 \<leftarrow> (case e_next n of None \<Rightarrow> Some h
           | Some b \<Rightarrow> do { nb \<leftarrow> h b; Some (h(b \<mapsto> nb\<lparr>e_prev := e_prev n\<rparr>)) });
     (case e_prev n of
        Some c \<Rightarrow> do { nc \<leftarrow> h1 c; Some (tb, h1(c \<mapsto> nc\<lparr>e_next := e_next n\<rparr>)) }
      | None \<Rightarrow> (if i < length tb then Some (tb[i := e_next n], h1) else None)) }"

lemma zc_hashtable_remove_unlink:
  "zc_hashtable_remove t k = do {
     p \<leftarrow> zc_hashtable_get_entry t k;
     case p of None \<Rightarrow> Some (t, [], [])
     | Some a \<Rightarrow> do {
         n \<leftarrow> entries t a;
         (tb, h2) \<leftarrow> unlink (tab t) (entries t) (bucket (tab_size t) (e_hash_key n)) n;
         Some (t\<lparr>tab := tb, entries := h2(a := None), nelem := nelem t - 1\<rparr>,
               if ht_key_del t then [e_key n] else [], if ht_value_del t then [e_value n] else []) } }"
  by (simp add: zc_hashtable_remove_def unlink_def Let_def Option.bind_assoc cong: option.case_cong)

lemma unlink_ok:
  assumes dl: "dlist h (tb ! i) (xs @ a # ys)" and dist: "distinct (xs @ a # ys)"
    and n: "h a = Some n" and i: "i < length tb"
  obtains tb' h' where "unlink tb h i n = Some (tb', h')" and "tb' = tb[i := tb' ! i]"
    and "dlist h' (tb' ! i) (xs @ ys)" and "same_data h h'"
    and "\<And>x. x \<notin> set xs \<Longrightarrow> x \<notin> set ys \<Longrightarrow> h' x = h x"
proof -
  note result = that
  obtain l pm where seg: "dseg h None (tb ! i) xs pm (Some a)" "e_prev n = pm" "dseg h (Some a) (e_next n) ys l None"
    using dl n by (auto simp: dlist_def dseg_append split: option.splits)
  obtain h1 l' where h1: "(case e_next n of None \<Rightarrow> Some h
           | Some b \<Rightarrow> do { nb \<leftarrow> h b; Some (h(b \<mapsto> nb\<lparr>e_prev := e_prev n\<rparr>)) }) = Some h1"
    "dseg h1 pm (e_next n) ys l' None" "same_data h h1" "\<And>x. x \<notin> set ys \<Longrightarrow> h1 x = h x"
  proof (cases ys)
    case Nil
    with seg(3) have "e_next n = None" by simp
    with Nil show ?thesis by (intro that[of h pm]) simp_all
  next
    case (Cons b bs)
    with seg(3) obtain nb where b: "e_next n = Some b" "h b = Some nb" by (auto split: option.splits)
    have "b \<notin> set bs" using dist Cons by simp
    with seg(3) b Cons have "dseg (h(b \<mapsto> nb\<lparr>e_prev := pm\<rparr>)) pm (Some b) (b # bs) l None"
      by (intro dseg_reprev[where x = "Some a"]) auto
    moreover have "same_data h (h(b \<mapsto> nb\<lparr>e_prev := pm\<rparr>))"
      by (rule same_data_upd[where n = nb]) (simp_all add: b datum_def)
    ultimately show ?thesis
      by (intro that[of "h(b \<mapsto> nb\<lparr>e_prev := pm\<rparr>)" l]) (use b seg(2) Cons in auto)
  qed
  show ?thesis
  proof (cases xs rule: rev_cases)
    case Nil
    with seg(1) have pm: "pm = None" by simp
    then have "unlink tb h i n = Some (tb[i := e_next n], h1)"
      using h1(1) seg(2) i by (simp add: unlink_def)
    then show ?thesis
      by (rule result) (use i Nil pm h1 in \<open>auto simp: dlist_def\<close>)
  next
    case (snoc us c)
    with seg(1) have pm: "pm = Some c" using dseg_last[OF seg(1)] by simp
    have cy: "c \<notin> set ys" "c \<notin> set us" "set xs \<inter> set ys = {}" using dist snoc by auto
    have s1: "dseg h1 None (tb ! i) (us @ [c]) pm (Some a)"
      using seg(1) snoc by (auto intro!: dseg_frame[of h] h1(4) simp: disjoint_iff)
        (use cy snoc in auto)
    have "c \<in> dom h" using seg(1) snoc by (auto simp: dseg_append split: option.splits)
    then obtain nc where nc: "h1 c = Some nc" using h1(4)[OF cy(1)] by auto
    let ?h2 = "h1(c \<mapsto> nc\<lparr>e_next := e_next n\<rparr>)"
    have "unlink tb h i n = Some (tb, ?h2)"
      using h1(1) seg(2) pm nc by (simp add: unlink_def)
    moreover have "dseg ?h2 None (tb ! i) (us @ [c]) pm (e_next n)"
      by (rule dseg_renext[OF s1 cy(2) nc])
    moreover have "dseg ?h2 pm (e_next n) ys l' None"
      using h1(2) by (rule dseg_frame) (use cy(1) in auto)
    ultimately have "unlink tb h i n = Some (tb, ?h2)" and "dlist ?h2 (tb ! i) (xs @ ys)"
      using snoc by (auto simp: dlist_def dseg_append)
    moreover have "same_data h1 ?h2"
      by (rule same_data_upd[where n = nc]) (simp_all add: nc datum_def)
    ultimately show ?thesis
      by (intro result[of tb ?h2]) (use h1(3,4) same_data_trans snoc in auto)
  qed
qed

lemma mset_concat_remove: "i < length cs \<Longrightarrow> cs ! i = xs @ a # ys \<Longrightarrow>
    add_mset a (mset (concat (cs[i := xs @ ys]))) = mset (concat cs)"
  using concat_update[of i cs "xs @ ys"] by simp

lemma zc_hashtable_remove_ok:
  assumes inv: "ht_inv t"
  obtains t' kf vf where "zc_hashtable_remove t k = Some (t', kf, vf)" and "ht_inv t'"
    and "ht_map t' = (ht_map t)(k := None)"
    and "vf = (case ht_map t k of Some w \<Rightarrow> if ht_value_del t then [w] else [] | None \<Rightarrow> [])"
    and "ht_value_del t' = ht_value_del t" and "ht_load t \<longrightarrow> ht_load t'"
proof -
  note result = that
  obtain cs where ok: "ht_ok t cs" using inv by (auto simp: ht_inv_def)
  obtain p where p: "zc_hashtable_get_entry t k = Some p"
    "case p of None \<Rightarrow> (\<forall>a n. entries t a = Some n \<longrightarrow> e_key n \<noteq> k)
     | Some a \<Rightarrow> (\<exists>n. entries t a = Some n \<and> e_key n = k)"
    using zc_hashtable_get_entry_ok[OF ok] by blast
  show ?thesis
  proof (cases p)
    case None
    then have m: "ht_map t k = None" using p(2) ht_map_None[OF ok, of k] by simp
    have "zc_hashtable_remove t k = Some (t, [], [])" using p(1) None by (simp add: zc_hashtable_remove_def)
    then show ?thesis by (rule result) (use m inv in \<open>auto simp: fun_upd_idem\<close>)
  next
    case (Some a)
    with p obtain n where n: "entries t a = Some n" "e_key n = k" by auto
    let ?i = "bucket (tab_size t) (e_hash_key n)"
    have i: "?i < tab_size t" using ht_okD(1)[OF ok] by simp
    note b = buckets_okD[OF ht_okD(3)[OF ok] i]
    have "a \<in> set (concat cs)" using ht_okD(5)[OF ok] n(1) by blast
    then obtain j where j: "j < length cs" "a \<in> set (cs ! j)" by (auto simp: set_conv_nth[of cs])
    then have "?i = j" using buckets_okD(4)[OF ht_okD(3)[OF ok], of j a] b(2) n(1) by simp
    then obtain xs ys where c: "cs ! ?i = xs @ a # ys" using j(2) by (metis split_list)
    have di: "distinct (xs @ a # ys)" using distinct_concat_nth[OF ht_okD(4)[OF ok], of ?i] c b(2) i by simp
    have dl: "dlist (entries t) (tab t ! ?i) (xs @ a # ys)" using b(3) c by simp
    have il: "?i < length (tab t)" using b(1) i by simp
    obtain tb h where u: "unlink (tab t) (entries t) ?i n = Some (tb, h)" "tb = (tab t)[?i := tb ! ?i]"
      "dlist h (tb ! ?i) (xs @ ys)" "same_data (entries t) h"
      "\<And>x. x \<notin> set xs \<Longrightarrow> x \<notin> set ys \<Longrightarrow> h x = entries t x"
      using unlink_ok[OF dl di n(1) il] by metis
    let ?h = "h(a := None)" and ?cs = "cs[?i := xs @ ys]"
    let ?t = "t\<lparr>tab := tb, entries := ?h, nelem := nelem t - 1\<rparr>"
    have ic: "?i < length cs" using b(2) i by simp
    note ms = mset_concat_remove[OF ic c]
    have dd: "distinct (a # concat ?cs)"
      using mset_eq_distinct[of "a # concat ?cs" "concat cs"] ms ht_okD(4)[OF ok] by simp
    have st: "insert a (set (concat ?cs)) = set (concat cs)"
      using arg_cong[OF ms, of set_mset] by (simp only: set_mset_mset set_mset_add_mset_insert)
    have sd': "same_data h (entries t)" by (rule same_data_sym[OF u(4)])
    have orig: "x \<noteq> a \<and> (\<exists>m'. entries t x = Some m' \<and> datum m' = datum m)" if "?h x = Some m" for x m
      using that same_data_Some[OF sd', of x m] by (auto split: if_splits)
    have ok': "ht_ok ?t ?cs"
      unfolding ht_ok_def
    proof (intro conjI allI impI ballI)
      show "buckets_ok (tab_size ?t) (tab ?t) (entries ?t) ?cs"
        unfolding buckets_ok_def
      proof (intro conjI allI impI ballI)
        show "length (tab ?t) = tab_size ?t" using arg_cong[OF u(2), of length] b(1) by simp
        fix q assume q: "q < tab_size ?t"
        then have q': "q < tab_size t" by simp
        note bq = buckets_okD[OF ht_okD(3)[OF ok] q']
        have na: "x \<noteq> a" if "x \<in> set (?cs ! q)" for x
          using that dd nth_in_concat[of q ?cs x] q' b(2) by auto
        show "dlist (entries ?t) (tab ?t ! q) (?cs ! q)"
        proof (cases "q = ?i")
          case True
          have "dlist ?h (tb ! ?i) (xs @ ys)" using u(3) by (rule dlist_frame) (use di in auto)
          then show ?thesis using True ic by simp
        next
          case False
          have "set (cs ! ?i) \<inter> set (cs ! q) = {}"
            by (rule distinct_concat_disjoint[OF ht_okD(4)[OF ok]]) (use ic q' b(2) False in auto)
          then have "x \<notin> set xs \<and> x \<notin> set ys \<and> x \<noteq> a" if "x \<in> set (cs ! q)" for x
            using that c by auto
          then have "dlist ?h (tab t ! q) (cs ! q)"
            by (intro dlist_frame[OF bq(3)]) (simp add: u(5))
          moreover have "tb ! q = tab t ! q" by (subst u(2)) (use False in simp)
          ultimately show ?thesis using False by simp
        qed
        fix x assume x: "x \<in> set (?cs ! q)"
        have xq: "x \<in> set (cs ! q)" using x c by (cases "q = ?i") (use ic in auto)
        have "x \<in> dom (entries t)" using slist_dom[OF dlist_slist[OF bq(3)]] xq by blast
        then show "bucket (tab_size ?t) (e_hash_key (the (entries ?t x))) = q"
          using na[OF x] same_data_hash[OF u(4), of x] bq(4)[OF xq] by simp
      qed (use b(2) in simp)
      show "dom (entries ?t) = set (concat ?cs)"
        using same_data_dom[OF u(4)] ht_okD(5)[OF ok] st dd by auto
      show "nelem ?t = length (concat ?cs)"
        using arg_cong[OF ms, of size] ht_okD(6)[OF ok] by simp
      show "x < brk ?t" if "x \<in> dom (entries ?t)" for x
        using that orig ht_okD(7)[OF ok] by fastforce
      show "e_hash_key m = ht_hash ?t (e_key m)" if "entries ?t x = Some m" for x m
        using orig[of x m] that ht_okD(8)[OF ok, of x] by (auto simp: datum_def)
      show "x = y" if e: "entries ?t x = Some m \<and> entries ?t y = Some m2 \<and> e_key m = e_key m2" for x y m m2
      proof -
        obtain m' m2' where "entries t x = Some m'" "datum m' = datum m"
          "entries t y = Some m2'" "datum m2' = datum m2"
          using orig[of x m] orig[of y m2] e by auto
        then show ?thesis using e ht_okD(9)[OF ok, of x m' y m2'] by (simp add: datum_def)
      qed
    qed (use ht_okD[OF ok] dd in simp_all)
    have "ht_map ?t = (ht_map t)(k := None)"
    proof (rule ht_map_eqI[OF ok'])
      fix k' v'
      have hk: "e_key m = k \<longleftrightarrow> x = a" if hx: "h x = Some m" for x m
      proof -
        obtain m' where m': "entries t x = Some m'" "datum m' = datum m"
          using same_data_Some[OF sd' hx] by blast
        then have "e_key m' = e_key m" by (simp add: datum_def)
        then show ?thesis using ht_okD(9)[OF ok n(1) m'(1)] n m'(1) by auto
      qed
      have "?h x = Some m \<and> e_key m = k' \<longleftrightarrow> k' \<noteq> k \<and> h x = Some m \<and> e_key m = k'" for x m
        using hk[of x m] by (cases "x = a") auto
      then have "(\<exists>x m. ?h x = Some m \<and> e_key m = k' \<and> e_value m = v') \<longleftrightarrow>
        k' \<noteq> k \<and> (\<exists>x m. h x = Some m \<and> e_key m = k' \<and> e_value m = v')" by metis
      moreover have "entries ?t = ?h" by simp
      ultimately have "(\<exists>x m. entries ?t x = Some m \<and> e_key m = k' \<and> e_value m = v') \<longleftrightarrow>
        k' \<noteq> k \<and> (\<exists>x m. h x = Some m \<and> e_key m = k' \<and> e_value m = v')" by (simp only:)
      then show "(\<exists>x m. entries ?t x = Some m \<and> e_key m = k' \<and> e_value m = v') \<longleftrightarrow>
        ((ht_map t)(k := None)) k' = Some v'"
        using same_data_pairs[OF u(4)] ht_map_Some[OF ok] by simp
    qed
    moreover have "zc_hashtable_remove t k = Some (?t, if ht_key_del t then [e_key n] else [],
        if ht_value_del t then [e_value n] else [])"
      using p(1) Some n(1) u(1) by (simp add: zc_hashtable_remove_unlink)
    moreover have "ht_map t k = Some (e_value n)" using n ht_map_Some[OF ok] by auto
    ultimately show ?thesis
      by (intro result[of ?t]) (use ok' in \<open>auto simp: ht_inv_def ht_load_def\<close>)
  qed
qed

subsection \<open>Freeing all entries\<close>

lemma free_chain_ok: "slist h p as \<Longrightarrow> distinct as \<Longrightarrow>
    free_chain h p acc = Some (\<lambda>x. if x \<in> set as then None else h x, acc @ map (the \<circ> h) as)"
proof (induction as arbitrary: h p acc)
  case Nil
  then show ?case by (simp add: free_chain.simps)
next
  case (Cons a as)
  then obtain n where n: "p = Some a" "h a = Some n" "slist h (e_next n) as" "a \<notin> set as" "distinct as"
    by (auto split: option.splits)
  have "slist (h(a := None)) (e_next n) as" by (rule slist_frame[OF n(3)]) (use n(4) in auto)
  then have ih: "free_chain (h(a := None)) (e_next n) (acc @ [n]) =
      Some (\<lambda>x. if x \<in> set as then None else (h(a := None)) x, (acc @ [n]) @ map (the \<circ> h(a := None)) as)"
    using n(5) by (rule Cons.IH)
  have "map (the \<circ> h(a := None)) as = map (the \<circ> h) as" using n(4) by auto
  moreover have "(\<lambda>x. if x \<in> set as then None else (h(a := None)) x) =
      (\<lambda>x. if x \<in> set (a # as) then None else h x)" by auto
  moreover have "free_chain h p acc = free_chain (h(a := None)) (e_next n) (acc @ [n])"
    by (subst free_chain.simps) (simp add: n)
  ultimately show ?case using ih n(2) by simp
qed

lemma free_buckets_ok: "list_all2 (slist h) ps cs \<Longrightarrow> distinct (concat cs) \<Longrightarrow>
    free_buckets h ps acc =
      Some (\<lambda>x. if x \<in> set (concat cs) then None else h x, acc @ map (the \<circ> h) (concat cs))"
proof (induction ps arbitrary: h cs acc)
  case Nil
  then show ?case by simp
next
  case (Cons p ps)
  then obtain as rest where c: "cs = as # rest" "slist h p as" "list_all2 (slist h) ps rest"
    by (auto simp: list_all2_Cons1)
  have d: "distinct as" "set as \<inter> set (concat rest) = {}" "distinct (concat rest)"
    using Cons.prems(2) c(1) by auto
  let ?h = "\<lambda>x. if x \<in> set as then None else h x"
  have "list_all2 (slist ?h) ps rest"
  proof (rule list.rel_mono_strong[OF c(3)])
    fix q bs assume bs: "bs \<in> set rest" "slist h q bs"
    then have "set bs \<subseteq> set (concat rest)" by auto
    then show "slist ?h q bs" by (intro slist_frame[OF bs(2)]) (use d(2) in auto)
  qed
  then have ih: "free_buckets ?h ps (acc @ map (the \<circ> h) as) =
     Some (\<lambda>x. if x \<in> set (concat rest) then None else ?h x,
           (acc @ map (the \<circ> h) as) @ map (the \<circ> ?h) (concat rest))"
    using d(3) by (rule Cons.IH)
  have "map (the \<circ> ?h) (concat rest) = map (the \<circ> h) (concat rest)"
    using d(2) by (intro map_cong) auto
  moreover have "(\<lambda>x. if x \<in> set (concat rest) then None else ?h x) =
      (\<lambda>x. if x \<in> set (concat cs) then None else h x)" by (rule ext) (simp add: c(1))
  ultimately show ?case
    using ih free_chain_ok[OF c(2) d(1), of acc] by (simp add: c(1))
qed

lemma ht_free_all:
  assumes ok: "ht_ok t cs"
  shows "free_buckets (entries t) (tab t) [] = Some (Map.empty, map (the \<circ> entries t) (concat cs))"
proof -
  have "list_all2 (slist (entries t)) (tab t) cs"
    using ht_okD(3)[OF ok] by (auto simp: buckets_ok_def list_all2_conv_all_nth intro: dlist_slist)
  from free_buckets_ok[OF this ht_okD(4)[OF ok], of "[]"]
  have "free_buckets (entries t) (tab t) [] =
    Some (\<lambda>x. if x \<in> set (concat cs) then None else entries t x, map (the \<circ> entries t) (concat cs))"
    by simp
  moreover have "(\<lambda>x. if x \<in> set (concat cs) then None else entries t x) = Map.empty"
    using ht_okD(5)[OF ok] by (auto simp: fun_eq_iff domIff)
  ultimately show ?thesis by simp
qed

text \<open>Both release every live entry exactly once and leave none; \<open>clean\<close> leaves an empty table.\<close>

lemma zc_hashtable_clean_ok:
  assumes "ht_inv t"
  obtains t' as where "zc_hashtable_clean t = Some (t', map (the \<circ> entries t) as)"
    and "distinct as" and "set as = dom (entries t)"
    and "ht_inv t'" and "ht_map t' = Map.empty" and "entries t' = Map.empty" and "nelem t' = 0"
proof -
  note result = that
  obtain cs where ok: "ht_ok t cs" using assms by (auto simp: ht_inv_def)
  let ?t = "t\<lparr>entries := Map.empty, tab := replicate (length (tab t)) None, nelem := 0\<rparr>"
  have len: "length (tab t) = tab_size t" using ht_okD(3)[OF ok] by (simp add: buckets_ok_def)
  have "ht_ok ?t (replicate (tab_size t) [])"
    using ht_okD(1,2)[OF ok] buckets_ok_empty[of "tab_size t" Map.empty] by (simp add: ht_ok_def len)
  moreover have "ht_map ?t = Map.empty" by (rule ext) (simp add: ht_map_def find_None_iff)
  moreover have "zc_hashtable_clean t = Some (?t, map (the \<circ> entries t) (concat cs))"
    using ht_free_all[OF ok] by (simp add: zc_hashtable_clean_def)
  ultimately show ?thesis
    by (intro result[of ?t "concat cs"]) (use ht_okD(4,5)[OF ok] in \<open>auto simp: ht_inv_def\<close>)
qed

lemma zc_hashtable_del_ok:
  assumes "ht_inv t"
  obtains as where "zc_hashtable_del t = Some (Map.empty, map (the \<circ> entries t) as)"
    and "distinct as" and "set as = dom (entries t)"
proof -
  obtain cs where ok: "ht_ok t cs" using assms by (auto simp: ht_inv_def)
  show ?thesis
    by (rule that[of "concat cs"]) (use ht_free_all[OF ok] ht_okD(4,5)[OF ok] in \<open>simp_all add: zc_hashtable_del_def\<close>)
qed

subsection \<open>Iteration\<close>

lemma foreach_from_None [simp]: "foreach_from t None acc = Some acc"
  by (simp add: foreach_from.simps)

lemma foreach_chain: "slist (entries t) p ys \<Longrightarrow> ys \<noteq> [] \<Longrightarrow>
    (\<And>a. a \<in> set ys \<Longrightarrow> bucket (tab_size t) (e_hash_key (the (entries t a))) = i) \<Longrightarrow>
    foreach_from t p acc = foreach_from t (first_head (drop (i + 1) (tab t))) (acc @ ys)"
proof (induction ys arbitrary: p acc)
  case Nil
  then show ?case by simp
next
  case (Cons a ys)
  from Cons.prems(1) obtain n where n: "p = Some a" "entries t a = Some n" "slist (entries t) (e_next n) ys"
    by (auto split: option.splits)
  have step: "foreach_from t p acc = Option.bind (zc_hashtable_next t a) (\<lambda>q. foreach_from t q (acc @ [a]))"
    by (subst foreach_from.simps) (simp add: n(1))
  show ?case
  proof (cases ys)
    case Nil
    then have "e_next n = None" using n(3) by simp
    then show ?thesis using step n Nil Cons.prems(3)[of a] by (simp add: zc_hashtable_next_def)
  next
    case (Cons b zs)
    then have "e_next n = Some b" using n(3) by (auto split: option.splits)
    then have "foreach_from t p acc = foreach_from t (e_next n) (acc @ [a])"
      using step n by (simp add: zc_hashtable_next_def)
    then show ?thesis using Cons.IH[OF n(3), of "acc @ [a]"] Cons.prems(3) Cons by simp
  qed
qed

lemma foreach_drop:
  assumes ok: "ht_ok t cs"
  shows "foreach_from t (first_head (drop i (tab t))) acc = Some (acc @ concat (drop i cs))"
proof (induction "tab_size t - i" arbitrary: i acc)
  case 0
  then show ?case using ht_okD(3)[OF ok] by (simp add: buckets_ok_def)
next
  case (Suc d)
  then have i: "i < tab_size t" by simp
  note b = buckets_okD[OF ht_okD(3)[OF ok] i]
  have drops: "drop i (tab t) = tab t ! i # drop (i + 1) (tab t)" "drop i cs = cs ! i # drop (i + 1) cs"
    using i b(1,2) by (simp_all add: Cons_nth_drop_Suc)
  have ih: "foreach_from t (first_head (drop (i + 1) (tab t))) acc' = Some (acc' @ concat (drop (i + 1) cs))" for acc'
    using Suc.hyps(1)[of "i + 1"] Suc.hyps(2) by simp
  have sl: "slist (entries t) (tab t ! i) (cs ! i)" using b(3) by (rule dlist_slist)
  show ?case
  proof (cases "tab t ! i")
    case None
    with sl have "cs ! i = []" by (cases "cs ! i") auto
    then show ?thesis using ih None by (simp add: drops)
  next
    case (Some a)
    with sl have ne: "cs ! i \<noteq> []" by auto
    have "foreach_from t (Some a) acc = foreach_from t (first_head (drop (i + 1) (tab t))) (acc @ cs ! i)"
      using foreach_chain[OF sl ne b(4)] Some by simp
    then show ?thesis using ih Some by (simp add: drops)
  qed
qed

lemma zc_hashtable_foreach_ok:
  assumes "ht_inv t"
  obtains as where "zc_hashtable_foreach t = Some as" and "distinct as" and "set as = dom (entries t)"
proof -
  obtain cs where ok: "ht_ok t cs" using assms by (auto simp: ht_inv_def)
  have "zc_hashtable_foreach t = Some (concat cs)"
    using foreach_drop[OF ok, of 0 "[]"] by (simp add: zc_hashtable_foreach_def zc_hashtable_begin_def)
  then show ?thesis by (rule that) (use ht_okD(4,5)[OF ok] in simp_all)
qed

subsection \<open>The interface the clients use\<close>

text \<open>What the MDC, the category table and the record table rely on, and what follows for a client that
  makes several insertions.\<close>

fun put_all :: "('s \<Rightarrow> 'k \<Rightarrow> 'v \<Rightarrow> outcomes \<Rightarrow> (int \<times> 's \<times> 'f \<times> outcomes) option) \<Rightarrow> 's \<Rightarrow> ('k \<times> 'v) list \<Rightarrow>
    outcomes \<Rightarrow> (int \<times> 's \<times> outcomes) option" where
  "put_all put s [] orc = Some (0, s, orc)"
| "put_all put s ((k, v) # kvs) orc = do {
     (rc, s', f, orc') \<leftarrow> put s k v orc;
     if rc \<noteq> 0 then Some (rc, s', orc') else put_all put s' kvs orc' }"

locale map_store =
  fixes put :: "'s \<Rightarrow> 'k \<Rightarrow> 'v \<Rightarrow> outcomes \<Rightarrow> (int \<times> 's \<times> 'f \<times> outcomes) option"
    and get :: "'s \<Rightarrow> 'k \<Rightarrow> 'v option option"
    and remove :: "'s \<Rightarrow> 'k \<Rightarrow> ('s \<times> 'g) option"
    and wf :: "'s \<Rightarrow> bool"
    and content :: "'s \<Rightarrow> 'k \<Rightarrow> 'v option"
  assumes get_content: "wf s \<Longrightarrow> get s k = Some (content s k)"
    and put_defined: "wf s \<Longrightarrow> put s k v orc \<noteq> None"
    and put_wf: "wf s \<Longrightarrow> put s k v orc = Some (rc, s', f, orc') \<Longrightarrow> wf s'"
    and put_ok: "wf s \<Longrightarrow> put s k v orc = Some (0, s', f, orc') \<Longrightarrow> content s' = (content s)(k \<mapsto> v)"
    and put_fail: "wf s \<Longrightarrow> put s k v orc = Some (rc, s', f, orc') \<Longrightarrow> rc \<noteq> 0 \<Longrightarrow> rc = -1 \<and> content s' = content s"
    and remove_defined: "wf s \<Longrightarrow> remove s k \<noteq> None"
    and remove_wf: "wf s \<Longrightarrow> remove s k = Some (s', g) \<Longrightarrow> wf s'"
    and remove_ok: "wf s \<Longrightarrow> remove s k = Some (s', g) \<Longrightarrow> content s' = (content s)(k := None)"
begin

lemma get_put: "wf s \<Longrightarrow> put s k v orc = Some (0, s', f, orc') \<Longrightarrow>
    get s' k' = (if k' = k then Some (Some v) else get s k')"
  by (simp add: get_content put_wf[of s k v orc 0] put_ok)

lemma get_remove: "wf s \<Longrightarrow> remove s k = Some (s', g) \<Longrightarrow>
    get s' k' = (if k' = k then Some None else get s k')"
  by (simp add: get_content remove_wf remove_ok)

lemma put_all_content: "wf s \<Longrightarrow> put_all put s kvs orc = Some (0, s', orc') \<Longrightarrow>
    wf s' \<and> content s' = content s ++ map_of (rev kvs)"
proof (induction kvs arbitrary: s orc)
  case Nil
  then show ?case by simp
next
  case (Cons kv kvs)
  obtain k v where kv: "kv = (k, v)" by (cases kv)
  obtain rc1 s1 f orc1 where p: "put s k v orc = Some (rc1, s1, f, orc1)"
    using put_defined[OF Cons.prems(1), of k v orc] by auto
  have rc1: "rc1 = 0" "put_all put s1 kvs orc1 = Some (0, s', orc')"
    using Cons.prems(2) p put_fail[OF Cons.prems(1) p] by (auto simp: kv split: if_splits)
  have "wf s1" "content s1 = (content s)(k \<mapsto> v)"
    using put_wf[OF Cons.prems(1) p] put_ok[OF Cons.prems(1)] p rc1(1) by auto
  with Cons.IH[OF _ rc1(2)] show ?case by (simp add: kv map_add_upd_left map_add_def fun_eq_iff split: option.splits)
qed

lemma put_all_defined: "wf s \<Longrightarrow> put_all put s kvs orc \<noteq> None"
proof (induction kvs arbitrary: s orc)
  case (Cons kv kvs)
  obtain k v where kv: "kv = (k, v)" by (cases kv)
  obtain rc1 s1 f orc1 where p: "put s k v orc = Some (rc1, s1, f, orc1)"
    using put_defined[OF Cons.prems, of k v orc] by auto
  with Cons.IH[OF put_wf[OF Cons.prems p]] show ?case by (simp add: kv)
qed simp

end

interpretation ht: map_store zc_hashtable_put zc_hashtable_get zc_hashtable_remove ht_inv ht_map
proof unfold_locales
  fix s :: "('k, 'v) hashtable" and k v orc
  assume inv: "ht_inv s"
  show "zc_hashtable_get s k = Some (ht_map s k)" by (rule zc_hashtable_get_ok[OF inv])
  obtain rc s' kf vf orc' where p: "zc_hashtable_put s k v orc = Some (rc, s', (kf, vf), orc')" "ht_inv s'"
    "rc = 0 \<longrightarrow> ht_map s' = (ht_map s)(k \<mapsto> v)" "rc \<noteq> 0 \<longrightarrow> rc = -1 \<and> ht_map s' = ht_map s \<and> vf = [] \<and> kf = []"
    by (rule zc_hashtable_put_ok[OF inv, of k v orc])
  show "zc_hashtable_put s k v orc \<noteq> None" using p(1) by simp
  fix rc2 s2 f orc2
  assume q: "zc_hashtable_put s k v orc = Some (rc2, s2, f, orc2)"
  show "ht_inv s2" using p q by simp
  show "rc2 = -1 \<and> ht_map s2 = ht_map s" if "rc2 \<noteq> 0" using p q that by simp
next
  fix s :: "('k, 'v) hashtable" and k v orc s2 f orc2
  assume inv: "ht_inv s" and q: "zc_hashtable_put s k v orc = Some (0, s2, f, orc2)"
  obtain rc s' kf vf orc' where p: "zc_hashtable_put s k v orc = Some (rc, s', (kf, vf), orc')"
    "rc = 0 \<longrightarrow> ht_map s' = (ht_map s)(k \<mapsto> v)"
    by (rule zc_hashtable_put_ok[OF inv, of k v orc])
  show "ht_map s2 = (ht_map s)(k \<mapsto> v)" using p q by simp
next
  fix s :: "('k, 'v) hashtable" and k
  assume inv: "ht_inv s"
  obtain s' kf vf where p: "zc_hashtable_remove s k = Some (s', kf, vf)" "ht_inv s'"
    "ht_map s' = (ht_map s)(k := None)"
    by (rule zc_hashtable_remove_ok[OF inv, of k])
  show "zc_hashtable_remove s k \<noteq> None" using p(1) by simp
  fix s2 g assume q: "zc_hashtable_remove s k = Some (s2, g)"
  show "ht_inv s2" and "ht_map s2 = (ht_map s)(k := None)" using p q by simp_all
qed

subsection \<open>Properties\<close>

definition sample_table :: "(string, nat) hashtable" where
  "sample_table = the (fst (zc_hashtable_new 20 zc_hashtable_str_hash (=) False True []))"

lemma sample_table: "ht_inv sample_table" "ht_map sample_table = Map.empty"
proof -
  have n: "zc_hashtable_new 20 zc_hashtable_str_hash (=) False True [] = (Some sample_table, [])"
    by (simp add: sample_table_def zc_hashtable_new_def)
  show "ht_inv sample_table" "ht_map sample_table = Map.empty"
    using zc_hashtable_new_ok[OF n] by simp_all
qed

text \<open>
  C17. \<open>zc_hashtable_put\<close> on the linked chains, with or without a rehash and for every pattern of
  allocation failures: no NULL or dead node is touched, the invariant holds after it, a success makes
  \<open>zc_hashtable_get\<close> find the new value under the key and the old ones elsewhere and hands the replaced
  value to the destructor, a failure (even between the rehash and the allocation of the entry) leaves
  every lookup as it was.
\<close>

theorem zc_hashtable_put_get:
  assumes "ht_inv t"
  shows "\<exists>rc t' kf vf orc'. zc_hashtable_put t k v orc = Some (rc, t', (kf, vf), orc') \<and> ht_inv t' \<and>
    (if rc = 0 then (\<forall>k'. zc_hashtable_get t' k' = (if k' = k then Some (Some v) else zc_hashtable_get t k')) \<and>
        vf = (case ht_map t k of Some w \<Rightarrow> if ht_value_del t then [w] else [] | None \<Rightarrow> [])
     else rc = -1 \<and> (\<forall>k'. zc_hashtable_get t' k' = zc_hashtable_get t k') \<and> vf = [])"
proof -
  obtain rc t' kf vf orc' where p: "zc_hashtable_put t k v orc = Some (rc, t', (kf, vf), orc')" "ht_inv t'"
    "rc = 0 \<longrightarrow> ht_map t' = (ht_map t)(k \<mapsto> v)"
    "rc \<noteq> 0 \<longrightarrow> rc = -1 \<and> ht_map t' = ht_map t \<and> vf = [] \<and> kf = []"
    "rc = 0 \<longrightarrow> vf = (case ht_map t k of Some w \<Rightarrow> if ht_value_del t then [w] else [] | None \<Rightarrow> [])"
    by (rule zc_hashtable_put_ok[OF assms])
  show ?thesis
  proof (cases "rc = 0")
    case True
    then show ?thesis using p ht.get_content[OF assms] ht.get_content[OF p(2)] by auto
  next
    case False
    then show ?thesis using p ht.get_content[OF assms] ht.get_content[OF p(2)] by simp
  qed
qed

theorem zc_hashtable_put_get_witness:
  "\<exists>rc t' f orc'. zc_hashtable_put sample_table ''key'' 7 [] = Some (rc, t', f, orc') \<and> ht_inv t'"
  using zc_hashtable_put_get[OF sample_table(1), of "''key''" 7 "[]"] by blast

text \<open>
  \<open>zc_hashtable_remove\<close> unlinks exactly the entry of the key, first, middle or last in its chain, and
  does nothing for a key that is not there.
\<close>

theorem zc_hashtable_remove_get:
  assumes "ht_inv t"
  shows "\<exists>t' kf vf. zc_hashtable_remove t k = Some (t', kf, vf) \<and> ht_inv t' \<and>
    (\<forall>k'. zc_hashtable_get t' k' = (if k' = k then Some None else zc_hashtable_get t k')) \<and>
    vf = (case ht_map t k of Some w \<Rightarrow> if ht_value_del t then [w] else [] | None \<Rightarrow> [])"
proof -
  obtain t' kf vf where p: "zc_hashtable_remove t k = Some (t', kf, vf)" "ht_inv t'"
    "ht_map t' = (ht_map t)(k := None)"
    "vf = (case ht_map t k of Some w \<Rightarrow> if ht_value_del t then [w] else [] | None \<Rightarrow> [])"
    by (rule zc_hashtable_remove_ok[OF assms])
  then show ?thesis using ht.get_content[OF assms] ht.get_content[OF p(2)] by simp
qed

theorem zc_hashtable_remove_get_witness:
  "\<exists>t' kf vf. zc_hashtable_remove sample_table ''key'' = Some (t', kf, vf) \<and> ht_inv t'"
  using zc_hashtable_remove_get[OF sample_table(1), of "''key''"] by blast

text \<open>
  C33. Iterating visits every entry once and no other (so the loop ends), \<open>nelem\<close> counts them, and both
  \<open>zc_hashtable_clean\<close> and \<open>zc_hashtable_del\<close> free each of them exactly once.
\<close>

theorem zc_hashtable_visits_and_frees_once:
  assumes "ht_inv t"
  shows "(\<exists>as. zc_hashtable_foreach t = Some as \<and> distinct as \<and> set as = dom (entries t) \<and> length as = nelem t) \<and>
    (\<exists>t' as. zc_hashtable_clean t = Some (t', map (the \<circ> entries t) as) \<and> distinct as \<and> set as = dom (entries t) \<and>
        ht_inv t' \<and> ht_map t' = Map.empty \<and> nelem t' = 0) \<and>
    (\<exists>as. zc_hashtable_del t = Some (Map.empty, map (the \<circ> entries t) as) \<and> distinct as \<and> set as = dom (entries t))"
proof (intro conjI)
  obtain cs where cs: "ht_ok t cs" using assms by (auto simp: ht_inv_def)
  have c: "card (dom (entries t)) = nelem t" using distinct_card[OF ht_okD(4)[OF cs]] ht_okD(5,6)[OF cs] by (simp only:)
  obtain as where "zc_hashtable_foreach t = Some as" "distinct as" "set as = dom (entries t)"
    by (rule zc_hashtable_foreach_ok[OF assms])
  then show "\<exists>as. zc_hashtable_foreach t = Some as \<and> distinct as \<and> set as = dom (entries t) \<and> length as = nelem t"
    using c distinct_card by metis
  obtain t' as where "zc_hashtable_clean t = Some (t', map (the \<circ> entries t) as)" "distinct as" "set as = dom (entries t)"
    "ht_inv t'" "ht_map t' = Map.empty" "nelem t' = 0"
    by (rule zc_hashtable_clean_ok[OF assms])
  then show "\<exists>t' as. zc_hashtable_clean t = Some (t', map (the \<circ> entries t) as) \<and> distinct as \<and> set as = dom (entries t) \<and>
        ht_inv t' \<and> ht_map t' = Map.empty \<and> nelem t' = 0" by blast
  obtain as where "zc_hashtable_del t = Some (Map.empty, map (the \<circ> entries t) as)" "distinct as" "set as = dom (entries t)"
    by (rule zc_hashtable_del_ok[OF assms])
  then show "\<exists>as. zc_hashtable_del t = Some (Map.empty, map (the \<circ> entries t) as) \<and> distinct as \<and> set as = dom (entries t)"
    by blast
qed

theorem zc_hashtable_visits_and_frees_once_witness:
  "\<exists>as. zc_hashtable_foreach sample_table = Some as \<and> distinct as"
  using zc_hashtable_visits_and_frees_once[OF sample_table(1)] by blast

end
