(* ===== verification/CLib.thy ===== *)
theory CLib
  imports ZPrelude
begin

text \<open>
  The parts of the C library zlog's parsers and printers use, on strings of bytes (a HOL string is
  the content of a C string before its terminating NUL): the character classes of the C locale,
  \<open>strcasecmp\<close>, \<open>strchr\<close>/\<open>strrchr\<close>, decimal printing and reading, and \<open>sscanf\<close> over lists of directives,
  so that each format string of the source is written down directive by directive.
\<close>

named_theorems clib \<open>definitions that evaluate the C library on concrete strings\<close>

abbreviation code :: "char \<Rightarrow> nat" where
  "code c \<equiv> of_char c"

abbreviation NUL :: char where
  "NUL \<equiv> CHR 0x00"

definition isspace :: "char \<Rightarrow> bool" where
  "isspace c \<longleftrightarrow> c = CHR '' '' \<or> (9 \<le> code c \<and> code c \<le> 13)"

definition isdigit :: "char \<Rightarrow> bool" where
  "isdigit c \<longleftrightarrow> 48 \<le> code c \<and> code c \<le> 57"

definition isupper :: "char \<Rightarrow> bool" where
  "isupper c \<longleftrightarrow> 65 \<le> code c \<and> code c \<le> 90"

definition islower :: "char \<Rightarrow> bool" where
  "islower c \<longleftrightarrow> 97 \<le> code c \<and> code c \<le> 122"

definition isalnum :: "char \<Rightarrow> bool" where
  "isalnum c \<longleftrightarrow> isdigit c \<or> isupper c \<or> islower c"

definition toupper :: "char \<Rightarrow> char" where
  "toupper c = (if islower c then char_of (code c - 32) else c)"

definition tolower :: "char \<Rightarrow> char" where
  "tolower c = (if isupper c then char_of (code c + 32) else c)"

text \<open>\<open>STRICMP(a, ==, b)\<close>.\<close>

definition stricmp_eq :: "string \<Rightarrow> string \<Rightarrow> bool" where
  "stricmp_eq a b \<longleftrightarrow> map tolower a = map tolower b"

text \<open>\<open>STRNCMP(a, ==, b, n)\<close>: the first \<open>n\<close> bytes agree, or both strings end before and are equal.\<close>

definition strncmp_eq :: "string \<Rightarrow> string \<Rightarrow> nat \<Rightarrow> bool" where
  "strncmp_eq a b n \<longleftrightarrow> take n a = take n b"

text \<open>\<open>strchr\<close> and \<open>strrchr\<close> as offsets.\<close>

fun strchr :: "string \<Rightarrow> char \<Rightarrow> nat option" where
  "strchr [] c = None"
| "strchr (x # xs) c = (if x = c then Some 0 else map_option Suc (strchr xs c))"

fun strrchr :: "string \<Rightarrow> char \<Rightarrow> nat option" where
  "strrchr [] c = None"
| "strrchr (x # xs) c = (case strrchr xs c of Some i \<Rightarrow> Some (Suc i) | None \<Rightarrow> if x = c then Some 0 else None)"

lemmas [clib] = isspace_def isdigit_def isupper_def islower_def isalnum_def toupper_def tolower_def
  stricmp_eq_def strncmp_eq_def

text \<open>Characters computed by \<open>char_of\<close> on numerals.\<close>

lemmas char_eval = char_of_def bit_iff_odd

lemma strchr_None: "strchr s c = None \<longleftrightarrow> c \<notin> set s"
  by (induction s) auto

lemma strchr_Some: "strchr s c = Some i \<Longrightarrow> i < length s \<and> s ! i = c \<and> c \<notin> set (take i s)"
proof (induction s arbitrary: i)
  case (Cons x s)
  then show ?case by (cases i) (auto split: if_splits)
qed simp

lemma strchr_append: "c \<notin> set s \<Longrightarrow> strchr (s @ c # t) c = Some (length s)"
  by (induction s) auto

lemma strrchr_None: "strrchr s c = None \<longleftrightarrow> c \<notin> set s"
  by (induction s) (auto split: option.splits)

lemma strrchr_append: "c \<notin> set t \<Longrightarrow> strrchr (s @ c # t) c = Some (length s)"
proof (induction s)
  case Nil
  then show ?case by (simp add: strrchr_None[THEN iffD2])
qed simp

lemma strrchr_Some: "strrchr s c = Some i \<Longrightarrow> i < length s \<and> s ! i = c \<and> c \<notin> set (drop (Suc i) s)"
  by (induction s arbitrary: i) (auto simp: strrchr_None split: option.splits if_splits)

lemma strncmp_eq_prefix: "strncmp_eq (p @ s) t (length p) \<longleftrightarrow> (\<exists>u. t = p @ u)"
proof
  assume "strncmp_eq (p @ s) t (length p)"
  then have "take (length p) t = p" by (simp add: strncmp_eq_def)
  then show "\<exists>u. t = p @ u" by (metis append_take_drop_id)
qed (auto simp: strncmp_eq_def)

subsection \<open>Decimal numbers\<close>

definition digit :: "nat \<Rightarrow> char" where
  "digit d = char_of (48 + d)"

fun dec :: "nat \<Rightarrow> string" where
  "dec n = (if n < 10 then [digit n] else dec (n div 10) @ [digit (n mod 10)])"

declare dec.simps [simp del]

definition dec_int :: "int \<Rightarrow> string" where
  "dec_int i = (if i < 0 then CHR ''-'' # dec (nat (- i)) else dec (nat i))"

definition dec_val :: "string \<Rightarrow> nat" where
  "dec_val s = foldl (\<lambda>a c. a * 10 + (code c - 48)) 0 s"

lemma code_digit: "d < 10 \<Longrightarrow> code (digit d) = 48 + d"
  by (simp add: digit_def)

lemma isdigit_digit [simp]: "d < 10 \<Longrightarrow> isdigit (digit d)"
  by (simp add: isdigit_def code_digit)

lemma isdigit_not_isspace: "isdigit c \<Longrightarrow> \<not> isspace c"
  by (auto simp: isdigit_def isspace_def)

lemma dec_isdigit: "c \<in> set (dec n) \<Longrightarrow> isdigit c"
proof (induction n arbitrary: c rule: dec.induct)
  case (1 n)
  then show ?case by (cases "n < 10") (auto simp: dec.simps[of n])
qed

lemma dec_nonempty [simp]: "dec n \<noteq> []"
  by (subst dec.simps) simp

lemma dec_val_snoc: "dec_val (s @ [c]) = dec_val s * 10 + (code c - 48)"
  by (simp add: dec_val_def)

lemma dec_val_dec [simp]: "dec_val (dec n) = n"
proof (induction n rule: dec.induct)
  case (1 n)
  show ?case
  proof (cases "n < 10")
    case True
    then show ?thesis by (subst dec.simps) (simp add: dec_val_def code_digit)
  next
    case False
    then show ?thesis using 1 by (subst dec.simps) (simp add: dec_val_snoc code_digit)
  qed
qed

lemma dec_length_le: "n < 10 ^ k \<Longrightarrow> 0 < k \<Longrightarrow> length (dec n) \<le> k"
proof (induction k arbitrary: n)
  case (Suc k)
  show ?case
  proof (cases "n < 10")
    case True
    then show ?thesis by (subst dec.simps) simp
  next
    case False
    then have k: "0 < k" using Suc.prems(1) by (cases k) auto
    have "n div 10 < 10 ^ k" using Suc.prems(1) by (simp add: less_mult_imp_div_less mult.commute)
    with Suc.IH[OF _ k] False show ?thesis by (subst dec.simps) simp
  qed
qed simp

text \<open>\<open>%d\<close> and \<open>strtol(s, NULL, 10)\<close>: white space, an optional sign, digits. The number of bytes
  consumed comes with the value; \<open>None\<close> when there is no digit.\<close>

definition scan_int :: "string \<Rightarrow> (int \<times> nat) option" where
  "scan_int s =
     (let w = length (takeWhile isspace s); s1 = drop w s;
          neg = (s1 \<noteq> [] \<and> hd s1 = CHR ''-'');
          sg = (if s1 \<noteq> [] \<and> (hd s1 = CHR ''-'' \<or> hd s1 = CHR ''+'') then 1 else 0);
          ds = takeWhile isdigit (drop sg s1) in
      if ds = [] then None
      else Some (if neg then - int (dec_val ds) else int (dec_val ds), w + sg + length ds))"

lemma takeWhile_append_stop: "\<forall>c \<in> set xs. P c \<Longrightarrow> (ys = [] \<or> \<not> P (hd ys)) \<Longrightarrow> takeWhile P (xs @ ys) = xs"
  by (cases ys) (auto simp: takeWhile_append2 takeWhile_tail)

lemma scan_int_dec:
  assumes "rest = [] \<or> \<not> isdigit (hd rest)"
  shows "scan_int (dec n @ rest) = Some (int n, length (dec n))"
proof -
  obtain d ds where d: "dec n = d # ds" by (cases "dec n") auto
  then have dig: "isdigit d" using dec_isdigit[of d n] by simp
  then have nd: "\<not> isspace d" "d \<noteq> CHR ''-''" "d \<noteq> CHR ''+''"
    by (auto simp: isdigit_def isspace_def)
  have "takeWhile isdigit (dec n @ rest) = dec n"
    by (rule takeWhile_append_stop) (use assms dec_isdigit in auto)
  then show ?thesis using nd by (simp add: scan_int_def Let_def d) (metis d dec_val_dec list.size(4))
qed

subsection \<open>sscanf\<close>

datatype scan_dir =
    SWs                       \<comment> \<open>white space in the format\<close>
  | SLit char                 \<comment> \<open>an ordinary character\<close>
  | SSet "char \<Rightarrow> bool"       \<comment> \<open>\<open>%[...]\<close>\<close>
  | SWord                     \<comment> \<open>\<open>%s\<close>\<close>
  | SInt                      \<comment> \<open>\<open>%d\<close>, \<open>%ld\<close>\<close>
  | SPos                      \<comment> \<open>\<open>%n\<close>\<close>

datatype scan_item = IStr string | IInt int | IPos nat

text \<open>\<open>scan ds s p k\<close>: the directives \<open>ds\<close> against the rest \<open>s\<close> of the input after \<open>p\<close> bytes and \<open>k\<close>
  conversions: the return value (EOF is -1: the input ended before the first conversion) and the
  items assigned, in order.\<close>

fun scan :: "scan_dir list \<Rightarrow> string \<Rightarrow> nat \<Rightarrow> nat \<Rightarrow> int \<times> scan_item list" where
  "scan [] s p k = (int k, [])"
| "scan (SWs # ds) s p k =
     (let w = length (takeWhile isspace s) in scan ds (drop w s) (p + w) k)"
| "scan (SLit c # ds) s p k =
     (case s of [] \<Rightarrow> (if k = 0 then -1 else int k, [])
      | x # xs \<Rightarrow> if x = c then scan ds xs (p + 1) k else (int k, []))"
| "scan (SSet P # ds) s p k =
     (let t = takeWhile P s in
      if t = [] then (if s = [] \<and> k = 0 then -1 else int k, [])
      else let (r, its) = scan ds (drop (length t) s) (p + length t) (k + 1) in (r, IStr t # its))"
| "scan (SWord # ds) s p k =
     (let w = length (takeWhile isspace s); t = takeWhile (\<lambda>c. \<not> isspace c) (drop w s) in
      if t = [] then (if k = 0 then -1 else int k, [])
      else let (r, its) = scan ds (drop (w + length t) s) (p + w + length t) (k + 1) in (r, IStr t # its))"
| "scan (SInt # ds) s p k =
     (case scan_int s of
        None \<Rightarrow> (if dropWhile isspace s = [] \<and> k = 0 then -1 else int k, [])
      | Some (i, n) \<Rightarrow> let (r, its) = scan ds (drop n s) (p + n) (k + 1) in (r, IInt i # its))"
| "scan (SPos # ds) s p k = (let (r, its) = scan ds s p k in (r, IPos p # its))"

definition sscanf :: "string \<Rightarrow> scan_dir list \<Rightarrow> int \<times> scan_item list" where
  "sscanf s ds = scan ds s 0 0"

text \<open>The value a variable has after the call: the item assigned at its place, or what it held before.\<close>

definition str_item :: "scan_item list \<Rightarrow> nat \<Rightarrow> string \<Rightarrow> string" where
  "str_item its i old = (if i < length its then (case its ! i of IStr s \<Rightarrow> s | _ \<Rightarrow> old) else old)"

definition int_item :: "scan_item list \<Rightarrow> nat \<Rightarrow> int \<Rightarrow> int" where
  "int_item its i old = (if i < length its then (case its ! i of IInt n \<Rightarrow> n | _ \<Rightarrow> old) else old)"

definition pos_item :: "scan_item list \<Rightarrow> nat \<Rightarrow> nat \<Rightarrow> nat" where
  "pos_item its i old = (if i < length its then (case its ! i of IPos n \<Rightarrow> n | _ \<Rightarrow> old) else old)"

lemmas [clib] = sscanf_def str_item_def int_item_def pos_item_def scan_int_def dec_val_def

lemma scan_SSet_append: "\<forall>c \<in> set xs. P c \<Longrightarrow> xs \<noteq> [] \<Longrightarrow> ys = [] \<or> \<not> P (hd ys) \<Longrightarrow>
    scan (SSet P # ds) (xs @ ys) p k =
      (let (r, its) = scan ds ys (p + length xs) (k + 1) in (r, IStr xs # its))"
proof -
  assume a: "\<forall>c \<in> set xs. P c" "xs \<noteq> []" "ys = [] \<or> \<not> P (hd ys)"
  have "takeWhile P (xs @ ys) = xs" by (rule takeWhile_append_stop[OF a(1,3)])
  then show ?thesis using a(2) by (simp only: scan.simps Let_def) simp
qed

lemma scan_SWs_none: "s = [] \<or> \<not> isspace (hd s) \<Longrightarrow> scan (SWs # ds) s p k = scan ds s p k"
  by (cases s) auto

lemma scan_SInt_dec: "rest = [] \<or> \<not> isdigit (hd rest) \<Longrightarrow>
    scan (SInt # ds) (dec n @ rest) p k =
      (let (r, its) = scan ds rest (p + length (dec n)) (k + 1) in (r, IInt (int n) # its))"
  by (simp add: scan_int_dec)

subsection \<open>Reading bytes and numbers\<close>

definition char_at :: "string \<Rightarrow> nat \<Rightarrow> char" where
  "char_at s i = (if i < length s then s ! i else NUL)"

text \<open>A \<open>long\<close> read by \<open>sscanf\<close> and its conversion to \<open>size_t\<close>, for a \<open>long\<close> with the maximum \<open>lmax\<close>.\<close>

definition scan_long :: "int \<Rightarrow> int \<Rightarrow> int" where
  "scan_long lmax i = max (- lmax - 1) (min lmax i)"

definition to_size :: "int \<Rightarrow> int \<Rightarrow> nat" where
  "to_size lmax i = nat (i mod (2 * (lmax + 1)))"

lemma char_at_length: "char_at s i = c \<Longrightarrow> c \<noteq> NUL \<Longrightarrow> i < length s"
  by (auto simp: char_at_def split: if_splits)

lemma strncmp_length: "strncmp_eq s t n \<Longrightarrow> length t = n \<Longrightarrow> n \<le> length s"
  by (metis length_take min.cobounded1 min.idem order.trans strncmp_eq_def)

end
