(* ===== verification/Zutil.thy ===== *)
theory Zutil
  imports CLib
begin

text \<open>
  \<open>zc_util.c\<close>: reading a size such as \<open>10MB\<close> and expanding \<open>%E(NAME)\<close> in a path.
  \<open>zc_parse_byte_size\<close> takes the \<open>LONG_MAX\<close> of the target as an argument. \<open>zc_str_replace_env\<close>
  works on the bytes of its buffer, behind the NUL as well, because its two pointers outlive the moves
  of the text; \<open>p\<close> and \<open>q\<close> are offsets. The environment is the function \<open>getenv\<close>.
\<close>

section \<open>Sizes\<close>

text \<open>The first loop: compaction in place, \<open>p\<close> reading and \<open>q\<close> writing.\<close>

function clear_space :: "string \<Rightarrow> nat \<Rightarrow> nat \<Rightarrow> string" where
  "clear_space a p q =
     (if p < length a
      then if isspace (a ! p) then clear_space a (p + 1) q
           else clear_space (a[q := a ! p]) (p + 1) (q + 1)
      else take q a)"
  by auto
termination by (relation "measure (\<lambda>(a, p, q). length a - p)") auto

declare clear_space.simps [simp del]

definition strtol10 :: "int \<Rightarrow> string \<Rightarrow> int" where
  "strtol10 lmax s = (case scan_int s of None \<Rightarrow> 0 | Some (i, _) \<Rightarrow> max (- lmax - 1) (min lmax i))"

definition long_mul :: "int \<Rightarrow> int \<Rightarrow> int \<Rightarrow> int option" where
  "long_mul lmax a b = (if - lmax - 1 \<le> a * b \<and> a * b \<le> lmax then Some (a * b) else None)"

definition zc_parse_byte_size :: "int \<Rightarrow> string \<Rightarrow> (string \<times> int) option" where
  "zc_parse_byte_size lmax astring0 =
     (let astring = clear_space astring0 0 0;
          sz = int (length astring);
          res = strtol10 lmax astring in
      if res \<le> 0 then Some (astring, 0)
      else do {
        l \<leftarrow> arr_get astring (sz - 1);
        (c, m) \<leftarrow> (if l = CHR ''B'' \<or> l = CHR ''b''
                   then do { c \<leftarrow> arr_get astring (sz - 2); Some (c, 1024) }
                   else Some (l, 1000));
        r \<leftarrow> (if c = CHR ''K'' \<or> c = CHR ''k'' then long_mul lmax res m
              else if c = CHR ''M'' \<or> c = CHR ''m'' then long_mul lmax res (m * m)
              else if c = CHR ''G'' \<or> c = CHR ''g'' then long_mul lmax res (m * m * m)
              else Some res);
        Some (astring, r) })"

lemma clear_space_gen:
  "q \<le> p \<Longrightarrow> p \<le> length a \<Longrightarrow>
    clear_space a p q = take q a @ filter (\<lambda>c. \<not> isspace c) (drop p a)"
proof (induction a p q rule: clear_space.induct)
  case (1 a p q)
  show ?case
  proof (cases "p < length a")
    case False
    then show ?thesis using 1 by (subst clear_space.simps) simp
  next
    case True
    then have d: "drop p a = a ! p # drop (p + 1) a" by (simp add: Cons_nth_drop_Suc)
    show ?thesis
    proof (cases "isspace (a ! p)")
      case True
      then show ?thesis using 1 \<open>p < length a\<close> d by (subst clear_space.simps) simp
    next
      case False
      then have "clear_space (a[q := a ! p]) (p + 1) (q + 1) =
          take (q + 1) (a[q := a ! p]) @ filter (\<lambda>c. \<not> isspace c) (drop (p + 1) (a[q := a ! p]))"
        using 1 True by simp
      also have "\<dots> = take q a @ [a ! p] @ filter (\<lambda>c. \<not> isspace c) (drop (p + 1) a)"
        using 1 True by (simp add: take_Suc_conv_app_nth drop_update_cancel)
      finally show ?thesis using False True d by (subst clear_space.simps) simp
    qed
  qed
qed

lemma clear_space_filter: "clear_space a 0 0 = filter (\<lambda>c. \<not> isspace c) a"
  using clear_space_gen[of 0 0 a] by simp

text \<open>The units: the suffixes and what they stand for.\<close>

definition size_units :: "(string \<times> int) list" where
  "size_units =
    [('''', 1), (''B'', 1), (''b'', 1),
     (''K'', 1000), (''k'', 1000), (''KB'', 1024), (''Kb'', 1024), (''kB'', 1024), (''kb'', 1024),
     (''M'', 1000000), (''m'', 1000000), (''MB'', 1048576), (''Mb'', 1048576), (''mB'', 1048576), (''mb'', 1048576),
     (''G'', 1000000000), (''g'', 1000000000), (''GB'', 1073741824), (''Gb'', 1073741824),
     (''gB'', 1073741824), (''gb'', 1073741824)]"

lemma size_units_hd: "\<forall>(u, k) \<in> set size_units. u = [] \<or> \<not> isdigit (hd u)"
  by (simp add: size_units_def isdigit_def)

lemma dec_last: "\<exists>s d. dec n = s @ [d] \<and> isdigit d"
  using dec_isdigit[of "last (dec n)" n] by (metis append_butlast_last_id dec_nonempty last_in_set)

text \<open>
  \<open>zc_parse_byte_size\<close> on a positive decimal number with a unit, white space anywhere: it returns the
  number times the unit and leaves the string without white space, as long as the product fits the
  target's \<open>long\<close>; beyond it the C multiplication overflows, which is undefined.
\<close>

theorem parse_byte_size_units:
  assumes c: "(u, k) \<in> set size_units" and sp: "filter (\<lambda>c. \<not> isspace c) s = dec n @ u"
    and n: "0 < n" "int n \<le> lmax"
  shows "zc_parse_byte_size lmax s =
    (if int n * k \<le> lmax then Some (dec n @ u, int n * k) else None)"
proof -
  obtain t d where d: "dec n = t @ [d]" "isdigit d" using dec_last by blast
  have d0: "d \<noteq> CHR ''B''" "d \<noteq> CHR ''b''" "d \<noteq> CHR ''K''" "d \<noteq> CHR ''k''" "d \<noteq> CHR ''M''" "d \<noteq> CHR ''m''"
    "d \<noteq> CHR ''G''" "d \<noteq> CHR ''g''" using d(2) by (auto simp: isdigit_def)
  have r: "strtol10 lmax (dec n @ u) = int n"
    using scan_int_dec[of u n] size_units_hd c n by (auto simp: strtol10_def)
  have m: "long_mul lmax (int n) k = (if int n * k \<le> lmax then Some (int n * k) else None)" if "0 \<le> k" for k
  proof -
    have "0 \<le> int n * k" using that by simp
    then show ?thesis using n by (simp add: long_mul_def)
  qed
  have g: "zc_parse_byte_size lmax s =
    (let astring = dec n @ u; sz = int (length astring) in do {
        l \<leftarrow> arr_get astring (sz - 1);
        (c, m) \<leftarrow> (if l = CHR ''B'' \<or> l = CHR ''b''
                   then do { c \<leftarrow> arr_get astring (sz - 2); Some (c, 1024) }
                   else Some (l, 1000));
        r \<leftarrow> (if c = CHR ''K'' \<or> c = CHR ''k'' then long_mul lmax (int n) m
              else if c = CHR ''M'' \<or> c = CHR ''m'' then long_mul lmax (int n) (m * m)
              else if c = CHR ''G'' \<or> c = CHR ''g'' then long_mul lmax (int n) (m * m * m)
              else Some (int n));
        Some (astring, r) })"
    unfolding zc_parse_byte_size_def clear_space_filter sp Let_def r using n by simp
  have l0: "arr_get (dec n @ []) (int (length (dec n @ [])) - 1) = Some d"
    by (simp add: d(1) arr_get_def nat_diff_distrib)
  have l1: "arr_get (dec n @ [x]) (int (length (dec n @ [x])) - 1) = Some x"
      "arr_get (dec n @ [x]) (int (length (dec n @ [x])) - 2) = Some d" for x
    by (simp_all add: d(1) arr_get_def nat_diff_distrib nat_add_distrib nth_append)
  have l2: "arr_get (dec n @ [x, y]) (int (length (dec n @ [x, y])) - 1) = Some y"
      "arr_get (dec n @ [x, y]) (int (length (dec n @ [x, y])) - 2) = Some x" for x y
    by (simp_all add: d(1) arr_get_def nat_diff_distrib nat_add_distrib nth_append)
  note ev = Let_def l0 l1 l2 d0 m Option.bind.simps(2) prod.case
  from c show ?thesis unfolding g size_units_def list.set
    apply (elim insertE emptyE Pair_inject; hypsubst)
                        apply (simp_all only: ev simp_thms if_True if_False char.inject HOL.refl)
                        apply (simp_all add: n m)
    done
qed

theorem parse_byte_size_units_witness:
  "zc_parse_byte_size (2^31 - 1) ''10 MB'' = Some (''10MB'', 10 * 1048576)
   \<and> zc_parse_byte_size (2^31 - 1) ''2GB'' = None"
proof -
  have d: "dec 10 = ''10''" "dec 2 = ''2''" by code_simp+
  show ?thesis
    using parse_byte_size_units[of "''MB''" 1048576 "''10 MB''" 10 "2^31 - 1"]
      parse_byte_size_units[of "''GB''" 1073741824 "''2GB''" 2 "2^31 - 1"]
    by (simp add: size_units_def d isspace_def)
qed

section \<open>Environment references\<close>

text \<open>The C string that starts at offset \<open>i\<close> of the buffer \<open>m\<close>.\<close>

definition cstr :: "string \<Rightarrow> nat \<Rightarrow> string option" where
  "cstr m i = (if NUL \<in> set (drop i m) then Some (takeWhile (\<lambda>c. c \<noteq> NUL) (drop i m)) else None)"

definition MAXLEN_CFG_LINE :: nat where
  "MAXLEN_CFG_LINE = 4096"

definition fmt_flag :: "char \<Rightarrow> bool" where
  "fmt_flag c \<longleftrightarrow> c = CHR ''.'' \<or> isdigit c \<or> c = CHR ''-''"

text \<open>\<open>printf\<close> of a string under \<open>%<fl>s\<close>, for flags over \<open>[.0-9-]\<close>: \<open>-\<close> for left adjustment, a width, a
  precision; \<open>None\<close> for a conversion specification C does not define (the flag \<open>0\<close> included).\<close>

definition printf_s :: "string \<Rightarrow> string \<Rightarrow> string option" where
  "printf_s fl v =
     (let f = takeWhile (\<lambda>c. c = CHR ''-'') fl; r1 = drop (length f) fl;
          w = takeWhile isdigit r1; r2 = drop (length w) r1;
          prec = (if r2 = [] then Some v
                  else if hd r2 = CHR ''.'' \<and> (\<forall>c \<in> set (tl r2). isdigit c) then Some (take (dec_val (tl r2)) v)
                  else None) in
      if w \<noteq> [] \<and> hd w = CHR ''0'' then None
      else map_option (\<lambda>x. let pad = replicate (dec_val w - length x) (CHR '' '') in
                         if f = [] then pad @ x else x @ pad) prec)"

text \<open>One round of the loop: the return value and the buffer, or the buffer, \<open>q\<close> and \<open>str_len\<close> for the
  next round. \<open>env_expand\<close> is the round from the second \<open>sscanf\<close> on. \<open>getenv\<close> of an unset variable is
  NULL, which \<open>%s\<close> must not be given.\<close>

definition env_expand :: "(string \<Rightarrow> string option) \<Rightarrow> nat \<Rightarrow> string \<Rightarrow> nat \<Rightarrow> string \<Rightarrow> nat \<Rightarrow> int \<Rightarrow>
    ((int \<times> string) + (string \<times> nat \<times> int)) option" where
  "env_expand getenv str_size m p fl nread str_len = do {
     s \<leftarrow> cstr m (p + 1 + nread);
     let r = sscanf s [SLit (CHR ''E''), SLit (CHR ''(''), SSet (\<lambda>c. c \<noteq> CHR '')''), SLit (CHR '')''), SPos];
         env_key = str_item (snd r) 0 [];
         q = p + 1 + nread + pos_item (snd r) 1 nread in
     if MAXLEN_CFG_LINE < length env_key then None
     else if fst r = 0 then Some (Inr (m, p + 1 + nread, str_len))
     else do {
       c \<leftarrow> arr_get m (int q - 1);
       if c \<noteq> CHR '')'' then Some (Inl (-1, m))
       else do {
         value \<leftarrow> getenv env_key;
         env_value \<leftarrow> printf_s fl value;
         let n = str_len - int (q - p) + int (length env_value) in
         if MAXLEN_CFG_LINE < length env_value then Some (Inl (-1, m))
         else if n < 0 \<or> int str_size - 1 < n then Some (Inl (-1, m))
         else do {
           rest \<leftarrow> cstr m q;
           m1 \<leftarrow> put_bytes m (p + length env_value) (rest @ [NUL]);
           m2 \<leftarrow> put_bytes m1 p env_value;
           Some (Inr (m2, q, n)) } } } }"

definition env_step :: "(string \<Rightarrow> string option) \<Rightarrow> nat \<Rightarrow> string \<Rightarrow> nat \<Rightarrow> int \<Rightarrow>
    ((int \<times> string) + (string \<times> nat \<times> int)) option" where
  "env_step getenv str_size m q str_len = do {
     s \<leftarrow> cstr m q;
     case strchr s (CHR ''%'') of
       None \<Rightarrow> Some (Inl (0, m))
     | Some d \<Rightarrow>
       let p = q + d;
           r = sscanf (drop (d + 1) s) [SSet fmt_flag, SPos];
           fl = (if fst r = 1 then str_item (snd r) 0 [] else []);
           nread = (if fst r = 1 then pos_item (snd r) 1 0 else 0) in
       if MAXLEN_CFG_LINE < nread + 2 then None
       else env_expand getenv str_size m p fl nread str_len }"

lemma cstr_less: "cstr m q = Some s \<Longrightarrow> q < length m"
  by (cases "q < length m") (auto simp: cstr_def)

lemma env_expand_progress:
  "env_expand g n m p fl k l = Some (Inr (m', q', l')) \<Longrightarrow> p < q' \<and> length m' = length m"
  unfolding env_expand_def Let_def
  by (auto simp: bind_eq_Some_conv dest!: put_bytes_length split: if_splits)

lemma env_step_progress:
  assumes "env_step g n m q l = Some (Inr (m', q', l'))"
  shows "q < q' \<and> length m' = length m \<and> q < length m"
proof -
  obtain s d fl k where "cstr m q = Some s" and e: "env_expand g n m (q + d) fl k l = Some (Inr (m', q', l'))"
    using assms unfolding env_step_def Let_def
    by (auto simp: bind_eq_Some_conv split: if_splits option.splits)
  then show ?thesis using env_expand_progress[OF e] cstr_less by fastforce
qed

function env_loop :: "(string \<Rightarrow> string option) \<Rightarrow> nat \<Rightarrow> string \<Rightarrow> nat \<Rightarrow> int \<Rightarrow> (int \<times> string) option" where
  "env_loop getenv str_size m q str_len =
     (case env_step getenv str_size m q str_len of
        None \<Rightarrow> None
      | Some (Inl r) \<Rightarrow> Some r
      | Some (Inr (m', q', n')) \<Rightarrow> env_loop getenv str_size m' q' n')"
  by auto
termination
  by (relation "measure (\<lambda>(g, n, m, q, l). length m - q)") (auto dest!: env_step_progress)

declare env_loop.simps [simp del]

definition zc_str_replace_env :: "(string \<Rightarrow> string option) \<Rightarrow> nat \<Rightarrow> string \<Rightarrow> (int \<times> string) option" where
  "zc_str_replace_env getenv str_size m = do {
     s \<leftarrow> cstr m 0;
     env_loop getenv str_size m 0 (int (length s)) }"

lemma cstr_append: "NUL \<notin> set s \<Longrightarrow> cstr (s @ NUL # r) 0 = Some s"
  by (auto simp: cstr_def intro!: takeWhile_append_stop)

lemma cstr_drop: "NUL \<notin> set s \<Longrightarrow> length p = i \<Longrightarrow> cstr (p @ s @ NUL # r) i = Some s"
  by (auto simp: cstr_def intro!: takeWhile_append_stop)

lemma cstr_without:
  assumes "q \<le> j" "j < length m" "m ! j = NUL" "\<forall>i. q \<le> i \<and> i < j \<longrightarrow> m ! i \<noteq> c" "c \<noteq> NUL"
  shows "\<exists>s. cstr m q = Some s \<and> c \<notin> set s"
proof -
  have nul: "NUL \<in> set (drop q m)"
    unfolding in_set_conv_nth by (rule exI[of _ "j - q"]) (use assms(1-3) in simp)
  have "c \<notin> set (takeWhile (\<lambda>c. c \<noteq> NUL) (drop q m))"
  proof
    assume "c \<in> set (takeWhile (\<lambda>c. c \<noteq> NUL) (drop q m))"
    then obtain k where k: "k < length (takeWhile (\<lambda>c. c \<noteq> NUL) (drop q m))"
        "takeWhile (\<lambda>c. c \<noteq> NUL) (drop q m) ! k = c" by (auto simp: in_set_conv_nth)
    have kc: "m ! (q + k) = c" using k(2) takeWhile_nth[OF k(1)] assms(1,2) by simp
    have "\<not> j < q + k"
    proof
      assume "j < q + k"
      then have i: "j - q < length (takeWhile (\<lambda>c. c \<noteq> NUL) (drop q m))" using k(1) assms(1) by linarith
      then have "takeWhile (\<lambda>c. c \<noteq> NUL) (drop q m) ! (j - q) = NUL"
        using assms(1-3) by (simp add: takeWhile_nth)
      then have "NUL \<in> set (takeWhile (\<lambda>c. c \<noteq> NUL) (drop q m))" using nth_mem[OF i] by simp
      then show False by (auto dest: set_takeWhileD)
    qed
    then show False using kc assms(3,4,5) by (cases "q + k = j") auto
  qed
  then show ?thesis using nul by (simp add: cstr_def)
qed

lemma sscanf_ref: "key \<noteq> [] \<Longrightarrow> CHR '')'' \<notin> set key \<Longrightarrow>
    sscanf (CHR ''E'' # CHR ''('' # key @ CHR '')'' # post)
      [SLit (CHR ''E''), SLit (CHR ''(''), SSet (\<lambda>c. c \<noteq> CHR '')''), SLit (CHR '')''), SPos] =
    (1, [IStr key, IPos (length key + 3)])"
proof -
  assume a: "key \<noteq> []" "CHR '')'' \<notin> set key"
  have "takeWhile (\<lambda>c. c \<noteq> CHR '')'') (key @ CHR '')'' # post) = key"
    by (rule takeWhile_append_stop) (use a in auto)
  then show ?thesis using a(1) by (simp add: sscanf_def Let_def)
qed

lemma env_loop_done:
  assumes "cstr m q = Some s" "CHR ''%'' \<notin> set s"
  shows "env_loop g n m q l = Some (0, m)"
  using assms strchr_None[of s "CHR ''%''"] by (subst env_loop.simps) (simp add: env_step_def)

lemma replace_env_none:
  assumes "NUL \<notin> set s" "CHR ''%'' \<notin> set s"
  shows "zc_str_replace_env g n (s @ NUL # r) = Some (0, s @ NUL # r)"
  using cstr_append[OF assms(1)] env_loop_done assms(2) by (simp add: zc_str_replace_env_def)

text \<open>A buffer that holds one reference between \<open>pre\<close> and \<open>post\<close>.\<close>

definition ref_text :: "string \<Rightarrow> string \<Rightarrow> string \<Rightarrow> string" where
  "ref_text pre key post = pre @ ''%E('' @ key @ '')'' @ post"

definition plain_text :: "string \<Rightarrow> bool" where
  "plain_text s \<longleftrightarrow> NUL \<notin> set s \<and> CHR ''%'' \<notin> set s"

lemma env_step_ref:
  assumes pl: "plain_text pre" "plain_text post" and key: "key \<noteq> []" "NUL \<notin> set key" "CHR '')'' \<notin> set key"
      "length key \<le> MAXLEN_CFG_LINE"
    and v: "g key = Some v"
  defines "t \<equiv> ref_text pre key post" and "q \<equiv> length pre + length key + 4"
  shows "env_step g n (t @ NUL # r) 0 (int (length t)) =
    (if MAXLEN_CFG_LINE < length v \<or> int n - 1 < int (length pre + length v + length post)
     then Some (Inl (-1, t @ NUL # r))
     else do { m1 \<leftarrow> put_bytes (t @ NUL # r) (length pre + length v) (post @ [NUL]);
               m2 \<leftarrow> put_bytes m1 (length pre) v;
               Some (Inr (m2, q, int (length pre + length v + length post))) })"
proof -
  have t: "t = pre @ CHR ''%'' # CHR ''E'' # CHR ''('' # key @ CHR '')'' # post"
    by (simp add: t_def ref_text_def)
  have nt: "NUL \<notin> set t" using pl key by (auto simp: t plain_text_def)
  have c0: "cstr (t @ NUL # r) 0 = Some t" by (rule cstr_append[OF nt])
  have d: "strchr t (CHR ''%'') = Some (length pre)"
    unfolding t by (rule strchr_append) (use pl in \<open>simp add: plain_text_def\<close>)
  have c1: "cstr (t @ NUL # r) (length pre + 1) = Some (CHR ''E'' # CHR ''('' # key @ CHR '')'' # post)"
    using nt cstr_drop[of "CHR ''E'' # CHR ''('' # key @ CHR '')'' # post" "pre @ [CHR ''%'']" "length pre + 1" r]
    by (simp add: t)
  have c2: "cstr (t @ NUL # r) q = Some post"
    using nt cstr_drop[of post "pre @ CHR ''%'' # CHR ''E'' # CHR ''('' # key @ [CHR '')'']" q r]
    by (simp add: t q_def)
  have s0: "sscanf (drop (length pre + 1) t) [SSet fmt_flag, SPos] = (0, [])"
    by (simp add: t sscanf_def fmt_flag_def isdigit_def)
  have g: "arr_get (t @ NUL # r) (int q - 1) = Some (CHR '')'')"
  proof -
    have "(t @ NUL # r) ! (length pre + (length key + 3)) = CHR '')''"
      by (simp add: t nth_append numeral_3_eq_3)
    then show ?thesis by (simp add: arr_get_def q_def t nat_add_distrib algebra_simps)
  qed
  have pv: "printf_s [] v = Some v" by (simp add: printf_s_def dec_val_def)
  have n: "int (length t) - int (q - length pre) + int (length v) = int (length pre + length v + length post)"
    by (simp add: t q_def)
  have qe: "length pre + 1 + (length key + 3) = q" by (simp add: q_def)
  have st: "env_step g n (t @ NUL # r) 0 (int (length t)) = env_expand g n (t @ NUL # r) (length pre) [] 0 (int (length t))"
    by (simp add: env_step_def c0 d s0[simplified] MAXLEN_CFG_LINE_def)
  show ?thesis unfolding st env_expand_def Let_def
    using key(4) c1 c2 g v pv
    by (simp add: sscanf_ref[OF key(1,3)] str_item_def pos_item_def qe[simplified] n[simplified]) (simp add: ac_simps)
qed

text \<open>
  \<open>zc_str_replace_env\<close> replaces a reference \<open>%E(key)\<close> by the value of the variable, whatever the
  lengths of both and whatever the buffer holds behind the text, provided the new text fits
  \<open>str_size\<close> and neither the rest of the text nor the value holds a \<open>%\<close>.
\<close>

theorem replace_env_ref:
  assumes pl: "plain_text pre" "plain_text post" "plain_text v"
    and key: "key \<noteq> []" "NUL \<notin> set key" "CHR '')'' \<notin> set key" "length key \<le> MAXLEN_CFG_LINE"
    and v: "g key = Some v" "length v \<le> MAXLEN_CFG_LINE"
    and fits: "length pre + length v + length post < n"
      "n \<le> length (ref_text pre key post @ NUL # r)"
  shows "\<exists>r'. zc_str_replace_env g n (ref_text pre key post @ NUL # r) = Some (0, pre @ v @ post @ NUL # r')"
proof -
  define t where "t = ref_text pre key post"
  define m where "m = t @ NUL # r"
  define q where "q = length pre + length key + 4"
  define w where "w = length pre + length v + length post + 1"
  have lt: "length t = q + length post" and lm: "n \<le> length m" "length t < length m"
    using fits(2) by (auto simp: m_def t_def q_def ref_text_def)
  have pre: "take (length pre) m = pre" by (simp add: m_def t_def ref_text_def)
  obtain m1 where m1: "put_bytes m (length pre + length v) (post @ [NUL]) = Some m1"
      "m1 = take (length pre + length v) m @ (post @ [NUL]) @ drop w m"
    using fits(1) lm(1) by (simp add: put_bytes_def w_def add.assoc)
  have l1: "length m1 = length m" using put_bytes_length[OF m1(1)] .
  have tk: "take (length pre) m1 = pre" using put_bytes_prefix[OF m1(1), of "length pre"] pre by simp
  have dr: "drop (length pre + length v) m1 = post @ NUL # drop w m"
    using fits(1) lm(1) by (simp add: m1(2))
  define m2 where "m2 = pre @ v @ post @ NUL # drop w m"
  have m2: "put_bytes m1 (length pre) v = Some m2"
    using fits(1) lm(1) l1 tk dr by (simp add: put_bytes_def m2_def)
  have l2: "length m2 = length m" using put_bytes_length[OF m2] l1 by simp
  have "env_step g n m 0 (int (length t)) = Some (Inr (m2, q, int (length pre + length v + length post)))"
    using env_step_ref[where g = g, OF pl(1,2) key v(1), of n r] fits(1) v(2) m1(1) m2
    by (simp add: m_def t_def q_def)
  moreover have "\<exists>s. cstr m2 q = Some s \<and> CHR ''%'' \<notin> set s"
  proof (rule cstr_without)
    let ?j = "max (w - 1) (q + length post)"
    show "q \<le> ?j" by simp
    show j: "?j < length m2" using lm(2) lt fits(1) lm(1) l2 by (simp add: w_def)
    have mt: "m ! (q + i) = (post @ [NUL]) ! i" if "i \<le> length post" for i
      using that by (simp add: m_def t_def q_def ref_text_def nth_append numeral_eq_Suc nth_Cons')
    have tail: "m2 ! i = m ! i" if "w \<le> i" "i < length m" for i
    proof -
      have "m2 = (pre @ v @ post @ [NUL]) @ drop w m" "length (pre @ v @ post @ [NUL]) = w"
        by (simp_all add: m2_def w_def)
      then show ?thesis using that by (metis le_add_diff_inverse nth_append not_le nth_drop less_imp_le_nat le_trans)
    qed
    show "m2 ! ?j = NUL"
    proof (cases "w - 1 < q + length post")
      case True
      then show ?thesis using tail[of "q + length post"] mt[of "length post"] lm(2) lt by (simp add: max_def)
    next
      case False
      then have "max (w - 1) (q + length post) = length (pre @ v @ post)" by (simp add: max_def w_def)
      moreover have "m2 = (pre @ v @ post) @ NUL # drop w m" by (simp add: m2_def)
      ultimately show ?thesis by (metis nth_append_length)
    qed
    show "\<forall>i. q \<le> i \<and> i < ?j \<longrightarrow> m2 ! i \<noteq> CHR ''%''"
    proof (intro allI impI)
      fix i assume i: "q \<le> i \<and> i < ?j"
      show "m2 ! i \<noteq> CHR ''%''"
      proof (cases "i < w")
        case True
        have "m2 = pre @ (v @ post @ [NUL]) @ drop w m" by (simp add: m2_def)
        then have "m2 ! i = ((v @ post @ [NUL]) @ drop w m) ! (i - length pre)"
          using i by (simp only: nth_append) (simp add: q_def)
        moreover have il: "i - length pre < length (v @ post @ [NUL])" using True i by (simp add: w_def q_def)
        ultimately have "m2 ! i = (v @ post @ [NUL]) ! (i - length pre)"
          using nth_append[of "v @ post @ [NUL]" "drop w m" "i - length pre"] by (simp only: if_True)
        moreover note il
        ultimately have "m2 ! i \<in> set (v @ post @ [NUL])" by (metis nth_mem)
        then show ?thesis using pl by (auto simp: plain_text_def)
      next
        case False
        then have "q \<le> i" "i < q + length post" using i by (simp_all add: max_def w_def split: if_splits)
        then have ii: "i - q < length post" by linarith
        then have "m2 ! i = post ! (i - q)"
          using False i tail[of i] mt[of "i - q"] lm(2) lt by (simp add: nth_append)
        then show ?thesis using nth_mem[OF ii] pl by (metis plain_text_def)
      qed
    qed
  qed simp
  ultimately have "env_loop g n m 0 (int (length t)) = Some (0, m2)"
    using env_loop_done by (subst env_loop.simps) auto
  moreover have "cstr m 0 = Some t"
    unfolding m_def by (rule cstr_append) (use pl key in \<open>auto simp: t_def ref_text_def plain_text_def\<close>)
  ultimately show ?thesis by (simp add: zc_str_replace_env_def m_def t_def m2_def)
qed

theorem replace_env_ref_witness:
  "\<exists>r'. zc_str_replace_env (\<lambda>k. Some ''/home/me'') 40 (ref_text ''a/'' ''HOME'' ''/b'' @ NUL # replicate 40 (CHR ''x''))
     = Some (0, ''a/'' @ ''/home/me'' @ ''/b'' @ NUL # r')"
  by (rule replace_env_ref) (simp_all add: plain_text_def MAXLEN_CFG_LINE_def ref_text_def)

text \<open>
  Two references: when the first value is shorter than its reference, \<open>q\<close> is left behind the start
  of the text that \<open>memmove\<close> brought forward, the second reference is not seen, and a stale copy of it
  behind the terminating NUL is expanded instead. The function still returns 0.
\<close>

theorem replace_env_skips_second:
  "\<exists>m. zc_str_replace_env (\<lambda>k. Some ''v'') 40 (''%E(AA)%E(B)'' @ NUL # replicate 28 (CHR ''x'')) = Some (0, m)
     \<and> cstr m 0 = Some ''v%E(B)''"
  by (simp add: zc_str_replace_env_def env_loop.simps env_step_def env_expand_def clib fmt_flag_def cstr_def
     arr_get_def put_bytes_def MAXLEN_CFG_LINE_def printf_s_def)

text \<open>A text in which no \<open>%\<close>, with the flags behind it, is followed by an \<open>E\<close> or by the end.\<close>

fun env_free :: "string \<Rightarrow> bool" where
  "env_free [] = True"
| "env_free (c # s) = ((c = CHR ''%'' \<longrightarrow> dropWhile fmt_flag s \<noteq> [] \<and> hd (dropWhile fmt_flag s) \<noteq> CHR ''E'') \<and> env_free s)"

lemma env_free_append: "env_free (a @ b) \<Longrightarrow> env_free b"
  by (induction a) auto

lemma sscanf_flags: "sscanf s [SSet P, SPos] =
    (if takeWhile P s = [] then (if s = [] then (-1, []) else (0, []))
     else (1, [IStr (takeWhile P s), IPos (length (takeWhile P s))]))"
  by (simp add: sscanf_def Let_def)

lemma sscanf_not_lit: "s \<noteq> [] \<Longrightarrow> hd s \<noteq> c \<Longrightarrow> sscanf s (SLit c # ds) = (0, [])"
  by (cases s) (simp_all add: sscanf_def)

lemma env_step_expand:
  assumes "cstr m q = Some (a @ CHR ''%'' # fl @ rest)" "CHR ''%'' \<notin> set a" "\<forall>x \<in> set fl. fmt_flag x"
    "rest = [] \<or> \<not> fmt_flag (hd rest)" "length fl + 2 \<le> MAXLEN_CFG_LINE"
  shows "env_step g n m q l = env_expand g n m (q + length a) fl (length fl) l"
proof -
  have s: "strchr (a @ CHR ''%'' # fl @ rest) (CHR ''%'') = Some (length a)" by (rule strchr_append[OF assms(2)])
  have tw: "takeWhile fmt_flag (fl @ rest) = fl" by (rule takeWhile_append_stop[OF assms(3,4)])
  show ?thesis using assms(5)
    by (simp add: env_step_def assms(1) s sscanf_flags tw str_item_def pos_item_def Let_def)
qed

lemma env_expand_skip: "cstr m (p + 1 + k) = Some s \<Longrightarrow> s \<noteq> [] \<Longrightarrow> hd s \<noteq> CHR ''E'' \<Longrightarrow>
    env_expand g n m p fl k l = Some (Inr (m, p + 1 + k, l))"
  by (cases s) (simp_all add: env_expand_def sscanf_def Let_def str_item_def)

lemma env_expand_eof: "cstr m (p + 1 + k) = Some [] \<Longrightarrow> arr_get m (int (p + 1 + k + k) - 1) = Some c \<Longrightarrow> c \<noteq> CHR '')'' \<Longrightarrow>
    env_expand g n m p fl k l = Some (Inl (-1, m))"
  by (simp add: env_expand_def Let_def sscanf_def str_item_def pos_item_def)

lemma env_loop_free:
  "env_free s \<Longrightarrow> NUL \<notin> set s \<Longrightarrow> length s < MAXLEN_CFG_LINE \<Longrightarrow>
    env_loop g n (p @ s @ NUL # r) (length p) l = Some (0, p @ s @ NUL # r)"
proof (induction s arbitrary: p l rule: length_induct)
  case (1 s)
  show ?case
  proof (cases "CHR ''%'' \<in> set s")
    case False
    then show ?thesis using 1 cstr_drop[of s p "length p" r] env_loop_done by simp
  next
    case True
    then obtain a t where a: "s = a @ CHR ''%'' # t" "CHR ''%'' \<notin> set a" by (meson split_list_first)
    define fl where "fl = takeWhile fmt_flag t"
    have ef: "env_free (CHR ''%'' # t)" using 1(2) env_free_append unfolding a(1) by blast
    then obtain c b where c: "dropWhile fmt_flag t = c # b" "c \<noteq> CHR ''E''" by (cases "dropWhile fmt_flag t") auto
    have t: "t = fl @ c # b" using c(1) unfolding fl_def by (metis takeWhile_dropWhile_id)
    have nc: "\<not> fmt_flag c" using hd_dropWhile[of fmt_flag t] unfolding c(1) by simp
    have fl: "\<forall>x \<in> set fl. fmt_flag x" unfolding fl_def by (auto dest: set_takeWhileD)
    have "env_free (a @ CHR ''%'' # fl @ c # b)" using 1(2) a(1) t by simp
    then have ecb: "env_free (c # b)" using env_free_append[of "a @ CHR ''%'' # fl" "c # b"] by simp
    let ?m = "p @ s @ NUL # r"
    have q: "cstr ?m (length p) = Some (a @ CHR ''%'' # fl @ c # b)"
      using cstr_drop[of s p "length p" r] 1(3) a(1) t by simp
    have q2: "cstr ?m (length p + length a + 1 + length fl) = Some (c # b)"
      using cstr_drop[of "c # b" "p @ a @ CHR ''%'' # fl" "length p + length a + 1 + length fl" r] 1(3) a(1) t by simp
    have "env_step g n ?m (length p) l = env_expand g n ?m (length p + length a) fl (length fl) l"
      by (rule env_step_expand[OF q a(2) fl]) (use nc 1(4) a(1) t in auto)
    also have "\<dots> = Some (Inr (?m, length p + length a + 1 + length fl, l))"
      by (rule env_expand_skip[OF q2]) (use c(2) in auto)
    finally have "env_step g n ?m (length p) l = Some (Inr (?m, length p + length a + 1 + length fl, l))" .
    then have "env_loop g n (p @ s @ NUL # r) (length p) l =
        env_loop g n (p @ s @ NUL # r) (length p + length a + 1 + length fl) l"
      by (subst env_loop.simps) simp
    also have "\<dots> = Some (0, p @ s @ NUL # r)"
      using 1(1)[rule_format, of "c # b" "p @ a @ CHR ''%'' # fl" l] ecb 1(3,4) a(1) t by (simp add: add.assoc)
    finally show ?thesis .
  qed
qed

lemma replace_env_free:
  assumes "env_free s" "NUL \<notin> set s" "length s < MAXLEN_CFG_LINE"
  shows "zc_str_replace_env g n (s @ NUL # r) = Some (0, s @ NUL # r)"
  using cstr_append[OF assms(2)] env_loop_free[OF assms, of g n "[]"] by (simp add: zc_str_replace_env_def)

text \<open>
  A text that ends in \<open>%\<close>, such as a pattern that prints a percent sign last (\<open>...%%\<close>), is rejected: at the
  end of the text \<open>sscanf\<close> returns EOF, not 0, and the search for the closing parenthesis fails.
\<close>

theorem replace_env_last_percent:
  assumes "env_free s" "NUL \<notin> set s" "CHR ''%'' \<notin> set s" "length s < MAXLEN_CFG_LINE"
  shows "zc_str_replace_env g n (s @ ''%%'' @ NUL # r) = Some (-1, s @ ''%%'' @ NUL # r)"
proof -
  have c0: "cstr (s @ ''%%'' @ NUL # r) 0 = Some (s @ ''%%'')"
    using cstr_append[of "s @ ''%%''" r] assms(2) by simp
  let ?m = "s @ ''%%'' @ NUL # r"
  have q: "cstr ?m (length s + 1) = Some ''%''" using cstr_drop[of "''%''" "s @ ''%''" "length s + 1" r] by simp
  have q2: "cstr ?m (length s + 2) = Some []" using cstr_drop[of "[]" "s @ ''%%''" "length s + 2" r] by simp
  have get: "arr_get ?m (int (length s + 2) - 1) = Some (CHR ''%'')" by (simp add: arr_get_def nth_append nat_add_distrib)
  have fl: "\<not> fmt_flag (CHR ''%'')" by (simp add: fmt_flag_def isdigit_def)
  have "env_step g n ?m 0 l = Some (Inr (?m, length s + 1, l))" for l
    using env_step_expand[of ?m 0 s "[]" "''%''" g n l] env_expand_skip[of ?m "length s" 0 "''%''" g n "[]" l] c0 q assms(3) fl
    by (simp add: MAXLEN_CFG_LINE_def)
  moreover have "env_step g n ?m (length s + 1) l = Some (Inl (-1, ?m))" for l
    using env_step_expand[of ?m "length s + 1" "[]" "[]" "[]" g n l] env_expand_eof[of ?m "length s + 1" 0 "CHR ''%''" g n "[]" l] q q2 get
    by (simp add: MAXLEN_CFG_LINE_def)
  ultimately show ?thesis using c0
    by (simp add: zc_str_replace_env_def) (subst env_loop.simps, simp, subst env_loop.simps, simp)
qed

theorem replace_env_last_percent_witness:
  "zc_str_replace_env (\<lambda>k. None) 40 (''100%%'' @ NUL # replicate 34 (CHR ''x'')) = Some (-1, ''100%%'' @ NUL # replicate 34 (CHR ''x''))"
  using replace_env_last_percent[of "''100''" "\<lambda>k. None" 40 "replicate 34 (CHR ''x'')"] by (simp add: MAXLEN_CFG_LINE_def)

end
