(* ===== verification/Level.thy ===== *)
theory Level
  imports CLib Arraylist Zutil
begin

text \<open>
  \<open>level.c\<close> and \<open>level_list.c\<close>: a log level (its number, its name in both cases, its syslog
  priority), the parser of the \<open>[levels]\<close> lines of the configuration, and the list of levels, indexed
  by number.
\<close>

section \<open>Levels\<close>

record level =
  int_level :: int
  str_uppercase :: string
  str_lowercase :: string
  level_str_len :: nat
  syslog_level :: int

definition MAXLEN_PATH :: nat where
  "MAXLEN_PATH = 1024"

definition LOG_ERR :: int where "LOG_ERR = 3"
definition LOG_INFO :: int where "LOG_INFO = 6"
definition LOG_DEBUG :: int where "LOG_DEBUG = 7"

definition syslog_level_atoi :: "string \<Rightarrow> int" where
  "syslog_level_atoi str =
     (if stricmp_eq str ''LOG_EMERG'' then 0
      else if stricmp_eq str ''LOG_ALERT'' then 1
      else if stricmp_eq str ''LOG_CRIT'' then 2
      else if stricmp_eq str ''LOG_ERR'' then LOG_ERR
      else if stricmp_eq str ''LOG_WARNING'' then 4
      else if stricmp_eq str ''LOG_NOTICE'' then 5
      else if stricmp_eq str ''LOG_INFO'' then LOG_INFO
      else if stricmp_eq str ''LOG_DEBUG'' then LOG_DEBUG
      else -187)"

definition int32 :: "int \<Rightarrow> bool" where
  "int32 i \<longleftrightarrow> - (2 ^ 31) \<le> i \<and> i < 2 ^ 31"

text \<open>The format \<open> %[^= \t] = %d ,%s\<close>.\<close>

definition level_format :: "scan_dir list" where
  "level_format = [SWs, SSet (\<lambda>c. c \<noteq> CHR ''='' \<and> c \<noteq> CHR '' '' \<and> c \<noteq> CHR 0x09), SWs, SLit (CHR ''=''), SWs,
     SInt, SWs, SLit (CHR '',''), SWord]"

text \<open>\<open>None\<close>: a word longer than its buffer, or a number \<open>%d\<close> cannot represent.\<close>

definition zlog_level_new :: "string \<Rightarrow> outcomes \<Rightarrow> (level option \<times> outcomes) option" where
  "zlog_level_new line orc =
     (let r = sscanf line level_format; nscan = fst r;
          str = str_item (snd r) 0 []; l = int_item (snd r) 1 0; sl = str_item (snd r) 2 [] in
      if MAXLEN_CFG_LINE < length str \<or> MAXLEN_CFG_LINE < length sl \<or> \<not> int32 l then None
      else if nscan < 2 then Some (None, orc)
      else if l < 0 \<or> l > 255 then Some (None, orc)
      else if str = [] then Some (None, orc)
      else let (ok, orc1) = ask orc in
        if \<not> ok then Some (None, orc1)
        else let sys = (if sl = [] then LOG_DEBUG else syslog_level_atoi sl) in
          if sl \<noteq> [] \<and> sys = -187 then Some (None, orc1)
          else if MAXLEN_PATH < length str then Some (None, orc1)
          else Some (Some \<lparr>int_level = l, str_uppercase = map toupper str, str_lowercase = map tolower str,
                           level_str_len = length str, syslog_level = sys\<rparr>, orc1))"

text \<open>\<open>zlog_level_del\<close> frees the level; the deletions are returned where they happen.\<close>

lemma zlog_level_new_alloc:
  "zlog_level_new line [] = Some (Some a, []) \<Longrightarrow>
     zlog_level_new line orc = Some (if fst (ask orc) then Some a else None, snd (ask orc))"
  by (cases "ask orc") (auto simp: zlog_level_new_def Let_def split: if_splits)

lemma zlog_level_new_range:
  "zlog_level_new line orc = Some (Some a, orc') \<Longrightarrow>
     0 \<le> int_level a \<and> int_level a \<le> 255 \<and> str_uppercase a \<noteq> [] \<and> length (str_uppercase a) \<le> MAXLEN_PATH
     \<and> level_str_len a = length (str_uppercase a)"
  by (auto simp: zlog_level_new_def Let_def split: if_splits prod.splits)

lemma level_line_scan:
  assumes name: "name \<noteq> []" "\<forall>c \<in> set name. c \<noteq> CHR ''='' \<and> \<not> isspace c"
    and sl: "sl \<noteq> []" "\<forall>c \<in> set sl. \<not> isspace c"
  shows "sscanf (name @ '' = '' @ dec n @ '', '' @ sl) level_format = (3, [IStr name, IInt (int n), IStr sl])"
proof -
  let ?P = "\<lambda>c. c \<noteq> CHR ''='' \<and> c \<noteq> CHR '' '' \<and> c \<noteq> CHR 0x09"
  let ?r = "'' = '' @ dec n @ '', '' @ sl"
  obtain d ds where d: "dec n = d # ds" by (cases "dec n") auto
  have dd: "\<not> isspace d" using dec_isdigit[of d n] d isdigit_not_isspace by simp
  have sp: "isspace (CHR '' '')" "\<not> isspace (CHR ''='')" "\<not> isspace (CHR '','')" "isspace (CHR 0x09)"
    by (simp_all add: isspace_def)
  have nm: "\<not> isspace (hd name)" using name by simp
  have nP: "\<forall>c \<in> set name. ?P c" using name(2) sp by metis
  have "scan level_format (name @ ?r) 0 0 =
      scan (SSet ?P # [SWs, SLit (CHR ''=''), SWs, SInt, SWs, SLit (CHR '',''), SWord]) (name @ ?r) 0 0"
    unfolding level_format_def by (rule scan_SWs_none) (use nm name in simp)
  also have "\<dots> = (let (r, its) = scan [SWs, SLit (CHR ''=''), SWs, SInt, SWs, SLit (CHR '',''), SWord] ?r
      (0 + length name) (0 + 1) in (r, IStr name # its))"
    by (rule scan_SSet_append) (use name nP in auto)
  also have "scan [SWs, SLit (CHR ''=''), SWs, SInt, SWs, SLit (CHR '',''), SWord] ?r (0 + length name) (0 + 1) =
      scan [SInt, SWs, SLit (CHR '',''), SWord] (dec n @ '', '' @ sl) (length name + 3) 1"
    using sp dd by (simp add: Let_def d numeral_3_eq_3 del: scan.simps(6))
  also have "\<dots> = (let (r, its) = scan [SWs, SLit (CHR '',''), SWord] ('', '' @ sl) (length name + 3 + length (dec n)) (1 + 1)
      in (r, IInt (int n) # its))"
    by (rule scan_SInt_dec) (simp add: isdigit_def)
  also have "scan [SWs, SLit (CHR '',''), SWord] ('', '' @ sl) (length name + 3 + length (dec n)) (1 + 1) = (3, [IStr sl])"
  proof -
    have "takeWhile isspace sl = []" using sl by (cases sl) auto
    moreover have t: "takeWhile (\<lambda>c. \<not> isspace c) sl = sl" using sl(2) by (simp add: takeWhile_eq_all_conv)
    ultimately show ?thesis using sp sl(1) by (simp add: Let_def t)
  qed
  finally show ?thesis by (simp add: sscanf_def)
qed

lemma level_new_line:
  assumes name: "name \<noteq> []" "\<forall>c \<in> set name. c \<noteq> CHR ''='' \<and> \<not> isspace c" "length name \<le> MAXLEN_PATH"
    and n: "n \<le> 255" and sl: "syslog_level_atoi sl \<noteq> -187" "\<forall>c \<in> set sl. \<not> isspace c"
      "length sl \<le> MAXLEN_CFG_LINE"
  shows "zlog_level_new (name @ '' = '' @ dec n @ '', '' @ sl) orc =
    Some (if fst (ask orc)
          then Some \<lparr>int_level = int n, str_uppercase = map toupper name, str_lowercase = map tolower name,
                     level_str_len = length name, syslog_level = syslog_level_atoi sl\<rparr>
          else None, snd (ask orc))"
proof -
  have "sl \<noteq> []" using sl(1) by (auto simp: syslog_level_atoi_def stricmp_eq_def)
  note sc = level_line_scan[OF name(1,2) this sl(2), of n]
  show ?thesis unfolding zlog_level_new_def sc
    using \<open>sl \<noteq> []\<close> name n sl
    by (simp add: str_item_def int_item_def MAXLEN_CFG_LINE_def MAXLEN_PATH_def int32_def split: prod.split)
qed

text \<open>
  A \<open>[levels]\<close> line \<open>NAME = n, LOG_X\<close> is read back exactly: the level has number \<open>n\<close>, the name in
  both cases, its length, and the syslog priority; without memory the function returns NULL.
\<close>

theorem zlog_level_new_line:
  assumes name: "name \<noteq> []" "\<forall>c \<in> set name. c \<noteq> CHR ''='' \<and> \<not> isspace c" "length name \<le> MAXLEN_PATH"
    and n: "n \<le> 255" and sl: "syslog_level_atoi sl \<noteq> -187" "\<forall>c \<in> set sl. \<not> isspace c"
      "length sl \<le> MAXLEN_CFG_LINE"
  shows "zlog_level_new (name @ '' = '' @ dec n @ '', '' @ sl) orc =
    Some (if fst (ask orc)
          then Some \<lparr>int_level = int n, str_uppercase = map toupper name, str_lowercase = map tolower name,
                     level_str_len = length name, syslog_level = syslog_level_atoi sl\<rparr>
          else None, snd (ask orc))"
  by (rule level_new_line[OF assms])

theorem zlog_level_new_line_witness:
  "zlog_level_new (''Trace'' @ '' = '' @ dec 30 @ '', '' @ ''log_debug'') [] =
    Some (Some \<lparr>int_level = 30, str_uppercase = map toupper ''Trace'', str_lowercase = map tolower ''Trace'',
                level_str_len = 5, syslog_level = 7\<rparr>, [])"
proof -
  have a: "syslog_level_atoi ''log_debug'' = 7" by code_simp
  show ?thesis using zlog_level_new_line[of "''Trace''" 30 "''log_debug''" "[]"]
    by (simp add: a isspace_def MAXLEN_PATH_def MAXLEN_CFG_LINE_def)
qed

section \<open>The list of levels\<close>

definition zlog_level_list_set :: "level arraylist \<Rightarrow> string \<Rightarrow> outcomes \<Rightarrow>
    (int \<times> level arraylist \<times> level list \<times> outcomes) option" where
  "zlog_level_list_set levels line orc = do {
     (a, orc1) \<leftarrow> zlog_level_new line orc;
     case a of
       None \<Rightarrow> Some (-1, levels, [], orc1)
     | Some a_level \<Rightarrow> do {
         (rc, levels1, freed, orc2) \<leftarrow> zc_arraylist_set levels (int_level a_level) (Some a_level) orc1;
         if rc \<noteq> 0 then Some (-1, levels1, freed @ [a_level], orc2)
         else Some (0, levels1, freed, orc2) } }"

text \<open>The chain of \<open>||\<close> of \<open>zlog_level_list_set_default\<close>: it stops at the first failure.\<close>

fun set_lines :: "level arraylist \<Rightarrow> string list \<Rightarrow> outcomes \<Rightarrow> (int \<times> level arraylist \<times> outcomes) option" where
  "set_lines levels [] orc = Some (0, levels, orc)"
| "set_lines levels (line # lines) orc = do {
     (rc, levels1, freed, orc1) \<leftarrow> zlog_level_list_set levels line orc;
     if rc \<noteq> 0 then Some (1, levels1, orc1) else set_lines levels1 lines orc1 }"

definition default_lines :: "string list" where
  "default_lines = [''* = 0, LOG_INFO'', ''DEBUG = 20, LOG_DEBUG'', ''INFO = 40, LOG_INFO'',
     ''NOTICE = 60, LOG_NOTICE'', ''WARN = 80, LOG_WARNING'', ''ERROR = 100, LOG_ERR'',
     ''FATAL = 120, LOG_ALERT'', ''UNKNOWN = 254, LOG_ERR'', ''! = 255, LOG_INFO'']"

definition zlog_level_list_set_default :: "level arraylist \<Rightarrow> outcomes \<Rightarrow> (int \<times> level arraylist \<times> outcomes) option" where
  "zlog_level_list_set_default levels orc = set_lines levels default_lines orc"

definition zlog_level_list_new :: "outcomes \<Rightarrow> (level arraylist option \<times> outcomes) option" where
  "zlog_level_list_new orc =
     (case zc_arraylist_new True orc of
        (None, orc1) \<Rightarrow> Some (None, orc1)
      | (Some levels, orc1) \<Rightarrow> do {
          (rc, levels1, orc2) \<leftarrow> zlog_level_list_set_default levels orc1;
          if rc \<noteq> 0 then Some (None, orc2) else Some (Some levels1, orc2) })"

definition zlog_level_list_get :: "level arraylist \<Rightarrow> int \<Rightarrow> level option option" where
  "zlog_level_list_get levels l = do {
     a \<leftarrow> zc_arraylist_get levels l;
     case a of Some a_level \<Rightarrow> Some (Some a_level) | None \<Rightarrow> zc_arraylist_get levels 254 }"

fun level_index :: "level option list \<Rightarrow> string \<Rightarrow> int \<Rightarrow> int" where
  "level_index [] str i = -1"
| "level_index (a # as) str i =
     (case a of
        Some a_level \<Rightarrow> if stricmp_eq str (str_uppercase a_level) then i else level_index as str (i + 1)
      | None \<Rightarrow> level_index as str (i + 1))"

definition zlog_level_list_atoi :: "level arraylist \<Rightarrow> string \<Rightarrow> int" where
  "zlog_level_list_atoi levels str =
     (if str = [] then -1 else level_index (zc_arraylist_foreach levels) str 0)"

text \<open>Slot \<open>i\<close> holds the level of number \<open>i\<close>.\<close>

definition slots_ok :: "level option list \<Rightarrow> bool" where
  "slots_ok xs \<longleftrightarrow> (\<forall>i < length xs. \<forall>a. xs ! i = Some a \<longrightarrow> int_level a = int i)"

definition ll_ok :: "level arraylist \<Rightarrow> bool" where
  "ll_ok ls \<longleftrightarrow> al_inv ls \<and> al_del ls \<and> slots_ok (zc_arraylist_foreach ls)"

text \<open>A level list after its construction: 256 slots, so that every number a line may name has one, and
  the slot of \<open>UNKNOWN\<close> is filled.\<close>

definition ll_inv :: "level arraylist \<Rightarrow> bool" where
  "ll_inv ls \<longleftrightarrow> ll_ok ls \<and> al_size ls = 256 \<and>
     254 < length (zc_arraylist_foreach ls) \<and> zc_arraylist_foreach ls ! 254 \<noteq> None"

lemma slots_ok_put:
  assumes "slots_ok xs" "int_level a = int i" shows "slots_ok (list_put xs i (Some a))"
proof -
  have "int_level b = int k" if "k < length (list_put xs i (Some a))" "list_put xs i (Some a) ! k = Some b" for k b
  proof (cases "k = i")
    case True
    then show ?thesis using that assms(2) by (auto simp: list_put_def nth_append split: if_splits)
  next
    case False
    then have "k < length xs" "xs ! k = Some b"
      using that by (auto simp: list_put_def nth_append split: if_splits)
    then show ?thesis using assms(1) by (simp add: slots_ok_def)
  qed
  then show ?thesis by (simp add: slots_ok_def)
qed

lemma list_put_nth: "list_put xs i d ! i = d" "i < length (list_put xs i d)"
  by (auto simp: list_put_def nth_append)

lemma list_put_keeps: "k < length xs \<Longrightarrow> k \<noteq> i \<Longrightarrow> list_put xs i d ! k = xs ! k \<and> k < length (list_put xs i d)"
  by (auto simp: list_put_def nth_append)

lemma level_set_spec:
  assumes ls: "ll_ok ls" and a: "zlog_level_new line orc = Some (Some a, orc1)" and fit: "int_level a < 2 * al_size ls"
  obtains rc ls' fr orc' where "zlog_level_list_set ls line orc = Some (rc, ls', fr, orc')" and "ll_ok ls'"
    and "rc \<noteq> 0 \<longrightarrow> ls' = ls \<and> al_size ls \<le> int_level a"
    and "rc = 0 \<longrightarrow> zc_arraylist_foreach ls' = list_put (zc_arraylist_foreach ls) (nat (int_level a)) (Some a)"
    and "rc = 0 \<longrightarrow> al_size ls' = (if al_size ls \<le> int_level a then 2 * al_size ls else al_size ls)"
proof -
  have inv: "al_inv ls" "al_del ls" "slots_ok (zc_arraylist_foreach ls)" using ls by (auto simp: ll_ok_def)
  have r: "0 \<le> int_level a" using zlog_level_new_range[OF a] by simp
  note result = that
  show ?thesis
  proof (rule zc_arraylist_set_spec[OF inv(1) r fit, of "Some a" orc1])
    fix rc l' fr orc'
    assume s: "zc_arraylist_set ls (int_level a) (Some a) orc1 = Some (rc, l', fr, orc')" "al_inv l'"
      "al_del l' = al_del ls" "rc \<noteq> 0 \<longrightarrow> rc = - 1 \<and> l' = ls \<and> fr = [] \<and> al_size ls \<le> int_level a"
      "rc = 0 \<longrightarrow> zc_arraylist_foreach l' = list_put (zc_arraylist_foreach ls) (nat (int_level a)) (Some a)"
      "rc = 0 \<longrightarrow> al_size l' = (if al_size ls \<le> int_level a then 2 * al_size ls else al_size ls)"
    have ok: "ll_ok l'"
    proof (cases "rc = 0")
      case True
      then show ?thesis using s inv r slots_ok_put[OF inv(3), of a "nat (int_level a)"] by (simp add: ll_ok_def)
    next
      case False
      then show ?thesis using s ls by simp
    qed
    have e: "zlog_level_list_set ls line orc =
        Some (if rc \<noteq> 0 then (-1, l', fr @ [a], orc') else (0, l', fr, orc'))"
      by (simp add: zlog_level_list_set_def a s(1))
    show thesis
      using result[of "if rc \<noteq> 0 then -1 else 0" l' "if rc \<noteq> 0 then fr @ [a] else fr" orc'] e ok s(4-6) by auto
  qed
qed

lemma level_set_inv:
  assumes ls: "ll_inv ls" and a: "zlog_level_new line orc = Some (a, orc1)"
  obtains rc ls' fr orc' where "zlog_level_list_set ls line orc = Some (rc, ls', fr, orc')" and "ll_inv ls'"
    and "rc = 0 \<longleftrightarrow> a \<noteq> None" and "a = None \<longrightarrow> ls' = ls"
    and "\<forall>x. a = Some x \<longrightarrow> zc_arraylist_foreach ls' = list_put (zc_arraylist_foreach ls) (nat (int_level x)) a"
proof (cases a)
  case None
  then show ?thesis using that[of "-1" ls "[]" orc1] ls a by (simp add: zlog_level_list_set_def)
next
  case (Some x)
  have i: "ll_ok ls" "al_size ls = 256" "254 < length (zc_arraylist_foreach ls)" "zc_arraylist_foreach ls ! 254 \<noteq> None"
    using ls by (auto simp: ll_inv_def)
  have r: "0 \<le> int_level x" "int_level x \<le> 255" using zlog_level_new_range a Some by auto
  note result = that
  show ?thesis
  proof (rule level_set_spec[OF i(1) a[unfolded Some]])
    show "int_level x < 2 * al_size ls" using r i by simp
    fix rc ls' fr orc'
    assume s: "zlog_level_list_set ls line orc = Some (rc, ls', fr, orc')" "ll_ok ls'"
      "rc \<noteq> 0 \<longrightarrow> ls' = ls \<and> al_size ls \<le> int_level x"
      "rc = 0 \<longrightarrow> zc_arraylist_foreach ls' = list_put (zc_arraylist_foreach ls) (nat (int_level x)) (Some x)"
      "rc = 0 \<longrightarrow> al_size ls' = (if al_size ls \<le> int_level x then 2 * al_size ls else al_size ls)"
    have rc: "rc = 0" using s(3) r i(2) by auto
    have "254 < length (zc_arraylist_foreach ls') \<and> zc_arraylist_foreach ls' ! 254 \<noteq> None"
    proof (cases "nat (int_level x) = 254")
      case True
      then show ?thesis using s(4) rc list_put_nth[where xs = "zc_arraylist_foreach ls" and i = 254 and d = "Some x"] by simp
    next
      case False
      then show ?thesis using s(4) rc i(3,4) list_put_keeps[OF i(3)] by auto
    qed
    then have "ll_inv ls'" using s rc r i by (simp add: ll_inv_def)
    then show thesis using result[OF s(1)] rc s(4) Some by simp
  qed
qed

text \<open>The defaults, one line at a time: what the line parses to.\<close>

definition default_levels :: "level list" where
  "default_levels = map (\<lambda>(s, t, i, y). \<lparr>int_level = i, str_uppercase = s, str_lowercase = t, level_str_len = length s, syslog_level = y\<rparr>)
    [(''*'', ''*'', 0, 6), (''DEBUG'', ''debug'', 20, 7), (''INFO'', ''info'', 40, 6), (''NOTICE'', ''notice'', 60, 5),
     (''WARN'', ''warn'', 80, 4), (''ERROR'', ''error'', 100, 3), (''FATAL'', ''fatal'', 120, 1),
     (''UNKNOWN'', ''unknown'', 254, 3), (''!'', ''!'', 255, 6)]"

lemmas level_eval = zlog_level_new_def Let_def syslog_level_atoi_def clib char_eval
  LOG_ERR_def LOG_INFO_def LOG_DEBUG_def MAXLEN_CFG_LINE_def MAXLEN_PATH_def int32_def

lemma default_scan:
  "sscanf ''* = 0, LOG_INFO'' level_format = (3, [IStr ''*'', IInt 0, IStr ''LOG_INFO''])"
  "sscanf ''DEBUG = 20, LOG_DEBUG'' level_format = (3, [IStr ''DEBUG'', IInt 20, IStr ''LOG_DEBUG''])"
  "sscanf ''INFO = 40, LOG_INFO'' level_format = (3, [IStr ''INFO'', IInt 40, IStr ''LOG_INFO''])"
  "sscanf ''NOTICE = 60, LOG_NOTICE'' level_format = (3, [IStr ''NOTICE'', IInt 60, IStr ''LOG_NOTICE''])"
  "sscanf ''WARN = 80, LOG_WARNING'' level_format = (3, [IStr ''WARN'', IInt 80, IStr ''LOG_WARNING''])"
  "sscanf ''ERROR = 100, LOG_ERR'' level_format = (3, [IStr ''ERROR'', IInt 100, IStr ''LOG_ERR''])"
  "sscanf ''FATAL = 120, LOG_ALERT'' level_format = (3, [IStr ''FATAL'', IInt 120, IStr ''LOG_ALERT''])"
  "sscanf ''UNKNOWN = 254, LOG_ERR'' level_format = (3, [IStr ''UNKNOWN'', IInt 254, IStr ''LOG_ERR''])"
  "sscanf ''! = 255, LOG_INFO'' level_format = (3, [IStr ''!'', IInt 255, IStr ''LOG_INFO''])"
  by (simp_all add: clib level_format_def Let_def)

lemma default_new:
  "zlog_level_new ''* = 0, LOG_INFO'' [] = Some (Some (default_levels ! 0), [])"
  "zlog_level_new ''DEBUG = 20, LOG_DEBUG'' [] = Some (Some (default_levels ! 1), [])"
  "zlog_level_new ''INFO = 40, LOG_INFO'' [] = Some (Some (default_levels ! 2), [])"
  "zlog_level_new ''NOTICE = 60, LOG_NOTICE'' [] = Some (Some (default_levels ! 3), [])"
  "zlog_level_new ''WARN = 80, LOG_WARNING'' [] = Some (Some (default_levels ! 4), [])"
  "zlog_level_new ''ERROR = 100, LOG_ERR'' [] = Some (Some (default_levels ! 5), [])"
  "zlog_level_new ''FATAL = 120, LOG_ALERT'' [] = Some (Some (default_levels ! 6), [])"
  "zlog_level_new ''UNKNOWN = 254, LOG_ERR'' [] = Some (Some (default_levels ! 7), [])"
  "zlog_level_new ''! = 255, LOG_INFO'' [] = Some (Some (default_levels ! 8), [])"
  unfolding zlog_level_new_def default_scan by (simp_all add: level_eval default_levels_def)

lemma default_parse: "map (\<lambda>line. zlog_level_new line []) default_lines = map (\<lambda>a. Some (Some a, [])) default_levels"
proof -
  have l: "default_levels = map (\<lambda>i. default_levels ! i) [0, 1, 2, 3, 4, 5, 6, 7, 8]"
    by (simp add: default_levels_def)
  show ?thesis by (subst l) (simp only: default_lines_def list.map default_new)
qed

fun grows :: "int \<Rightarrow> int list \<Rightarrow> bool" where
  "grows s [] = (s = 256)"
| "grows s (i # is) = (i < 2 * s \<and> grows (if s \<le> i then 2 * s else s) is)"

lemma set_lines_spec:
  assumes "ll_ok ls" "length lines = length as"
    and "map (\<lambda>line. zlog_level_new line []) lines = map (\<lambda>a. Some (Some a, [])) as"
    and "grows (al_size ls) (map int_level as)"
  shows "\<exists>rc ls' orc'. set_lines ls lines orc = Some (rc, ls', orc') \<and>
    (rc = 0 \<longrightarrow> ll_ok ls' \<and> al_size ls' = 256 \<and> 
       zc_arraylist_foreach ls' = foldl (\<lambda>xs a. list_put xs (nat (int_level a)) (Some a)) (zc_arraylist_foreach ls) as)"
  using assms
proof (induction lines arbitrary: ls as orc)
  case Nil
  then show ?case by simp
next
  case (Cons line lines)
  obtain a as' where as: "as = a # as'" using Cons.prems(2) by (cases as) auto
  have ne: "zlog_level_new line [] = Some (Some a, [])" using Cons.prems(3) as by simp
  show ?case
  proof (cases "fst (ask orc)")
    case False
    then have "zlog_level_list_set ls line orc = Some (-1, ls, [], snd (ask orc))"
      by (simp add: zlog_level_list_set_def zlog_level_new_alloc[OF ne])
    then show ?thesis by simp
  next
    case True
    then have n: "zlog_level_new line orc = Some (Some a, snd (ask orc))" by (simp add: zlog_level_new_alloc[OF ne])
    show ?thesis
    proof (rule level_set_spec[OF Cons.prems(1) n])
      show "int_level a < 2 * al_size ls" using Cons.prems(4) as by simp
      fix rc ls' fr orc'
      assume s: "zlog_level_list_set ls line orc = Some (rc, ls', fr, orc')" "ll_ok ls'"
        "rc \<noteq> 0 \<longrightarrow> ls' = ls \<and> al_size ls \<le> int_level a"
        "rc = 0 \<longrightarrow> zc_arraylist_foreach ls' = list_put (zc_arraylist_foreach ls) (nat (int_level a)) (Some a)"
        "rc = 0 \<longrightarrow> al_size ls' = (if al_size ls \<le> int_level a then 2 * al_size ls else al_size ls)"
      show ?thesis
      proof (cases "rc = 0")
        case False
        then show ?thesis using s(1) by simp
      next
        case True
        then have "grows (al_size ls') (map int_level as')" using s(5) Cons.prems(4) as by simp
        then show ?thesis using Cons.IH[OF s(2), of as' orc'] Cons.prems(2,3) as s(1,4) True by simp
      qed
    qed
  qed
qed

lemma level_list_new_spec:
  obtains r orc' where "zlog_level_list_new orc = Some (r, orc')"
    and "\<forall>ls. r = Some ls \<longrightarrow> ll_inv ls \<and> zc_arraylist_foreach ls =
           foldl (\<lambda>xs a. list_put xs (nat (int_level a)) (Some a)) [] default_levels"
proof (cases "zc_arraylist_new True orc :: level arraylist option \<times> outcomes")
  case (Pair r0 orc1)
  note result = that
  show ?thesis
  proof (cases r0)
    case None
    then show ?thesis using result[of None orc1] Pair by (simp add: zlog_level_list_new_def)
  next
    case (Some ls)
    have i: "al_inv ls" "zc_arraylist_foreach ls = []" "al_del ls"
      using zc_arraylist_new_inv[OF Pair[unfolded Some]] by auto
    have sz: "al_size ls = 32" using Pair[unfolded Some]
      by (auto simp: zc_arraylist_new_def ARRAY_LIST_DEFAULT_SIZE_def Let_def split: prod.splits if_splits)
    have ok: "ll_ok ls" using i by (simp add: ll_ok_def slots_ok_def)
    have gr: "grows (al_size ls) (map int_level default_levels)" unfolding sz by code_simp
    have "length default_lines = length default_levels" by code_simp
    then obtain rc ls' orc' where s: "set_lines ls default_lines orc1 = Some (rc, ls', orc')"
      "rc = 0 \<longrightarrow> ll_ok ls' \<and> al_size ls' = 256 \<and> 
       zc_arraylist_foreach ls' = foldl (\<lambda>xs a. list_put xs (nat (int_level a)) (Some a)) [] default_levels"
      using set_lines_spec[OF ok _ default_parse gr, of orc1] i(2) by auto
    have "254 < length (foldl (\<lambda>xs a. list_put xs (nat (int_level a)) (Some a)) [] default_levels) \<and>
       foldl (\<lambda>xs a. list_put xs (nat (int_level a)) (Some a)) [] default_levels ! 254 \<noteq> None" by code_simp
    then show ?thesis
      using result[of "if rc \<noteq> 0 then None else Some ls'" orc'] s Pair Some
      by (simp add: zlog_level_list_new_def zlog_level_list_set_default_def ll_inv_def)
  qed
qed

lemma level_index_spec:
  "level_index as str i = -1 \<and> (\<forall>k < length as. \<forall>a. as ! k = Some a \<longrightarrow> \<not> stricmp_eq str (str_uppercase a)) \<or>
   (\<exists>k < length as. \<exists>a. level_index as str i = i + int k \<and> as ! k = Some a \<and> stricmp_eq str (str_uppercase a) \<and>
      (\<forall>j < k. \<forall>b. as ! j = Some b \<longrightarrow> \<not> stricmp_eq str (str_uppercase b)))"
  (is "?none as i \<or> ?first as i")
proof (induction as arbitrary: i)
  case (Cons a as)
  show ?case
  proof (cases "\<exists>x. a = Some x \<and> stricmp_eq str (str_uppercase x)")
    case True
    then have "?first (a # as) i" by (intro exI[of _ 0]) auto
    then show ?thesis ..
  next
    case False
    then have e: "level_index (a # as) str i = level_index as str (i + 1)" by (cases a) auto
    from Cons.IH[of "i + 1"] show ?thesis
    proof
      assume h: "?none as (i + 1)"
      have "?none (a # as) i"
      proof (intro conjI allI impI)
        fix k x assume k: "k < length (a # as)" "(a # as) ! k = Some x"
        then show "\<not> stricmp_eq str (str_uppercase x)" using False h by (cases k) auto
      qed (use h e in simp)
      then show ?thesis ..
    next
      assume "?first as (i + 1)"
      then obtain k b where k: "k < length as" "level_index as str (i + 1) = i + 1 + int k" "as ! k = Some b"
        "stricmp_eq str (str_uppercase b)" "\<forall>j < k. \<forall>b. as ! j = Some b \<longrightarrow> \<not> stricmp_eq str (str_uppercase b)"
        by auto
      have "\<not> stricmp_eq str (str_uppercase x)" if "j < Suc k" "(a # as) ! j = Some x" for j x
        using that False k(5) by (cases j) auto
      then have "?first (a # as) i" using k e by (intro exI[of _ "Suc k"]) auto
      then show ?thesis ..
    qed
  qed
qed simp

lemma ll_get: "al_inv ls \<Longrightarrow> 0 \<le> l \<Longrightarrow> zc_arraylist_get ls l =
    Some (if nat l < length (zc_arraylist_foreach ls) then zc_arraylist_foreach ls ! nat l else None)"
  by (auto simp: zc_arraylist_get_def ub_simps foreach_nth al_inv_def)

lemma list_put_other:
  assumes "k \<noteq> i"
  shows "(if k < length (list_put xs i d) then list_put xs i d ! k else None) = (if k < length xs then xs ! k else None)"
proof -
  consider "i < length xs" | "length xs \<le> i" "k < length xs" | "length xs \<le> i" "length xs \<le> k" "k < i" | "length xs \<le> i" "i < k"
    using assms by linarith
  then show ?thesis
    by cases (use assms in \<open>auto simp: list_put_def nth_append\<close>)
qed

lemma level_get: "ll_inv ls \<Longrightarrow> 0 \<le> l \<Longrightarrow> zlog_level_list_get ls l =
    Some (if nat l < length (zc_arraylist_foreach ls) \<and> zc_arraylist_foreach ls ! nat l \<noteq> None
          then zc_arraylist_foreach ls ! nat l else zc_arraylist_foreach ls ! 254)"
  by (auto simp: zlog_level_list_get_def ll_get ll_inv_def ll_ok_def split: option.splits)

lemma level_get_level:
  assumes "ll_inv ls" "0 \<le> l"
  obtains a where "zlog_level_list_get ls l = Some (Some a)" and "int_level a \<in> {l, 254}"
    and "Some a \<in> set (zc_arraylist_foreach ls)"
proof -
  let ?xs = "zc_arraylist_foreach ls"
  have s: "slots_ok ?xs" "254 < length ?xs" "?xs ! 254 \<noteq> None" using assms(1) by (auto simp: ll_inv_def ll_ok_def)
  show ?thesis
  proof (cases "nat l < length ?xs \<and> ?xs ! nat l \<noteq> None")
    case True
    then obtain a where a: "?xs ! nat l = Some a" by auto
    then have "int_level a = l" using True s(1) assms(2) by (simp add: slots_ok_def)
    then show ?thesis using that[of a] level_get[OF assms] True a nth_mem[of "nat l" ?xs] by simp
  next
    case False
    obtain a where a: "?xs ! 254 = Some a" using s(3) by auto
    then have "int_level a = 254" using s(1,2) by (auto simp: slots_ok_def)
    then show ?thesis using that[of a] level_get[OF assms] False a nth_mem[of 254 ?xs] s(2) by simp
  qed
qed

lemma level_atoi_spec:
  assumes "str \<noteq> []"
  shows "zlog_level_list_atoi ls str = -1 \<and>
           (\<forall>a. Some a \<in> set (zc_arraylist_foreach ls) \<longrightarrow> \<not> stricmp_eq str (str_uppercase a)) \<or>
    (\<exists>k < length (zc_arraylist_foreach ls). \<exists>a. zlog_level_list_atoi ls str = int k \<and>
        zc_arraylist_foreach ls ! k = Some a \<and> stricmp_eq str (str_uppercase a))"
  using level_index_spec[of "zc_arraylist_foreach ls" str 0] assms
  by (auto simp: zlog_level_list_atoi_def in_set_conv_nth)

lemma foldl_put_slots: "slots_ok xs \<Longrightarrow> \<forall>a \<in> set as. 0 \<le> int_level a \<Longrightarrow>
    slots_ok (foldl (\<lambda>xs a. list_put xs (nat (int_level a)) (Some a)) xs as)"
  by (induction as arbitrary: xs) (auto simp: slots_ok_put)

text \<open>The default list, as a value.\<close>

definition default_list :: "level arraylist" where
  "default_list = \<lparr>al_array = foldl (\<lambda>xs a. list_put xs (nat (int_level a)) (Some a)) [] default_levels,
     al_len = 256, al_size = 256, al_del = True\<rparr>"

lemma default_list_inv: "ll_inv default_list"
proof -
  let ?xs = "foldl (\<lambda>xs a. list_put xs (nat (int_level a)) (Some a)) [] default_levels"
  have x: "length ?xs = 256" "?xs ! 254 \<noteq> None" by code_simp+
  have "slots_ok ?xs" by (rule foldl_put_slots) (simp_all add: slots_ok_def default_levels_def)
  then show ?thesis using x by (simp add: ll_inv_def ll_ok_def al_inv_def default_list_def zc_arraylist_foreach_def)
qed

text \<open>
  Building the level list: for every pattern of allocation failures \<open>zlog_level_list_new\<close> is
  defined (no slot outside the array is touched while it grows from 32 to 256 slots); unless it
  returns NULL the list satisfies its invariant and looks up the default levels.
\<close>

theorem zlog_level_list_new_ok:
  "\<exists>r orc'. zlog_level_list_new orc = Some (r, orc') \<and>
     (case r of None \<Rightarrow> True
      | Some ls \<Rightarrow> ll_inv ls \<and> zlog_level_list_atoi ls ''info'' = 40 \<and>
          zlog_level_list_get ls 100 = Some (Some \<lparr>int_level = 100, str_uppercase = ''ERROR'',
             str_lowercase = ''error'', level_str_len = 5, syslog_level = LOG_ERR\<rparr>) \<and>
          zlog_level_list_get ls 7 = zlog_level_list_get ls 254)"
proof (rule level_list_new_spec[of orc])
  fix r orc'
  assume a: "zlog_level_list_new orc = Some (r, orc')" "\<forall>ls. r = Some ls \<longrightarrow> ll_inv ls \<and> zc_arraylist_foreach ls =
           foldl (\<lambda>xs a. list_put xs (nat (int_level a)) (Some a)) [] default_levels"
  let ?xs = "foldl (\<lambda>xs a. list_put xs (nat (int_level a)) (Some a)) [] default_levels"
  have "level_index ?xs ''info'' 0 = 40 \<and> 100 < length ?xs \<and> 7 < length ?xs \<and> ?xs ! 100 = Some \<lparr>int_level = 100, str_uppercase = ''ERROR'',
             str_lowercase = ''error'', level_str_len = 5, syslog_level = LOG_ERR\<rparr> \<and> ?xs ! 7 = None"
    by code_simp
  then show ?thesis using a by (auto simp: level_get zlog_level_list_atoi_def split: option.split)
qed

text \<open>
  A \<open>[levels]\<close> line on a built list: never undefined; a line that is rejected changes nothing, a line
  that parses puts its level into the slot of its number, keeps every other slot and the invariant
  (the number of a line is at most 255, inside the 256 slots).
\<close>

theorem zlog_level_list_set_ok:
  assumes ls: "ll_inv ls" and a: "zlog_level_new line orc = Some (a, orc1)"
  shows "\<exists>rc ls' fr orc'. zlog_level_list_set ls line orc = Some (rc, ls', fr, orc') \<and> ll_inv ls' \<and>
    (case a of None \<Rightarrow> rc = -1 \<and> ls' = ls
     | Some x \<Rightarrow> rc = 0 \<and> zlog_level_list_get ls' (int_level x) = Some (Some x) \<and>
         (\<forall>l. 0 \<le> l \<longrightarrow> l \<noteq> int_level x \<longrightarrow> zc_arraylist_get ls' l = zc_arraylist_get ls l))"
proof (rule level_set_inv[OF ls a])
  fix rc ls' fr orc'
  assume s: "zlog_level_list_set ls line orc = Some (rc, ls', fr, orc')" "ll_inv ls'"
    "(rc = 0) = (a \<noteq> None)" "a = None \<longrightarrow> ls' = ls"
    "\<forall>x. a = Some x \<longrightarrow> zc_arraylist_foreach ls' = list_put (zc_arraylist_foreach ls) (nat (int_level x)) a"
  have inv: "al_inv ls" "al_inv ls'" using ls s(2) by (auto simp: ll_inv_def ll_ok_def)
  show ?thesis
  proof (cases a)
    case None
    then have "rc = -1" using s(1) a by (simp add: zlog_level_list_set_def)
    then show ?thesis using None s by simp
  next
    case (Some x)
    let ?i = "nat (int_level x)"
    have r: "0 \<le> int_level x" using zlog_level_new_range a Some by auto
    have f: "zc_arraylist_foreach ls' = list_put (zc_arraylist_foreach ls) ?i (Some x)" using s(5) Some by simp
    have g: "zlog_level_list_get ls' (int_level x) = Some (Some x)"
      by (simp add: level_get[OF s(2) r] f list_put_nth del: length_foreach)
    have "zc_arraylist_get ls' l = zc_arraylist_get ls l" if l: "0 \<le> l" "l \<noteq> int_level x" for l
    proof -
      have "nat l \<noteq> ?i" using l r by simp
      then have "(if nat l < length (list_put (zc_arraylist_foreach ls) ?i (Some x))
          then list_put (zc_arraylist_foreach ls) ?i (Some x) ! nat l else None) =
        (if nat l < length (zc_arraylist_foreach ls) then zc_arraylist_foreach ls ! nat l else None)"
        by (rule list_put_other)
      then show ?thesis unfolding ll_get[OF inv(1) l(1)] ll_get[OF inv(2) l(1)] f by (rule arg_cong)
    qed
    then show ?thesis using s(1-3) g Some by simp
  qed
qed

text \<open>
  \<open>zlog_level_list_get\<close> on a built list answers every number from 0 up: with the level of that
  number, or with level 254 when there is none. For a negative number it reads in front of the array.
\<close>

theorem zlog_level_list_get_total:
  assumes "ll_inv ls"
  shows "(\<forall>l \<ge> 0. \<exists>a. zlog_level_list_get ls l = Some (Some a) \<and>
           int_level a = (case zc_arraylist_get ls l of Some (Some _) \<Rightarrow> l | _ \<Rightarrow> 254))
       \<and> (\<forall>l < 0. zlog_level_list_get ls l = None)"
proof (intro conjI allI impI)
  have inv: "al_inv ls" "slots_ok (zc_arraylist_foreach ls)" "254 < length (zc_arraylist_foreach ls)"
    "zc_arraylist_foreach ls ! 254 \<noteq> None" using assms by (auto simp: ll_inv_def ll_ok_def)
  obtain u where u: "zc_arraylist_foreach ls ! 254 = Some u" "int_level u = 254"
    using inv by (auto simp: slots_ok_def)
  fix l :: int assume l: "0 \<le> l"
  show "\<exists>a. zlog_level_list_get ls l = Some (Some a) \<and>
           int_level a = (case zc_arraylist_get ls l of Some (Some _) \<Rightarrow> l | _ \<Rightarrow> 254)"
  proof (cases "nat l < length (zc_arraylist_foreach ls)")
    case True
    then show ?thesis using level_get[OF assms l] ll_get[OF inv(1) l] inv(2) l u
      by (cases "zc_arraylist_foreach ls ! nat l") (auto simp: slots_ok_def simp del: length_foreach)
  next
    case False
    then show ?thesis using level_get[OF assms l] ll_get[OF inv(1) l] u by (simp del: length_foreach)
  qed
next
  fix l :: int assume "l < 0"
  moreover have "0 \<le> al_len ls" using assms by (simp add: ll_inv_def ll_ok_def al_inv_def)
  ultimately show "zlog_level_list_get ls l = None"
    by (simp add: zlog_level_list_get_def zc_arraylist_get_def arr_get_def)
qed

theorem zlog_level_list_set_ok_witness:
  "\<exists>rc ls' fr orc'. zlog_level_list_set default_list ''NOTICE = 60, LOG_NOTICE'' [] = Some (rc, ls', fr, orc') \<and> rc = 0 \<and>
     zlog_level_list_get ls' 60 = Some (Some (default_levels ! 3))"
proof -
  have "int_level (default_levels ! 3) = 60" by (simp add: default_levels_def)
  then show ?thesis using zlog_level_list_set_ok[OF default_list_inv default_new(4)] by fastforce
qed

theorem zlog_level_list_get_total_witness:
  "(\<exists>a. zlog_level_list_get default_list 33 = Some (Some a)) \<and> zlog_level_list_get default_list (-1) = None"
  using zlog_level_list_get_total[OF default_list_inv] by (metis neg_less_0_iff_less zero_less_one zero_le_numeral)

end
