(* ===== verification/Buf.thy ===== *)
theory Buf
  imports CLib Zutil Level
begin

text \<open>
  \<open>buf.c\<close>: the growing output buffer every log line is built in. The block at \<open>start\<close> is the list
  \<open>mem\<close> (\<open>None\<close> when \<open>start\<close> is NULL); \<open>tail\<close>, \<open>end\<close> and \<open>end_plus_1\<close> are offsets into it. Every write is
  bounds checked, and so is every read of a source string; a call with the length 0 touches nothing.
  \<open>realloc\<close> fills the new bytes with NUL, which nothing below \<open>tail\<close> depends on.
\<close>

unbundle bit_operations_syntax

section \<open>The buffer\<close>

record buf =
  mem :: "string option"
  buf_tail :: nat
  buf_end :: nat
  end_plus_1 :: nat
  size_min :: nat
  size_max :: nat
  size_real :: nat
  truncate_str :: string

definition zlog_buf_new :: "nat \<Rightarrow> nat \<Rightarrow> string option \<Rightarrow> outcomes \<Rightarrow> buf option \<times> outcomes" where
  "zlog_buf_new buf_size_min buf_size_max trunc orc =
     (if buf_size_min = 0 then (None, orc)
      else if buf_size_max \<noteq> 0 \<and> buf_size_max < buf_size_min then (None, orc)
      else let (ok, orc1) = ask orc in
        if \<not> ok then (None, orc1)
        else if (case trunc of None \<Rightarrow> False | Some s \<Rightarrow> MAXLEN_PATH < length s) then (None, orc1)
        else let (ok2, orc2) = ask orc1 in
          if \<not> ok2 then (None, orc2)
          else (Some \<lparr>mem = Some (replicate buf_size_min NUL), buf_tail = 0,
                      buf_end = buf_size_min - 1, end_plus_1 = buf_size_min,
                      size_min = buf_size_min, size_max = buf_size_max, size_real = buf_size_min,
                      truncate_str = (case trunc of None \<Rightarrow> [] | Some s \<Rightarrow> s)\<rparr>, orc2))"

text \<open>\<open>memcpy\<close> and \<open>memset\<close> into the block.\<close>

definition mem_put :: "buf \<Rightarrow> nat \<Rightarrow> string \<Rightarrow> buf option" where
  "mem_put b off bytes =
     (if bytes = [] then Some b
      else do { m \<leftarrow> mem b; m' \<leftarrow> put_bytes m off bytes; Some (b\<lparr>mem := Some m'\<rparr>) })"

definition mem_copy :: "buf \<Rightarrow> nat \<Rightarrow> string \<Rightarrow> nat \<Rightarrow> buf option" where
  "mem_copy b off src n = do { bytes \<leftarrow> get_bytes src 0 n; mem_put b off bytes }"

definition mem_set :: "buf \<Rightarrow> nat \<Rightarrow> char \<Rightarrow> nat \<Rightarrow> buf option" where
  "mem_set b off c n = mem_put b off (replicate n c)"

definition zlog_buf_restart :: "buf \<Rightarrow> buf" where
  "zlog_buf_restart b = b\<lparr>buf_tail := 0\<rparr>"

definition zlog_buf_seal :: "buf \<Rightarrow> buf option" where
  "zlog_buf_seal b = mem_put b (buf_tail b) [NUL]"

definition zlog_buf_truncate :: "buf \<Rightarrow> buf option" where
  "zlog_buf_truncate b =
     (if truncate_str b = [] then Some b
      else let p = nat (max 0 (int (buf_tail b) - int (length (truncate_str b))));
               len = buf_tail b - p in
        mem_copy b p (truncate_str b) len)"

text \<open>\<open>1.5 * increment\<close> is computed in \<open>double\<close> and the sum truncated.\<close>

definition zlog_buf_resize :: "buf \<Rightarrow> nat \<Rightarrow> outcomes \<Rightarrow> int \<times> buf \<times> outcomes" where
  "zlog_buf_resize b increment orc =
     (if size_max b \<noteq> 0 \<and> size_real b \<ge> size_max b then (1, b, orc)
      else let (new_size, rc) =
             (if size_max b = 0 then (size_real b + 3 * increment div 2, 0)
              else if size_real b + increment \<le> size_max b then (size_real b + increment, 0)
              else (size_max b, 1));
             (ok, orc1) = ask orc in
        if \<not> ok then (-1, b\<lparr>mem := None, buf_tail := 0, buf_end := 0, end_plus_1 := 0\<rparr>, orc1)
        else let m = (case mem b of None \<Rightarrow> [] | Some m \<Rightarrow> m) in
          (rc, b\<lparr>mem := Some (take new_size m @ replicate (new_size - length m) NUL),
                 size_real := new_size, end_plus_1 := new_size, buf_end := new_size - 1\<rparr>, orc1))"

section \<open>Writing\<close>

text \<open>\<open>vsnprintf\<close> of a text into the rest of the block; the text is the argument, \<open>None\<close> when the
  conversion fails.\<close>

definition zlog_buf_vprintf :: "buf \<Rightarrow> string option \<Rightarrow> outcomes \<Rightarrow> (int \<times> buf \<times> outcomes) option" where
  "zlog_buf_vprintf b text orc =
     (if mem b = None then Some (-1, b, orc)
      else case text of
        None \<Rightarrow> Some (-1, b, orc)
      | Some t \<Rightarrow>
          let size_left = end_plus_1 b - buf_tail b; nwrite = length t in
          do { b1 \<leftarrow> mem_put b (buf_tail b) (if size_left = 0 then [] else take (size_left - 1) t @ [NUL]);
            if nwrite < size_left then Some (0, b1\<lparr>buf_tail := buf_tail b1 + nwrite\<rparr>, orc)
            else
              let (rc, b2, orc1) = zlog_buf_resize b1 (nwrite - size_left + 1) orc in
              if rc > 0 then do {
                let size_left = end_plus_1 b2 - buf_tail b2;
                b3 \<leftarrow> mem_put b2 (buf_tail b2) (if size_left = 0 then [] else take (size_left - 1) t @ [NUL]);
                b4 \<leftarrow> zlog_buf_truncate (b3\<lparr>buf_tail := buf_tail b3 + size_left - 1\<rparr>);
                Some (1, b4, orc1) }
              else if rc < 0 then Some (-1, b2, orc1)
              else do {
                let size_left = end_plus_1 b2 - buf_tail b2;
                b3 \<leftarrow> mem_put b2 (buf_tail b2) (if size_left = 0 then [] else take (size_left - 1) t @ [NUL]);
                Some (0, b3\<lparr>buf_tail := buf_tail b3 + nwrite\<rparr>, orc1) } })"

definition zlog_buf_append :: "buf \<Rightarrow> string \<Rightarrow> nat \<Rightarrow> outcomes \<Rightarrow> (int \<times> buf \<times> outcomes) option" where
  "zlog_buf_append b str str_len orc =
     (if buf_tail b + str_len > buf_end b then
        let (rc, b1, orc1) = zlog_buf_resize b (str_len - (buf_end b - buf_tail b)) orc in
        if rc > 0 then do {
          let len_left = buf_end b1 - buf_tail b1;
          b2 \<leftarrow> mem_copy b1 (buf_tail b1) str len_left;
          b3 \<leftarrow> zlog_buf_truncate (b2\<lparr>buf_tail := buf_tail b2 + len_left\<rparr>);
          Some (1, b3, orc1) }
        else if rc < 0 then Some (-1, b1, orc1)
        else do {
          b2 \<leftarrow> mem_copy b1 (buf_tail b1) str str_len;
          Some (0, b2\<lparr>buf_tail := buf_tail b1 + str_len\<rparr>, orc1) }
      else do {
        b1 \<leftarrow> mem_copy b (buf_tail b) str str_len;
        Some (0, b1\<lparr>buf_tail := buf_tail b + str_len\<rparr>, orc) })"

text \<open>The two copies of the last step of \<open>zlog_buf_adjust_append\<close>.\<close>

definition adjust_copy :: "buf \<Rightarrow> string \<Rightarrow> bool \<Rightarrow> bool \<Rightarrow> nat \<Rightarrow> nat \<Rightarrow> buf option" where
  "adjust_copy b str left_adjust zero_pad source_len space_len =
     (if left_adjust then do {
        b1 \<leftarrow> mem_set b (buf_tail b + source_len) (CHR '' '') space_len;
        mem_copy b1 (buf_tail b) str source_len }
      else do {
        b1 \<leftarrow> mem_set b (buf_tail b) (if zero_pad then CHR ''0'' else CHR '' '') space_len;
        mem_copy b1 (buf_tail b + space_len) str source_len })"

definition zlog_buf_adjust_append ::
  "buf \<Rightarrow> string \<Rightarrow> nat \<Rightarrow> bool \<Rightarrow> bool \<Rightarrow> nat \<Rightarrow> nat \<Rightarrow> outcomes \<Rightarrow> (int \<times> buf \<times> outcomes) option" where
  "zlog_buf_adjust_append b str str_len left_adjust zero_pad in_width out_width orc =
     (if mem b = None then Some (-1, b, orc)
      else
        let source_len = (if out_width = 0 \<or> str_len < out_width then str_len else out_width);
            append_len = (if in_width = 0 \<or> source_len \<ge> in_width then source_len else in_width);
            space_len = (if in_width = 0 \<or> source_len \<ge> in_width then 0 else in_width - source_len) in
        if append_len > buf_end b - buf_tail b then
          let (rc, b1, orc1) = zlog_buf_resize b (append_len - (buf_end b - buf_tail b)) orc in
          if rc > 0 then do {
            let append_len = buf_end b1 - buf_tail b1;
            let (source_len, space_len) =
              (if left_adjust
               then if source_len < append_len then (source_len, append_len - source_len) else (append_len, 0)
               else if space_len < append_len then (append_len - space_len, space_len) else (0, append_len));
            b2 \<leftarrow> adjust_copy b1 str left_adjust zero_pad source_len space_len;
            b3 \<leftarrow> zlog_buf_truncate (b2\<lparr>buf_tail := buf_tail b2 + append_len\<rparr>);
            Some (1, b3, orc1) }
          else if rc < 0 then Some (-1, b1, orc1)
          else do {
            b2 \<leftarrow> adjust_copy b1 str left_adjust zero_pad source_len space_len;
            Some (0, b2\<lparr>buf_tail := buf_tail b2 + append_len\<rparr>, orc1) }
        else do {
          b1 \<leftarrow> adjust_copy b str left_adjust zero_pad source_len space_len;
          Some (0, b1\<lparr>buf_tail := buf_tail b1 + append_len\<rparr>, orc) })"

section \<open>Numbers\<close>

lemma unat_div10_less:
  fixes w :: "'a::len word"
  assumes "w div 10 \<noteq> 0" and ten: "unat (10 :: 'a word) = 10"
  shows "unat (w div 10) < unat w"
proof -
  have "unat (w div 10) = unat w div 10" by (simp only: unat_div ten)
  moreover have "unat (w div 10) \<noteq> 0" using assms(1) unsigned_eq_0_iff by blast
  ultimately have "unat w \<noteq> 0" by auto
  then show ?thesis using \<open>unat (w div 10) = unat w div 10\<close> by simp
qed

lemma unat_drop4_less: "drop_bit 4 (w :: 'a::len word) \<noteq> 0 \<Longrightarrow> unat (drop_bit 4 w) < unat w"
proof -
  assume a: "drop_bit 4 w \<noteq> 0"
  have e: "unat (drop_bit 4 w) = unat w div 16"
    using unat_drop_bit_eq[of 4 w] drop_bit_eq_div[of 4 "unat w"] by simp
  moreover have "unat (drop_bit 4 w) \<noteq> 0" using a unsigned_eq_0_iff by blast
  ultimately have "unat w \<noteq> 0" by auto
  then show ?thesis using e by simp
qed

text \<open>The loops that fill \<open>tmp\<close> from its end: \<open>*--p = ui32 % 10 + '0'\<close> while \<open>ui32 /= 10\<close>. The
  digits written so far are the argument \<open>acc\<close>.\<close>

function dec_digits32 :: "32 word \<Rightarrow> string \<Rightarrow> string" where
  "dec_digits32 ui32 acc =
     (let acc1 = digit (unat (ui32 mod 10)) # acc; ui32' = ui32 div 10 in
      if ui32' \<noteq> 0 then dec_digits32 ui32' acc1 else acc1)"
  by auto
termination by (relation "measure (\<lambda>(w, acc). unat w)") (auto intro!: unat_div10_less)

function dec_digits64 :: "64 word \<Rightarrow> string \<Rightarrow> string" where
  "dec_digits64 ui64 acc =
     (let acc1 = digit (unat (ui64 mod 10)) # acc; ui64' = ui64 div 10 in
      if ui64' \<noteq> 0 then dec_digits64 ui64' acc1 else acc1)"
  by auto
termination by (relation "measure (\<lambda>(w, acc). unat w)") (auto intro!: unat_div10_less)

definition hex_chars :: string where
  "hex_chars = ''0123456789abcdef''"

function hex_digits :: "32 word \<Rightarrow> string \<Rightarrow> string" where
  "hex_digits ui32 acc =
     (let acc1 = hex_chars ! unat (ui32 AND 0xf) # acc; ui32' = drop_bit 4 ui32 in
      if ui32' \<noteq> 0 then hex_digits ui32' acc1 else acc1)"
  by auto
termination by (relation "measure (\<lambda>(w, acc). unat w)") (auto intro!: unat_drop4_less)

declare dec_digits32.simps [simp del] dec_digits64.simps [simp del] hex_digits.simps [simp del]

text \<open>The rest of the three functions is the same text: \<open>tmp\<close> has room for \<open>tmp_len\<close> digits, \<open>width\<close> is
  compared as a \<open>size_t\<close>, so that a negative one asks for more zeros than memory holds.\<close>

definition buf_put_number :: "buf \<Rightarrow> string \<Rightarrow> nat \<Rightarrow> int \<Rightarrow> outcomes \<Rightarrow> (int \<times> buf \<times> outcomes) option" where
  "buf_put_number b p tmp_len width orc =
     (if tmp_len < length p \<or> width < 0 then None
      else
        let num_len = length p;
            zero_len = (if nat width > num_len then nat width - num_len else 0);
            out_len = (if nat width > num_len then nat width else num_len) in
        if buf_tail b + out_len > buf_end b then
          let (rc, b1, orc1) = zlog_buf_resize b (out_len - (buf_end b - buf_tail b)) orc in
          if rc > 0 then do {
            let len_left = buf_end b1 - buf_tail b1;
            let (zero_len, num_len) = (if len_left \<le> zero_len then (len_left, 0) else (zero_len, len_left - zero_len));
            b2 \<leftarrow> mem_set b1 (buf_tail b1) (CHR ''0'') zero_len;
            b3 \<leftarrow> mem_copy b2 (buf_tail b1 + zero_len) p num_len;
            b4 \<leftarrow> zlog_buf_truncate (b3\<lparr>buf_tail := buf_tail b3 + len_left\<rparr>);
            Some (1, b4, orc1) }
          else if rc < 0 then Some (-1, b1, orc1)
          else do {
            b2 \<leftarrow> mem_set b1 (buf_tail b1) (CHR ''0'') zero_len;
            b3 \<leftarrow> mem_copy b2 (buf_tail b1 + zero_len) p num_len;
            Some (0, b3\<lparr>buf_tail := buf_tail b1 + out_len\<rparr>, orc1) }
        else do {
          b1 \<leftarrow> mem_set b (buf_tail b) (CHR ''0'') zero_len;
          b2 \<leftarrow> mem_copy b1 (buf_tail b + zero_len) p num_len;
          Some (0, b2\<lparr>buf_tail := buf_tail b + out_len\<rparr>, orc) })"

definition ZLOG_INT32_LEN :: nat where "ZLOG_INT32_LEN = 11"
definition ZLOG_INT64_LEN :: nat where "ZLOG_INT64_LEN = 20"

definition zlog_buf_printf_dec32 :: "buf \<Rightarrow> 32 word \<Rightarrow> int \<Rightarrow> outcomes \<Rightarrow> (int \<times> buf \<times> outcomes) option" where
  "zlog_buf_printf_dec32 b ui32 width orc =
     (if mem b = None then Some (-1, b, orc)
      else buf_put_number b (dec_digits32 ui32 []) ZLOG_INT32_LEN width orc)"

definition zlog_buf_printf_dec64 :: "buf \<Rightarrow> 64 word \<Rightarrow> int \<Rightarrow> outcomes \<Rightarrow> (int \<times> buf \<times> outcomes) option" where
  "zlog_buf_printf_dec64 b ui64 width orc =
     (if mem b = None then Some (-1, b, orc)
      else buf_put_number b
        (if ui64 \<le> 0xffffffff then dec_digits32 (ucast ui64) [] else dec_digits64 ui64 []) ZLOG_INT64_LEN width orc)"

definition zlog_buf_printf_hex :: "buf \<Rightarrow> 32 word \<Rightarrow> int \<Rightarrow> outcomes \<Rightarrow> (int \<times> buf \<times> outcomes) option" where
  "zlog_buf_printf_hex b ui32 width orc =
     (if mem b = None then Some (-1, b, orc)
      else buf_put_number b (hex_digits ui32 []) ZLOG_INT32_LEN width orc)"

section \<open>What a buffer promises\<close>

definition buf_inv :: "buf \<Rightarrow> bool" where
  "buf_inv b \<longleftrightarrow> 0 < size_real b \<and> (size_max b \<noteq> 0 \<longrightarrow> size_real b \<le> size_max b) \<and>
     (case mem b of
        None \<Rightarrow> buf_tail b = 0 \<and> buf_end b = 0 \<and> end_plus_1 b = 0 \<and> (size_max b = 0 \<or> size_real b < size_max b)
      | Some m \<Rightarrow> length m = size_real b \<and> end_plus_1 b = size_real b \<and> buf_end b = size_real b - 1 \<and>
                  buf_tail b \<le> buf_end b)"

text \<open>The abstract buffer: the text so far (\<open>None\<close> after a failed \<open>realloc\<close>), the size of the block, the
  configured limit (0 for none), and the mark of a truncated line.\<close>

record abuf =
  a_text :: "string option"
  a_size :: nat
  a_max :: nat
  a_trunc :: string

definition buf_abs :: "buf \<Rightarrow> abuf" where
  "buf_abs b = \<lparr>a_text = map_option (take (buf_tail b)) (mem b), a_size = size_real b, a_max = size_max b,
     a_trunc = truncate_str b\<rparr>"

text \<open>The end of a text overwritten by the mark.\<close>

definition overlay :: "string \<Rightarrow> string \<Rightarrow> string" where
  "overlay mark s = take (length s - length mark) s @ take (length s) mark"

text \<open>Appending a text: one byte is kept for the terminating NUL; a text that does not fit makes the block
  grow, within the limit; at the limit the text is cut and marked, and the result is 1.\<close>

definition emit :: "abuf \<Rightarrow> string \<Rightarrow> outcomes \<Rightarrow> int \<times> abuf \<times> outcomes" where
  "emit a t orc =
     (case a_text a of
        None \<Rightarrow> (-1, a, orc)
      | Some c \<Rightarrow>
          let need = length c + length t + 1 in
          if need \<le> a_size a then (0, a\<lparr>a_text := Some (c @ t)\<rparr>, orc)
          else if a_max a \<noteq> 0 \<and> a_max a \<le> a_size a then
            (1, a\<lparr>a_text := Some (overlay (a_trunc a) (take (a_size a - 1) (c @ t)))\<rparr>, orc)
          else let (ok, orc1) = ask orc in
            if \<not> ok then (-1, a\<lparr>a_text := None\<rparr>, orc1)
            else if a_max a = 0 then
              (0, a\<lparr>a_text := Some (c @ t), a_size := a_size a + 3 * (need - a_size a) div 2\<rparr>, orc1)
            else if need \<le> a_max a then (0, a\<lparr>a_text := Some (c @ t), a_size := need\<rparr>, orc1)
            else (1, a\<lparr>a_text := Some (overlay (a_trunc a) (take (a_max a - 1) (c @ t))), a_size := a_max a\<rparr>, orc1))"

subsection \<open>The copies\<close>

lemma mem_put_in: "mem b = Some m \<Longrightarrow> off + length s \<le> length m \<Longrightarrow>
    mem_put b off s = Some (b\<lparr>mem := Some (take off m @ s @ drop (off + length s) m)\<rparr>)"
  by (cases "s = []") (auto simp: mem_put_def put_bytes_def)

lemma mem_put_append:
  "do { b1 \<leftarrow> mem_put b off x; mem_put b1 (off + length x) y } = mem_put b off (x @ y)"
proof (cases "x = [] \<or> y = []")
  case True
  then show ?thesis by (cases "x = []") (auto simp: mem_put_def split: Option.bind_splits)
next
  case False
  show ?thesis
  proof (cases "mem b")
    case (Some m)
    show ?thesis
    proof (cases "off + length (x @ y) \<le> length m")
      case True
      then show ?thesis using Some False by (simp add: mem_put_in ac_simps)
    next
      case out: False
      then show ?thesis using Some False by (auto simp: mem_put_def put_bytes_def split: if_splits)
    qed
  qed (use False in \<open>auto simp: mem_put_def\<close>)
qed

lemma mem_put_prepend:
  "do { b1 \<leftarrow> mem_put b (off + length x) y; mem_put b1 off x } = mem_put b off (x @ y)"
proof (cases "x = [] \<or> y = []")
  case True
  then show ?thesis by (cases "x = []") (auto simp: mem_put_def split: Option.bind_splits)
next
  case False
  show ?thesis
  proof (cases "mem b")
    case (Some m)
    show ?thesis
    proof (cases "off + length (x @ y) \<le> length m")
      case True
      then show ?thesis using Some False by (simp add: mem_put_in ac_simps)
    next
      case out: False
      then show ?thesis using Some False by (auto simp: mem_put_def put_bytes_def split: if_splits)
    qed
  qed (use False in \<open>auto simp: mem_put_def\<close>)
qed

lemma mem_copy_take: "n \<le> length src \<Longrightarrow> mem_copy b off src n = mem_put b off (take n src)"
  by (simp add: mem_copy_def get_bytes_def)

lemma mem_put_fields: "mem_put b off s = Some b1 \<Longrightarrow> buf_tail b1 = buf_tail b \<and> buf_end b1 = buf_end b \<and>
    end_plus_1 b1 = end_plus_1 b \<and> size_real b1 = size_real b \<and> size_max b1 = size_max b \<and>
    truncate_str b1 = truncate_str b"
  by (auto simp: mem_put_def bind_eq_Some_conv split: if_splits)

subsection \<open>The common shape of the writers\<close>

definition emit_c :: "buf \<Rightarrow> string \<Rightarrow> outcomes \<Rightarrow> (int \<times> buf \<times> outcomes) option" where
  "emit_c b t orc =
     (if buf_tail b + length t > buf_end b then
        let (rc, b1, orc1) = zlog_buf_resize b (length t - (buf_end b - buf_tail b)) orc in
        if rc > 0 then do {
          b2 \<leftarrow> mem_put b1 (buf_tail b1) (take (buf_end b1 - buf_tail b1) t);
          b3 \<leftarrow> zlog_buf_truncate (b2\<lparr>buf_tail := buf_tail b1 + (buf_end b1 - buf_tail b1)\<rparr>);
          Some (1, b3, orc1) }
        else if rc < 0 then Some (-1, b1, orc1)
        else do {
          b2 \<leftarrow> mem_put b1 (buf_tail b1) t;
          Some (0, b2\<lparr>buf_tail := buf_tail b1 + length t\<rparr>, orc1) }
      else do {
        b1 \<leftarrow> mem_put b (buf_tail b) t;
        Some (0, b1\<lparr>buf_tail := buf_tail b + length t\<rparr>, orc) })"

lemma write_fits:
  assumes inv: "buf_inv b" and m: "mem b = Some m" and fit: "buf_tail b + length t \<le> buf_end b"
  obtains b1 where "mem_put b (buf_tail b) t = Some b1"
    and "buf_inv (b1\<lparr>buf_tail := buf_tail b + length t\<rparr>)"
    and "buf_abs (b1\<lparr>buf_tail := buf_tail b + length t\<rparr>) = (buf_abs b)\<lparr>a_text := Some (take (buf_tail b) m @ t)\<rparr>"
    and "mem (b1\<lparr>buf_tail := buf_tail b + length t\<rparr>) \<noteq> None"
proof -
  have l: "length m = size_real b" "buf_end b = size_real b - 1" "0 < size_real b" using inv m by (auto simp: buf_inv_def)
  then have "mem_put b (buf_tail b) t = Some (b\<lparr>mem := Some (take (buf_tail b) m @ t @ drop (buf_tail b + length t) m)\<rparr>)"
    using fit by (intro mem_put_in[OF m]) linarith
  then show ?thesis using that inv m fit l by (auto simp: buf_inv_def buf_abs_def)
qed

lemma truncate_ok:
  assumes inv: "buf_inv b" and m: "mem b = Some m"
  obtains b1 where "zlog_buf_truncate b = Some b1" and "buf_inv b1" and "mem b1 \<noteq> None"
    and "buf_abs b1 = (buf_abs b)\<lparr>a_text := Some (overlay (truncate_str b) (take (buf_tail b) m))\<rparr>"
proof (cases "truncate_str b = []")
  case True
  have "overlay [] s = s" for s by (simp add: overlay_def)
  then show ?thesis using that[of b] inv m True by (simp add: zlog_buf_truncate_def buf_abs_def)
next
  case False
  let ?t = "truncate_str b" and ?k = "buf_tail b"
  have l: "length m = size_real b" "?k < length m" using inv m by (auto simp: buf_inv_def)
  have p: "nat (max 0 (int ?k - int (length ?t))) = ?k - length ?t" by linarith
  have n: "?k - (?k - length ?t) = min ?k (length ?t)" by linarith
  define bytes where "bytes = take (min ?k (length ?t)) ?t"
  have lb: "length bytes = min ?k (length ?t)" by (simp add: bytes_def)
  then have fit: "?k - length ?t + length bytes \<le> length m" using l(2) by linarith
  let ?b1 = "b\<lparr>mem := Some (take (?k - length ?t) m @ bytes @ drop (?k - length ?t + length bytes) m)\<rparr>"
  have c: "mem_copy b (?k - length ?t) ?t (min ?k (length ?t)) = Some ?b1"
    using mem_put_in[OF m fit] by (simp add: mem_copy_take bytes_def)
  have "zlog_buf_truncate b = Some ?b1" using False c by (simp add: zlog_buf_truncate_def Let_def p n)
  moreover have "buf_inv ?b1" using inv m l fit by (auto simp: buf_inv_def)
  moreover have "take ?k (take (?k - length ?t) m @ bytes @ drop (?k - length ?t + length bytes) m) = overlay ?t (take ?k m)"
  proof -
    have "?k - length ?t + length bytes = ?k" using lb by linarith
    then have "take ?k (take (?k - length ?t) m @ bytes @ drop (?k - length ?t + length bytes) m) =
        take (?k - length ?t) m @ bytes" using l(2) lb by simp
    also have "\<dots> = overlay ?t (take ?k m)"
      using l(2) by (simp add: overlay_def bytes_def min_def)
    finally show ?thesis .
  qed
  ultimately show ?thesis using that[of ?b1] by (simp add: buf_abs_def)
qed

lemma resize_ok:
  assumes inv: "buf_inv b" and m: "mem b = Some m" and full: "buf_end b < buf_tail b + n"
    and r: "zlog_buf_resize b (n - (buf_end b - buf_tail b)) orc = (rc, b1, orc1)"
  defines "need \<equiv> buf_tail b + n + 1"
  shows "rc \<in> {-1, 0, 1}" and "buf_tail b \<le> buf_end b"
    and "rc = -1 \<Longrightarrow> buf_inv b1 \<and> mem b1 = None \<and> buf_abs b1 = (buf_abs b)\<lparr>a_text := None\<rparr>"
    and "rc \<noteq> -1 \<Longrightarrow> buf_inv b1 \<and> buf_tail b1 = buf_tail b \<and> truncate_str b1 = truncate_str b \<and>
          (\<exists>m1. mem b1 = Some m1 \<and> take (buf_tail b) m1 = take (buf_tail b) m)"
    and "rc = 0 \<Longrightarrow> buf_tail b1 + n \<le> buf_end b1"
    and "rc = 1 \<Longrightarrow> buf_end b1 - buf_tail b1 \<le> n \<and> size_real b1 = size_max b"
    and "rc = -1 \<longleftrightarrow> \<not> (size_max b \<noteq> 0 \<and> size_max b \<le> size_real b) \<and> \<not> fst (ask orc)"
    and "rc \<noteq> -1 \<Longrightarrow> rc = (if size_max b \<noteq> 0 \<and> size_max b < need then 1 else 0)"
    and "rc \<noteq> -1 \<Longrightarrow> buf_abs b1 = (buf_abs b)\<lparr>a_size :=
           (if size_max b = 0 then size_real b + 3 * (need - size_real b) div 2
            else if need \<le> size_max b then need else size_max b)\<rparr>"
    and "orc1 = (if size_max b \<noteq> 0 \<and> size_max b \<le> size_real b then orc else snd (ask orc))"
proof -
  have l: "length m = size_real b" "end_plus_1 b = size_real b" "buf_end b = size_real b - 1" "0 < size_real b"
      "buf_tail b \<le> buf_end b" "size_max b \<noteq> 0 \<Longrightarrow> size_real b \<le> size_max b"
    using inv m by (auto simp: buf_inv_def)
  define inc where "inc = n - (buf_end b - buf_tail b)"
  have inc: "need = size_real b + inc" "0 < inc" using full l by (simp_all add: need_def inc_def)
  have g: "inc \<le> 3 * inc div 2" by simp
  note r' = r[folded inc_def, unfolded zlog_buf_resize_def Let_def]
  show "buf_tail b \<le> buf_end b" by (rule l(5))
  consider (lim) "size_max b \<noteq> 0" "size_max b \<le> size_real b"
    | (fail) "size_max b = 0 \<or> size_real b < size_max b" "\<not> fst (ask orc)"
    | (unl) "size_max b = 0" "fst (ask orc)"
    | (grow) "size_max b \<noteq> 0" "need \<le> size_max b" "fst (ask orc)"
    | (cut) "size_real b < size_max b" "size_max b < need" "fst (ask orc)"
    using inc by linarith
  then have "rc \<in> {-1, 0, 1} \<and> (rc = -1 \<longrightarrow> buf_inv b1 \<and> mem b1 = None \<and> buf_abs b1 = (buf_abs b)\<lparr>a_text := None\<rparr>) \<and>
    (rc \<noteq> -1 \<longrightarrow> buf_inv b1 \<and> buf_tail b1 = buf_tail b \<and> truncate_str b1 = truncate_str b \<and>
          (\<exists>m1. mem b1 = Some m1 \<and> take (buf_tail b) m1 = take (buf_tail b) m)) \<and>
    (rc = 0 \<longrightarrow> buf_tail b1 + n \<le> buf_end b1) \<and>
    (rc = 1 \<longrightarrow> buf_end b1 - buf_tail b1 \<le> n \<and> size_real b1 = size_max b) \<and>
    (rc = -1 \<longleftrightarrow> \<not> (size_max b \<noteq> 0 \<and> size_max b \<le> size_real b) \<and> \<not> fst (ask orc)) \<and>
    (rc \<noteq> -1 \<longrightarrow> rc = (if size_max b \<noteq> 0 \<and> size_max b < need then 1 else 0)) \<and>
    (rc \<noteq> -1 \<longrightarrow> buf_abs b1 = (buf_abs b)\<lparr>a_size :=
           (if size_max b = 0 then size_real b + 3 * (need - size_real b) div 2
            else if need \<le> size_max b then need else size_max b)\<rparr>) \<and>
    orc1 = (if size_max b \<noteq> 0 \<and> size_max b \<le> size_real b then orc else snd (ask orc))"
  proof cases
    case lim
    then have "rc = 1" "b1 = b" "orc1 = orc" using r' by auto
    then show ?thesis using lim inc inv m l by (auto simp: need_def buf_abs_def)
  next
    case fail
    then have "rc = -1" "b1 = b\<lparr>mem := None, buf_tail := 0, buf_end := 0, end_plus_1 := 0\<rparr>" "orc1 = snd (ask orc)"
      using r' by (auto split: prod.splits if_splits)
    then show ?thesis using fail inv m l by (auto simp: buf_inv_def buf_abs_def)
  next
    case unl
    let ?s = "size_real b + 3 * inc div 2"
    have "rc = 0" "orc1 = snd (ask orc)" "b1 = b\<lparr>mem := Some (take ?s m @ replicate (?s - length m) NUL),
        size_real := ?s, end_plus_1 := ?s, buf_end := ?s - 1\<rparr>"
      using r' unl m by (auto split: prod.splits if_splits)
    then show ?thesis using unl inv m l g inc by (auto simp: buf_inv_def buf_abs_def need_def min_def)
  next
    case grow
    have "rc = 0" "orc1 = snd (ask orc)" "b1 = b\<lparr>mem := Some (take need m @ replicate (need - length m) NUL),
        size_real := need, end_plus_1 := need, buf_end := need - 1\<rparr>"
      using r' grow m inc by (auto split: prod.splits if_splits)
    then show ?thesis using grow inv m l inc by (auto simp: buf_inv_def buf_abs_def need_def min_def)
  next
    case cut
    let ?s = "size_max b"
    have "rc = 1" "orc1 = snd (ask orc)" "b1 = b\<lparr>mem := Some (take ?s m @ replicate (?s - length m) NUL),
        size_real := ?s, end_plus_1 := ?s, buf_end := ?s - 1\<rparr>"
      using r' cut m inc by (auto split: prod.splits if_splits)
    then show ?thesis using cut inv m l inc by (auto simp: buf_inv_def buf_abs_def need_def min_def)
  qed
  then show "rc \<in> {-1, 0, 1}"
    and "rc = -1 \<Longrightarrow> buf_inv b1 \<and> mem b1 = None \<and> buf_abs b1 = (buf_abs b)\<lparr>a_text := None\<rparr>"
    and "rc \<noteq> -1 \<Longrightarrow> buf_inv b1 \<and> buf_tail b1 = buf_tail b \<and> truncate_str b1 = truncate_str b \<and>
          (\<exists>m1. mem b1 = Some m1 \<and> take (buf_tail b) m1 = take (buf_tail b) m)"
    and "rc = 0 \<Longrightarrow> buf_tail b1 + n \<le> buf_end b1"
    and "rc = 1 \<Longrightarrow> buf_end b1 - buf_tail b1 \<le> n \<and> size_real b1 = size_max b"
    and "rc = -1 \<longleftrightarrow> \<not> (size_max b \<noteq> 0 \<and> size_max b \<le> size_real b) \<and> \<not> fst (ask orc)"
    and "rc \<noteq> -1 \<Longrightarrow> rc = (if size_max b \<noteq> 0 \<and> size_max b < need then 1 else 0)"
    and "rc \<noteq> -1 \<Longrightarrow> buf_abs b1 = (buf_abs b)\<lparr>a_size :=
           (if size_max b = 0 then size_real b + 3 * (need - size_real b) div 2
            else if need \<le> size_max b then need else size_max b)\<rparr>"
    and "orc1 = (if size_max b \<noteq> 0 \<and> size_max b \<le> size_real b then orc else snd (ask orc))"
    by blast+
qed

lemma buf_abs_fields [simp]: "a_size (buf_abs b) = size_real b" "a_max (buf_abs b) = size_max b"
    "a_trunc (buf_abs b) = truncate_str b"
    "a_text (buf_abs b) = map_option (take (buf_tail b)) (mem b)"
  by (simp_all add: buf_abs_def)

lemma emit_text:
  assumes "a_text a = Some c" and "need = length c + length t + 1"
  shows "need \<le> a_size a \<Longrightarrow> emit a t orc = (0, a\<lparr>a_text := Some (c @ t)\<rparr>, orc)"
    and "\<not> need \<le> a_size a \<Longrightarrow> a_max a \<noteq> 0 \<Longrightarrow> a_max a \<le> a_size a \<Longrightarrow>
      emit a t orc = (1, a\<lparr>a_text := Some (overlay (a_trunc a) (take (a_size a - 1) (c @ t)))\<rparr>, orc)"
    and "\<not> need \<le> a_size a \<Longrightarrow> \<not> (a_max a \<noteq> 0 \<and> a_max a \<le> a_size a) \<Longrightarrow> \<not> fst (ask orc) \<Longrightarrow>
      emit a t orc = (-1, a\<lparr>a_text := None\<rparr>, snd (ask orc))"
    and "\<not> need \<le> a_size a \<Longrightarrow> a_max a = 0 \<Longrightarrow> fst (ask orc) \<Longrightarrow>
      emit a t orc = (0, a\<lparr>a_text := Some (c @ t), a_size := a_size a + 3 * (need - a_size a) div 2\<rparr>, snd (ask orc))"
    and "\<not> need \<le> a_size a \<Longrightarrow> need \<le> a_max a \<Longrightarrow> fst (ask orc) \<Longrightarrow>
      emit a t orc = (0, a\<lparr>a_text := Some (c @ t), a_size := need\<rparr>, snd (ask orc))"
    and "a_size a < a_max a \<Longrightarrow> \<not> need \<le> a_max a \<Longrightarrow> fst (ask orc) \<Longrightarrow>
      emit a t orc = (1, a\<lparr>a_text := Some (overlay (a_trunc a) (take (a_max a - 1) (c @ t))), a_size := a_max a\<rparr>, snd (ask orc))"
  using assms by (auto simp: emit_def Let_def split: prod.split)

lemma emit_c_refines:
  assumes inv: "buf_inv b" and m: "mem b = Some m"
  obtains rc b' orc' where "emit_c b t orc = Some (rc, b', orc')" and "buf_inv b'"
    and "emit (buf_abs b) t orc = (rc, buf_abs b', orc')"
proof -
  note result = that
  define c where "c = take (buf_tail b) m"
  have l: "length m = size_real b" "buf_end b = size_real b - 1" "0 < size_real b" "buf_tail b \<le> buf_end b"
    using inv m by (auto simp: buf_inv_def)
  then have lc: "length c = buf_tail b" by (simp add: c_def)
  have at: "a_text (buf_abs b) = Some c" using m by (simp add: c_def)
  show ?thesis
  proof (cases "buf_tail b + length t \<le> buf_end b")
    case True
    show ?thesis
    proof (rule write_fits[OF inv m True])
      fix b1 assume b1: "mem_put b (buf_tail b) t = Some b1" "buf_inv (b1\<lparr>buf_tail := buf_tail b + length t\<rparr>)"
        "buf_abs (b1\<lparr>buf_tail := buf_tail b + length t\<rparr>) = (buf_abs b)\<lparr>a_text := Some (take (buf_tail b) m @ t)\<rparr>"
      have "emit_c b t orc = Some (0, b1\<lparr>buf_tail := buf_tail b + length t\<rparr>, orc)"
        using True b1(1) by (simp add: emit_c_def)
      moreover have "emit (buf_abs b) t orc = (0, (buf_abs b)\<lparr>a_text := Some (c @ t)\<rparr>, orc)"
        by (rule emit_text(1)[OF at HOL.refl]) (use True l lc in simp)
      ultimately show thesis using result b1 by (simp add: c_def)
    qed
  next
    case False
    let ?inc = "length t - (buf_end b - buf_tail b)"
    obtain rc b1 orc1 where r: "zlog_buf_resize b ?inc orc = (rc, b1, orc1)" by (metis prod.exhaust)
    have full: "buf_end b < buf_tail b + length t" using False by simp
    note rs = resize_ok[OF inv m full r]
    have need: "\<not> length c + length t + 1 \<le> size_real b" using False l lc by simp
    consider "rc = -1" | "rc = 1" | "rc = 0" using rs(1) by auto
    then show ?thesis
    proof cases
      case 1
      then have "emit_c b t orc = Some (-1, b1, orc1)" using False r by (simp add: emit_c_def)
      moreover have "emit (buf_abs b) t orc = (-1, buf_abs b1, orc1)"
        using 1 rs(3,7,10) emit_text(3)[OF at HOL.refl, of t orc] need by auto
      ultimately show thesis using result rs(3) 1 by simp
    next
      case 3
      then obtain m1 where m1: "buf_inv b1" "buf_tail b1 = buf_tail b" "mem b1 = Some m1" "take (buf_tail b) m1 = c"
        using rs(4) by (auto simp: c_def)
      have fit: "buf_tail b1 + length t \<le> buf_end b1" using rs(5) 3 by simp
      show ?thesis
      proof (rule write_fits[OF m1(1,3) fit])
        fix b2 assume b2: "mem_put b1 (buf_tail b1) t = Some b2" "buf_inv (b2\<lparr>buf_tail := buf_tail b1 + length t\<rparr>)"
          "buf_abs (b2\<lparr>buf_tail := buf_tail b1 + length t\<rparr>) = (buf_abs b1)\<lparr>a_text := Some (take (buf_tail b1) m1 @ t)\<rparr>"
        have "emit_c b t orc = Some (0, b2\<lparr>buf_tail := buf_tail b1 + length t\<rparr>, orc1)"
          using False r 3 b2(1) by (simp add: emit_c_def)
        moreover have "emit (buf_abs b) t orc = (0, (buf_abs b1)\<lparr>a_text := Some (c @ t)\<rparr>, orc1)"
          using 3 rs(7,8,9,10) need lc emit_text(4)[OF at HOL.refl, of t orc] emit_text(5)[OF at HOL.refl, of t orc]
          by (cases "size_max b = 0") (auto split: if_splits)
        ultimately show thesis using result b2 m1 by simp
      qed
    next
      case 2
      then obtain m1 where m1: "buf_inv b1" "buf_tail b1 = buf_tail b" "mem b1 = Some m1" "take (buf_tail b) m1 = c"
          "truncate_str b1 = truncate_str b"
        using rs(4) by (auto simp: c_def)
      let ?k = "buf_end b1 - buf_tail b1"
      have k: "?k \<le> length t" "size_real b1 = size_max b" using rs(6) 2 by auto
      have l1: "buf_end b1 = size_real b1 - 1" "buf_tail b1 \<le> buf_end b1" using m1 by (auto simp: buf_inv_def)
      have lk: "length (take ?k t) = ?k" using k(1) by simp
      have fit: "buf_tail b1 + length (take ?k t) \<le> buf_end b1" using l1 k by simp
      show ?thesis
      proof (rule write_fits[OF m1(1,3) fit])
        fix b2 assume b2: "mem_put b1 (buf_tail b1) (take ?k t) = Some b2"
          "buf_inv (b2\<lparr>buf_tail := buf_tail b1 + length (take ?k t)\<rparr>)"
          "buf_abs (b2\<lparr>buf_tail := buf_tail b1 + length (take ?k t)\<rparr>) =
             (buf_abs b1)\<lparr>a_text := Some (take (buf_tail b1) m1 @ take ?k t)\<rparr>"
          "mem (b2\<lparr>buf_tail := buf_tail b1 + length (take ?k t)\<rparr>) \<noteq> None"
        note b2' = b2[unfolded lk]
        let ?b2 = "b2\<lparr>buf_tail := buf_tail b1 + ?k\<rparr>"
        obtain m2 where m2: "mem ?b2 = Some m2" using b2'(4) by auto
        have t2: "take (buf_tail ?b2) m2 = c @ take ?k t"
          using arg_cong[OF b2'(3), of a_text] m2 m1 by simp
        have tr: "truncate_str ?b2 = truncate_str b" using arg_cong[OF b2'(3), of a_trunc] m1 by simp
        show thesis
        proof (rule truncate_ok[OF b2'(2) m2])
          fix b3 assume b3: "zlog_buf_truncate ?b2 = Some b3" "buf_inv b3"
            "buf_abs b3 = (buf_abs ?b2)\<lparr>a_text := Some (overlay (truncate_str ?b2) (take (buf_tail ?b2) m2))\<rparr>"
          have "emit_c b t orc = Some (1, b3, orc1)"
            using False r 2 b2'(1) b3(1) by (simp add: emit_c_def)
          moreover have "take (size_max b - 1) (c @ t) = c @ take ?k t"
            using k l1 lc m1(2) by simp
          then have "emit (buf_abs b) t orc = (1, (buf_abs b1)\<lparr>a_text := Some (overlay (truncate_str b) (c @ take ?k t))\<rparr>, orc1)"
            using 2 rs(7,8,9,10) need lc k(2) inv m
              emit_text(2)[OF at HOL.refl, of t orc] emit_text(6)[OF at HOL.refl, of t orc]
            by (cases "size_max b \<le> size_real b") (auto simp: buf_inv_def split: if_splits)
          ultimately show thesis using result b3 b2'(3) t2 tr by simp
        qed
      qed
    qed
  qed
qed

lemma emit_c_dead: "buf_inv b \<Longrightarrow> mem b = None \<Longrightarrow> emit (buf_abs b) t orc = (-1, buf_abs b, orc)"
  by (simp add: emit_def)

lemma append_emit_c:
  assumes inv: "buf_inv b" and m: "mem b = Some m" and n: "n \<le> length str"
  shows "zlog_buf_append b str n orc = emit_c b (take n str) orc"
proof (cases "buf_tail b + n > buf_end b")
  case False
  then show ?thesis using n by (simp add: zlog_buf_append_def emit_c_def mem_copy_take)
next
  case True
  obtain rc b1 orc1 where r: "zlog_buf_resize b (n - (buf_end b - buf_tail b)) orc = (rc, b1, orc1)" by (metis prod.exhaust)
  note rs = resize_ok[OF inv m True r]
  consider "rc = -1" | "rc = 1" | "rc = 0" using rs(1) by auto
  then show ?thesis
  proof cases
    case 2
    then have k: "buf_end b1 - buf_tail b1 \<le> n" using rs(6) by simp
    show ?thesis using True r n k 2
      by (auto simp: zlog_buf_append_def emit_c_def mem_copy_take min_def dest!: mem_put_fields split: Option.bind_splits)
  qed (use True r n in \<open>simp_all add: zlog_buf_append_def emit_c_def mem_copy_take\<close>)
qed

text \<open>The text \<open>zlog_buf_adjust_append\<close> adds.\<close>

definition adjust_text :: "string \<Rightarrow> bool \<Rightarrow> bool \<Rightarrow> nat \<Rightarrow> nat \<Rightarrow> string" where
  "adjust_text s left_adjust zero_pad in_width out_width =
     (let src = (if out_width = 0 then s else take out_width s); n = in_width - length src in
      if left_adjust then src @ replicate n (CHR '' '')
      else replicate n (if zero_pad then CHR ''0'' else CHR '' '') @ src)"

lemma adjust_copy_put:
  "sl \<le> length str \<Longrightarrow> adjust_copy b str left zero sl pl = mem_put b (buf_tail b)
     (if left then take sl str @ replicate pl (CHR '' '')
      else replicate pl (if zero then CHR ''0'' else CHR '' '') @ take sl str)"
  using mem_put_prepend[of b "buf_tail b" "take sl str" "replicate pl (CHR '' '')"]
    mem_put_append[of b "buf_tail b" "replicate pl (if zero then CHR ''0'' else CHR '' '')" "take sl str"]
  by (simp add: adjust_copy_def mem_set_def mem_copy_take min_absorb2)

lemma adjust_emit_c:
  assumes inv: "buf_inv b" and m: "mem b = Some m" and n: "n \<le> length str"
  shows "zlog_buf_adjust_append b str n left zero iw ow orc = emit_c b (adjust_text (take n str) left zero iw ow) orc"
proof -
  define sl where "sl = (if ow = 0 \<or> n < ow then n else ow)"
  define al where "al = (if iw = 0 \<or> sl \<ge> iw then sl else iw)"
  define pl where "pl = (if iw = 0 \<or> sl \<ge> iw then 0 else iw - sl)"
  have t: "adjust_text (take n str) left zero iw ow =
      (if left then take sl str @ replicate pl (CHR '' '')
       else replicate pl (if zero then CHR ''0'' else CHR '' '') @ take sl str)" (is "_ = ?t")
    using n by (auto simp: adjust_text_def sl_def pl_def min_def)
  have lt: "length ?t = al" "al = sl + pl" "sl \<le> length str" using n by (auto simp: sl_def pl_def al_def)
  have e: "zlog_buf_adjust_append b str n left zero iw ow orc =
     (if al > buf_end b - buf_tail b then
          let (rc, b1, orc1) = zlog_buf_resize b (al - (buf_end b - buf_tail b)) orc in
          if rc > 0 then do {
            let append_len = buf_end b1 - buf_tail b1;
            let (source_len, space_len) =
              (if left
               then if sl < append_len then (sl, append_len - sl) else (append_len, 0)
               else if pl < append_len then (append_len - pl, pl) else (0, append_len));
            b2 \<leftarrow> adjust_copy b1 str left zero source_len space_len;
            b3 \<leftarrow> zlog_buf_truncate (b2\<lparr>buf_tail := buf_tail b2 + append_len\<rparr>);
            Some (1, b3, orc1) }
          else if rc < 0 then Some (-1, b1, orc1)
          else do {
            b2 \<leftarrow> adjust_copy b1 str left zero sl pl;
            Some (0, b2\<lparr>buf_tail := buf_tail b2 + al\<rparr>, orc1) }
        else do {
          b1 \<leftarrow> adjust_copy b str left zero sl pl;
          Some (0, b1\<lparr>buf_tail := buf_tail b1 + al\<rparr>, orc) })"
    unfolding zlog_buf_adjust_append_def Let_def using m by (simp only: sl_def[symmetric] al_def[symmetric] pl_def[symmetric]) simp
  have te: "buf_tail b \<le> buf_end b" using inv m by (auto simp: buf_inv_def)
  have cond: "al > buf_end b - buf_tail b \<longleftrightarrow> buf_tail b + al > buf_end b" using te by linarith
  show ?thesis
  proof (cases "buf_tail b + al > buf_end b")
    case False
    then have "\<not> al > buf_end b - buf_tail b" using cond by blast
    then show ?thesis unfolding t e emit_c_def lt(1) using False
      by (auto simp: adjust_copy_put[OF lt(3)] dest!: mem_put_fields split: Option.bind_splits)
  next
    case True
    then have c: "al > buf_end b - buf_tail b" using cond by blast
    obtain rc b1 orc1 where r: "zlog_buf_resize b (al - (buf_end b - buf_tail b)) orc = (rc, b1, orc1)" by (metis prod.exhaust)
    note rs = resize_ok[OF inv m True r]
    consider "rc = -1" | "rc = 1" | "rc = 0" using rs(1) by auto
    then show ?thesis
    proof cases
      case 1
      then show ?thesis unfolding t e emit_c_def lt(1) using True c r by simp
    next
      case 3
      then show ?thesis unfolding t e emit_c_def lt(1) using True c r
        by (auto simp: adjust_copy_put[OF lt(3)] dest!: mem_put_fields split: Option.bind_splits)
    next
      case 2
      let ?k = "buf_end b1 - buf_tail b1"
      have k: "?k \<le> al" using rs(6) 2 by simp
      obtain sl' pl' where sp: "(if left
               then if sl < ?k then (sl, ?k - sl) else (?k, 0)
               else if pl < ?k then (?k - pl, pl) else (0, ?k)) = (sl', pl')" by (metis prod.exhaust)
      have le: "sl' \<le> length str" using sp lt(2,3) k by (auto split: if_splits)
      have "(if left then take sl' str @ replicate pl' (CHR '' '')
         else replicate pl' (if zero then CHR ''0'' else CHR '' '') @ take sl' str) = take ?k ?t"
        using sp lt(2,3) k by (auto simp: min_def split: if_splits)
      then have ac: "adjust_copy b1 str left zero sl' pl' = mem_put b1 (buf_tail b1) (take ?k ?t)"
        by (simp only: adjust_copy_put[OF le])
      show ?thesis
      proof (cases "mem_put b1 (buf_tail b1) (take ?k ?t)")
        case None
        then show ?thesis unfolding t e emit_c_def lt(1) using True c r 2 sp ac by (simp add: Let_def)
      next
        case (Some b2)
        have f: "buf_tail b2 = buf_tail b1" using mem_put_fields[OF Some] by simp
        show ?thesis unfolding t e emit_c_def lt(1) using True c r 2 sp ac Some by (simp add: Let_def f)
      qed
    qed
  qed
qed

lemma number_emit_c:
  assumes inv: "buf_inv b" and m: "mem b = Some m" and w: "0 \<le> width" "length p \<le> n"
  shows "buf_put_number b p n width orc = emit_c b (replicate (nat width - length p) (CHR ''0'') @ p) orc"
proof -
  define zl where "zl = nat width - length p"
  define ol where "ol = zl + length p"
  have z: "(if nat width > length p then nat width - length p else 0) = zl"
    "(if nat width > length p then nat width else length p) = ol" by (auto simp: zl_def ol_def)
  let ?t = "replicate zl (CHR ''0'') @ p"
  have lt: "length ?t = ol" by (simp add: ol_def)
  have put: "do { b2 \<leftarrow> mem_set x (buf_tail x) (CHR ''0'') i; mem_copy b2 (buf_tail x + i) p j } =
      mem_put x (buf_tail x) (replicate i (CHR ''0'') @ take j p)" if "j \<le> length p" for x i j
    using mem_put_append[of x "buf_tail x" "replicate i (CHR ''0'')" "take j p"] that
    by (simp add: mem_set_def mem_copy_take)
  note put' = put[THEN arg_cong[of _ _ "\<lambda>f. Option.bind f g" for g], unfolded Option.bind_assoc]
  have e: "buf_put_number b p n width orc =
     (if buf_tail b + ol > buf_end b then
          let (rc, b1, orc1) = zlog_buf_resize b (ol - (buf_end b - buf_tail b)) orc in
          if rc > 0 then do {
            let len_left = buf_end b1 - buf_tail b1;
            let (zero_len, num_len) = (if len_left \<le> zl then (len_left, 0) else (zl, len_left - zl));
            b2 \<leftarrow> mem_set b1 (buf_tail b1) (CHR ''0'') zero_len;
            b3 \<leftarrow> mem_copy b2 (buf_tail b1 + zero_len) p num_len;
            b4 \<leftarrow> zlog_buf_truncate (b3\<lparr>buf_tail := buf_tail b3 + len_left\<rparr>);
            Some (1, b4, orc1) }
          else if rc < 0 then Some (-1, b1, orc1)
          else do {
            b2 \<leftarrow> mem_set b1 (buf_tail b1) (CHR ''0'') zl;
            b3 \<leftarrow> mem_copy b2 (buf_tail b1 + zl) p (length p);
            Some (0, b3\<lparr>buf_tail := buf_tail b1 + ol\<rparr>, orc1) }
        else do {
          b1 \<leftarrow> mem_set b (buf_tail b) (CHR ''0'') zl;
          b2 \<leftarrow> mem_copy b1 (buf_tail b + zl) p (length p);
          Some (0, b2\<lparr>buf_tail := buf_tail b + ol\<rparr>, orc) })"
    unfolding buf_put_number_def Let_def z using w by simp
  show ?thesis
  proof (cases "buf_tail b + ol > buf_end b")
    case False
    then show ?thesis unfolding e emit_c_def lt zl_def[symmetric] by (simp add: put')
  next
    case True
    obtain rc b1 orc1 where r: "zlog_buf_resize b (ol - (buf_end b - buf_tail b)) orc = (rc, b1, orc1)" by (metis prod.exhaust)
    note rs = resize_ok[OF inv m True r]
    consider "rc = -1" | "rc = 1" | "rc = 0" using rs(1) by auto
    then show ?thesis
    proof cases
      case 2
      let ?k = "buf_end b1 - buf_tail b1"
      have k: "?k \<le> ol" using rs(6) 2 by simp
      obtain zl' nl where sp: "(if ?k \<le> zl then (?k, 0) else (zl, ?k - zl)) = (zl', nl)" by (metis prod.exhaust)
      have nl: "nl \<le> length p" using sp k by (auto simp: ol_def split: if_splits)
      have "replicate zl' (CHR ''0'') @ take nl p = take ?k ?t"
        using sp k by (auto simp: min_def split: if_splits)
      note put_k = put'[OF nl, of b1 zl', unfolded this]
      show ?thesis
      proof (cases "mem_put b1 (buf_tail b1) (take ?k ?t)")
        case None
        then show ?thesis unfolding e emit_c_def lt zl_def[symmetric] using True r 2 sp by (simp add: Let_def put_k)
      next
        case (Some b2)
        have f: "buf_tail b2 = buf_tail b1" using mem_put_fields[OF Some] by simp
        show ?thesis unfolding e emit_c_def lt zl_def[symmetric] using True r 2 sp Some by (simp add: Let_def put_k f)
      qed
    next
      case 1
      then show ?thesis unfolding e emit_c_def lt zl_def[symmetric] using True r by simp
    next
      case 3
      then show ?thesis unfolding e emit_c_def lt zl_def[symmetric] using True r by (simp add: put')
    qed
  qed
qed

lemma vprintf_refines:
  assumes inv: "buf_inv b" and m: "mem b = Some m"
  obtains rc b' orc' where "zlog_buf_vprintf b (Some t) orc = Some (rc, b', orc')" and "buf_inv b'"
    and "emit (buf_abs b) t orc = (rc, buf_abs b', orc')"
proof -
  note result = that
  let ?left = "end_plus_1 b - buf_tail b"
  have l: "length m = size_real b" "end_plus_1 b = size_real b" "buf_end b = size_real b - 1" "0 < size_real b"
      "buf_tail b \<le> buf_end b" using inv m by (auto simp: buf_inv_def)
  have left: "0 < ?left" "?left = size_real b - buf_tail b" using l by linarith+
  \<comment> \<open>writing at most the room minus one byte and a NUL\<close>
  have junk: "\<exists>x1 m1. mem_put x (buf_tail x) (take (end_plus_1 x - buf_tail x - 1) t @ [NUL]) = Some x1 \<and>
      mem x1 = Some m1 \<and> buf_inv x1 \<and> buf_abs x1 = buf_abs x \<and> buf_tail x1 = buf_tail x \<and>
      end_plus_1 x1 = end_plus_1 x \<and> buf_end x1 = buf_end x \<and>
      take (buf_tail x + min (length t) (end_plus_1 x - buf_tail x - 1)) m1 =
        take (buf_tail x) mx @ take (end_plus_1 x - buf_tail x - 1) t"
    if "buf_inv x" "mem x = Some mx" for x mx
  proof -
    have lx: "length mx = size_real x" "end_plus_1 x = size_real x" "0 < size_real x" "buf_tail x \<le> size_real x - 1"
      using that by (auto simp: buf_inv_def)
    let ?s = "take (end_plus_1 x - buf_tail x - 1) t @ [NUL]"
    have "length ?s \<le> end_plus_1 x - buf_tail x - 1 + 1" by simp
    then have "buf_tail x + length ?s \<le> length mx" using lx by linarith
    from mem_put_in[OF that(2) this] show ?thesis using that lx
      by (intro exI conjI) (assumption, auto simp: buf_inv_def buf_abs_def min_def)
  qed
  obtain b1 m1 where b1: "mem_put b (buf_tail b) (take (?left - 1) t @ [NUL]) = Some b1" "mem b1 = Some m1"
      "buf_inv b1" "buf_abs b1 = buf_abs b" "buf_tail b1 = buf_tail b" "end_plus_1 b1 = end_plus_1 b" "buf_end b1 = buf_end b"
      "take (buf_tail b + min (length t) (?left - 1)) m1 = take (buf_tail b) m @ take (?left - 1) t"
    using junk[OF inv m] by blast
  have sz: "size_real b1 = size_real b" "size_max b1 = size_max b" "truncate_str b1 = truncate_str b"
    using arg_cong[OF b1(4), of a_size] arg_cong[OF b1(4), of a_max] arg_cong[OF b1(4), of a_trunc] by simp_all
  have tm: "take (buf_tail b) m1 = take (buf_tail b) m"
    using arg_cong[OF b1(4), of a_text] b1(2,5) m by simp
  show ?thesis
  proof (cases "length t < ?left")
    case True
    have v: "zlog_buf_vprintf b (Some t) orc = Some (0, b1\<lparr>buf_tail := buf_tail b + length t\<rparr>, orc)"
      using m left True b1(1,5) by (simp add: zlog_buf_vprintf_def)
    have "min (length t) (?left - 1) = length t" "take (?left - 1) t = t" using True by simp_all
    then have "take (buf_tail b + length t) m1 = take (buf_tail b) m @ t" using b1(8) by simp
    then have "buf_abs (b1\<lparr>buf_tail := buf_tail b + length t\<rparr>) = (buf_abs b)\<lparr>a_text := Some (take (buf_tail b) m @ t)\<rparr>"
      using b1(2) sz by (simp add: buf_abs_def)
    moreover have "buf_inv (b1\<lparr>buf_tail := buf_tail b + length t\<rparr>)"
      using b1(2,3,6,7) True l by (auto simp: buf_inv_def)
    moreover have "emit (buf_abs b) t orc = (0, (buf_abs b)\<lparr>a_text := Some (take (buf_tail b) m @ t)\<rparr>, orc)"
      by (rule emit_text(1)) (use m l True in auto)
    ultimately show thesis using result v by simp
  next
    case False
    have full: "buf_end b1 < buf_tail b1 + length t" using False l b1(5,7) by simp
    have inc: "length t - ?left + 1 = length t - (buf_end b1 - buf_tail b1)" using False l b1(5,7) by simp
    obtain rc b2 orc1 where r: "zlog_buf_resize b1 (length t - (buf_end b1 - buf_tail b1)) orc = (rc, b2, orc1)"
      by (metis prod.exhaust)
    note rs = resize_ok[OF b1(3,2) full r]
    have c: "(if ?left = 0 then [] else take (?left - 1) t @ [NUL]) = take (?left - 1) t @ [NUL]" using left by simp
    let ?left2 = "end_plus_1 b2 - buf_tail b2"
    have v0: "zlog_buf_vprintf b (Some t) orc =
      (if rc > 0 then do {
         b3 \<leftarrow> mem_put b2 (buf_tail b2) (if ?left2 = 0 then [] else take (?left2 - 1) t @ [NUL]);
         b4 \<leftarrow> zlog_buf_truncate (b3\<lparr>buf_tail := buf_tail b3 + ?left2 - 1\<rparr>);
         Some (1, b4, orc1) }
       else if rc < 0 then Some (-1, b2, orc1)
       else do {
         b3 \<leftarrow> mem_put b2 (buf_tail b2) (if ?left2 = 0 then [] else take (?left2 - 1) t @ [NUL]);
         Some (0, b3\<lparr>buf_tail := buf_tail b3 + length t\<rparr>, orc1) })"
      unfolding zlog_buf_vprintf_def Let_def option.case c b1(1) Option.bind.bind_lunit inc r prod.case
      using m False by simp
    \<comment> \<open>the same as appending to the buffer with the scratch bytes\<close>
    obtain rc' b3 orc3 where e: "emit_c b1 t orc = Some (rc', b3, orc3)" "buf_inv b3"
        "emit (buf_abs b1) t orc = (rc', buf_abs b3, orc3)"
      using emit_c_refines[OF b1(3,2)] by metis
    consider "rc = -1" | "rc = 1" | "rc = 0" using rs(1) by auto
    then show ?thesis
    proof cases
      case 1
      then have "zlog_buf_vprintf b (Some t) orc = Some (-1, b2, orc1)"
        by (simp add: v0)
      moreover have "emit_c b1 t orc = Some (-1, b2, orc1)" using 1 r full by (simp add: emit_c_def)
      ultimately show thesis using result e b1(4) by simp
    next
      case 3
      then obtain m2 where m2: "buf_inv b2" "buf_tail b2 = buf_tail b1" "mem b2 = Some m2" "take (buf_tail b1) m2 = take (buf_tail b1) m1"
        using rs(4) by auto
      have fit: "buf_tail b2 + length t \<le> buf_end b2" using rs(5) 3 by simp
      have e2: "end_plus_1 b2 = buf_end b2 + 1" "0 < size_real b2" using m2(1,3) by (auto simp: buf_inv_def)
      then have tk: "take (end_plus_1 b2 - buf_tail b2 - 1) t = t" and nz: "end_plus_1 b2 - buf_tail b2 \<noteq> 0"
        using fit by simp_all
      have mn: "min (length t) (end_plus_1 b2 - buf_tail b2 - 1) = length t" using fit e2 by simp
      obtain b4 m4 where b4: "mem_put b2 (buf_tail b2) (t @ [NUL]) = Some b4" "mem b4 = Some m4" "buf_inv b4"
          "buf_abs b4 = buf_abs b2" "buf_tail b4 = buf_tail b2" "buf_end b4 = buf_end b2"
          "take (buf_tail b2 + length t) m4 = take (buf_tail b2) m2 @ t"
        using junk[OF m2(1,3)] unfolding tk mn by blast
      have v: "zlog_buf_vprintf b (Some t) orc = Some (0, b4\<lparr>buf_tail := buf_tail b2 + length t\<rparr>, orc1)"
        unfolding v0 using 3 b4(1,5) tk nz by simp
      have sz4: "size_real b4 = size_real b2" "size_max b4 = size_max b2" "truncate_str b4 = truncate_str b2"
        using arg_cong[OF b4(4), of a_size] arg_cong[OF b4(4), of a_max] arg_cong[OF b4(4), of a_trunc] by simp_all
      have i4: "buf_inv (b4\<lparr>buf_tail := buf_tail b2 + length t\<rparr>)"
        using b4(2,3,6) fit by (auto simp: buf_inv_def)
      have a4: "buf_abs (b4\<lparr>buf_tail := buf_tail b2 + length t\<rparr>) = (buf_abs b2)\<lparr>a_text := Some (take (buf_tail b2) m2 @ t)\<rparr>"
        using b4(2,7) sz4 by (simp add: buf_abs_def)
      have "emit (buf_abs b1) t orc = (0, (buf_abs b2)\<lparr>a_text := Some (take (buf_tail b2) m2 @ t)\<rparr>, orc1)"
      proof (rule write_fits[OF m2(1,3) fit])
        fix x assume x: "mem_put b2 (buf_tail b2) t = Some x"
          "buf_abs (x\<lparr>buf_tail := buf_tail b2 + length t\<rparr>) = (buf_abs b2)\<lparr>a_text := Some (take (buf_tail b2) m2 @ t)\<rparr>"
        have "emit_c b1 t orc = Some (0, x\<lparr>buf_tail := buf_tail b2 + length t\<rparr>, orc1)"
          using full r 3 x(1) by (simp add: emit_c_def)
        then show ?thesis using e x(2) by simp
      qed
      then show thesis using result[OF v i4] a4 b1(4) by simp
    next
      case 2
      then obtain m2 where m2: "buf_inv b2" "buf_tail b2 = buf_tail b1" "mem b2 = Some m2" "take (buf_tail b1) m2 = take (buf_tail b1) m1"
          "truncate_str b2 = truncate_str b1"
        using rs(4) by auto
      let ?k = "buf_end b2 - buf_tail b2"
      have k: "?k \<le> length t" using rs(6) 2 by simp
      have e2: "end_plus_1 b2 = buf_end b2 + 1" "0 < size_real b2" "buf_tail b2 \<le> buf_end b2" "buf_end b2 = size_real b2 - 1"
        using m2(1,3) by (auto simp: buf_inv_def)
      have kk: "end_plus_1 b2 - buf_tail b2 - 1 = ?k" "end_plus_1 b2 - buf_tail b2 \<noteq> 0" using e2 by simp_all
      obtain b4 m4 where b4: "mem_put b2 (buf_tail b2) (take ?k t @ [NUL]) = Some b4" "mem b4 = Some m4" "buf_inv b4"
          "buf_abs b4 = buf_abs b2" "buf_tail b4 = buf_tail b2" "end_plus_1 b4 = end_plus_1 b2" "buf_end b4 = buf_end b2"
          "take (buf_tail b2 + ?k) m4 = take (buf_tail b2) m2 @ take ?k t"
        using junk[OF m2(1,3)] unfolding kk(1) min_absorb2[OF k] by blast
      have sz4: "size_real b4 = size_real b2" "size_max b4 = size_max b2" "truncate_str b4 = truncate_str b2"
        using arg_cong[OF b4(4), of a_size] arg_cong[OF b4(4), of a_max] arg_cong[OF b4(4), of a_trunc] by simp_all
      let ?b5 = "b4\<lparr>buf_tail := buf_tail b2 + ?k\<rparr>"
      have tt: "buf_tail b4 + (end_plus_1 b2 - buf_tail b2) - 1 = buf_tail b2 + ?k" using e2 b4(5) by simp
      have i5: "buf_inv ?b5" using b4(2,3,7) e2 by (auto simp: buf_inv_def)
      have m5: "mem ?b5 = Some m4" using b4(2) by simp
      show ?thesis
      proof (rule truncate_ok[OF i5 m5])
        fix b6 assume b6: "zlog_buf_truncate ?b5 = Some b6" "buf_inv b6"
          "buf_abs b6 = (buf_abs ?b5)\<lparr>a_text := Some (overlay (truncate_str ?b5) (take (buf_tail ?b5) m4))\<rparr>"
        have v: "zlog_buf_vprintf b (Some t) orc = Some (1, b6, orc1)"
          unfolding v0 kk(1) tt using 2 b4(1) b6(1) kk(2) tt by (simp add: tt[simplified])
        have a6: "buf_abs b6 = (buf_abs b2)\<lparr>a_text := Some (overlay (truncate_str b2) (take (buf_tail b2) m2 @ take ?k t))\<rparr>"
          using b6(3) b4(8) sz4 by (simp add: buf_abs_def)
        have lk: "length (take ?k t) = ?k" using k by simp
        have fit: "buf_tail b2 + length (take ?k t) \<le> buf_end b2" using e2 k by simp
        have "emit (buf_abs b1) t orc = (1, (buf_abs b2)\<lparr>a_text := Some (overlay (truncate_str b2) (take (buf_tail b2) m2 @ take ?k t))\<rparr>, orc1)"
        proof (rule write_fits[OF m2(1,3) fit])
          fix x assume x: "mem_put b2 (buf_tail b2) (take ?k t) = Some x"
            "buf_inv (x\<lparr>buf_tail := buf_tail b2 + length (take ?k t)\<rparr>)"
            "buf_abs (x\<lparr>buf_tail := buf_tail b2 + length (take ?k t)\<rparr>) = (buf_abs b2)\<lparr>a_text := Some (take (buf_tail b2) m2 @ take ?k t)\<rparr>"
            "mem (x\<lparr>buf_tail := buf_tail b2 + length (take ?k t)\<rparr>) \<noteq> None"
          note x' = x[unfolded lk]
          let ?x = "x\<lparr>buf_tail := buf_tail b2 + ?k\<rparr>"
          obtain mx where mx: "mem ?x = Some mx" using x'(4) by auto
          have tx: "take (buf_tail ?x) mx = take (buf_tail b2) m2 @ take ?k t" "truncate_str ?x = truncate_str b2"
            using arg_cong[OF x'(3), of a_text] arg_cong[OF x'(3), of a_trunc] mx by simp_all
          show ?thesis
          proof (rule truncate_ok[OF x'(2) mx])
            fix y assume y: "zlog_buf_truncate ?x = Some y"
              "buf_abs y = (buf_abs ?x)\<lparr>a_text := Some (overlay (truncate_str ?x) (take (buf_tail ?x) mx))\<rparr>"
            have "emit_c b1 t orc = Some (1, y, orc1)" using full r 2 x'(1) y(1) by (simp add: emit_c_def)
            then show ?thesis using e y(2) tx x'(3) by simp
          qed
        qed
        then show thesis using result[OF v b6(2)] a6 b1(4) by simp
      qed
    qed
  qed
qed

subsection \<open>The digits\<close>

lemma dec_digits32_dec: "dec_digits32 w acc = dec (unat w) @ acc"
proof (induction w acc rule: dec_digits32.induct)
  case (1 w acc)
  have q: "unat (w div 10) = unat w div 10" "unat (w mod 10) = unat w mod 10"
    by (simp_all add: unat_div unat_mod)
  have z: "w div 10 \<noteq> 0 \<longleftrightarrow> \<not> unat w < 10"
    using q(1) unsigned_eq_0_iff[of "w div 10"] by (metis div_eq_0_iff zero_neq_numeral)
  show ?case
  proof (cases "unat w < 10")
    case True
    then show ?thesis using z q by (subst dec_digits32.simps, subst dec.simps) (simp add: Let_def)
  next
    case False
    then show ?thesis using z q 1 by (subst dec_digits32.simps, subst dec.simps) (simp add: Let_def)
  qed
qed

lemma dec_digits64_dec: "dec_digits64 w acc = dec (unat w) @ acc"
proof (induction w acc rule: dec_digits64.induct)
  case (1 w acc)
  have q: "unat (w div 10) = unat w div 10" "unat (w mod 10) = unat w mod 10"
    by (simp_all add: unat_div unat_mod)
  have z: "w div 10 \<noteq> 0 \<longleftrightarrow> \<not> unat w < 10"
    using q(1) unsigned_eq_0_iff[of "w div 10"] by (metis div_eq_0_iff zero_neq_numeral)
  show ?case
  proof (cases "unat w < 10")
    case True
    then show ?thesis using z q by (subst dec_digits64.simps, subst dec.simps) (simp add: Let_def)
  next
    case False
    then show ?thesis using z q 1 by (subst dec_digits64.simps, subst dec.simps) (simp add: Let_def)
  qed
qed

text \<open>Hexadecimal numerals, and what they denote.\<close>

fun hex_str :: "nat \<Rightarrow> string" where
  "hex_str n = (if n < 16 then [hex_chars ! n] else hex_str (n div 16) @ [hex_chars ! (n mod 16)])"

declare hex_str.simps [simp del]

lemma hex_digits_hex: "hex_digits w acc = hex_str (unat w) @ acc"
proof (induction w acc rule: hex_digits.induct)
  case (1 w acc)
  have q: "unat (drop_bit 4 w) = unat w div 16"
    using unat_drop_bit_eq[of 4 w] drop_bit_eq_div[of 4 "unat w"] by simp
  have "w AND 0xf = take_bit 4 w" by (simp add: take_bit_eq_mask mask_eq_decr_exp)
  then have r: "unat (w AND 0xf) = unat w mod 16"
    using unsigned_take_bit_eq[of 4 w] by (simp add: take_bit_eq_mod)
  have z: "drop_bit 4 w \<noteq> 0 \<longleftrightarrow> \<not> unat w < 16"
    using q unsigned_eq_0_iff[of "drop_bit 4 w"] by (metis div_eq_0_iff zero_neq_numeral)
  show ?case
  proof (cases "unat w < 16")
    case True
    then show ?thesis using z q r by (subst hex_digits.simps, subst hex_str.simps) (simp add: Let_def)
  next
    case False
    then show ?thesis using z q r 1 by (subst hex_digits.simps, subst hex_str.simps) (simp add: Let_def)
  qed
qed

lemma hex_str_length_le: "n < 16 ^ k \<Longrightarrow> 0 < k \<Longrightarrow> length (hex_str n) \<le> k"
proof (induction k arbitrary: n)
  case (Suc k)
  show ?case
  proof (cases "n < 16")
    case True
    then show ?thesis by (subst hex_str.simps) simp
  next
    case False
    then have k: "0 < k" using Suc.prems(1) by (cases k) auto
    have "n div 16 < 16 ^ k" using Suc.prems(1) by (simp add: less_mult_imp_div_less mult.commute)
    with Suc.IH[OF _ k] False show ?thesis by (subst hex_str.simps) simp
  qed
qed simp

text \<open>A number with leading zeros up to the width.\<close>

definition zero_padded :: "string \<Rightarrow> int \<Rightarrow> string" where
  "zero_padded s width = replicate (nat width - length s) (CHR ''0'') @ s"

lemma dec32_emit_c: "buf_inv b \<Longrightarrow> mem b = Some m \<Longrightarrow> 0 \<le> width \<Longrightarrow>
    zlog_buf_printf_dec32 b w width orc = emit_c b (zero_padded (dec (unat w)) width) orc"
proof -
  assume a: "buf_inv b" "mem b = Some m" "0 \<le> width"
  have "unat w < 2 ^ 32" by (rule order_less_le_trans[OF unsigned_less]) simp
  then have "unat w < 10 ^ 10" by simp
  then have "length (dec (unat w)) \<le> ZLOG_INT32_LEN"
    using dec_length_le[of "unat w" 10] by (simp add: ZLOG_INT32_LEN_def)
  then show ?thesis using number_emit_c[OF a(1,2,3)] a(2)
    by (simp add: zlog_buf_printf_dec32_def dec_digits32_dec zero_padded_def)
qed

lemma dec64_emit_c: "buf_inv b \<Longrightarrow> mem b = Some m \<Longrightarrow> 0 \<le> width \<Longrightarrow>
    zlog_buf_printf_dec64 b w width orc = emit_c b (zero_padded (dec (unat w)) width) orc"
proof -
  assume a: "buf_inv b" "mem b = Some m" "0 \<le> width"
  have "unat w < 2 ^ 64" by (rule order_less_le_trans[OF unsigned_less]) simp
  then have "unat w < 10 ^ 20" by simp
  then have l: "length (dec (unat w)) \<le> ZLOG_INT64_LEN"
    using dec_length_le[of "unat w" 20] by (simp add: ZLOG_INT64_LEN_def)
  have "unat (ucast w :: 32 word) = unat w" if "w \<le> 0xffffffff"
  proof -
    have "unat w \<le> unat (0xffffffff :: 64 word)" using that by (simp only: word_le_nat_alt)
    then have "unat w < 2 ^ 32" by simp
    then show ?thesis by (simp add: unsigned_ucast_eq take_bit_nat_eq_self)
  qed
  then have "(if w \<le> 0xffffffff then dec_digits32 (ucast w) [] else dec_digits64 w []) = dec (unat w)"
    by (simp add: dec_digits32_dec dec_digits64_dec)
  then show ?thesis using number_emit_c[OF a(1,2,3) l] a(2)
    by (simp add: zlog_buf_printf_dec64_def zero_padded_def)
qed

lemma hex_emit_c: "buf_inv b \<Longrightarrow> mem b = Some m \<Longrightarrow> 0 \<le> width \<Longrightarrow>
    zlog_buf_printf_hex b w width orc = emit_c b (zero_padded (hex_str (unat w)) width) orc"
proof -
  assume a: "buf_inv b" "mem b = Some m" "0 \<le> width"
  have "unat w < 2 ^ 32" by (rule order_less_le_trans[OF unsigned_less]) simp
  then have "unat w < 16 ^ 8" by simp
  then have "length (hex_str (unat w)) \<le> ZLOG_INT32_LEN"
    using hex_str_length_le[of "unat w" 8] by (simp add: ZLOG_INT32_LEN_def)
  then show ?thesis using number_emit_c[OF a(1,2,3)] a(2)
    by (simp add: zlog_buf_printf_hex_def hex_digits_hex zero_padded_def)
qed

subsection \<open>The interface the clients use: a writer of texts\<close>

text \<open>A loop of writes that stops at the first result other than 0, as in the generators of messages.\<close>

fun write_all :: "(buf \<Rightarrow> 'x \<Rightarrow> outcomes \<Rightarrow> (int \<times> buf \<times> outcomes) option) \<Rightarrow> buf \<Rightarrow> 'x list \<Rightarrow> outcomes \<Rightarrow>
    (int \<times> buf \<times> outcomes) option" where
  "write_all wr b [] orc = Some (0, b, orc)"
| "write_all wr b (x # xs) orc = do {
     (rc, b', orc') \<leftarrow> wr b x orc;
     if rc \<noteq> 0 then Some (rc, b', orc') else write_all wr b' xs orc' }"

lemma emit_0: "emit a t orc = (0, a', orc') \<Longrightarrow>
    \<exists>c. a_text a = Some c \<and> a_text a' = Some (c @ t) \<and> a_max a' = a_max a \<and> a_trunc a' = a_trunc a"
  by (auto simp: emit_def Let_def split: option.splits if_splits prod.splits)

locale text_writer =
  fixes wr :: "buf \<Rightarrow> 'x \<Rightarrow> outcomes \<Rightarrow> (int \<times> buf \<times> outcomes) option"
    and printed :: "'x \<Rightarrow> string"
    and writable :: "'x \<Rightarrow> bool"
  assumes write_emit: "buf_inv b \<Longrightarrow> mem b \<noteq> None \<Longrightarrow> writable x \<Longrightarrow> \<exists>rc b' orc'.
    wr b x orc = Some (rc, b', orc') \<and> buf_inv b' \<and> emit (buf_abs b) (printed x) orc = (rc, buf_abs b', orc')"
begin

lemma write_zero:
  assumes "buf_inv b" "mem b \<noteq> None" "writable x" "wr b x orc = Some (0, b', orc')"
  shows "buf_inv b' \<and> mem b' \<noteq> None \<and> (\<exists>c. a_text (buf_abs b) = Some c \<and> a_text (buf_abs b') = Some (c @ printed x))"
proof -
  have "buf_inv b'" "emit (buf_abs b) (printed x) orc = (0, buf_abs b', orc')"
    using write_emit[OF assms(1-3), of orc] assms(4) by auto
  then show ?thesis using emit_0[of "buf_abs b" "printed x" orc "buf_abs b'" orc'] by auto
qed

lemma write_all_ok:
  "buf_inv b \<Longrightarrow> mem b \<noteq> None \<Longrightarrow> \<forall>x \<in> set xs. writable x \<Longrightarrow>
    \<exists>rc b' orc'. write_all wr b xs orc = Some (rc, b', orc') \<and> buf_inv b' \<and>
      (rc = 0 \<longrightarrow> (\<exists>c. a_text (buf_abs b) = Some c \<and> a_text (buf_abs b') = Some (c @ concat (map printed xs))))"
proof (induction xs arbitrary: b orc)
  case Nil
  then show ?case by auto
next
  case (Cons x xs)
  obtain rc b1 orc1 where w: "wr b x orc = Some (rc, b1, orc1)" "buf_inv b1"
    using write_emit[OF Cons.prems(1,2), of x orc] Cons.prems(3) by auto
  show ?case
  proof (cases "rc = 0")
    case False
    then show ?thesis using w by simp
  next
    case True
    then obtain c where c: "mem b1 \<noteq> None" "a_text (buf_abs b) = Some c" "a_text (buf_abs b1) = Some (c @ printed x)"
      using write_zero[OF Cons.prems(1,2), of x orc b1 orc1] Cons.prems(3) w by auto
    then show ?thesis using Cons.IH[OF w(2) c(1), of orc1] Cons.prems(3) w(1) True by auto
  qed
qed

end

interpretation appender: text_writer "\<lambda>b s. zlog_buf_append b s (length s)" "\<lambda>s. s" "\<lambda>s. True"
proof unfold_locales
  fix b :: buf and x :: string and orc
  assume a: "buf_inv b" "mem b \<noteq> None"
  then obtain m where m: "mem b = Some m" by auto
  show "\<exists>rc b' orc'. zlog_buf_append b x (length x) orc = Some (rc, b', orc') \<and> buf_inv b' \<and>
      emit (buf_abs b) x orc = (rc, buf_abs b', orc')"
    using emit_c_refines[OF a(1) m, of x orc] append_emit_c[OF a(1) m, of "length x" x orc] by (metis order.refl take_all)
qed

interpretation dec64: text_writer "\<lambda>b (w, width). zlog_buf_printf_dec64 b w width"
    "\<lambda>(w, width). zero_padded (dec (unat w)) width" "\<lambda>(w, width). 0 \<le> width"
proof unfold_locales
  fix b :: buf and x :: "64 word \<times> int" and orc
  assume a: "buf_inv b" "mem b \<noteq> None" and w: "case x of (w, width) \<Rightarrow> 0 \<le> width"
  obtain m where m: "mem b = Some m" using a by auto
  obtain v width where x: "x = (v, width)" by (cases x)
  show "\<exists>rc b' orc'. (case x of (w, width) \<Rightarrow> zlog_buf_printf_dec64 b w width) orc = Some (rc, b', orc') \<and> buf_inv b' \<and>
      emit (buf_abs b) (case x of (w, width) \<Rightarrow> zero_padded (dec (unat w)) width) orc = (rc, buf_abs b', orc')"
    using emit_c_refines[OF a(1) m, of "zero_padded (dec (unat v)) width" orc] dec64_emit_c[OF a(1) m, of width v orc] w
    unfolding x by (metis case_prod_conv)
qed

lemma emit_bounds:
  assumes "0 < a_size a" "a_max a \<noteq> 0 \<longrightarrow> a_size a \<le> a_max a" "\<forall>c. a_text a = Some c \<longrightarrow> length c < a_size a"
    "emit a t orc = (rc, a', orc')" "a_text a' = Some c'"
  shows "length c' < a_size a'" and "a_max a' = a_max a" and "a_max a \<noteq> 0 \<longrightarrow> a_size a' \<le> a_max a"
    and "rc = 1 \<longrightarrow> a_size a' = a_max a \<and> length c' = a_max a - 1"
    and "rc = 0 \<or> rc = 1"
proof -
  obtain c where c: "a_text a = Some c" using assms(4,5) by (auto simp: emit_def split: option.splits)
  have ov: "length (overlay mk s) = length s" for mk s
    by (auto simp: overlay_def)
  let ?need = "length c + length t + 1"
  have l: "length c < a_size a" using assms(3) c by simp
  consider "?need \<le> a_size a" | "\<not> ?need \<le> a_size a" "a_max a \<noteq> 0" "a_max a \<le> a_size a"
    | "\<not> ?need \<le> a_size a" "\<not> (a_max a \<noteq> 0 \<and> a_max a \<le> a_size a)" "\<not> fst (ask orc)"
    | "\<not> ?need \<le> a_size a" "a_max a = 0" "fst (ask orc)"
    | "\<not> ?need \<le> a_size a" "?need \<le> a_max a" "fst (ask orc)"
    | "a_size a < a_max a" "\<not> ?need \<le> a_max a" "fst (ask orc)" by linarith
  then have "length c' < a_size a' \<and> a_max a' = a_max a \<and> (a_max a \<noteq> 0 \<longrightarrow> a_size a' \<le> a_max a) \<and>
    (rc = 1 \<longrightarrow> a_size a' = a_max a \<and> length c' = a_max a - 1) \<and> (rc = 0 \<or> rc = 1)"
  proof cases
    case 1
    show ?thesis using emit_text(1)[OF c HOL.refl 1, of orc] assms 1 by auto
  next
    case 2
    show ?thesis using emit_text(2)[OF c HOL.refl 2, of orc] assms 2 ov l by (auto simp: min_def)
  next
    case 3
    show ?thesis using emit_text(3)[OF c HOL.refl 3] assms(4,5) by auto
  next
    case 4
    show ?thesis using emit_text(4)[OF c HOL.refl 4] assms 4 by auto
  next
    case 5
    show ?thesis using emit_text(5)[OF c HOL.refl 5] assms 5 by auto
  next
    case 6
    show ?thesis using emit_text(6)[OF c HOL.refl 6] assms 6 ov by (auto simp: min_def)
  qed
  then show "length c' < a_size a'" and "a_max a' = a_max a" and "a_max a \<noteq> 0 \<longrightarrow> a_size a' \<le> a_max a"
    and "rc = 1 \<longrightarrow> a_size a' = a_max a \<and> length c' = a_max a - 1" and "rc = 0 \<or> rc = 1" by blast+
qed

lemma zlog_buf_new_inv: "zlog_buf_new mn mx tr orc = (Some b, orc') \<Longrightarrow>
    buf_inv b \<and> mem b \<noteq> None \<and> buf_abs b = \<lparr>a_text = Some [], a_size = mn, a_max = mx,
      a_trunc = (case tr of None \<Rightarrow> [] | Some s \<Rightarrow> s)\<rparr>"
  by (auto simp: zlog_buf_new_def buf_inv_def buf_abs_def Let_def split: if_splits prod.splits)

text \<open>
  C20. \<open>zlog_buf_append\<close> refines the abstract append: on every buffer that holds a block and for every
  pattern of \<open>realloc\<close> failures it stays inside the block and inside the source string, keeps the
  invariant, and text, sizes, result and truncation mark are those of \<open>emit\<close>.
\<close>

theorem zlog_buf_append_refines:
  assumes "buf_inv b" "mem b = Some m" "n \<le> length str"
  shows "\<exists>rc b' orc'. zlog_buf_append b str n orc = Some (rc, b', orc') \<and> buf_inv b' \<and>
    emit (buf_abs b) (take n str) orc = (rc, buf_abs b', orc')"
  using append_emit_c[OF assms, of orc] emit_c_refines[OF assms(1,2), of "take n str" orc] by metis

definition sample_buf :: buf where
  "sample_buf = the (fst (zlog_buf_new 8 10 (Some ''..'') []))"

lemma sample_buf: "buf_inv sample_buf" "mem sample_buf = Some (replicate 8 NUL)"
    "buf_abs sample_buf = \<lparr>a_text = Some [], a_size = 8, a_max = 10, a_trunc = ''..''\<rparr>"
proof -
  have "zlog_buf_new 8 10 (Some ''..'') [] = (Some sample_buf, [])"
    by (simp add: sample_buf_def zlog_buf_new_def MAXLEN_PATH_def)
  then show "buf_inv sample_buf" "buf_abs sample_buf = \<lparr>a_text = Some [], a_size = 8, a_max = 10, a_trunc = ''..''\<rparr>"
    using zlog_buf_new_inv[of 8 10 "Some ''..''" "[]" sample_buf "[]"] by simp_all
  show "mem sample_buf = Some (replicate 8 NUL)" by (simp add: sample_buf_def zlog_buf_new_def MAXLEN_PATH_def)
qed

theorem zlog_buf_append_refines_witness:
  "\<exists>b'. zlog_buf_append sample_buf ''hello, world'' 12 [] = Some (1, b', []) \<and>
     buf_abs b' = \<lparr>a_text = Some ''hello, ..'', a_size = 10, a_max = 10, a_trunc = ''..''\<rparr>"
proof -
  have e: "emit (buf_abs sample_buf) (take 12 ''hello, world'') [] =
      (1, \<lparr>a_text = Some ''hello, ..'', a_size = 10, a_max = 10, a_trunc = ''..''\<rparr>, [])"
    by (simp add: sample_buf(3) emit_def overlay_def)
  show ?thesis using zlog_buf_append_refines[OF sample_buf(1,2), of 12 "''hello, world''" "[]"] unfolding e by force
qed

text \<open>
  \<open>zlog_buf_adjust_append\<close> refines the abstract append of the adjusted text: at most \<open>out_width\<close>
  bytes of the source, filled up to \<open>in_width\<close> with blanks on the right (left adjusted) or with blanks or
  zeros on the left; on a buffer without a block it fails and changes nothing.
\<close>

theorem zlog_buf_adjust_append_refines:
  assumes "buf_inv b" "n \<le> length str"
  shows "\<exists>rc b' orc'. zlog_buf_adjust_append b str n left zero iw ow orc = Some (rc, b', orc') \<and> buf_inv b' \<and>
    emit (buf_abs b) (adjust_text (take n str) left zero iw ow) orc = (rc, buf_abs b', orc')"
proof (cases "mem b")
  case None
  then show ?thesis using assms emit_c_dead[OF assms(1) None] by (simp add: zlog_buf_adjust_append_def)
next
  case (Some m)
  show ?thesis using adjust_emit_c[OF assms(1) Some assms(2), of left zero iw ow orc]
      emit_c_refines[OF assms(1) Some, of "adjust_text (take n str) left zero iw ow" orc] by metis
qed

theorem zlog_buf_adjust_append_refines_witness:
  "\<exists>b'. zlog_buf_adjust_append sample_buf ''42'' 2 False True 5 0 [] = Some (0, b', []) \<and>
     buf_abs b' = \<lparr>a_text = Some ''00042'', a_size = 8, a_max = 10, a_trunc = ''..''\<rparr>"
proof -
  have e: "emit (buf_abs sample_buf) (adjust_text (take 2 ''42'') False True 5 0) [] =
      (0, \<lparr>a_text = Some ''00042'', a_size = 8, a_max = 10, a_trunc = ''..''\<rparr>, [])"
    by (simp add: sample_buf(3) emit_def adjust_text_def numeral_eq_Suc)
  show ?thesis
    using zlog_buf_adjust_append_refines[OF sample_buf(1), of 2 "''42''" False True 5 0 "[]"] unfolding e
    by force
qed

text \<open>
  The number printers refine the abstract append of the number's decimal (or hexadecimal) numeral
  with zeros in front up to the width: \<open>tmp\<close> has room for every 32 and 64 bit value, and the 64 bit
  printer agrees with the plain decimal numeral on both of its branches.
\<close>

theorem zlog_buf_printf_numbers:
  assumes "buf_inv b" "mem b = Some m" "0 \<le> width"
  shows "(\<exists>rc b' orc'. zlog_buf_printf_dec32 b wd width orc = Some (rc, b', orc') \<and> buf_inv b' \<and>
      emit (buf_abs b) (zero_padded (dec (unat wd)) width) orc = (rc, buf_abs b', orc')) \<and>
    (\<exists>rc b' orc'. zlog_buf_printf_dec64 b wl width orc = Some (rc, b', orc') \<and> buf_inv b' \<and>
      emit (buf_abs b) (zero_padded (dec (unat wl)) width) orc = (rc, buf_abs b', orc')) \<and>
    (\<exists>rc b' orc'. zlog_buf_printf_hex b wd width orc = Some (rc, b', orc') \<and> buf_inv b' \<and>
      emit (buf_abs b) (zero_padded (hex_str (unat wd)) width) orc = (rc, buf_abs b', orc'))"
  using dec32_emit_c[OF assms, of wd orc] dec64_emit_c[OF assms, of wl orc] hex_emit_c[OF assms, of wd orc]
    emit_c_refines[OF assms(1,2), of _ orc] by metis

theorem zlog_buf_printf_numbers_witness:
  "\<exists>b'. zlog_buf_printf_hex sample_buf 255 4 [] = Some (0, b', []) \<and>
     buf_abs b' = \<lparr>a_text = Some ''00ff'', a_size = 8, a_max = 10, a_trunc = ''..''\<rparr>"
proof -
  have z: "zero_padded ''ff'' 4 = ''00ff''" by (simp add: zero_padded_def numeral_eq_Suc)
  have u: "unat (255 :: 32 word) = 255" by simp
  have h: "hex_str 255 = ''ff''" by (simp add: hex_str.simps hex_chars_def)
  have e: "emit (buf_abs sample_buf) (zero_padded (hex_str (unat (255 :: 32 word))) 4) [] =
      (0, \<lparr>a_text = Some ''00ff'', a_size = 8, a_max = 10, a_trunc = ''..''\<rparr>, [])"
    unfolding u h z by (simp add: sample_buf(3) emit_def)
  show ?thesis
    using zlog_buf_printf_numbers[OF sample_buf(1,2), where wd = 255 and wl = 0 and width = 4 and orc = "[]",
        OF zero_le_numeral, THEN conjunct2, THEN conjunct2] unfolding e by force
qed

text \<open>
  \<open>zlog_buf_vprintf\<close> refines the abstract append of the formatted text, although its first
  \<open>vsnprintf\<close> already writes a cut text and a NUL behind the tail.
\<close>

theorem zlog_buf_vprintf_refines:
  assumes "buf_inv b" "mem b = Some m"
  shows "\<exists>rc b' orc'. zlog_buf_vprintf b (Some t) orc = Some (rc, b', orc') \<and> buf_inv b' \<and>
    emit (buf_abs b) t orc = (rc, buf_abs b', orc')"
  using vprintf_refines[OF assms, of t orc] by metis

theorem zlog_buf_vprintf_refines_witness:
  "\<exists>b'. zlog_buf_vprintf sample_buf (Some ''hello, world'') [False] = Some (-1, b', []) \<and> mem b' = None"
proof -
  have e: "emit (buf_abs sample_buf) ''hello, world'' [False] =
      (-1, \<lparr>a_text = None, a_size = 8, a_max = 10, a_trunc = ''..''\<rparr>, [])"
    by (simp add: sample_buf(3) emit_def)
  show ?thesis
    using zlog_buf_vprintf_refines[OF sample_buf(1,2), of "''hello, world''" "[False]"] unfolding e
    by (auto simp: buf_abs_def)
qed

text \<open>
  Size and limit of a buffer: an append that leaves the buffer alive returns 0 or 1, leaves a byte
  for the NUL, never exceeds the configured limit, and returns 1 exactly with the block at the limit and
  the text filling it.
\<close>

theorem zlog_buf_append_bounds:
  assumes "buf_inv b" "mem b = Some m" "zlog_buf_append b str (length str) orc = Some (rc, b', orc')" "mem b' = Some m'"
  shows "(rc = 0 \<or> rc = 1) \<and> buf_tail b' < size_real b' \<and> length m' = size_real b' \<and>
    (size_max b \<noteq> 0 \<longrightarrow> size_real b' \<le> size_max b) \<and>
    (rc = 1 \<longrightarrow> size_real b' = size_max b \<and> buf_tail b' = size_max b - 1)"
proof -
  have b': "buf_inv b'" and e: "emit (buf_abs b) str orc = (rc, buf_abs b', orc')"
    using appender.write_emit[OF assms(1), of str orc] assms(2,3) by auto
  have l: "length m' = size_real b'" "buf_tail b' < size_real b'" using b' assms(4) by (auto simp: buf_inv_def)
  have t: "a_text (buf_abs b') = Some (take (buf_tail b') m')" using assms(4) by simp
  have p: "0 < a_size (buf_abs b)" "a_max (buf_abs b) \<noteq> 0 \<longrightarrow> a_size (buf_abs b) \<le> a_max (buf_abs b)"
    "\<forall>c. a_text (buf_abs b) = Some c \<longrightarrow> length c < a_size (buf_abs b)"
    using assms(1,2) by (auto simp: buf_inv_def)
  have eb: "a_max (buf_abs b') = a_max (buf_abs b)" "a_max (buf_abs b) \<noteq> 0 \<longrightarrow> a_size (buf_abs b') \<le> a_max (buf_abs b)"
    "rc = 1 \<longrightarrow> a_size (buf_abs b') = a_max (buf_abs b) \<and> length (take (buf_tail b') m') = a_max (buf_abs b) - 1"
    "rc = 0 \<or> rc = 1"
    using emit_bounds[OF p e t] by blast+
  show ?thesis using eb l by auto
qed

theorem zlog_buf_append_bounds_witness:
  "\<exists>b' m'. zlog_buf_append sample_buf ''abc'' (length ''abc'') [] = Some (0, b', []) \<and> mem b' = Some m' \<and> length m' = size_real b'"
proof -
  have e: "emit (buf_abs sample_buf) ''abc'' [] = (0, \<lparr>a_text = Some ''abc'', a_size = 8, a_max = 10, a_trunc = ''..''\<rparr>, [])"
    by (simp add: sample_buf(3) emit_def)
  obtain b' where w: "zlog_buf_append sample_buf ''abc'' (length ''abc'') [] = Some (0, b', [])"
      "buf_abs b' = \<lparr>a_text = Some ''abc'', a_size = 8, a_max = 10, a_trunc = ''..''\<rparr>"
    using appender.write_emit[OF sample_buf(1), of "''abc''" "[]"] sample_buf(2) unfolding e by auto
  obtain m' where "mem b' = Some m'" using arg_cong[OF w(2), of a_text] by auto
  then show ?thesis using zlog_buf_append_bounds[OF sample_buf(1,2) w(1)] w by auto
qed

definition dead_buf :: buf where
  "dead_buf = \<lparr>mem = None, buf_tail = 0, buf_end = 0, end_plus_1 = 0, size_min = 8, size_max = 20, size_real = 8,
     truncate_str = ''..''\<rparr>"

text \<open>
  After a failed \<open>realloc\<close> the buffer has no block, but \<open>zlog_buf_append\<close> does not check it (the
  test is commented out): it allocates a block and, when the text exceeds what the limit leaves, copies
  \<open>size_max - 1\<close> bytes from the source string whatever its length. Here a limit of 20 and a text of
  13 bytes: the copy reads past the end of the string.
\<close>

theorem zlog_buf_append_dead_overread:
  "buf_inv dead_buf \<and>
   (\<exists>b orc. buf_inv b \<and> mem b \<noteq> None \<and> (\<exists>orc'. zlog_buf_append b (replicate 12 (CHR ''x'')) 12 orc = Some (-1, dead_buf, orc'))) \<and>
   zlog_buf_append dead_buf ''hello, world!'' 13 [] = None"
proof (intro conjI exI)
  let ?b = "dead_buf\<lparr>mem := Some (replicate 8 NUL), buf_end := 7, end_plus_1 := 8\<rparr>"
  show "buf_inv dead_buf" by (simp add: buf_inv_def dead_buf_def)
  show "buf_inv ?b" "mem ?b \<noteq> None" by (simp_all add: buf_inv_def dead_buf_def)
  show "zlog_buf_append ?b (replicate 12 (CHR ''x'')) 12 [False] = Some (-1, dead_buf, [])"
    by (simp add: zlog_buf_append_def zlog_buf_resize_def dead_buf_def)
  show "zlog_buf_append dead_buf ''hello, world!'' 13 [] = None"
    by (simp add: zlog_buf_append_def zlog_buf_resize_def dead_buf_def mem_copy_def get_bytes_def)
qed

end
