(* ===== verification/Mdc.thy ===== *)
theory Mdc
  imports Hashtable Level
begin

text \<open>
  \<open>mdc.c\<close>: the mapped diagnostic context of a thread, a hash table from keys to values. Key and value are
  copied by \<open>snprintf\<close> into arrays of \<open>MAXLEN_PATH + 1\<close> bytes; \<open>kv_value_len\<close> is what \<open>snprintf\<close> returned,
  the length of the whole value.
\<close>

record mdc_kv =
  kv_key :: string
  kv_value :: string
  kv_value_len :: nat

type_synonym mdc = "(string, mdc_kv) hashtable"

definition zlog_mdc_kv_new :: "string \<Rightarrow> string \<Rightarrow> outcomes \<Rightarrow> mdc_kv option \<times> outcomes" where
  "zlog_mdc_kv_new key value orc =
     (let (ok, orc1) = ask orc in
      if \<not> ok then (None, orc1)
      else (Some \<lparr>kv_key = take MAXLEN_PATH key, kv_value = take MAXLEN_PATH value, kv_value_len = length value\<rparr>, orc1))"

definition zlog_mdc_new :: "outcomes \<Rightarrow> mdc option \<times> outcomes" where
  "zlog_mdc_new orc =
     (let (ok, orc1) = ask orc in
      if \<not> ok then (None, orc1)
      else zc_hashtable_new 20 zc_hashtable_str_hash zc_hashtable_str_equal False True orc1)"

definition zlog_mdc_put :: "mdc \<Rightarrow> string \<Rightarrow> string \<Rightarrow> outcomes \<Rightarrow> (int \<times> mdc \<times> outcomes) option" where
  "zlog_mdc_put a_mdc key value orc =
     (case zlog_mdc_kv_new key value orc of
        (None, orc1) \<Rightarrow> Some (-1, a_mdc, orc1)
      | (Some a_mdc_kv, orc1) \<Rightarrow> do {
          (rc, a_mdc1, freed, orc2) \<leftarrow> zc_hashtable_put a_mdc (kv_key a_mdc_kv) a_mdc_kv orc1;
          if rc \<noteq> 0 then Some (-1, a_mdc1, orc2) else Some (0, a_mdc1, orc2) })"

definition zlog_mdc_get_kv :: "mdc \<Rightarrow> string \<Rightarrow> mdc_kv option option" where
  "zlog_mdc_get_kv a_mdc key = zc_hashtable_get a_mdc key"

definition zlog_mdc_get :: "mdc \<Rightarrow> string \<Rightarrow> string option option" where
  "zlog_mdc_get a_mdc key = do {
     kv \<leftarrow> zc_hashtable_get a_mdc key;
     case kv of None \<Rightarrow> Some None | Some a_mdc_kv \<Rightarrow> Some (Some (kv_value a_mdc_kv)) }"

definition zlog_mdc_remove :: "mdc \<Rightarrow> string \<Rightarrow> mdc option" where
  "zlog_mdc_remove a_mdc key = map_option fst (zc_hashtable_remove a_mdc key)"

definition zlog_mdc_clean :: "mdc \<Rightarrow> mdc option" where
  "zlog_mdc_clean a_mdc = map_option fst (zc_hashtable_clean a_mdc)"

definition zlog_mdc_del :: "mdc \<Rightarrow> (mdc_kv list) option" where
  "zlog_mdc_del a_mdc = map_option (\<lambda>(h, freed). map e_value freed) (zc_hashtable_del a_mdc)"

lemma str_equal_eq: "zc_hashtable_str_equal = (=)"
  by (simp add: zc_hashtable_str_equal_def fun_eq_iff)

text \<open>The stored pairs are what \<open>zlog_mdc_kv_new\<close> makes: cut copies under their own key.\<close>

definition kv_ok :: "mdc_kv \<Rightarrow> bool" where
  "kv_ok kv \<longleftrightarrow> length (kv_key kv) \<le> MAXLEN_PATH \<and> length (kv_value kv) = min MAXLEN_PATH (kv_value_len kv)"

definition mdc_inv :: "mdc \<Rightarrow> bool" where
  "mdc_inv m \<longleftrightarrow> ht_inv m \<and> (\<forall>k kv. ht_map m k = Some kv \<longrightarrow> kv_ok kv \<and> kv_key kv = k)"

lemma zlog_mdc_new_inv: "zlog_mdc_new orc = (Some m, orc') \<Longrightarrow> mdc_inv m \<and> ht_map m = Map.empty"
  using zc_hashtable_new_ok(1,2)[of 20 zc_hashtable_str_hash "(=)" False True _ m orc']
  by (auto simp: zlog_mdc_new_def mdc_inv_def str_equal_eq split: prod.splits if_splits)

lemma mdc_get_map: "mdc_inv m \<Longrightarrow> zlog_mdc_get_kv m k = Some (ht_map m k)"
  and mdc_get_value: "mdc_inv m \<Longrightarrow> zlog_mdc_get m k = Some (map_option kv_value (ht_map m k))"
  by (simp_all add: mdc_inv_def zlog_mdc_get_kv_def zlog_mdc_get_def ht.get_content split: option.split)

lemma kv_new_ok: "zlog_mdc_kv_new key value orc = (Some kv, orc') \<Longrightarrow>
    kv_ok kv \<and> kv = \<lparr>kv_key = take MAXLEN_PATH key, kv_value = take MAXLEN_PATH value, kv_value_len = length value\<rparr>"
  by (auto simp: zlog_mdc_kv_new_def kv_ok_def min.commute split: prod.splits if_splits)

text \<open>
  The context behaves as a map from keys to values: for every pattern of allocation failures
  \<open>zlog_mdc_put\<close> is defined, keeps the invariant (every value is cut to its array, under its own key),
  and a success makes \<open>zlog_mdc_get\<close> return the cut value under the cut key and the old values elsewhere,
  while a failure changes no lookup; \<open>zlog_mdc_remove\<close> and \<open>zlog_mdc_clean\<close> remove one key and all keys.
\<close>

theorem zlog_mdc_put_get:
  assumes m: "mdc_inv m"
  shows "(\<exists>rc m' orc'. zlog_mdc_put m key value orc = Some (rc, m', orc') \<and> mdc_inv m' \<and>
      (if rc = 0 then \<forall>k. zlog_mdc_get m' k = (if k = take MAXLEN_PATH key then Some (Some (take MAXLEN_PATH value)) else zlog_mdc_get m k)
       else rc = -1 \<and> (\<forall>k. zlog_mdc_get m' k = zlog_mdc_get m k))) \<and>
    (\<exists>m'. zlog_mdc_remove m key = Some m' \<and> mdc_inv m' \<and>
      (\<forall>k. zlog_mdc_get m' k = (if k = key then Some None else zlog_mdc_get m k))) \<and>
    (\<exists>m'. zlog_mdc_clean m = Some m' \<and> mdc_inv m' \<and> (\<forall>k. zlog_mdc_get m' k = Some None))"
proof (intro conjI)
  have ht: "ht_inv m" and kvs: "\<And>k kv. ht_map m k = Some kv \<Longrightarrow> kv_ok kv \<and> kv_key kv = k" using m by (auto simp: mdc_inv_def)
  show "\<exists>rc m' orc'. zlog_mdc_put m key value orc = Some (rc, m', orc') \<and> mdc_inv m' \<and>
      (if rc = 0 then \<forall>k. zlog_mdc_get m' k = (if k = take MAXLEN_PATH key then Some (Some (take MAXLEN_PATH value)) else zlog_mdc_get m k)
       else rc = -1 \<and> (\<forall>k. zlog_mdc_get m' k = zlog_mdc_get m k))"
  proof (cases "zlog_mdc_kv_new key value orc")
    case (Pair kvo orc1)
    show ?thesis
    proof (cases kvo)
      case None
      then show ?thesis using Pair m by (simp add: zlog_mdc_put_def)
    next
      case (Some kv)
      note kv = kv_new_ok[OF Pair[unfolded Some]]
      obtain rc m' kf vf orc' where p: "zc_hashtable_put m (kv_key kv) kv orc1 = Some (rc, m', (kf, vf), orc')" "ht_inv m'"
        "rc = 0 \<longrightarrow> ht_map m' = (ht_map m)(kv_key kv \<mapsto> kv)" "rc \<noteq> 0 \<longrightarrow> rc = -1 \<and> ht_map m' = ht_map m \<and> vf = [] \<and> kf = []"
        by (rule zc_hashtable_put_ok[OF ht, of "kv_key kv" kv orc1])
      have m': "mdc_inv m'" using p(2-4) kvs kv by (cases "rc = 0") (auto simp: mdc_inv_def split: if_splits)
      show ?thesis
      proof (cases "rc = 0")
        case True
        then show ?thesis using p Pair Some kv m' mdc_get_value[OF m] mdc_get_value[OF m'] by (simp add: zlog_mdc_put_def)
      next
        case False
        then show ?thesis using p Pair Some m' mdc_get_value[OF m] mdc_get_value[OF m'] by (simp add: zlog_mdc_put_def)
      qed
    qed
  qed
  obtain m1 kf vf where r: "zc_hashtable_remove m key = Some (m1, kf, vf)" "ht_inv m1" "ht_map m1 = (ht_map m)(key := None)"
    by (rule zc_hashtable_remove_ok[OF ht, of key])
  have m1: "mdc_inv m1" using r kvs by (auto simp: mdc_inv_def split: if_splits)
  then show "\<exists>m'. zlog_mdc_remove m key = Some m' \<and> mdc_inv m' \<and>
      (\<forall>k. zlog_mdc_get m' k = (if k = key then Some None else zlog_mdc_get m k))"
    using r mdc_get_value[OF m] mdc_get_value[OF m1] by (simp add: zlog_mdc_remove_def)
  obtain m2 as where c: "zc_hashtable_clean m = Some (m2, map (the \<circ> entries m) as)" "ht_inv m2" "ht_map m2 = Map.empty"
    by (rule zc_hashtable_clean_ok[OF ht])
  have m2: "mdc_inv m2" using c by (simp add: mdc_inv_def)
  then show "\<exists>m'. zlog_mdc_clean m = Some m' \<and> mdc_inv m' \<and> (\<forall>k. zlog_mdc_get m' k = Some None)"
    using c mdc_get_value[OF m2] by (simp add: zlog_mdc_clean_def)
qed

definition sample_mdc :: mdc where
  "sample_mdc = the (fst (zlog_mdc_new []))"

lemma sample_mdc: "mdc_inv sample_mdc"
proof -
  have "zlog_mdc_new [] = (Some sample_mdc, [])" by (simp add: sample_mdc_def zlog_mdc_new_def zc_hashtable_new_def)
  then show ?thesis using zlog_mdc_new_inv by blast
qed

theorem zlog_mdc_put_get_witness:
  "\<exists>rc m' orc'. zlog_mdc_put sample_mdc ''user'' ''me'' [] = Some (rc, m', orc') \<and> mdc_inv m'"
  using zlog_mdc_put_get[OF sample_mdc, of "''user''" "''me''" "[]"] by blast

end
