(* ===== verification/Event.thy ===== *)
theory Event
  imports Buf Mdc
begin

text \<open>
  \<open>event.c\<close> and \<open>thread.c\<close>: one log event (what the caller passed, and the caches of process, thread and
  time strings that live as long as the thread), and the per-thread data: context, event and the five
  buffers. What the operating system answers is the record \<open>sys\<close>: clock, ids, host name, calendar
  conversions and \<open>strftime\<close>, over an abstract type \<open>'tm\<close> for \<open>struct tm\<close>.
\<close>

section \<open>Events\<close>

record 'tm sys =
  sys_sec :: int
  sys_usec :: int
  sys_pid :: int
  sys_tid :: nat
  sys_ktid :: nat
  sys_hostname :: string
  sys_gmtime :: "int \<Rightarrow> 'tm"
  sys_localtime :: "int \<Rightarrow> 'tm"
  sys_strftime :: "string \<Rightarrow> 'tm \<Rightarrow> string"
  sys_tm0 :: 'tm

datatype event_cmd = ZLOG_FMT | ZLOG_HEX

record time_cache =
  tc_str :: string
  tc_sec :: int

text \<open>A format with its arguments is the text it prints: \<open>None\<close> for the NULL format, \<open>Some None\<close> when
  the conversion fails.\<close>

record 'tm event =
  category_name :: string
  category_name_len :: nat
  host_name :: string
  ev_file :: "string option"
  ev_file_len :: nat
  ev_func :: "string option"
  ev_func_len :: nat
  ev_line :: int
  ev_level :: int
  hex_buf :: "8 word list option"
  hex_buf_len :: nat
  str_format :: "string option option"
  generate_cmd :: event_cmd
  time_sec :: int
  time_usec :: int
  time_utc_sec :: int
  time_utc :: 'tm
  time_local_sec :: int
  time_local :: 'tm
  time_caches :: "time_cache list"
  pid :: int
  last_pid :: int
  pid_str :: string
  tid_str :: string
  tid_hex_str :: string
  ktid_str :: string

text \<open>An allocation and what follows it when it succeeds.\<close>

definition alloc_then :: "'a option \<times> outcomes \<Rightarrow> ('a \<Rightarrow> outcomes \<Rightarrow> 'b option \<times> outcomes) \<Rightarrow> 'b option \<times> outcomes" where
  "alloc_then r f = (case r of (None, orc) \<Rightarrow> (None, orc) | (Some x, orc) \<Rightarrow> f x orc)"

lemma alloc_then_Some: "alloc_then r f = (Some y, orc') \<longleftrightarrow> (\<exists>x orc. r = (Some x, orc) \<and> f x orc = (Some y, orc'))"
  by (auto simp: alloc_then_def split: prod.splits option.splits)

definition calloc_ok :: "outcomes \<Rightarrow> unit option \<times> outcomes" where
  "calloc_ok orc = (let (ok, orc1) = ask orc in (if ok then Some () else None, orc1))"

text \<open>The three calls that can fail are the two allocations and \<open>gethostname\<close>.\<close>

definition zlog_event_new :: "'tm sys \<Rightarrow> int \<Rightarrow> outcomes \<Rightarrow> 'tm event option \<times> outcomes" where
  "zlog_event_new sys time_cache_count orc =
     alloc_then (calloc_ok orc) (\<lambda>_ orc1. alloc_then (calloc_ok orc1) (\<lambda>_ orc2. alloc_then (calloc_ok orc2) (\<lambda>_ orc3.
       (Some \<lparr>category_name = [], category_name_len = 0, host_name = take 256 (sys_hostname sys),
              ev_file = None, ev_file_len = 0, ev_func = None, ev_func_len = 0, ev_line = 0, ev_level = 0,
              hex_buf = None, hex_buf_len = 0, str_format = None, generate_cmd = ZLOG_FMT,
              time_sec = 0, time_usec = 0, time_utc_sec = 0, time_utc = sys_tm0 sys, time_local_sec = 0,
              time_local = sys_tm0 sys,
              time_caches = replicate (nat time_cache_count) \<lparr>tc_str = [], tc_sec = 0\<rparr>,
              pid = 0, last_pid = 0, pid_str = [], tid_str = dec (sys_tid sys),
              tid_hex_str = hex_str (sys_tid sys mod 2 ^ 32), ktid_str = dec (sys_ktid sys mod 2 ^ 32)\<rparr>, orc3))))"

definition zlog_event_set_fmt :: "'tm event \<Rightarrow> string \<Rightarrow> nat \<Rightarrow> string option \<Rightarrow> nat \<Rightarrow> string option \<Rightarrow> nat \<Rightarrow> int \<Rightarrow> int \<Rightarrow>
    string option option \<Rightarrow> 'tm event" where
  "zlog_event_set_fmt e cname cname_len file file_len func func_len line level format_args =
     e\<lparr>category_name := cname, category_name_len := cname_len, ev_file := file, ev_file_len := file_len,
       ev_func := func, ev_func_len := func_len, ev_line := line, ev_level := level,
       generate_cmd := ZLOG_FMT, str_format := format_args, pid := 0, time_sec := 0\<rparr>"

definition zlog_event_set_hex :: "'tm event \<Rightarrow> string \<Rightarrow> nat \<Rightarrow> string option \<Rightarrow> nat \<Rightarrow> string option \<Rightarrow> nat \<Rightarrow> int \<Rightarrow> int \<Rightarrow>
    8 word list option \<Rightarrow> nat \<Rightarrow> 'tm event" where
  "zlog_event_set_hex e cname cname_len file file_len func func_len line level bytes bytes_len =
     e\<lparr>category_name := cname, category_name_len := cname_len, ev_file := file, ev_file_len := file_len,
       ev_func := func, ev_func_len := func_len, ev_line := line, ev_level := level,
       generate_cmd := ZLOG_HEX, hex_buf := bytes, hex_buf_len := bytes_len, pid := 0, time_sec := 0\<rparr>"

section \<open>Threads\<close>

record 'tm thread =
  init_version :: int
  th_mdc :: mdc
  th_event :: "'tm event"
  pre_path_buf :: buf
  path_buf :: buf
  archive_path_buf :: buf
  pre_msg_buf :: buf
  msg_buf :: buf

definition truncate_mark :: string where
  "truncate_mark = ''...'' @ [CHR 0x0A]"

definition zlog_thread_new :: "'tm sys \<Rightarrow> int \<Rightarrow> nat \<Rightarrow> nat \<Rightarrow> int \<Rightarrow> outcomes \<Rightarrow> 'tm thread option \<times> outcomes" where
  "zlog_thread_new sys version buf_size_min buf_size_max time_cache_count orc =
     alloc_then (calloc_ok orc) (\<lambda>_ orc.
     alloc_then (zlog_mdc_new orc) (\<lambda>mdc orc.
     alloc_then (zlog_event_new sys time_cache_count orc) (\<lambda>event orc.
     alloc_then (zlog_buf_new (MAXLEN_PATH + 1) (MAXLEN_PATH + 1) None orc) (\<lambda>b1 orc.
     alloc_then (zlog_buf_new (MAXLEN_PATH + 1) (MAXLEN_PATH + 1) None orc) (\<lambda>b2 orc.
     alloc_then (zlog_buf_new (MAXLEN_PATH + 1) (MAXLEN_PATH + 1) None orc) (\<lambda>b3 orc.
     alloc_then (zlog_buf_new buf_size_min buf_size_max (Some truncate_mark) orc) (\<lambda>b4 orc.
     alloc_then (zlog_buf_new buf_size_min buf_size_max (Some truncate_mark) orc) (\<lambda>b5 orc.
       (Some \<lparr>init_version = version, th_mdc = mdc, th_event = event, pre_path_buf = b1, path_buf = b2,
              archive_path_buf = b3, pre_msg_buf = b4, msg_buf = b5\<rparr>, orc)))))))))"

definition zlog_thread_rebuild_msg_buf :: "'tm thread \<Rightarrow> nat \<Rightarrow> nat \<Rightarrow> outcomes \<Rightarrow> int \<times> 'tm thread \<times> outcomes" where
  "zlog_thread_rebuild_msg_buf t buf_size_min buf_size_max orc =
     (if size_min (msg_buf t) = buf_size_min \<and> size_max (msg_buf t) = buf_size_max then (0, t, orc)
      else case zlog_buf_new buf_size_min buf_size_max (Some truncate_mark) orc of
        (None, orc1) \<Rightarrow> (-1, t, orc1)
      | (Some pre, orc1) \<Rightarrow>
          (case zlog_buf_new buf_size_min buf_size_max (Some truncate_mark) orc1 of
             (None, orc2) \<Rightarrow> (-1, t, orc2)
           | (Some msg, orc2) \<Rightarrow> (0, t\<lparr>pre_msg_buf := pre, msg_buf := msg\<rparr>, orc2)))"

definition zlog_thread_rebuild_event :: "'tm sys \<Rightarrow> 'tm thread \<Rightarrow> int \<Rightarrow> outcomes \<Rightarrow> int \<times> 'tm thread \<times> outcomes" where
  "zlog_thread_rebuild_event sys t time_cache_count orc =
     (case zlog_event_new sys time_cache_count orc of
        (None, orc1) \<Rightarrow> (-1, t, orc1)
      | (Some event, orc1) \<Rightarrow> (0, t\<lparr>th_event := event\<rparr>, orc1))"

section \<open>The invariant of a thread\<close>

text \<open>The lengths the caller passes are those of the strings, and the caches hold what \<open>strftime\<close> may write.\<close>

definition event_ok :: "'tm event \<Rightarrow> bool" where
  "event_ok e \<longleftrightarrow> category_name_len e \<le> length (category_name e) \<and>
     (case ev_file e of None \<Rightarrow> True | Some f \<Rightarrow> ev_file_len e \<le> length f) \<and>
     (case ev_func e of None \<Rightarrow> True | Some f \<Rightarrow> ev_func_len e \<le> length f) \<and>
     (case hex_buf e of None \<Rightarrow> True | Some bs \<Rightarrow> hex_buf_len e \<le> length bs) \<and>
     (pid e \<noteq> 0 \<longrightarrow> last_pid e = pid e)"

definition path_ok :: "buf \<Rightarrow> bool" where
  "path_ok b \<longleftrightarrow> buf_inv b \<and> size_max b = MAXLEN_PATH + 1 \<and> size_real b = MAXLEN_PATH + 1 \<and> truncate_str b = [] \<and> mem b \<noteq> None"

definition thread_inv :: "'tm thread \<Rightarrow> bool" where
  "thread_inv t \<longleftrightarrow> mdc_inv (th_mdc t) \<and> event_ok (th_event t) \<and> path_ok (pre_path_buf t) \<and> path_ok (path_buf t) \<and>
     path_ok (archive_path_buf t) \<and> buf_inv (pre_msg_buf t) \<and> buf_inv (msg_buf t)"

lemma buf_new_fields: "zlog_buf_new mn mx tr orc = (Some b, orc') \<Longrightarrow> size_min b = mn \<and> size_max b = mx \<and>
    size_real b = mn \<and> truncate_str b = (case tr of None \<Rightarrow> [] | Some s \<Rightarrow> s)"
  by (auto simp: zlog_buf_new_def Let_def split: if_splits prod.splits)

lemma path_buf_new: "zlog_buf_new (MAXLEN_PATH + 1) (MAXLEN_PATH + 1) None orc = (Some b, orc') \<Longrightarrow> path_ok b"
  using buf_new_fields[of "MAXLEN_PATH + 1" "MAXLEN_PATH + 1" None orc b orc']
    zlog_buf_new_inv[of "MAXLEN_PATH + 1" "MAXLEN_PATH + 1" None orc b orc'] by (simp add: path_ok_def)

lemma event_new_fields: "zlog_event_new sys n orc = (Some e, orc') \<Longrightarrow>
    event_ok e \<and> length (time_caches e) = nat n \<and> pid e = 0 \<and> last_pid e = 0"
  by (auto simp: zlog_event_new_def alloc_then_Some event_ok_def)

text \<open>
  Thread data for every pattern of allocation failures: \<open>zlog_thread_new\<close> returns NULL or a thread
  that satisfies the invariant, with empty live buffers of the configured sizes and one time cache per
  time conversion; rebuilding the buffers or the event replaces them completely or leaves the thread as
  it was.
\<close>

theorem zlog_thread_new_ok:
  "(case zlog_thread_new sys v mn mx n orc of
      (None, _) \<Rightarrow> True
    | (Some t, _) \<Rightarrow> thread_inv t \<and> init_version t = v \<and> length (time_caches (th_event t)) = nat n \<and>
        buf_abs (msg_buf t) = \<lparr>a_text = Some [], a_size = mn, a_max = mx, a_trunc = truncate_mark\<rparr> \<and>
        buf_abs (pre_msg_buf t) = buf_abs (msg_buf t)) \<and>
   (case zlog_thread_rebuild_msg_buf t0 mn mx orc of
      (rc, t, _) \<Rightarrow> if rc = 0 then size_min (msg_buf t) = mn \<and> size_max (msg_buf t) = mx \<and>
          t = t0\<lparr>pre_msg_buf := pre_msg_buf t, msg_buf := msg_buf t\<rparr>
        else rc = -1 \<and> t = t0) \<and>
   (case zlog_thread_rebuild_event sys t0 n orc of
      (rc, t, _) \<Rightarrow> if rc = 0 then t = t0\<lparr>th_event := th_event t\<rparr> \<and> event_ok (th_event t) \<and>
          length (time_caches (th_event t)) = nat n
        else rc = -1 \<and> t = t0)"
proof (intro conjI)
  show "case zlog_thread_new sys v mn mx n orc of
      (None, _) \<Rightarrow> True
    | (Some t, _) \<Rightarrow> thread_inv t \<and> init_version t = v \<and> length (time_caches (th_event t)) = nat n \<and>
        buf_abs (msg_buf t) = \<lparr>a_text = Some [], a_size = mn, a_max = mx, a_trunc = truncate_mark\<rparr> \<and>
        buf_abs (pre_msg_buf t) = buf_abs (msg_buf t)"
  proof (cases "zlog_thread_new sys v mn mx n orc")
    case (Pair r orc')
    show ?thesis
    proof (cases r)
      case (Some t)
      have z: "zlog_thread_new sys v mn mx n orc = (Some t, orc')" using Pair Some by simp
      obtain o1 o2 o3 o4 o5 o6 o7 o8 mdc e b1 b2 b3 b4 b5 where
      a: "zlog_mdc_new o1 = (Some mdc, o2)" "zlog_event_new sys n o2 = (Some e, o3)"
        "zlog_buf_new (MAXLEN_PATH + 1) (MAXLEN_PATH + 1) None o3 = (Some b1, o4)"
        "zlog_buf_new (MAXLEN_PATH + 1) (MAXLEN_PATH + 1) None o4 = (Some b2, o5)"
        "zlog_buf_new (MAXLEN_PATH + 1) (MAXLEN_PATH + 1) None o5 = (Some b3, o6)"
        "zlog_buf_new mn mx (Some truncate_mark) o6 = (Some b4, o7)"
        "zlog_buf_new mn mx (Some truncate_mark) o7 = (Some b5, o8)"
        "t = \<lparr>init_version = v, th_mdc = mdc, th_event = e, pre_path_buf = b1, path_buf = b2,
              archive_path_buf = b3, pre_msg_buf = b4, msg_buf = b5\<rparr>"
        using z[unfolded zlog_thread_new_def alloc_then_Some] by auto
      show ?thesis
        using a(8) Pair Some zlog_mdc_new_inv[OF a(1)] event_new_fields[OF a(2)] path_buf_new[OF a(3)] path_buf_new[OF a(4)]
          path_buf_new[OF a(5)] zlog_buf_new_inv[OF a(6)] zlog_buf_new_inv[OF a(7)]
        by (auto simp: thread_inv_def simp del: buf_abs_fields)
    qed (use Pair in simp)
  qed
  show "case zlog_thread_rebuild_msg_buf t0 mn mx orc of
      (rc, t, _) \<Rightarrow> if rc = 0 then size_min (msg_buf t) = mn \<and> size_max (msg_buf t) = mx \<and>
          t = t0\<lparr>pre_msg_buf := pre_msg_buf t, msg_buf := msg_buf t\<rparr>
        else rc = -1 \<and> t = t0"
    by (auto simp: zlog_thread_rebuild_msg_buf_def dest!: buf_new_fields split: prod.splits option.splits)
  show "case zlog_thread_rebuild_event sys t0 n orc of
      (rc, t, _) \<Rightarrow> if rc = 0 then t = t0\<lparr>th_event := th_event t\<rparr> \<and> event_ok (th_event t) \<and>
          length (time_caches (th_event t)) = nat n
        else rc = -1 \<and> t = t0"
    by (auto simp: zlog_thread_rebuild_event_def dest!: event_new_fields split: prod.splits option.splits)
qed

end
