(* ===== verification/Spec.thy ===== *)
theory Spec
  imports Event
begin

text \<open>
  \<open>spec.c\<close> and \<open>format.c\<close>: the conversions of a pattern such as \<open>%d(%F %T) %-6V %m%n\<close>. The write functions are
  the constructors of \<open>write_fn\<close>; \<open>spec_write\<close> runs one of them on the event, the context and a buffer;
  \<open>zlog_spec_new\<close> parses one conversion from the front of a pattern; a format is the list of its conversions.
  The three pairs of generators (message, path, archive path) differ in the buffers they use.
\<close>

section \<open>Writing a conversion\<close>

datatype write_fn = W_time_UTC | W_time_local | W_ms | W_us | W_mdc | W_str | W_category | W_srcfile
  | W_srcfile_neat | W_srcline | W_srcfunc | W_hostname | W_newline | W_cr | W_percent | W_pid | W_tid_hex
  | W_tid_long | W_ktid | W_level_lowercase | W_level_uppercase | W_usrmsg

text \<open>\<open>sp_str\<close> is the pattern from the conversion on (a pointer into it), \<open>sp_reformat\<close> tells which of the two
  generators of each pair the conversion has.\<close>

record spec =
  sp_str :: string
  sp_len :: nat
  time_fmt :: string
  time_cache_index :: int
  mdc_key :: string
  print_fmt :: string
  left_adjust :: bool
  left_fill_zeros :: bool
  max_width :: nat
  min_width :: nat
  write_buf :: write_fn
  sp_reformat :: bool

definition get_time :: "'tm sys \<Rightarrow> 'tm event \<Rightarrow> 'tm event" where
  "get_time sys e = (if time_sec e = 0 then e\<lparr>time_sec := sys_sec sys, time_usec := sys_usec sys\<rparr> else e)"

text \<open>\<open>strftime\<close> into the \<open>MAXLEN_CFG_LINE + 1\<close> bytes of a cache: a text that does not fit counts as empty.\<close>

definition strftime_cut :: "'tm sys \<Rightarrow> string \<Rightarrow> 'tm \<Rightarrow> string" where
  "strftime_cut sys fmt tm = (let s = sys_strftime sys fmt tm in if length s \<le> MAXLEN_CFG_LINE then s else [])"

definition zlog_spec_write_time_internal ::
  "'tm sys \<Rightarrow> spec \<Rightarrow> 'tm event \<Rightarrow> buf \<Rightarrow> bool \<Rightarrow> outcomes \<Rightarrow> (int \<times> 'tm event \<times> buf \<times> outcomes) option" where
  "zlog_spec_write_time_internal sys a_spec e b use_utc orc = do {
     a_cache \<leftarrow> arr_get (time_caches e) (time_cache_index a_spec);
     let e1 = get_time sys e;
     let now_sec = time_sec e1;
     let e2 = (if use_utc then
                 if time_utc_sec e1 \<noteq> now_sec then e1\<lparr>time_utc := sys_gmtime sys now_sec, time_utc_sec := now_sec\<rparr> else e1
               else
                 if time_local_sec e1 \<noteq> now_sec then e1\<lparr>time_local := sys_localtime sys now_sec, time_local_sec := now_sec\<rparr> else e1);
     let tm = (if use_utc then time_utc e2 else time_local e2);
     let a_cache1 = (if tc_sec a_cache \<noteq> now_sec
                     then \<lparr>tc_str = strftime_cut sys (time_fmt a_spec) tm, tc_sec = now_sec\<rparr> else a_cache);
     let e3 = e2\<lparr>time_caches := (time_caches e2)[nat (time_cache_index a_spec) := a_cache1]\<rparr>;
     (rc, b', orc') \<leftarrow> zlog_buf_append b (tc_str a_cache1) (length (tc_str a_cache1)) orc;
     Some (rc, e3, b', orc') }"

definition zlog_spec_write_time_UTC where
  "zlog_spec_write_time_UTC sys a_spec e b orc = zlog_spec_write_time_internal sys a_spec e b True orc"

definition zlog_spec_write_time_local where
  "zlog_spec_write_time_local sys a_spec e b orc = zlog_spec_write_time_internal sys a_spec e b False orc"

definition zlog_spec_write_ms :: "'tm sys \<Rightarrow> 'tm event \<Rightarrow> buf \<Rightarrow> outcomes \<Rightarrow> (int \<times> 'tm event \<times> buf \<times> outcomes) option" where
  "zlog_spec_write_ms sys e b orc = do {
     let e1 = get_time sys e;
     (rc, b', orc') \<leftarrow> zlog_buf_printf_dec32 b (word_of_int (time_usec e1 div 1000)) 3 orc;
     Some (rc, e1, b', orc') }"

definition zlog_spec_write_us :: "'tm sys \<Rightarrow> 'tm event \<Rightarrow> buf \<Rightarrow> outcomes \<Rightarrow> (int \<times> 'tm event \<times> buf \<times> outcomes) option" where
  "zlog_spec_write_us sys e b orc = do {
     let e1 = get_time sys e;
     (rc, b', orc') \<leftarrow> zlog_buf_printf_dec32 b (word_of_int (time_usec e1)) 6 orc;
     Some (rc, e1, b', orc') }"

text \<open>The array behind a value holds \<open>MAXLEN_PATH + 1\<close> bytes.\<close>

definition kv_array :: "mdc_kv \<Rightarrow> string" where
  "kv_array kv = kv_value kv @ replicate (MAXLEN_PATH + 1 - length (kv_value kv)) NUL"

definition zlog_spec_write_mdc :: "mdc \<Rightarrow> spec \<Rightarrow> buf \<Rightarrow> outcomes \<Rightarrow> (int \<times> buf \<times> outcomes) option" where
  "zlog_spec_write_mdc a_mdc a_spec b orc = do {
     kv \<leftarrow> zlog_mdc_get_kv a_mdc (mdc_key a_spec);
     case kv of None \<Rightarrow> Some (0, b, orc)
     | Some a_mdc_kv \<Rightarrow> zlog_buf_append b (kv_array a_mdc_kv) (kv_value_len a_mdc_kv) orc }"

definition zlog_spec_write_str :: "spec \<Rightarrow> buf \<Rightarrow> outcomes \<Rightarrow> (int \<times> buf \<times> outcomes) option" where
  "zlog_spec_write_str a_spec b orc = zlog_buf_append b (sp_str a_spec) (sp_len a_spec) orc"

definition zlog_spec_write_category :: "'tm event \<Rightarrow> buf \<Rightarrow> outcomes \<Rightarrow> (int \<times> buf \<times> outcomes) option" where
  "zlog_spec_write_category e b orc = zlog_buf_append b (category_name e) (category_name_len e) orc"

definition zlog_spec_write_srcfile :: "'tm event \<Rightarrow> buf \<Rightarrow> outcomes \<Rightarrow> (int \<times> buf \<times> outcomes) option" where
  "zlog_spec_write_srcfile e b orc =
     (case ev_file e of None \<Rightarrow> zlog_buf_append b ''(file=null)'' 11 orc
      | Some f \<Rightarrow> zlog_buf_append b f (ev_file_len e) orc)"

text \<open>\<open>strrchr\<close> comes before the test for NULL.\<close>

definition zlog_spec_write_srcfile_neat :: "'tm event \<Rightarrow> buf \<Rightarrow> outcomes \<Rightarrow> (int \<times> buf \<times> outcomes) option" where
  "zlog_spec_write_srcfile_neat e b orc =
     (case ev_file e of None \<Rightarrow> None
      | Some f \<Rightarrow>
          (case strrchr f (CHR ''/'') of
             Some p \<Rightarrow> (if ev_file_len e < p + 1 then None
                        else zlog_buf_append b (drop (p + 1) f) (ev_file_len e - p - 1) orc)
           | None \<Rightarrow> zlog_buf_append b f (ev_file_len e) orc))"

definition zlog_spec_write_srcline :: "'tm event \<Rightarrow> buf \<Rightarrow> outcomes \<Rightarrow> (int \<times> buf \<times> outcomes) option" where
  "zlog_spec_write_srcline e b orc = zlog_buf_printf_dec64 b (word_of_int (ev_line e)) 0 orc"

text \<open>The function name is written unless \<open>file\<close> (not \<open>func\<close>) is NULL.\<close>

definition zlog_spec_write_srcfunc :: "'tm event \<Rightarrow> buf \<Rightarrow> outcomes \<Rightarrow> (int \<times> buf \<times> outcomes) option" where
  "zlog_spec_write_srcfunc e b orc =
     (if ev_file e = None then zlog_buf_append b ''(func=null)'' 11 orc
      else zlog_buf_append b (case ev_func e of None \<Rightarrow> [] | Some f \<Rightarrow> f) (ev_func_len e) orc)"

definition zlog_spec_write_hostname :: "'tm event \<Rightarrow> buf \<Rightarrow> outcomes \<Rightarrow> (int \<times> buf \<times> outcomes) option" where
  "zlog_spec_write_hostname e b orc = zlog_buf_append b (host_name e) (length (host_name e)) orc"

definition zlog_spec_write_newline :: "buf \<Rightarrow> outcomes \<Rightarrow> (int \<times> buf \<times> outcomes) option" where
  "zlog_spec_write_newline b orc = zlog_buf_append b [CHR 0x0A] 1 orc"

definition zlog_spec_write_cr :: "buf \<Rightarrow> outcomes \<Rightarrow> (int \<times> buf \<times> outcomes) option" where
  "zlog_spec_write_cr b orc = zlog_buf_append b [CHR 0x0D] 1 orc"

definition zlog_spec_write_percent :: "buf \<Rightarrow> outcomes \<Rightarrow> (int \<times> buf \<times> outcomes) option" where
  "zlog_spec_write_percent b orc = zlog_buf_append b ''%'' 1 orc"

definition get_pid :: "'tm sys \<Rightarrow> 'tm event \<Rightarrow> 'tm event" where
  "get_pid sys e =
     (if pid e = 0 then
        let e1 = e\<lparr>pid := sys_pid sys\<rparr> in
        if pid e1 \<noteq> last_pid e1 then e1\<lparr>last_pid := pid e1, pid_str := dec (nat (pid e1))\<rparr> else e1
      else e)"

definition zlog_spec_write_pid :: "'tm sys \<Rightarrow> 'tm event \<Rightarrow> buf \<Rightarrow> outcomes \<Rightarrow> (int \<times> 'tm event \<times> buf \<times> outcomes) option" where
  "zlog_spec_write_pid sys e b orc = do {
     let e1 = get_pid sys e;
     (rc, b', orc') \<leftarrow> zlog_buf_append b (pid_str e1) (length (pid_str e1)) orc;
     Some (rc, e1, b', orc') }"

definition zlog_spec_write_tid_hex :: "'tm event \<Rightarrow> buf \<Rightarrow> outcomes \<Rightarrow> (int \<times> buf \<times> outcomes) option" where
  "zlog_spec_write_tid_hex e b orc = zlog_buf_append b (tid_hex_str e) (length (tid_hex_str e)) orc"

definition zlog_spec_write_tid_long :: "'tm event \<Rightarrow> buf \<Rightarrow> outcomes \<Rightarrow> (int \<times> buf \<times> outcomes) option" where
  "zlog_spec_write_tid_long e b orc = zlog_buf_append b (tid_str e) (length (tid_str e)) orc"

definition zlog_spec_write_ktid :: "'tm event \<Rightarrow> buf \<Rightarrow> outcomes \<Rightarrow> (int \<times> buf \<times> outcomes) option" where
  "zlog_spec_write_ktid e b orc = zlog_buf_append b (ktid_str e) (length (ktid_str e)) orc"

definition zlog_spec_write_level :: "level arraylist \<Rightarrow> (level \<Rightarrow> string) \<Rightarrow> 'tm event \<Rightarrow> buf \<Rightarrow> outcomes \<Rightarrow> (int \<times> buf \<times> outcomes) option" where
  "zlog_spec_write_level levels str_of e b orc = do {
     a \<leftarrow> zlog_level_list_get levels (ev_level e);
     a_level \<leftarrow> a;
     zlog_buf_append b (str_of a_level) (level_str_len a_level) orc }"

definition zlog_spec_write_level_lowercase where
  "zlog_spec_write_level_lowercase levels e b orc = zlog_spec_write_level levels str_lowercase e b orc"

definition zlog_spec_write_level_uppercase where
  "zlog_spec_write_level_uppercase levels e b orc = zlog_spec_write_level levels str_uppercase e b orc"

lemmas write_simple_defs = zlog_spec_write_time_UTC_def zlog_spec_write_time_local_def zlog_spec_write_str_def
  zlog_spec_write_category_def zlog_spec_write_hostname_def zlog_spec_write_newline_def zlog_spec_write_cr_def
  zlog_spec_write_percent_def zlog_spec_write_tid_hex_def zlog_spec_write_tid_long_def zlog_spec_write_ktid_def
  zlog_spec_write_level_lowercase_def zlog_spec_write_level_uppercase_def

subsection \<open>The user's message\<close>

definition ZLOG_HEX_HEAD :: string where
  "ZLOG_HEX_HEAD = CHR 0x0A # ''             0  1  2  3  4  5  6  7  8  9  A  B  C  D  E  F    0123456789ABCDEF''"

text \<open>The calls of one line of the hex dump, in order; each is one write.\<close>

datatype piece = PStr string | PDec64 "64 word" int | PHex "32 word" int

fun put_piece :: "buf \<Rightarrow> piece \<Rightarrow> outcomes \<Rightarrow> (int \<times> buf \<times> outcomes) option" where
  "put_piece b (PStr s) orc = zlog_buf_append b s (length s) orc"
| "put_piece b (PDec64 w width) orc = zlog_buf_printf_dec64 b w width orc"
| "put_piece b (PHex w width) orc = zlog_buf_printf_hex b w width orc"

definition hex_line :: "8 word list \<Rightarrow> nat \<Rightarrow> nat \<Rightarrow> piece list" where
  "hex_line bytes len line_offset =
     [PStr [CHR 0x0A], PDec64 (of_nat (line_offset + 1)) 10, PStr ''   ''] @
     concat (map (\<lambda>byte_offset.
        if line_offset * 16 + byte_offset < len
        then [PHex (ucast (bytes ! (line_offset * 16 + byte_offset))) 2, PStr '' '']
        else [PStr ''   '']) [0..<16]) @
     [PStr ''  ''] @
     map (\<lambda>byte_offset.
        if line_offset * 16 + byte_offset < len
        then let c = unat (bytes ! (line_offset * 16 + byte_offset)) in
             PStr (if 32 \<le> c \<and> c \<le> 126 then [char_of c] else ''.'')
        else PStr '' '') [0..<16]"

function hex_lines :: "8 word list \<Rightarrow> nat \<Rightarrow> nat \<Rightarrow> buf \<Rightarrow> outcomes \<Rightarrow> (int \<times> buf \<times> outcomes) option" where
  "hex_lines bytes len line_offset b orc =
     (case write_all put_piece b (hex_line bytes len line_offset) orc of
        None \<Rightarrow> None
      | Some (rc, b', orc') \<Rightarrow>
          if rc \<noteq> 0 then Some (rc, b', orc')
          else if line_offset * 16 + 16 \<ge> len then Some (0, b', orc')
          else hex_lines bytes len (line_offset + 1) b' orc')"
  by auto
termination by (relation "measure (\<lambda>(bytes, len, lo, b, orc). len - lo * 16)") auto

declare hex_lines.simps [simp del]

text \<open>\<open>None\<close>: the caller's buffer is shorter than the length it gave.\<close>

definition zlog_spec_write_usrmsg :: "'tm event \<Rightarrow> buf \<Rightarrow> outcomes \<Rightarrow> (int \<times> buf \<times> outcomes) option" where
  "zlog_spec_write_usrmsg e b orc =
     (case generate_cmd e of
        ZLOG_FMT \<Rightarrow> (case str_format e of
            Some t \<Rightarrow> zlog_buf_vprintf b t orc
          | None \<Rightarrow> zlog_buf_append b ''format=(null)'' 13 orc)
      | ZLOG_HEX \<Rightarrow> do {
          (rc, b', orc') \<leftarrow>
            (case hex_buf e of
               None \<Rightarrow> zlog_buf_append b ''buf=(null)'' 10 orc
             | Some bytes \<Rightarrow>
                 if length bytes < hex_buf_len e then None
                 else do {
                   (rc, b1, orc1) \<leftarrow> zlog_buf_append b ZLOG_HEX_HEAD (length ZLOG_HEX_HEAD) orc;
                   if rc \<noteq> 0 then Some (rc, b1, orc1)
                   else hex_lines bytes (hex_buf_len e) 0 b1 orc1 });
          Some (if rc < 0 then -1 else if rc > 0 then 1 else 0, b', orc') })"

subsection \<open>The dispatch\<close>

definition with_event :: "'tm event \<Rightarrow> (int \<times> buf \<times> outcomes) option \<Rightarrow> (int \<times> 'tm event \<times> buf \<times> outcomes) option" where
  "with_event e r = map_option (\<lambda>(rc, b, orc). (rc, e, b, orc)) r"

fun spec_write :: "'tm sys \<Rightarrow> level arraylist \<Rightarrow> mdc \<Rightarrow> spec \<Rightarrow> 'tm event \<Rightarrow> buf \<Rightarrow> outcomes \<Rightarrow>
    (int \<times> 'tm event \<times> buf \<times> outcomes) option" where
  "spec_write sys levels a_mdc s e b orc =
     (case write_buf s of
        W_time_UTC \<Rightarrow> zlog_spec_write_time_UTC sys s e b orc
      | W_time_local \<Rightarrow> zlog_spec_write_time_local sys s e b orc
      | W_ms \<Rightarrow> zlog_spec_write_ms sys e b orc
      | W_us \<Rightarrow> zlog_spec_write_us sys e b orc
      | W_mdc \<Rightarrow> with_event e (zlog_spec_write_mdc a_mdc s b orc)
      | W_str \<Rightarrow> with_event e (zlog_spec_write_str s b orc)
      | W_category \<Rightarrow> with_event e (zlog_spec_write_category e b orc)
      | W_srcfile \<Rightarrow> with_event e (zlog_spec_write_srcfile e b orc)
      | W_srcfile_neat \<Rightarrow> with_event e (zlog_spec_write_srcfile_neat e b orc)
      | W_srcline \<Rightarrow> with_event e (zlog_spec_write_srcline e b orc)
      | W_srcfunc \<Rightarrow> with_event e (zlog_spec_write_srcfunc e b orc)
      | W_hostname \<Rightarrow> with_event e (zlog_spec_write_hostname e b orc)
      | W_newline \<Rightarrow> with_event e (zlog_spec_write_newline b orc)
      | W_cr \<Rightarrow> with_event e (zlog_spec_write_cr b orc)
      | W_percent \<Rightarrow> with_event e (zlog_spec_write_percent b orc)
      | W_pid \<Rightarrow> zlog_spec_write_pid sys e b orc
      | W_tid_hex \<Rightarrow> with_event e (zlog_spec_write_tid_hex e b orc)
      | W_tid_long \<Rightarrow> with_event e (zlog_spec_write_tid_long e b orc)
      | W_ktid \<Rightarrow> with_event e (zlog_spec_write_ktid e b orc)
      | W_level_lowercase \<Rightarrow> with_event e (zlog_spec_write_level_lowercase levels e b orc)
      | W_level_uppercase \<Rightarrow> with_event e (zlog_spec_write_level_uppercase levels e b orc)
      | W_usrmsg \<Rightarrow> with_event e (zlog_spec_write_usrmsg e b orc))"

declare spec_write.simps [simp del]

section \<open>What a conversion writes\<close>

text \<open>The result of writing a text to a buffer: 0 with the text appended, 1 with the text cut at the limit
  and marked, or a failure, which needs an allocation to fail: with the outcomes \<open>[]\<close> there is none.\<close>

definition wrote :: "buf \<Rightarrow> string \<Rightarrow> outcomes \<Rightarrow> int \<Rightarrow> buf \<Rightarrow> outcomes \<Rightarrow> bool" where
  "wrote b t orc rc b' orc' \<longleftrightarrow> buf_inv b' \<and> size_max b' = size_max b \<and> truncate_str b' = truncate_str b \<and>
     (\<exists>c. a_text (buf_abs b) = Some c \<and>
       (rc = 0 \<and> a_text (buf_abs b') = Some (c @ t) \<or>
        rc = 1 \<and> size_max b \<noteq> 0 \<and> size_max b \<le> length c + length t \<and>
          a_text (buf_abs b') = Some (overlay (truncate_str b) (take (size_max b - 1) (c @ t))) \<or>
        rc = -1)) \<and> (orc = [] \<longrightarrow> rc \<noteq> -1 \<and> orc' = [])"

lemma emit_nil: "emit a t [] = (rc, a', orc') \<Longrightarrow> a_text a \<noteq> None \<Longrightarrow> rc \<noteq> -1 \<and> orc' = []"
  by (auto simp: emit_def Let_def split: if_splits)

lemma wrote_orc: "wrote b t orc1 rc b' orc2 \<Longrightarrow> (orc = [] \<longrightarrow> orc1 = []) \<Longrightarrow> wrote b t orc rc b' orc2"
  by (auto simp: wrote_def)

lemma emit_wrote:
  assumes inv: "buf_inv b" "mem b \<noteq> None" "buf_inv b'" and e: "emit (buf_abs b) t orc = (rc, buf_abs b', orc')"
  shows "wrote b t orc rc b' orc'"
proof -
  obtain m where m: "mem b = Some m" using inv(2) by auto
  define c where "c = take (buf_tail b) m"
  have c: "a_text (buf_abs b) = Some c" using m by (simp add: c_def)
  have sz: "size_max b \<noteq> 0 \<longrightarrow> size_real b \<le> size_max b" "0 < size_real b" using inv(1) by (auto simp: buf_inv_def)
  let ?a = "buf_abs b" let ?need = "length c + length t + 1"
  consider "?need \<le> a_size ?a" | "\<not> ?need \<le> a_size ?a" "a_max ?a \<noteq> 0" "a_max ?a \<le> a_size ?a"
    | "\<not> ?need \<le> a_size ?a" "\<not> (a_max ?a \<noteq> 0 \<and> a_max ?a \<le> a_size ?a)" "\<not> fst (ask orc)"
    | "\<not> ?need \<le> a_size ?a" "a_max ?a = 0" "fst (ask orc)"
    | "\<not> ?need \<le> a_size ?a" "?need \<le> a_max ?a" "fst (ask orc)"
    | "a_size ?a < a_max ?a" "\<not> ?need \<le> a_max ?a" "fst (ask orc)" by linarith
  then have "a_max (buf_abs b') = a_max ?a \<and> a_trunc (buf_abs b') = a_trunc ?a \<and>
     (rc = 0 \<and> a_text (buf_abs b') = Some (c @ t) \<or>
      rc = 1 \<and> size_max b \<noteq> 0 \<and> size_max b \<le> length c + length t \<and>
          a_text (buf_abs b') = Some (overlay (truncate_str b) (take (size_max b - 1) (c @ t))) \<or> rc = -1)"
  proof cases
    case 1
    show ?thesis using emit_text(1)[OF c HOL.refl 1, of orc] e by (metis abuf.select_convs abuf.surjective abuf.update_convs(1) prod.inject)
  next
    case 2
    have eq: "size_max b = size_real b" using 2(2,3) sz by simp
    show ?thesis using emit_text(2)[OF c HOL.refl 2, of orc] e 2 eq by (auto simp del: buf_abs_fields(4))
  next
    case 3
    show ?thesis using emit_text(3)[OF c HOL.refl 3] e by auto
  next
    case 4
    show ?thesis using emit_text(4)[OF c HOL.refl 4] e by (auto simp del: buf_abs_fields(4))
  next
    case 5
    show ?thesis using emit_text(5)[OF c HOL.refl 5] e by (auto simp del: buf_abs_fields(4))
  next
    case 6
    show ?thesis using emit_text(6)[OF c HOL.refl 6] e 6 by (auto simp del: buf_abs_fields(4))
  qed
  moreover have "orc = [] \<longrightarrow> rc \<noteq> -1 \<and> orc' = []" using emit_nil[of "buf_abs b" t rc "buf_abs b'" orc'] e c by auto
  ultimately show ?thesis using inv(3) c by (auto simp: wrote_def simp del: buf_abs_fields(4))
qed

lemma wrote_alive: "wrote b t orc rc b' orc' \<Longrightarrow> rc \<noteq> -1 \<Longrightarrow> mem b' \<noteq> None"
  by (auto simp: wrote_def)

lemma wrote_nil: "buf_inv b \<Longrightarrow> mem b \<noteq> None \<Longrightarrow> wrote b [] orc 0 b orc"
  by (auto simp: wrote_def)

lemma wrote_append: "wrote b s orc 0 b1 orc1 \<Longrightarrow> wrote b1 t orc1 rc b2 orc2 \<Longrightarrow> wrote b (s @ t) orc rc b2 orc2"
  by (auto simp: wrote_def simp del: buf_abs_fields(4))

lemma wrote_stop: "wrote b s orc rc b1 orc1 \<Longrightarrow> rc \<noteq> 0 \<Longrightarrow> wrote b (s @ t) orc rc b1 orc1"
  by (auto simp: wrote_def simp del: buf_abs_fields(4))

lemma append_wrote:
  assumes "buf_inv b" "mem b \<noteq> None" "n \<le> length s"
  obtains rc b' orc' where "zlog_buf_append b s n orc = Some (rc, b', orc')" and "wrote b (take n s) orc rc b' orc'"
proof -
  obtain m where m: "mem b = Some m" using assms(2) by auto
  obtain rc b' orc' where e: "emit_c b (take n s) orc = Some (rc, b', orc')" "buf_inv b'"
    "emit (buf_abs b) (take n s) orc = (rc, buf_abs b', orc')"
    by (rule emit_c_refines[OF assms(1) m])
  then show ?thesis using that append_emit_c[OF assms(1) m assms(3)] emit_wrote[OF assms(1,2) e(2,3)] by simp
qed

lemma number_wrote:
  assumes "buf_inv b" "mem b \<noteq> None" "0 \<le> width"
  shows "\<exists>rc b' orc'. zlog_buf_printf_dec32 b w width orc = Some (rc, b', orc') \<and> wrote b (zero_padded (dec (unat w)) width) orc rc b' orc'"
    and "\<exists>rc b' orc'. zlog_buf_printf_dec64 b v width orc = Some (rc, b', orc') \<and> wrote b (zero_padded (dec (unat v)) width) orc rc b' orc'"
    and "\<exists>rc b' orc'. zlog_buf_printf_hex b w width orc = Some (rc, b', orc') \<and> wrote b (zero_padded (hex_str (unat w)) width) orc rc b' orc'"
proof -
  obtain m where m: "mem b = Some m" using assms(2) by auto
  have e: "\<exists>rc b' orc'. emit_c b t orc = Some (rc, b', orc') \<and> wrote b t orc rc b' orc'" for t
  proof -
    obtain rc b' orc' where e: "emit_c b t orc = Some (rc, b', orc')" "buf_inv b'"
      "emit (buf_abs b) t orc = (rc, buf_abs b', orc')" by (rule emit_c_refines[OF assms(1) m])
    then show ?thesis using emit_wrote[OF assms(1,2) e(2,3)] by blast
  qed
  show "\<exists>rc b' orc'. zlog_buf_printf_dec32 b w width orc = Some (rc, b', orc') \<and> wrote b (zero_padded (dec (unat w)) width) orc rc b' orc'"
    "\<exists>rc b' orc'. zlog_buf_printf_dec64 b v width orc = Some (rc, b', orc') \<and> wrote b (zero_padded (dec (unat v)) width) orc rc b' orc'"
    "\<exists>rc b' orc'. zlog_buf_printf_hex b w width orc = Some (rc, b', orc') \<and> wrote b (zero_padded (hex_str (unat w)) width) orc rc b' orc'"
    using e dec32_emit_c[OF assms(1) m assms(3)] dec64_emit_c[OF assms(1) m assms(3)] hex_emit_c[OF assms(1) m assms(3)] by simp_all
qed

subsection \<open>The hex dump\<close>

fun piece_text :: "piece \<Rightarrow> string" where
  "piece_text (PStr s) = s"
| "piece_text (PDec64 w width) = zero_padded (dec (unat w)) width"
| "piece_text (PHex w width) = zero_padded (hex_str (unat w)) width"

fun piece_ok :: "piece \<Rightarrow> bool" where
  "piece_ok (PStr s) = True"
| "piece_ok (PDec64 w width) = (0 \<le> width)"
| "piece_ok (PHex w width) = (0 \<le> width)"

lemma put_piece_wrote:
  assumes "buf_inv b" "mem b \<noteq> None" "piece_ok p"
  shows "\<exists>rc b' orc'. put_piece b p orc = Some (rc, b', orc') \<and> wrote b (piece_text p) orc rc b' orc'"
proof (cases p)
  case (PStr s)
  obtain rc b' orc' where "zlog_buf_append b s (length s) orc = Some (rc, b', orc')" "wrote b (take (length s) s) orc rc b' orc'"
    by (rule append_wrote[OF assms(1,2) order.refl])
  then show ?thesis using PStr by simp
qed (use number_wrote[OF assms(1,2)] assms(3) in auto)

lemma pieces_wrote:
  "buf_inv b \<Longrightarrow> mem b \<noteq> None \<Longrightarrow> \<forall>p \<in> set ps. piece_ok p \<Longrightarrow>
    \<exists>rc b' orc'. write_all put_piece b ps orc = Some (rc, b', orc') \<and> wrote b (concat (map piece_text ps)) orc rc b' orc'"
proof (induction ps arbitrary: b orc)
  case Nil
  then show ?case by (auto simp: wrote_nil)
next
  case (Cons p ps)
  obtain rc b1 orc1 where p: "put_piece b p orc = Some (rc, b1, orc1)" "wrote b (piece_text p) orc rc b1 orc1"
    using put_piece_wrote[OF Cons.prems(1,2)] Cons.prems(3) by (meson list.set_intros(1))
  show ?case
  proof (cases "rc = 0")
    case False
    then show ?thesis using p wrote_stop[OF p(2) False] by simp
  next
    case True
    have "buf_inv b1" "mem b1 \<noteq> None" using p(2) True wrote_alive by (auto simp: wrote_def)
    from Cons.IH[OF this, of orc1] show ?thesis using Cons.prems(3) p True wrote_append by fastforce
  qed
qed

lemma hex_line_ok: "\<forall>p \<in> set (hex_line bytes len lo). piece_ok p"
  by (auto simp: hex_line_def Let_def)

definition hex_line_text :: "8 word list \<Rightarrow> nat \<Rightarrow> nat \<Rightarrow> string" where
  "hex_line_text bytes len lo = concat (map piece_text (hex_line bytes len lo))"

text \<open>The lines from \<open>lo\<close> on.\<close>

function hex_text :: "8 word list \<Rightarrow> nat \<Rightarrow> nat \<Rightarrow> string" where
  "hex_text bytes len lo = hex_line_text bytes len lo @
     (if lo * 16 + 16 \<ge> len then [] else hex_text bytes len (lo + 1))"
  by auto
termination by (relation "measure (\<lambda>(bytes, len, lo). len - lo * 16)") auto

declare hex_text.simps [simp del]

lemma hex_lines_wrote:
  "buf_inv b \<Longrightarrow> mem b \<noteq> None \<Longrightarrow>
    \<exists>rc b' orc'. hex_lines bytes len lo b orc = Some (rc, b', orc') \<and> wrote b (hex_text bytes len lo) orc rc b' orc'"
proof (induction bytes len lo b orc rule: hex_lines.induct)
  case (1 bytes len lo b orc)
  obtain rc b1 orc1 where p: "write_all put_piece b (hex_line bytes len lo) orc = Some (rc, b1, orc1)"
      "wrote b (hex_line_text bytes len lo) orc rc b1 orc1"
    using pieces_wrote[OF 1(2,3) hex_line_ok] by (metis hex_line_text_def)
  show ?case
  proof (cases "rc = 0")
    case False
    then show ?thesis using p wrote_stop[OF p(2) False] by (subst hex_lines.simps, subst hex_text.simps) simp
  next
    case True
    show ?thesis
    proof (cases "lo * 16 + 16 \<ge> len")
      case last: True
      then show ?thesis using p True by (subst hex_lines.simps, subst hex_text.simps) simp
    next
      case False
      have "buf_inv b1" "mem b1 \<noteq> None" using p(2) True wrote_alive by (auto simp: wrote_def)
      from 1(1)[OF p(1) HOL.refl HOL.refl _ False this] obtain rc2 b2 orc2 where
        "hex_lines bytes len (lo + 1) b1 orc1 = Some (rc2, b2, orc2)" "wrote b1 (hex_text bytes len (lo + 1)) orc1 rc2 b2 orc2"
        using True by auto
      then show ?thesis using p True False wrote_append
        by (subst hex_lines.simps, subst hex_text.simps) fastforce
    qed
  qed
qed

subsection \<open>The text of a conversion, without caches\<close>

definition pid_now :: "'tm sys \<Rightarrow> 'tm event \<Rightarrow> int" where
  "pid_now sys e = (if pid e = 0 then sys_pid sys else pid e)"

definition level_text :: "level arraylist \<Rightarrow> (level \<Rightarrow> string) \<Rightarrow> int \<Rightarrow> string" where
  "level_text levels str_of l =
     (case zlog_level_list_get levels l of Some (Some a) \<Rightarrow> take (level_str_len a) (str_of a) | _ \<Rightarrow> [])"

definition usrmsg_text :: "'tm event \<Rightarrow> string" where
  "usrmsg_text e =
     (case generate_cmd e of
        ZLOG_FMT \<Rightarrow> (case str_format e of None \<Rightarrow> ''format=(null)'' | Some None \<Rightarrow> [] | Some (Some t) \<Rightarrow> t)
      | ZLOG_HEX \<Rightarrow> (case hex_buf e of None \<Rightarrow> ''buf=(null)''
          | Some bytes \<Rightarrow> ZLOG_HEX_HEAD @ hex_text bytes (hex_buf_len e) 0))"

definition spec_text :: "'tm sys \<Rightarrow> level arraylist \<Rightarrow> mdc \<Rightarrow> 'tm event \<Rightarrow> spec \<Rightarrow> string" where
  "spec_text sys levels a_mdc e s =
     (case write_buf s of
        W_time_UTC \<Rightarrow> strftime_cut sys (time_fmt s) (sys_gmtime sys (time_sec (get_time sys e)))
      | W_time_local \<Rightarrow> strftime_cut sys (time_fmt s) (sys_localtime sys (time_sec (get_time sys e)))
      | W_ms \<Rightarrow> zero_padded (dec (unat (word_of_int (time_usec (get_time sys e) div 1000) :: 32 word))) 3
      | W_us \<Rightarrow> zero_padded (dec (unat (word_of_int (time_usec (get_time sys e)) :: 32 word))) 6
      | W_mdc \<Rightarrow> (case ht_map a_mdc (mdc_key s) of None \<Rightarrow> [] | Some kv \<Rightarrow> kv_value kv)
      | W_str \<Rightarrow> take (sp_len s) (sp_str s)
      | W_category \<Rightarrow> take (category_name_len e) (category_name e)
      | W_srcfile \<Rightarrow> (case ev_file e of None \<Rightarrow> ''(file=null)'' | Some f \<Rightarrow> take (ev_file_len e) f)
      | W_srcfile_neat \<Rightarrow> (case ev_file e of None \<Rightarrow> []
          | Some f \<Rightarrow> (case strrchr f (CHR ''/'') of Some p \<Rightarrow> drop (p + 1) (take (ev_file_len e) f)
                     | None \<Rightarrow> take (ev_file_len e) f))
      | W_srcline \<Rightarrow> dec (unat (word_of_int (ev_line e) :: 64 word))
      | W_srcfunc \<Rightarrow> (if ev_file e = None then ''(func=null)''
                     else take (ev_func_len e) (case ev_func e of None \<Rightarrow> [] | Some f \<Rightarrow> f))
      | W_hostname \<Rightarrow> host_name e
      | W_newline \<Rightarrow> [CHR 0x0A]
      | W_cr \<Rightarrow> [CHR 0x0D]
      | W_percent \<Rightarrow> ''%''
      | W_pid \<Rightarrow> dec (nat (pid_now sys e))
      | W_tid_hex \<Rightarrow> tid_hex_str e
      | W_tid_long \<Rightarrow> tid_str e
      | W_ktid \<Rightarrow> ktid_str e
      | W_level_lowercase \<Rightarrow> level_text levels str_lowercase (ev_level e)
      | W_level_uppercase \<Rightarrow> level_text levels str_uppercase (ev_level e)
      | W_usrmsg \<Rightarrow> usrmsg_text e)"

text \<open>Two events that print alike: they differ in caches, in a clock or process id not yet read.\<close>

definition same_event :: "'tm sys \<Rightarrow> 'tm event \<Rightarrow> 'tm event \<Rightarrow> bool" where
  "same_event sys e e' \<longleftrightarrow>
     category_name e' = category_name e \<and> category_name_len e' = category_name_len e \<and> host_name e' = host_name e \<and>
     ev_file e' = ev_file e \<and> ev_file_len e' = ev_file_len e \<and> ev_func e' = ev_func e \<and>
     ev_func_len e' = ev_func_len e \<and> ev_line e' = ev_line e \<and> ev_level e' = ev_level e \<and>
     hex_buf e' = hex_buf e \<and> hex_buf_len e' = hex_buf_len e \<and> str_format e' = str_format e \<and>
     generate_cmd e' = generate_cmd e \<and> tid_str e' = tid_str e \<and> tid_hex_str e' = tid_hex_str e \<and>
     ktid_str e' = ktid_str e \<and> time_sec (get_time sys e') = time_sec (get_time sys e) \<and> time_usec (get_time sys e') = time_usec (get_time sys e) \<and>
     pid_now sys e' = pid_now sys e"

lemma same_event_text:
  assumes "same_event sys e e'"
  shows "spec_text sys levels m e' s = spec_text sys levels m e s"
proof -
  note f = assms[unfolded same_event_def]
  show ?thesis unfolding spec_text_def usrmsg_text_def by (simp only: f)
qed

lemma same_event_refl: "same_event sys e e"
  by (simp add: same_event_def)

lemma same_event_trans: "same_event sys e e1 \<Longrightarrow> same_event sys e1 e2 \<Longrightarrow> same_event sys e e2"
  by (simp add: same_event_def)

subsection \<open>The invariant of the caches\<close>

definition sys_ok :: "'tm sys \<Rightarrow> bool" where
  "sys_ok sys \<longleftrightarrow> 0 < sys_sec sys \<and> 0 < sys_pid sys"

definition is_time :: "spec \<Rightarrow> bool" where
  "is_time s \<longleftrightarrow> write_buf s = W_time_UTC \<or> write_buf s = W_time_local"

definition cache_ok :: "'tm sys \<Rightarrow> 'tm event \<Rightarrow> spec \<Rightarrow> bool" where
  "cache_ok sys e s \<longleftrightarrow> 0 \<le> time_cache_index s \<and> nat (time_cache_index s) < length (time_caches e) \<and>
     (let c = time_caches e ! nat (time_cache_index s) in
      tc_sec c = 0 \<or> tc_str c = strftime_cut sys (time_fmt s)
        ((if write_buf s = W_time_UTC then sys_gmtime sys else sys_localtime sys) (tc_sec c)))"

text \<open>Conversions that share a cache print alike.\<close>

definition caches_apart :: "spec set \<Rightarrow> bool" where
  "caches_apart ss \<longleftrightarrow> (\<forall>s \<in> ss. \<forall>s' \<in> ss. is_time s \<and> is_time s' \<and> time_cache_index s = time_cache_index s' \<longrightarrow>
     time_fmt s = time_fmt s' \<and> write_buf s = write_buf s')"

definition event_inv :: "'tm sys \<Rightarrow> spec set \<Rightarrow> 'tm event \<Rightarrow> bool" where
  "event_inv sys ss e \<longleftrightarrow> event_ok e \<and> 0 \<le> time_sec e \<and>
     (time_utc_sec e = 0 \<or> time_utc e = sys_gmtime sys (time_utc_sec e)) \<and>
     (time_local_sec e = 0 \<or> time_local e = sys_localtime sys (time_local_sec e)) \<and>
     (last_pid e \<noteq> 0 \<longrightarrow> pid_str e = dec (nat (last_pid e))) \<and>
     (\<forall>s \<in> ss. is_time s \<longrightarrow> cache_ok sys e s)"

definition levels_ok :: "level arraylist \<Rightarrow> bool" where
  "levels_ok ls \<longleftrightarrow> ll_inv ls \<and> (\<forall>a. Some a \<in> set (zc_arraylist_foreach ls) \<longrightarrow>
     level_str_len a = length (str_lowercase a) \<and> level_str_len a = length (str_uppercase a))"

text \<open>What a conversion needs of the event and the context: no NULL file name for \<open>%f\<close>, no level below 0, no
  value longer than its array, a format \<open>vsnprintf\<close> can print.\<close>

definition spec_ready :: "mdc \<Rightarrow> 'tm event \<Rightarrow> spec \<Rightarrow> bool" where
  "spec_ready m e s \<longleftrightarrow> sp_len s \<le> length (sp_str s) \<and> 0 \<le> ev_level e \<and>
     (ev_func e = None \<longrightarrow> ev_func_len e = 0) \<and>
     (write_buf s = W_usrmsg \<longrightarrow> str_format e \<noteq> Some None) \<and>
     (write_buf s = W_srcfile_neat \<longrightarrow> (\<exists>f. ev_file e = Some f \<and> ev_file_len e = length f)) \<and>
     (write_buf s = W_mdc \<longrightarrow> (\<forall>kv. ht_map m (mdc_key s) = Some kv \<longrightarrow> kv_value_len kv \<le> MAXLEN_PATH))"

lemma event_ok_updates [simp]:
  "event_ok (e\<lparr>time_sec := t\<rparr>) = event_ok e" "event_ok (e\<lparr>time_usec := t\<rparr>) = event_ok e"
  "event_ok (e\<lparr>time_utc := tm\<rparr>) = event_ok e" "event_ok (e\<lparr>time_utc_sec := t\<rparr>) = event_ok e"
  "event_ok (e\<lparr>time_local := tm\<rparr>) = event_ok e" "event_ok (e\<lparr>time_local_sec := t\<rparr>) = event_ok e"
  "event_ok (e\<lparr>time_caches := cs\<rparr>) = event_ok e" "event_ok (e\<lparr>pid_str := ps\<rparr>) = event_ok e"
  by (simp_all add: event_ok_def split: option.split)

lemma cache_ok_updates [simp]:
  "cache_ok sys (e\<lparr>time_sec := t\<rparr>) s = cache_ok sys e s" "cache_ok sys (e\<lparr>time_usec := t\<rparr>) s = cache_ok sys e s"
  "cache_ok sys (e\<lparr>time_utc := tm\<rparr>) s = cache_ok sys e s" "cache_ok sys (e\<lparr>time_utc_sec := t\<rparr>) s = cache_ok sys e s"
  "cache_ok sys (e\<lparr>time_local := tm\<rparr>) s = cache_ok sys e s" "cache_ok sys (e\<lparr>time_local_sec := t\<rparr>) s = cache_ok sys e s"
  "cache_ok sys (e\<lparr>pid := p\<rparr>) s = cache_ok sys e s" "cache_ok sys (e\<lparr>last_pid := p\<rparr>) s = cache_ok sys e s"
  "cache_ok sys (e\<lparr>pid_str := ps\<rparr>) s = cache_ok sys e s"
  by (simp_all add: cache_ok_def)

lemma get_time_same: "sys_ok sys \<Longrightarrow> same_event sys e (get_time sys e)"
  by (cases "time_sec e = 0") (simp_all add: same_event_def get_time_def sys_ok_def pid_now_def)

lemma get_time_inv: "sys_ok sys \<Longrightarrow> event_inv sys ss e \<Longrightarrow> event_inv sys ss (get_time sys e) \<and> 0 < time_sec (get_time sys e)"
  by (cases "time_sec e = 0") (simp_all add: event_inv_def get_time_def sys_ok_def)

lemma get_pid_same: "sys_ok sys \<Longrightarrow> same_event sys e (get_pid sys e)"
  by (cases "pid e = 0"; cases "sys_pid sys = last_pid e") (simp_all add: same_event_def get_time_def get_pid_def sys_ok_def pid_now_def)

lemma get_pid_inv:
  assumes sys: "sys_ok sys" and inv: "event_inv sys ss e"
  shows "event_inv sys ss (get_pid sys e) \<and> pid_str (get_pid sys e) = dec (nat (pid_now sys e))"
proof (cases "pid e = 0")
  case True
  have "event_ok e" using inv by (simp add: event_inv_def)
  then have ok: "event_ok (e\<lparr>pid := p, last_pid := p\<rparr>)" "event_ok (e\<lparr>pid := last_pid e\<rparr>)" for p
    by (auto simp: event_ok_def split: option.splits)
  show ?thesis using True sys inv ok by (cases "sys_pid sys = last_pid e") (simp_all add: event_inv_def get_pid_def sys_ok_def pid_now_def)
next
  case False
  then have "last_pid e = pid e" using inv by (simp add: event_inv_def event_ok_def)
  then show ?thesis using False inv by (simp add: event_inv_def get_pid_def pid_now_def)
qed

lemma event_inv_utc: "event_inv sys ss e \<Longrightarrow> event_inv sys ss (e\<lparr>time_utc := sys_gmtime sys t, time_utc_sec := t\<rparr>)"
  by (simp add: event_inv_def)

lemma event_inv_local: "event_inv sys ss e \<Longrightarrow> event_inv sys ss (e\<lparr>time_local := sys_localtime sys t, time_local_sec := t\<rparr>)"
  by (simp add: event_inv_def)

lemma same_utc: "same_event sys e (e\<lparr>time_utc := tm, time_utc_sec := t\<rparr>)"
  by (simp add: same_event_def get_time_def pid_now_def)

lemma same_local: "same_event sys e (e\<lparr>time_local := tm, time_local_sec := t\<rparr>)"
  by (simp add: same_event_def get_time_def pid_now_def)

lemma same_caches: "same_event sys e (e\<lparr>time_caches := cs\<rparr>)"
  by (simp add: same_event_def get_time_def pid_now_def)

text \<open>The shape of every result: the text is written, the event prints as before and keeps its invariant.\<close>

definition conv_ok :: "'tm sys \<Rightarrow> spec set \<Rightarrow> 'tm event \<Rightarrow> buf \<Rightarrow> string \<Rightarrow> outcomes \<Rightarrow> (int \<times> 'tm event \<times> buf \<times> outcomes) option \<Rightarrow> bool" where
  "conv_ok sys ss e b t orc r \<longleftrightarrow> (\<exists>rc e' b' orc'. r = Some (rc, e', b', orc') \<and> wrote b t orc rc b' orc' \<and> event_inv sys ss e' \<and> same_event sys e e')"

lemma conv_okI: "r = Some (rc, e', b', orc') \<Longrightarrow> wrote b t orc rc b' orc' \<Longrightarrow> event_inv sys ss e' \<Longrightarrow> same_event sys e e' \<Longrightarrow> conv_ok sys ss e b t orc r"
  by (auto simp: conv_ok_def)

lemma conv_append:
  assumes "event_inv sys ss e" "buf_inv b" "mem b \<noteq> None" "n \<le> length s"
  shows "conv_ok sys ss e b (take n s) orc (with_event e (zlog_buf_append b s n orc))"
proof -
  obtain rc b' orc' where a: "zlog_buf_append b s n orc = Some (rc, b', orc')" "wrote b (take n s) orc rc b' orc'"
    by (rule append_wrote[OF assms(2-4)])
  show ?thesis by (rule conv_okI[OF _ a(2) assms(1) same_event_refl]) (simp add: with_event_def a(1))
qed

lemma conv_append_all:
  assumes "event_inv sys ss e" "buf_inv b" "mem b \<noteq> None"
  shows "conv_ok sys ss e b s orc (with_event e (zlog_buf_append b s (length s) orc))"
  using conv_append[OF assms, of "length s" s orc] by simp

lemma conv_append_lit:
  assumes "event_inv sys ss e" "buf_inv b" "mem b \<noteq> None" "n = length s"
  shows "conv_ok sys ss e b s orc (with_event e (zlog_buf_append b s n orc))"
  using conv_append_all[OF assms(1-3)] assms(4) by simp

lemma time_internal_ok:
  assumes sys: "sys_ok sys" and inv: "event_inv sys ss e" and s: "s \<in> ss" "write_buf s = (if utc then W_time_UTC else W_time_local)"
    and apart: "caches_apart ss" and b: "buf_inv b" "mem b \<noteq> None"
  shows "conv_ok sys ss e b (spec_text sys levels m e s) orc (zlog_spec_write_time_internal sys s e b utc orc)"
proof -
  define e1 where "e1 = get_time sys e"
  define now where "now = time_sec e1"
  define i where "i = nat (time_cache_index s)"
  define conv where "conv = (if utc then sys_gmtime sys else sys_localtime sys)"
  have e1: "event_inv sys ss e1" "0 < now" "same_event sys e e1"
    using get_time_inv[OF sys inv] get_time_same[OF sys] by (auto simp: e1_def now_def)
  have gt: "get_time sys e1 = e1" using e1(2) by (simp add: get_time_def now_def)
  have it: "is_time s" using s(2) by (auto simp: is_time_def)
  have ce: "time_caches e1 = time_caches e" by (simp add: e1_def get_time_def)
  have c: "0 \<le> time_cache_index s" "i < length (time_caches e)"
    "tc_sec (time_caches e ! i) = 0 \<or> tc_str (time_caches e ! i) = strftime_cut sys (time_fmt s) (conv (tc_sec (time_caches e ! i)))"
    using inv s it by (auto simp: event_inv_def cache_ok_def Let_def i_def conv_def)
  define e2 where "e2 = (if utc then
                 if time_utc_sec e1 \<noteq> now then e1\<lparr>time_utc := sys_gmtime sys now, time_utc_sec := now\<rparr> else e1
               else
                 if time_local_sec e1 \<noteq> now then e1\<lparr>time_local := sys_localtime sys now, time_local_sec := now\<rparr> else e1)"
  have e2: "event_inv sys ss e2" "same_event sys e1 e2" "time_sec e2 = now" "time_caches e2 = time_caches e"
    using e1(1) ce unfolding e2_def by (auto simp: now_def event_inv_utc event_inv_local same_utc same_local same_event_refl)
  have tm: "(if utc then time_utc e2 else time_local e2) = conv now"
    using e1(1,2) by (auto simp: e2_def conv_def event_inv_def)
  define c1 where "c1 = (if tc_sec (time_caches e ! i) \<noteq> now
                     then \<lparr>tc_str = strftime_cut sys (time_fmt s) (conv now), tc_sec = now\<rparr> else time_caches e ! i)"
  have c1: "tc_str c1 = strftime_cut sys (time_fmt s) (conv now)" "tc_sec c1 = now" using c(3) e1(2) by (auto simp: c1_def)
  define e3 where "e3 = e2\<lparr>time_caches := (time_caches e2)[i := c1]\<rparr>"
  have e3: "same_event sys e2 e3" unfolding e3_def by (rule same_caches)
  have cache: "cache_ok sys e3 s'" if "s' \<in> ss" "is_time s'" for s'
  proof (cases "time_cache_index s' = time_cache_index s")
    case True
    then have "time_fmt s' = time_fmt s" "write_buf s' = write_buf s"
      using apart that s(1) it unfolding caches_apart_def by blast+
    then show ?thesis using True c c1 e2(4) s(2) by (auto simp: cache_ok_def e3_def i_def conv_def)
  next
    case False
    have "cache_ok sys e2 s'" using e2(1) that by (simp add: event_inv_def)
    moreover have "nat (time_cache_index s') \<noteq> i" using False c(1) calculation by (auto simp: i_def cache_ok_def)
    ultimately show ?thesis by (simp add: cache_ok_def e3_def)
  qed
  have inv3: "event_inv sys ss e3" using e2(1) cache by (simp add: event_inv_def e3_def)
  have same: "same_event sys e e3" using e1(3) e2(2) e3 same_event_trans by blast
  obtain rc b' orc' where w: "zlog_buf_append b (tc_str c1) (length (tc_str c1)) orc = Some (rc, b', orc')"
    "wrote b (take (length (tc_str c1)) (tc_str c1)) orc rc b' orc'"
    by (rule append_wrote[OF b order.refl])
  have "arr_get (time_caches e) (time_cache_index s) = Some (time_caches e ! i)" using c(1,2) by (simp add: arr_get_def i_def)
  then have "zlog_spec_write_time_internal sys s e b utc orc = Some (rc, e3, b', orc')"
    unfolding zlog_spec_write_time_internal_def Let_def e1_def[symmetric] now_def[symmetric] e2_def[symmetric] tm i_def[symmetric]
    by (simp only: Option.bind.simps(2) c1_def[symmetric] w(1) prod.case e3_def)
  moreover have "spec_text sys levels m e s = tc_str c1"
    using s(2) c1(1) by (simp add: spec_text_def conv_def now_def e1_def)
  ultimately show ?thesis using w(2) inv3 same by (auto intro: conv_okI)
qed


lemma conv_number:
  assumes "event_inv sys ss e'" "same_event sys e e'"
    and "\<exists>rc b' orc'. r = Some (rc, b', orc') \<and> wrote b t orc rc b' orc'"
  shows "conv_ok sys ss e b t orc (with_event e' r)"
  using assms by (auto simp: with_event_def intro: conv_okI)

lemma bind_with_event: "do { (rc, b', orc') \<leftarrow> r; Some (rc, e, b', orc') } = with_event e r"
  by (cases r) (auto simp: with_event_def)

lemma usrmsg_ok:
  assumes inv: "event_inv sys ss e" and fmt: "str_format e \<noteq> Some None" and b: "buf_inv b" "mem b \<noteq> None"
  shows "conv_ok sys ss e b (usrmsg_text e) orc (with_event e (zlog_spec_write_usrmsg e b orc))"
proof (rule conv_number[OF inv same_event_refl])
  obtain m where m: "mem b = Some m" using b(2) by auto
  have app: "\<exists>rc b' orc'. zlog_buf_append b s n orc = Some (rc, b', orc') \<and> wrote b s orc rc b' orc'" if "n = length s" for s n
  proof -
    obtain rc b' orc' where "zlog_buf_append b s (length s) orc = Some (rc, b', orc')" "wrote b (take (length s) s) orc rc b' orc'"
      by (rule append_wrote[OF b order.refl])
    then show ?thesis using that by simp
  qed
  show "\<exists>rc b' orc'. zlog_spec_write_usrmsg e b orc = Some (rc, b', orc') \<and> wrote b (usrmsg_text e) orc rc b' orc'"
  proof (cases "generate_cmd e")
    case ZLOG_FMT
    show ?thesis
    proof (cases "str_format e")
      case None
      then show ?thesis using ZLOG_FMT app[of 13 "''format=(null)''"] by (simp add: zlog_spec_write_usrmsg_def usrmsg_text_def)
    next
      case (Some r)
      show ?thesis
      proof (cases r)
        case None
        then show ?thesis using Some fmt by simp
      next
        case t: (Some t)
        obtain rc b' orc' where v: "zlog_buf_vprintf b (Some t) orc = Some (rc, b', orc')" "buf_inv b'"
          "emit (buf_abs b) t orc = (rc, buf_abs b', orc')" by (rule vprintf_refines[OF b(1) m])
        then show ?thesis using ZLOG_FMT Some t emit_wrote[OF b v(2,3)] by (simp add: zlog_spec_write_usrmsg_def usrmsg_text_def)
      qed
    qed
  next
    case ZLOG_HEX
    show ?thesis
    proof (cases "hex_buf e")
      case None
      obtain rc b' orc' where a: "zlog_buf_append b ''buf=(null)'' 10 orc = Some (rc, b', orc')" "wrote b ''buf=(null)'' orc rc b' orc'"
        using app[of 10 "''buf=(null)''"] by auto
      then have "rc = 0 \<or> rc = 1 \<or> rc = -1" by (auto simp: wrote_def)
      then show ?thesis using ZLOG_HEX None a by (auto simp: zlog_spec_write_usrmsg_def usrmsg_text_def)
    next
      case (Some bytes)
      have len: "\<not> length bytes < hex_buf_len e" using inv Some by (auto simp: event_inv_def event_ok_def)
      obtain rc b1 orc1 where a: "zlog_buf_append b ZLOG_HEX_HEAD (length ZLOG_HEX_HEAD) orc = Some (rc, b1, orc1)"
        "wrote b ZLOG_HEX_HEAD orc rc b1 orc1" using app by blast
      show ?thesis
      proof (cases "rc = 0")
        case False
        then have "rc = 1 \<or> rc = -1" using a(2) by (auto simp: wrote_def)
        then show ?thesis using ZLOG_HEX Some len a False wrote_stop[OF a(2) False]
          by (auto simp: zlog_spec_write_usrmsg_def usrmsg_text_def)
      next
        case True
        have b1: "buf_inv b1" "mem b1 \<noteq> None" using a(2) True wrote_alive by (auto simp: wrote_def)
        obtain rc2 b2 orc2 where h: "hex_lines bytes (hex_buf_len e) 0 b1 orc1 = Some (rc2, b2, orc2)"
          "wrote b1 (hex_text bytes (hex_buf_len e) 0) orc1 rc2 b2 orc2" using hex_lines_wrote[OF b1] by blast
        have w: "wrote b (ZLOG_HEX_HEAD @ hex_text bytes (hex_buf_len e) 0) orc rc2 b2 orc2"
          using wrote_append[of b ZLOG_HEX_HEAD _ b1] a(2) True h(2) by simp
        have "rc2 = 0 \<or> rc2 = 1 \<or> rc2 = -1" using h(2) by (auto simp: wrote_def)
        then show ?thesis using ZLOG_HEX Some len a True h w
          by (auto simp: zlog_spec_write_usrmsg_def usrmsg_text_def)
      qed
    qed
  qed
qed

lemma level_ok:
  assumes inv: "event_inv sys ss e" and b: "buf_inv b" "mem b \<noteq> None" and ls: "levels_ok ls" "0 \<le> ev_level e"
    and f: "f = str_lowercase \<or> f = str_uppercase"
  shows "conv_ok sys ss e b (level_text ls f (ev_level e)) orc (with_event e (zlog_spec_write_level ls f e b orc))"
proof -
  obtain a where a: "zlog_level_list_get ls (ev_level e) = Some (Some a)" "Some a \<in> set (zc_arraylist_foreach ls)"
    using level_get_level[of ls "ev_level e"] ls by (auto simp: levels_ok_def)
  have "level_str_len a \<le> length (f a)" using ls(1) a(2) f by (auto simp: levels_ok_def)
  from conv_append[OF inv b this, of orc] show ?thesis using a(1) by (simp add: zlog_spec_write_level_def level_text_def)
qed

lemma srcfile_neat_ok:
  assumes inv: "event_inv sys ss e" and b: "buf_inv b" "mem b \<noteq> None" and f: "ev_file e = Some f" "ev_file_len e = length f"
  shows "conv_ok sys ss e b (case strrchr f (CHR ''/'') of Some p \<Rightarrow> drop (p + 1) (take (ev_file_len e) f)
                     | None \<Rightarrow> take (ev_file_len e) f) orc (with_event e (zlog_spec_write_srcfile_neat e b orc))"
proof (cases "strrchr f (CHR ''/'')")
  case None
  then show ?thesis using conv_append_all[OF inv b, of f orc] f by (simp add: zlog_spec_write_srcfile_neat_def)
next
  case (Some p)
  then have "p + 1 \<le> length f" using strrchr_Some by fastforce
  then show ?thesis using Some conv_append_all[OF inv b, of "drop (p + 1) f" orc] f by (simp add: zlog_spec_write_srcfile_neat_def)
qed

lemma mdc_ok:
  assumes inv: "event_inv sys ss e" and b: "buf_inv b" "mem b \<noteq> None" and m: "mdc_inv m"
    and len: "\<forall>kv. ht_map m (mdc_key s) = Some kv \<longrightarrow> kv_value_len kv \<le> MAXLEN_PATH"
  shows "conv_ok sys ss e b (case ht_map m (mdc_key s) of None \<Rightarrow> [] | Some kv \<Rightarrow> kv_value kv) orc
    (with_event e (zlog_spec_write_mdc m s b orc))"
proof (cases "ht_map m (mdc_key s)")
  case None
  have "wrote b [] orc 0 b orc" using b by (rule wrote_nil)
  then show ?thesis using None mdc_get_map[OF m] inv
    by (auto simp: zlog_spec_write_mdc_def with_event_def intro!: conv_okI same_event_refl)
next
  case (Some kv)
  then have "length (kv_value kv) = kv_value_len kv" "kv_value_len kv \<le> MAXLEN_PATH" using m len by (auto simp: mdc_inv_def kv_ok_def)
  then have "take (kv_value_len kv) (kv_array kv) = kv_value kv" "kv_value_len kv \<le> length (kv_array kv)" by (simp_all add: kv_array_def)
  then show ?thesis using conv_append[OF inv b, of "kv_value_len kv" "kv_array kv" orc] Some mdc_get_map[OF m]
    by (simp add: zlog_spec_write_mdc_def)
qed

lemma spec_write_conv:
  assumes sys: "sys_ok sys" and inv: "event_inv sys ss e" and s: "s \<in> ss" "spec_ready m e s" and ls: "levels_ok levels"
    and m: "mdc_inv m" and apart: "caches_apart ss" and b: "buf_inv b" "mem b \<noteq> None"
  shows "conv_ok sys ss e b (spec_text sys levels m e s) orc (spec_write sys levels m s e b orc)"
proof -
  note app = conv_append[OF inv b] and all = conv_append_all[OF inv b] and lit = conv_append_lit[OF inv b] and num = number_wrote[OF b]
  note ok = inv[unfolded event_inv_def event_ok_def] and r = s(2)[unfolded spec_ready_def]
  note gt = conv_number[OF conjunct1[OF get_time_inv[OF sys inv]] get_time_same[OF sys]]
  show ?thesis
  proof (cases "write_buf s")
    case W_time_UTC
    then show ?thesis using time_internal_ok[OF sys inv s(1) _ apart b, where utc = True]
      by (simp add: spec_write.simps zlog_spec_write_time_UTC_def)
  next
    case W_time_local
    then show ?thesis using time_internal_ok[OF sys inv s(1) _ apart b, where utc = False]
      by (simp add: spec_write.simps zlog_spec_write_time_local_def)
  next
    case W_ms
    then show ?thesis using gt[OF num(1), of 3]
      by (simp add: spec_write.simps spec_text_def zlog_spec_write_ms_def Let_def bind_with_event)
  next
    case W_us
    then show ?thesis using gt[OF num(1), of 6]
      by (simp add: spec_write.simps spec_text_def zlog_spec_write_us_def Let_def bind_with_event)
  next
    case W_mdc
    then show ?thesis using mdc_ok[OF inv b m] r by (simp add: spec_write.simps spec_text_def)
  next
    case W_srcfile
    show ?thesis
    proof (cases "ev_file e")
      case None
      then show ?thesis using lit[of 11 "''(file=null)''"] W_srcfile by (simp add: spec_write.simps spec_text_def zlog_spec_write_srcfile_def)
    next
      case (Some f)
      then show ?thesis using app[of "ev_file_len e" f] ok W_srcfile by (simp add: spec_write.simps spec_text_def zlog_spec_write_srcfile_def)
    qed
  next
    case W_srcfile_neat
    then show ?thesis using r srcfile_neat_ok[OF inv b] by (auto simp: spec_write.simps spec_text_def)
  next
    case W_srcline
    then show ?thesis using conv_number[OF inv same_event_refl num(2), of 0]
      by (simp add: spec_write.simps spec_text_def zlog_spec_write_srcline_def zero_padded_def)
  next
    case W_srcfunc
    show ?thesis
    proof (cases "ev_file e")
      case None
      then show ?thesis using lit[of 11 "''(func=null)''"] W_srcfunc by (simp add: spec_write.simps spec_text_def zlog_spec_write_srcfunc_def)
    next
      case (Some f)
      have "ev_func_len e \<le> length (case ev_func e of None \<Rightarrow> [] | Some f \<Rightarrow> f)" using ok r by (auto split: option.splits)
      then show ?thesis using app Some W_srcfunc by (simp add: spec_write.simps spec_text_def zlog_spec_write_srcfunc_def)
    qed
  next
    case W_pid
    have p: "event_inv sys ss (get_pid sys e)" "pid_str (get_pid sys e) = dec (nat (pid_now sys e))"
      using get_pid_inv[OF sys inv] by auto
    obtain rc b' orc' where "zlog_buf_append b (dec (nat (pid_now sys e))) (length (dec (nat (pid_now sys e)))) orc = Some (rc, b', orc')"
      "wrote b (take (length (dec (nat (pid_now sys e)))) (dec (nat (pid_now sys e)))) orc rc b' orc'"
      by (rule append_wrote[OF b order.refl])
    then show ?thesis using W_pid p get_pid_same[OF sys, of e]
      by (auto simp: spec_write.simps spec_text_def zlog_spec_write_pid_def intro!: conv_okI)
  next
    case W_level_lowercase
    then show ?thesis using level_ok[OF inv b ls] r by (simp add: spec_write.simps spec_text_def write_simple_defs)
  next
    case W_level_uppercase
    then show ?thesis using level_ok[OF inv b ls] r by (simp add: spec_write.simps spec_text_def write_simple_defs)
  next
    case W_usrmsg
    then have "str_format e \<noteq> Some None" using r by simp
    then show ?thesis using W_usrmsg usrmsg_ok[OF inv _ b] by (simp add: spec_write.simps spec_text_def)
  next
    case W_str
    then show ?thesis using app r by (simp add: spec_write.simps spec_text_def write_simple_defs)
  next
    case W_category
    then show ?thesis using app ok by (simp add: spec_write.simps spec_text_def write_simple_defs)
  next
    case W_newline
    then show ?thesis using lit[of 1 "[CHR 0x0A]"] by (simp add: spec_write.simps spec_text_def write_simple_defs)
  next
    case W_cr
    then show ?thesis using lit[of 1 "[CHR 0x0D]"] by (simp add: spec_write.simps spec_text_def write_simple_defs)
  next
    case W_percent
    then show ?thesis using lit[of 1 "''%''"] by (simp add: spec_write.simps spec_text_def write_simple_defs)
  qed (use all in \<open>simp_all add: spec_write.simps spec_text_def write_simple_defs\<close>)
qed

end
