(* ===== verification/Generate.thy ===== *)
theory Generate
  imports Spec
begin

text \<open>
  The generators of \<open>spec.c\<close>: a conversion written into one of the three output buffers of a thread (message,
  path, archive path), directly or by way of a scratch buffer that is cut and padded, and the loop over
  the conversions of a format. The locale \<open>generator\<close> states what the loop needs of a generator; it is
  interpreted on each of the three pairs.
\<close>

section \<open>The generators\<close>

text \<open>A conversion without flags is written straight into the output buffer. One with flags is written into
  a scratch buffer first and then appended under its widths; a scratch text that was cut (a positive
  return code) is used as it is.\<close>

definition gen_direct :: "'tm sys \<Rightarrow> level arraylist \<Rightarrow> spec \<Rightarrow> 'tm thread \<Rightarrow> buf \<Rightarrow> outcomes \<Rightarrow>
    (int \<times> 'tm event \<times> buf \<times> outcomes) option" where
  "gen_direct sys levels a_spec t out orc = spec_write sys levels (th_mdc t) a_spec (th_event t) out orc"

definition gen_reformat :: "'tm sys \<Rightarrow> level arraylist \<Rightarrow> spec \<Rightarrow> 'tm thread \<Rightarrow> buf \<Rightarrow> buf \<Rightarrow> outcomes \<Rightarrow>
    (int \<times> 'tm event \<times> buf \<times> buf \<times> outcomes) option" where
  "gen_reformat sys levels a_spec t pre out orc = do {
     (rc, e, pre1, orc1) \<leftarrow> spec_write sys levels (th_mdc t) a_spec (th_event t) (zlog_buf_restart pre) orc;
     if rc < 0 then Some (-1, e, pre1, out, orc1)
     else do {
       (rc2, out1, orc2) \<leftarrow> zlog_buf_adjust_append out (case mem pre1 of None \<Rightarrow> [] | Some m \<Rightarrow> m) (buf_tail pre1)
          (left_adjust a_spec) (left_fill_zeros a_spec) (min_width a_spec) (max_width a_spec) orc1;
       Some (rc2, e, pre1, out1, orc2) } }"

type_synonym 'tm gen_fn = "'tm sys \<Rightarrow> level arraylist \<Rightarrow> spec \<Rightarrow> 'tm thread \<Rightarrow> outcomes \<Rightarrow> (int \<times> 'tm thread \<times> outcomes) option"

definition zlog_spec_gen_msg_direct :: "'tm gen_fn" where
  "zlog_spec_gen_msg_direct sys levels a_spec t orc = do {
     (rc, e, b, orc1) \<leftarrow> gen_direct sys levels a_spec t (msg_buf t) orc;
     Some (rc, t\<lparr>th_event := e, msg_buf := b\<rparr>, orc1) }"

definition zlog_spec_gen_msg_reformat :: "'tm gen_fn" where
  "zlog_spec_gen_msg_reformat sys levels a_spec t orc = do {
     (rc, e, pre, b, orc1) \<leftarrow> gen_reformat sys levels a_spec t (pre_msg_buf t) (msg_buf t) orc;
     Some (rc, t\<lparr>th_event := e, pre_msg_buf := pre, msg_buf := b\<rparr>, orc1) }"

definition zlog_spec_gen_path_direct :: "'tm gen_fn" where
  "zlog_spec_gen_path_direct sys levels a_spec t orc = do {
     (rc, e, b, orc1) \<leftarrow> gen_direct sys levels a_spec t (path_buf t) orc;
     Some (rc, t\<lparr>th_event := e, path_buf := b\<rparr>, orc1) }"

definition zlog_spec_gen_path_reformat :: "'tm gen_fn" where
  "zlog_spec_gen_path_reformat sys levels a_spec t orc = do {
     (rc, e, pre, b, orc1) \<leftarrow> gen_reformat sys levels a_spec t (pre_path_buf t) (path_buf t) orc;
     Some (rc, t\<lparr>th_event := e, pre_path_buf := pre, path_buf := b\<rparr>, orc1) }"

definition zlog_spec_gen_archive_path_direct :: "'tm gen_fn" where
  "zlog_spec_gen_archive_path_direct sys levels a_spec t orc = do {
     (rc, e, b, orc1) \<leftarrow> gen_direct sys levels a_spec t (archive_path_buf t) orc;
     Some (rc, t\<lparr>th_event := e, archive_path_buf := b\<rparr>, orc1) }"

definition zlog_spec_gen_archive_path_reformat :: "'tm gen_fn" where
  "zlog_spec_gen_archive_path_reformat sys levels a_spec t orc = do {
     (rc, e, pre, b, orc1) \<leftarrow> gen_reformat sys levels a_spec t (pre_path_buf t) (archive_path_buf t) orc;
     Some (rc, t\<lparr>th_event := e, pre_path_buf := pre, archive_path_buf := b\<rparr>, orc1) }"

definition zlog_spec_gen_msg :: "'tm gen_fn" where
  "zlog_spec_gen_msg sys levels s = (if sp_reformat s then zlog_spec_gen_msg_reformat else zlog_spec_gen_msg_direct) sys levels s"

definition zlog_spec_gen_path :: "'tm gen_fn" where
  "zlog_spec_gen_path sys levels s = (if sp_reformat s then zlog_spec_gen_path_reformat else zlog_spec_gen_path_direct) sys levels s"

definition zlog_spec_gen_archive_path :: "'tm gen_fn" where
  "zlog_spec_gen_archive_path sys levels s =
     (if sp_reformat s then zlog_spec_gen_archive_path_reformat else zlog_spec_gen_archive_path_direct) sys levels s"

text \<open>\<open>zc_arraylist_foreach\<close> over the conversions, until one does not return 0; the callers of this loop are
  \<open>zlog_format_gen_msg\<close> and the two path generators of \<open>rule.c\<close>.\<close>

fun gen_loop :: "(spec \<Rightarrow> 'tm thread \<Rightarrow> outcomes \<Rightarrow> (int \<times> 'tm thread \<times> outcomes) option) \<Rightarrow> spec option list \<Rightarrow>
    'tm thread \<Rightarrow> outcomes \<Rightarrow> (int \<times> 'tm thread \<times> outcomes) option" where
  "gen_loop gen [] t orc = Some (0, t, orc)"
| "gen_loop gen (x # xs) t orc = do {
     a_spec \<leftarrow> x;
     (rc, t1, orc1) \<leftarrow> gen a_spec t orc;
     if rc = 0 then gen_loop gen xs t1 orc1 else Some (-1, t1, orc1) }"

section \<open>What the generators produce\<close>

definition clip :: "buf \<Rightarrow> string \<Rightarrow> string" where
  "clip b t = (if size_max b \<noteq> 0 \<and> size_max b \<le> length t then overlay (truncate_str b) (take (size_max b - 1) t) else t)"

text \<open>The text of one conversion under its flags, written by way of the scratch buffer \<open>pre\<close>.\<close>

definition seg_text :: "'tm sys \<Rightarrow> level arraylist \<Rightarrow> mdc \<Rightarrow> 'tm event \<Rightarrow> buf \<Rightarrow> spec \<Rightarrow> string" where
  "seg_text sys levels m e pre s =
     (let t = spec_text sys levels m e s in
      if sp_reformat s then adjust_text (clip pre t) (left_adjust s) (left_fill_zeros s) (min_width s) (max_width s) else t)"

lemma a_text_cases: "a_text (buf_abs b) = Some c \<longleftrightarrow> (\<exists>m. mem b = Some m \<and> c = take (buf_tail b) m)"
  by (auto simp: buf_abs_def)

lemma wrote_clip:
  assumes "wrote b t orc rc b' orc'" "rc \<noteq> -1" "a_text (buf_abs b) = Some []"
  shows "a_text (buf_abs b') = Some (clip b t)"
proof -
  have b': "buf_inv b'" "size_max b' = size_max b" using assms(1) by (auto simp: wrote_def)
  have "size_max b = 0 \<or> length t < size_max b" if whole: "a_text (buf_abs b') = Some t"
  proof -
    obtain m where m: "mem b' = Some m" "t = take (buf_tail b') m" using whole[unfolded a_text_cases] by blast
    then have "length t \<le> buf_tail b'" by simp
    also have "buf_tail b' < size_real b'" using b'(1) m(1) by (auto simp: buf_inv_def)
    finally show ?thesis using b' by (auto simp: buf_inv_def)
  qed
  then show ?thesis using assms by (auto simp: wrote_def clip_def simp del: buf_abs_fields(4))
qed

lemma restart_empty: "buf_inv b \<Longrightarrow> mem b \<noteq> None \<Longrightarrow>
    buf_inv (zlog_buf_restart b) \<and> mem (zlog_buf_restart b) \<noteq> None \<and> a_text (buf_abs (zlog_buf_restart b)) = Some [] \<and>
    size_max (zlog_buf_restart b) = size_max b \<and> truncate_str (zlog_buf_restart b) = truncate_str b"
  by (auto simp: zlog_buf_restart_def buf_inv_def buf_abs_def)

lemma clip_cong: "size_max b' = size_max b \<Longrightarrow> truncate_str b' = truncate_str b \<Longrightarrow> clip b' = clip b"
  by (simp add: clip_def fun_eq_iff)

lemma adjust_wrote:
  assumes "buf_inv b" "mem b \<noteq> None" "n \<le> length str"
  shows "\<exists>rc b' orc'. zlog_buf_adjust_append b str n left zero iw ow orc = Some (rc, b', orc') \<and>
    wrote b (adjust_text (take n str) left zero iw ow) orc rc b' orc'"
proof -
  obtain m where m: "mem b = Some m" using assms(2) by auto
  obtain rc b' orc' where e: "emit_c b (adjust_text (take n str) left zero iw ow) orc = Some (rc, b', orc')" "buf_inv b'"
    "emit (buf_abs b) (adjust_text (take n str) left zero iw ow) orc = (rc, buf_abs b', orc')"
    by (rule emit_c_refines[OF assms(1) m])
  then show ?thesis using adjust_emit_c[OF assms(1) m assms(3)] emit_wrote[OF assms(1,2) e(2,3)] by simp
qed

text \<open>The setting every generator runs in: levels, conversions and thread fit together.\<close>

definition gen_ready :: "'tm sys \<Rightarrow> level arraylist \<Rightarrow> spec set \<Rightarrow> 'tm thread \<Rightarrow> bool" where
  "gen_ready sys levels ss t \<longleftrightarrow> sys_ok sys \<and> levels_ok levels \<and> mdc_inv (th_mdc t) \<and> caches_apart ss \<and>
     event_inv sys ss (th_event t) \<and> (\<forall>s \<in> ss. spec_ready (th_mdc t) (th_event t) s)"

lemma same_event_ready: "same_event sys e e' \<Longrightarrow> spec_ready m e s \<Longrightarrow> spec_ready m e' s"
  by (simp add: same_event_def spec_ready_def)

lemma gen_ready_step: "gen_ready sys levels ss t \<Longrightarrow> event_inv sys ss e \<Longrightarrow> same_event sys (th_event t) e \<Longrightarrow>
    th_mdc t' = th_mdc t \<Longrightarrow> th_event t' = e \<Longrightarrow> gen_ready sys levels ss t'"
  unfolding gen_ready_def using same_event_ready by metis

lemma gen_direct_ok:
  assumes r: "gen_ready sys levels ss t" and s: "s \<in> ss" "\<not> sp_reformat s" and b: "buf_inv b" "mem b \<noteq> None"
  obtains rc e b' orc' where "gen_direct sys levels s t b orc = Some (rc, e, b', orc')"
    and "wrote b (seg_text sys levels (th_mdc t) (th_event t) pre s) orc rc b' orc'"
    and "event_inv sys ss e" and "same_event sys (th_event t) e"
proof -
  have "conv_ok sys ss (th_event t) b (spec_text sys levels (th_mdc t) (th_event t) s) orc
      (spec_write sys levels (th_mdc t) s (th_event t) b orc)"
    by (rule spec_write_conv) (use r s b in \<open>auto simp: gen_ready_def\<close>)
  then show ?thesis using s(2) that unfolding conv_ok_def gen_direct_def seg_text_def Let_def by auto
qed

lemma gen_reformat_ok:
  assumes r: "gen_ready sys levels ss t" and s: "s \<in> ss" "sp_reformat s" and b: "buf_inv b" "mem b \<noteq> None"
    and p: "buf_inv pre" "mem pre \<noteq> None"
  obtains rc e pre' b' orc' where "gen_reformat sys levels s t pre b orc = Some (rc, e, pre', b', orc')"
    and "wrote b (seg_text sys levels (th_mdc t) (th_event t) pre s) orc rc b' orc'"
    and "event_inv sys ss e" and "same_event sys (th_event t) e"
    and "buf_inv pre'" and "rc \<noteq> -1 \<longrightarrow> mem pre' \<noteq> None" and "size_max pre' = size_max pre" and "truncate_str pre' = truncate_str pre"
proof -
  note result = that
  let ?t = "spec_text sys levels (th_mdc t) (th_event t) s" and ?pre = "zlog_buf_restart pre"
  have p0: "buf_inv ?pre" "mem ?pre \<noteq> None" "a_text (buf_abs ?pre) = Some []" "size_max ?pre = size_max pre"
    "truncate_str ?pre = truncate_str pre" using restart_empty[OF p] by auto
  have "conv_ok sys ss (th_event t) ?pre ?t orc (spec_write sys levels (th_mdc t) s (th_event t) ?pre orc)"
    by (rule spec_write_conv) (use r s p0 in \<open>auto simp: gen_ready_def\<close>)
  then obtain rc e pre1 orc1 where w: "spec_write sys levels (th_mdc t) s (th_event t) ?pre orc = Some (rc, e, pre1, orc1)"
    "wrote ?pre ?t orc rc pre1 orc1" "event_inv sys ss e" "same_event sys (th_event t) e" by (auto simp: conv_ok_def)
  have pre1: "buf_inv pre1" "size_max pre1 = size_max pre" "truncate_str pre1 = truncate_str pre"
    using w(2) p0(4,5) by (auto simp: wrote_def)
  obtain c where c: "a_text (buf_abs b) = Some c" using b(2) by (auto simp: buf_abs_def)
  have rc: "rc = 0 \<or> rc = 1 \<or> rc = -1" using w(2) by (auto simp: wrote_def)
  show ?thesis
  proof (cases "rc = -1")
    case True
    have "orc \<noteq> []" using w(2) True by (auto simp: wrote_def)
    then have "wrote b (seg_text sys levels (th_mdc t) (th_event t) pre s) orc (-1) b orc1"
      using b(1) c by (auto simp: wrote_def simp del: buf_abs_fields(4))
    then show ?thesis using result[of "-1" e pre1 b orc1] w True pre1 by (simp add: gen_reformat_def)
  next
    case False
    obtain m where m: "mem pre1 = Some m" "take (buf_tail pre1) m = clip pre ?t"
      using wrote_clip[OF w(2) False p0(3)] clip_cong[OF p0(4,5)] by (auto simp: a_text_cases)
    have tail: "buf_tail pre1 \<le> length m" using pre1(1) m(1) by (auto simp: buf_inv_def)
    from adjust_wrote[OF b tail, of "left_adjust s" "left_fill_zeros s" "min_width s" "max_width s" orc1]
    obtain rc2 b' orc2 where a: "zlog_buf_adjust_append b m (buf_tail pre1) (left_adjust s) (left_fill_zeros s)
        (min_width s) (max_width s) orc1 = Some (rc2, b', orc2)"
      "wrote b (adjust_text (clip pre ?t) (left_adjust s) (left_fill_zeros s) (min_width s) (max_width s)) orc1 rc2 b' orc2"
      using m(2) by auto
    have "orc = [] \<longrightarrow> orc1 = []" using w(2) by (simp add: wrote_def)
    note a2 = wrote_orc[OF a(2) this]
    have "gen_reformat sys levels s t pre b orc = Some (rc2, e, pre1, b', orc2)"
      using w(1) rc False m(1) a(1) by (auto simp: gen_reformat_def)
    then show ?thesis using result[of rc2 e pre1 b' orc2] a2 s(2) w(3,4) pre1 m(1) by (simp add: seg_text_def Let_def)
  qed
qed


section \<open>The loop over the conversions\<close>

text \<open>What the loop needs of a generator: on live buffers it writes the text of the conversion to the output
  buffer, and neither the texts nor the readiness of the thread change.\<close>

locale generator =
  fixes gen :: "spec \<Rightarrow> 'tm thread \<Rightarrow> outcomes \<Rightarrow> (int \<times> 'tm thread \<times> outcomes) option"
    and out pre :: "'tm thread \<Rightarrow> buf"
    and ready :: "'tm thread \<Rightarrow> bool"
    and ss :: "spec set"
    and seg :: "'tm thread \<Rightarrow> spec \<Rightarrow> string"
    and kept :: "'tm thread \<Rightarrow> 'tm thread \<Rightarrow> bool"
  assumes step: "ready t \<Longrightarrow> s \<in> ss \<Longrightarrow> buf_inv (out t) \<Longrightarrow> mem (out t) \<noteq> None \<Longrightarrow> buf_inv (pre t) \<Longrightarrow> mem (pre t) \<noteq> None \<Longrightarrow>
      \<exists>rc t' orc'. gen s t orc = Some (rc, t', orc') \<and> wrote (out t) (seg t s) orc rc (out t') orc' \<and> ready t' \<and> seg t' = seg t \<and>
        buf_inv (pre t') \<and> (rc \<noteq> -1 \<longrightarrow> mem (pre t') \<noteq> None) \<and> kept t t'"
    and kept_refl: "kept t t"
    and kept_trans: "kept t t1 \<Longrightarrow> kept t1 t2 \<Longrightarrow> kept t t2"
begin

lemma loop:
  "ready t \<Longrightarrow> set xs \<subseteq> ss \<Longrightarrow> buf_inv (out t) \<Longrightarrow> mem (out t) \<noteq> None \<Longrightarrow> buf_inv (pre t) \<Longrightarrow> mem (pre t) \<noteq> None \<Longrightarrow>
   a_text (buf_abs (out t)) = Some c \<Longrightarrow>
   \<exists>rc t' orc'. gen_loop gen (map Some xs) t orc = Some (rc, t', orc') \<and> (rc = 0 \<or> rc = -1) \<and> ready t' \<and> seg t' = seg t \<and>
     buf_inv (out t') \<and> size_max (out t') = size_max (out t) \<and> truncate_str (out t') = truncate_str (out t) \<and> buf_inv (pre t') \<and> kept t t' \<and>
     (rc = 0 \<longrightarrow> mem (pre t') \<noteq> None \<and> a_text (buf_abs (out t')) = Some (c @ concat (map (seg t) xs))) \<and>
     (orc = [] \<and> (size_max (out t) = 0 \<or> length c + length (concat (map (seg t) xs)) < size_max (out t)) \<longrightarrow> rc = 0 \<and> orc' = [])"
proof (induction xs arbitrary: t c orc)
  case Nil
  then show ?case using kept_refl by (auto simp del: buf_abs_fields(4))
next
  case (Cons s xs)
  from step[OF Cons.prems(1) _ Cons.prems(3-6), of s orc] Cons.prems(2)
  obtain rc t1 orc1 where g: "gen s t orc = Some (rc, t1, orc1)" "wrote (out t) (seg t s) orc rc (out t1) orc1" "ready t1"
    "seg t1 = seg t" "buf_inv (pre t1)" "rc \<noteq> -1 \<longrightarrow> mem (pre t1) \<noteq> None" "kept t t1" by auto
  have o: "buf_inv (out t1)" "size_max (out t1) = size_max (out t)" "truncate_str (out t1) = truncate_str (out t)"
    using g(2) by (auto simp: wrote_def)
  show ?case
  proof (cases "rc = 0")
    case False
    have "\<not> (orc = [] \<and> (size_max (out t) = 0 \<or> length c + length (concat (map (seg t) (s # xs))) < size_max (out t)))"
      using g(2) False Cons.prems(7) by (auto simp: wrote_def simp del: buf_abs_fields(4))
    then show ?thesis using g False o by auto
  next
    case True
    have c1: "a_text (buf_abs (out t1)) = Some (c @ seg t s)"
      using g(2) True Cons.prems(7) by (auto simp: wrote_def simp del: buf_abs_fields(4))
    have alive: "mem (out t1) \<noteq> None" using c1 by (auto simp: a_text_cases simp del: buf_abs_fields(4))
    have pre: "mem (pre t1) \<noteq> None" using g(6) True by simp
    from Cons.IH[OF g(3) _ o(1) alive g(5) pre c1, of orc1] Cons.prems(2)
    obtain rc2 t2 orc2 where h: "gen_loop gen (map Some xs) t1 orc1 = Some (rc2, t2, orc2)" "rc2 = 0 \<or> rc2 = -1" "ready t2"
      "seg t2 = seg t1" "buf_inv (out t2)" "size_max (out t2) = size_max (out t1)" "truncate_str (out t2) = truncate_str (out t1)"
      "buf_inv (pre t2)" "kept t1 t2"
      "rc2 = 0 \<longrightarrow> mem (pre t2) \<noteq> None \<and> a_text (buf_abs (out t2)) = Some ((c @ seg t s) @ concat (map (seg t1) xs))"
      "orc1 = [] \<and> (size_max (out t1) = 0 \<or> length (c @ seg t s) + length (concat (map (seg t1) xs)) < size_max (out t1)) \<longrightarrow> rc2 = 0 \<and> orc2 = []"
      by auto
    have "gen_loop gen (map Some (s # xs)) t orc = Some (rc2, t2, orc2)" using g(1) True h(1) by simp
    moreover have "orc = [] \<longrightarrow> orc1 = []" using g(2) by (simp add: wrote_def)
    ultimately show ?thesis using h o g(4) kept_trans[OF g(7) h(9)] by (auto simp del: buf_abs_fields(4))
  qed
qed

end

lemma seg_text_same:
  assumes "same_event sys e e'" "size_max p' = size_max p" "truncate_str p' = truncate_str p"
  shows "seg_text sys levels m e' p' = seg_text sys levels m e p"
  using same_event_text[OF assms(1)] clip_cong[OF assms(2,3)] by (simp add: seg_text_def fun_eq_iff Let_def)

text \<open>What the message generators leave alone, and what the path generators leave alone.\<close>

definition msg_kept :: "'tm sys \<Rightarrow> 'tm thread \<Rightarrow> 'tm thread \<Rightarrow> bool" where
  "msg_kept sys t t' \<longleftrightarrow> init_version t' = init_version t \<and> th_mdc t' = th_mdc t \<and> same_event sys (th_event t) (th_event t') \<and>
     pre_path_buf t' = pre_path_buf t \<and> path_buf t' = path_buf t \<and> archive_path_buf t' = archive_path_buf t"

definition path_kept :: "'tm sys \<Rightarrow> 'tm thread \<Rightarrow> 'tm thread \<Rightarrow> bool" where
  "path_kept sys t t' \<longleftrightarrow> init_version t' = init_version t \<and> th_mdc t' = th_mdc t \<and> same_event sys (th_event t) (th_event t') \<and>
     pre_msg_buf t' = pre_msg_buf t \<and> msg_buf t' = msg_buf t"

interpretation msg: generator "zlog_spec_gen_msg sys levels" msg_buf pre_msg_buf "gen_ready sys levels ss" ss
  "\<lambda>t. seg_text sys levels (th_mdc t) (th_event t) (pre_msg_buf t)" "msg_kept sys" for sys levels ss
proof
  fix t :: "'a thread" and s orc
  assume r: "gen_ready sys levels ss t" "s \<in> ss" and b: "buf_inv (msg_buf t)" "mem (msg_buf t) \<noteq> None"
    and p: "buf_inv (pre_msg_buf t)" "mem (pre_msg_buf t) \<noteq> None"
  let ?seg = "\<lambda>t. seg_text sys levels (th_mdc t) (th_event t) (pre_msg_buf t)"
  show "\<exists>rc t' orc'. zlog_spec_gen_msg sys levels s t orc = Some (rc, t', orc') \<and> wrote (msg_buf t) (?seg t s) orc rc (msg_buf t') orc' \<and>
      gen_ready sys levels ss t' \<and> ?seg t' = ?seg t \<and> buf_inv (pre_msg_buf t') \<and> (rc \<noteq> -1 \<longrightarrow> mem (pre_msg_buf t') \<noteq> None) \<and> msg_kept sys t t'"
  proof (cases "sp_reformat s")
    case True
    obtain rc e pre' b' orc' where g: "gen_reformat sys levels s t (pre_msg_buf t) (msg_buf t) orc = Some (rc, e, pre', b', orc')"
      "wrote (msg_buf t) (?seg t s) orc rc b' orc'" "event_inv sys ss e" "same_event sys (th_event t) e" "buf_inv pre'"
      "rc \<noteq> -1 \<longrightarrow> mem pre' \<noteq> None" "size_max pre' = size_max (pre_msg_buf t)" "truncate_str pre' = truncate_str (pre_msg_buf t)"
      by (rule gen_reformat_ok[OF r True b p])
    let ?t = "t\<lparr>th_event := e, pre_msg_buf := pre', msg_buf := b'\<rparr>"
    have "zlog_spec_gen_msg sys levels s t orc = Some (rc, ?t, orc')"
      using True g(1) by (simp add: zlog_spec_gen_msg_def zlog_spec_gen_msg_reformat_def)
    moreover have "gen_ready sys levels ss ?t" by (rule gen_ready_step[OF r(1) g(3,4)]) simp_all
    ultimately show ?thesis using g(2,4,5,6) seg_text_same[OF g(4,7,8)] by (auto simp: msg_kept_def)
  next
    case False
    obtain rc e b' orc' where g: "gen_direct sys levels s t (msg_buf t) orc = Some (rc, e, b', orc')"
      "wrote (msg_buf t) (?seg t s) orc rc b' orc'" "event_inv sys ss e" "same_event sys (th_event t) e"
      by (rule gen_direct_ok[OF r False b])
    let ?t = "t\<lparr>th_event := e, msg_buf := b'\<rparr>"
    have "zlog_spec_gen_msg sys levels s t orc = Some (rc, ?t, orc')"
      using False g(1) by (simp add: zlog_spec_gen_msg_def zlog_spec_gen_msg_direct_def)
    moreover have "gen_ready sys levels ss ?t" by (rule gen_ready_step[OF r(1) g(3,4)]) simp_all
    ultimately show ?thesis using g(2,4) p seg_text_same[OF g(4) HOL.refl HOL.refl] by (auto simp: msg_kept_def)
  qed
qed (auto simp: msg_kept_def intro: same_event_refl same_event_trans)

interpretation path: generator "zlog_spec_gen_path sys levels" path_buf pre_path_buf "gen_ready sys levels ss" ss
  "\<lambda>t. seg_text sys levels (th_mdc t) (th_event t) (pre_path_buf t)" "path_kept sys" for sys levels ss
proof
  fix t :: "'a thread" and s orc
  assume r: "gen_ready sys levels ss t" "s \<in> ss" and b: "buf_inv (path_buf t)" "mem (path_buf t) \<noteq> None"
    and p: "buf_inv (pre_path_buf t)" "mem (pre_path_buf t) \<noteq> None"
  let ?seg = "\<lambda>t. seg_text sys levels (th_mdc t) (th_event t) (pre_path_buf t)"
  show "\<exists>rc t' orc'. zlog_spec_gen_path sys levels s t orc = Some (rc, t', orc') \<and> wrote (path_buf t) (?seg t s) orc rc (path_buf t') orc' \<and>
      gen_ready sys levels ss t' \<and> ?seg t' = ?seg t \<and> buf_inv (pre_path_buf t') \<and> (rc \<noteq> -1 \<longrightarrow> mem (pre_path_buf t') \<noteq> None) \<and> path_kept sys t t'"
  proof (cases "sp_reformat s")
    case True
    obtain rc e pre' b' orc' where g: "gen_reformat sys levels s t (pre_path_buf t) (path_buf t) orc = Some (rc, e, pre', b', orc')"
      "wrote (path_buf t) (?seg t s) orc rc b' orc'" "event_inv sys ss e" "same_event sys (th_event t) e" "buf_inv pre'"
      "rc \<noteq> -1 \<longrightarrow> mem pre' \<noteq> None" "size_max pre' = size_max (pre_path_buf t)" "truncate_str pre' = truncate_str (pre_path_buf t)"
      by (rule gen_reformat_ok[OF r True b p])
    let ?t = "t\<lparr>th_event := e, pre_path_buf := pre', path_buf := b'\<rparr>"
    have "zlog_spec_gen_path sys levels s t orc = Some (rc, ?t, orc')"
      using True g(1) by (simp add: zlog_spec_gen_path_def zlog_spec_gen_path_reformat_def)
    moreover have "gen_ready sys levels ss ?t" by (rule gen_ready_step[OF r(1) g(3,4)]) simp_all
    ultimately show ?thesis using g(2,4,5,6) seg_text_same[OF g(4,7,8)] by (auto simp: path_kept_def)
  next
    case False
    obtain rc e b' orc' where g: "gen_direct sys levels s t (path_buf t) orc = Some (rc, e, b', orc')"
      "wrote (path_buf t) (?seg t s) orc rc b' orc'" "event_inv sys ss e" "same_event sys (th_event t) e"
      by (rule gen_direct_ok[OF r False b])
    let ?t = "t\<lparr>th_event := e, path_buf := b'\<rparr>"
    have "zlog_spec_gen_path sys levels s t orc = Some (rc, ?t, orc')"
      using False g(1) by (simp add: zlog_spec_gen_path_def zlog_spec_gen_path_direct_def)
    moreover have "gen_ready sys levels ss ?t" by (rule gen_ready_step[OF r(1) g(3,4)]) simp_all
    ultimately show ?thesis using g(2,4) p seg_text_same[OF g(4) HOL.refl HOL.refl] by (auto simp: path_kept_def)
  qed
qed (auto simp: path_kept_def intro: same_event_refl same_event_trans)

interpretation archive: generator "zlog_spec_gen_archive_path sys levels" archive_path_buf pre_path_buf "gen_ready sys levels ss" ss
  "\<lambda>t. seg_text sys levels (th_mdc t) (th_event t) (pre_path_buf t)" "path_kept sys" for sys levels ss
proof
  fix t :: "'a thread" and s orc
  assume r: "gen_ready sys levels ss t" "s \<in> ss" and b: "buf_inv (archive_path_buf t)" "mem (archive_path_buf t) \<noteq> None"
    and p: "buf_inv (pre_path_buf t)" "mem (pre_path_buf t) \<noteq> None"
  let ?seg = "\<lambda>t. seg_text sys levels (th_mdc t) (th_event t) (pre_path_buf t)"
  show "\<exists>rc t' orc'. zlog_spec_gen_archive_path sys levels s t orc = Some (rc, t', orc') \<and> wrote (archive_path_buf t) (?seg t s) orc rc (archive_path_buf t') orc' \<and>
      gen_ready sys levels ss t' \<and> ?seg t' = ?seg t \<and> buf_inv (pre_path_buf t') \<and> (rc \<noteq> -1 \<longrightarrow> mem (pre_path_buf t') \<noteq> None) \<and> path_kept sys t t'"
  proof (cases "sp_reformat s")
    case True
    obtain rc e pre' b' orc' where g: "gen_reformat sys levels s t (pre_path_buf t) (archive_path_buf t) orc = Some (rc, e, pre', b', orc')"
      "wrote (archive_path_buf t) (?seg t s) orc rc b' orc'" "event_inv sys ss e" "same_event sys (th_event t) e" "buf_inv pre'"
      "rc \<noteq> -1 \<longrightarrow> mem pre' \<noteq> None" "size_max pre' = size_max (pre_path_buf t)" "truncate_str pre' = truncate_str (pre_path_buf t)"
      by (rule gen_reformat_ok[OF r True b p])
    let ?t = "t\<lparr>th_event := e, pre_path_buf := pre', archive_path_buf := b'\<rparr>"
    have "zlog_spec_gen_archive_path sys levels s t orc = Some (rc, ?t, orc')"
      using True g(1) by (simp add: zlog_spec_gen_archive_path_def zlog_spec_gen_archive_path_reformat_def)
    moreover have "gen_ready sys levels ss ?t" by (rule gen_ready_step[OF r(1) g(3,4)]) simp_all
    ultimately show ?thesis using g(2,4,5,6) seg_text_same[OF g(4,7,8)] by (auto simp: path_kept_def)
  next
    case False
    obtain rc e b' orc' where g: "gen_direct sys levels s t (archive_path_buf t) orc = Some (rc, e, b', orc')"
      "wrote (archive_path_buf t) (?seg t s) orc rc b' orc'" "event_inv sys ss e" "same_event sys (th_event t) e"
      by (rule gen_direct_ok[OF r False b])
    let ?t = "t\<lparr>th_event := e, archive_path_buf := b'\<rparr>"
    have "zlog_spec_gen_archive_path sys levels s t orc = Some (rc, ?t, orc')"
      using False g(1) by (simp add: zlog_spec_gen_archive_path_def zlog_spec_gen_archive_path_direct_def)
    moreover have "gen_ready sys levels ss ?t" by (rule gen_ready_step[OF r(1) g(3,4)]) simp_all
    ultimately show ?thesis using g(2,4) p seg_text_same[OF g(4) HOL.refl HOL.refl] by (auto simp: path_kept_def)
  qed
qed (auto simp: path_kept_def intro: same_event_refl same_event_trans)

end
