(* ===== verification/Format.thy ===== *)
theory Format
  imports Generate
begin

text \<open>
  The parser of \<open>spec.c\<close>, one conversion from the front of a pattern, and \<open>format.c\<close>: a format is a name and the
  list of its conversions; generating a message runs them in order on the message buffer of the thread.
\<close>

section \<open>Parsing a conversion\<close>

definition zlog_spec_parse_print_fmt :: "int \<Rightarrow> spec \<Rightarrow> spec" where
  "zlog_spec_parse_print_fmt lmax a_spec =
     (let f = print_fmt a_spec;
          minus = (char_at f 0 = CHR ''-'');
          p = (if minus then drop 1 f else f);
          i = scan_long lmax (int_item (snd (sscanf p [SInt, SLit (CHR ''.'')])) 0 0);
          j = (case strchr p (CHR ''.'') of None \<Rightarrow> 0
               | Some q \<Rightarrow> scan_long lmax (int_item (snd (sscanf (drop q p) [SLit (CHR ''.''), SInt])) 0 0)) in
      a_spec\<lparr>left_adjust := minus, left_fill_zeros := \<not> minus \<and> char_at f 0 = CHR ''0'',
             min_width := to_size lmax i, max_width := to_size lmax j\<rparr>)"

definition ZLOG_DEFAULT_TIME_FMT :: string where
  "ZLOG_DEFAULT_TIME_FMT = ''%F %T''"

text \<open>The zeroed conversion \<open>calloc\<close> returns; its write function is set on every path that returns it.\<close>

definition spec_zero :: "string \<Rightarrow> spec" where
  "spec_zero s = \<lparr>sp_str = s, sp_len = 0, time_fmt = [], time_cache_index = 0, mdc_key = [], print_fmt = [],
     left_adjust = False, left_fill_zeros = False, max_width = 0, min_width = 0, write_buf = W_str, sp_reformat = False\<rparr>"

text \<open>The flags between \<open>%\<close> and the conversion character, and where they end.\<close>

definition spec_flags :: "int \<Rightarrow> string \<Rightarrow> spec \<times> nat" where
  "spec_flags lmax s =
     (let (nscan, its) = sscanf s [SLit (CHR ''%''), SSet fmt_flag, SPos] in
      if nscan = 1
      then (zlog_spec_parse_print_fmt lmax ((spec_zero s)\<lparr>print_fmt := str_item its 0 [], sp_reformat := True\<rparr>), pos_item its 1 0)
      else (spec_zero s, 1))"

text \<open>The result of parsing: the conversion, the offset of what follows and the count of time caches; the
  inner \<open>None\<close> is the error return.\<close>

type_synonym parsed = "(spec \<times> nat \<times> int) option"

definition paren_fmt :: "char \<Rightarrow> scan_dir list" where
  "paren_fmt c = [SLit c, SLit (CHR ''(''), SSet (\<lambda>x. x \<noteq> CHR '')''), SLit (CHR '')''), SPos]"

definition spec_time :: "spec \<Rightarrow> nat \<Rightarrow> int \<Rightarrow> parsed" where
  "spec_time a_spec p cnt =
     (let s = sp_str a_spec;
          wfn = (if char_at s p = CHR ''g'' then W_time_UTC else W_time_local);
          done = (\<lambda>fmt p'. Some (a_spec\<lparr>time_fmt := fmt, time_cache_index := cnt, write_buf := wfn, sp_len := p'\<rparr>, p', cnt + 1)) in
      if char_at s (p + 1) \<noteq> CHR ''('' then done ZLOG_DEFAULT_TIME_FMT (p + 1)
      else if strncmp_eq (drop p s) ''d()'' 3 then done ZLOG_DEFAULT_TIME_FMT (p + 3)
      else let (nscan, its) = sscanf (drop p s) (paren_fmt (CHR ''d''));
               p' = p + (if nscan = 1 then pos_item its 1 0 else 0) in
           if char_at s (p' - 1) \<noteq> CHR '')'' then None
           else done (str_item its 0 []) p')"

text \<open>A key longer than its array is written past its end.\<close>

definition spec_mdc :: "spec \<Rightarrow> nat \<Rightarrow> int \<Rightarrow> parsed option" where
  "spec_mdc a_spec p cnt =
     (let s = sp_str a_spec;
          (nscan, its) = sscanf (drop p s) (paren_fmt (CHR ''M''));
          nread = (if nscan = 1 then pos_item its 1 0 else if strncmp_eq (drop p s) ''M()'' 3 then 3 else 0);
          key = str_item its 0 []; p' = p + nread in
      if MAXLEN_PATH < length key then None
      else if char_at s (p' - 1) \<noteq> CHR '')'' then Some None
      else Some (Some (a_spec\<lparr>mdc_key := key, sp_len := p', write_buf := W_mdc\<rparr>, p', cnt)))"

definition char_fn :: "char \<Rightarrow> write_fn option" where
  "char_fn c =
     (if c = CHR ''c'' then Some W_category
      else if c = CHR ''D'' then Some W_time_local
      else if c = CHR ''F'' then Some W_srcfile
      else if c = CHR ''f'' then Some W_srcfile_neat
      else if c = CHR ''G'' then Some W_time_UTC
      else if c = CHR ''H'' then Some W_hostname
      else if c = CHR ''k'' then Some W_ktid
      else if c = CHR ''L'' then Some W_srcline
      else if c = CHR ''m'' then Some W_usrmsg
      else if c = CHR ''n'' then Some W_newline
      else if c = CHR ''r'' then Some W_cr
      else if c = CHR ''p'' then Some W_pid
      else if c = CHR ''U'' then Some W_srcfunc
      else if c = CHR ''v'' then Some W_level_lowercase
      else if c = CHR ''V'' then Some W_level_uppercase
      else if c = CHR ''t'' then Some W_tid_hex
      else if c = CHR ''T'' then Some W_tid_long
      else if c = CHR ''%'' then Some W_percent
      else None)"

definition spec_char :: "spec \<Rightarrow> nat \<Rightarrow> int \<Rightarrow> parsed" where
  "spec_char a_spec p cnt =
     (let c = char_at (sp_str a_spec) p in
      case char_fn c of
        None \<Rightarrow> None
      | Some f \<Rightarrow>
          let a = a_spec\<lparr>sp_len := p + 1, write_buf := f\<rparr> in
          if c = CHR ''D'' \<or> c = CHR ''G''
          then Some (a\<lparr>time_fmt := ZLOG_DEFAULT_TIME_FMT, time_cache_index := cnt\<rparr>, p + 1, cnt + 1)
          else Some (a, p + 1, cnt))"

definition spec_percent :: "int \<Rightarrow> string \<Rightarrow> int \<Rightarrow> parsed option" where
  "spec_percent lmax s cnt =
     (let (a_spec, p) = spec_flags lmax s; c = char_at s p in
      if c = CHR ''d'' \<or> c = CHR ''g'' then Some (spec_time a_spec p cnt)
      else if c = CHR ''M'' then spec_mdc a_spec p cnt
      else if strncmp_eq (drop p s) ''ms'' 2 then Some (Some (a_spec\<lparr>sp_len := p + 2, write_buf := W_ms\<rparr>, p + 2, cnt))
      else if strncmp_eq (drop p s) ''us'' 2 then Some (Some (a_spec\<lparr>sp_len := p + 2, write_buf := W_us\<rparr>, p + 2, cnt))
      else Some (spec_char a_spec p cnt))"

definition spec_const :: "string \<Rightarrow> int \<Rightarrow> parsed" where
  "spec_const s cnt =
     (let n = (case strchr s (CHR ''%'') of Some i \<Rightarrow> i | None \<Rightarrow> length s) in
      Some ((spec_zero s)\<lparr>sp_len := n, write_buf := W_str\<rparr>, n, cnt))"

definition zlog_spec_new :: "int \<Rightarrow> string \<Rightarrow> int \<Rightarrow> outcomes \<Rightarrow> (parsed \<times> outcomes) option" where
  "zlog_spec_new lmax s cnt orc =
     (let (ok, orc1) = ask orc in
      if \<not> ok then Some (None, orc1)
      else do { r \<leftarrow> (if char_at s 0 = CHR ''%'' then spec_percent lmax s cnt else Some (spec_const s cnt));
                Some (r, orc1) })"

lemma spec_flags_pos:
  assumes "char_at s 0 = CHR ''%''"
  shows "sp_str (fst (spec_flags lmax s)) = s \<and> 0 < snd (spec_flags lmax s) \<and> snd (spec_flags lmax s) \<le> length s \<and>
     snd (spec_flags lmax s) = 1 + length (takeWhile fmt_flag (tl s)) \<and>
     sp_reformat (fst (spec_flags lmax s)) = (takeWhile fmt_flag (tl s) \<noteq> [])"
proof -
  obtain r where s: "s = CHR ''%'' # r" using assms by (cases s) (auto simp: char_at_def)
  show ?thesis using length_takeWhile_le[of fmt_flag r]
    by (auto simp: s spec_flags_def sscanf_def Let_def str_item_def pos_item_def zlog_spec_parse_print_fmt_def spec_zero_def)
qed

lemma paren_scan:
  "sscanf s (paren_fmt c) = (nscan, its) \<Longrightarrow> nscan = 1 \<Longrightarrow> pos_item its 1 0 \<le> length s \<and>
     (pos_item its 1 0 \<noteq> 0 \<longrightarrow> (\<exists>k r. s = c # CHR ''('' # k @ CHR '')'' # r \<and> k \<noteq> [] \<and> CHR '')'' \<notin> set k \<and>
        pos_item its 1 0 = length k + 3 \<and> str_item its 0 [] = k))"
proof -
  assume a: "sscanf s (paren_fmt c) = (nscan, its)" "nscan = 1"
  then obtain s1 where s1: "s = c # s1" by (cases s) (auto simp: sscanf_def paren_fmt_def split: if_splits)
  then obtain s2 where s2: "s1 = CHR ''('' # s2" using a by (cases s1) (auto simp: sscanf_def paren_fmt_def split: if_splits)
  define k where "k = takeWhile (\<lambda>x. x \<noteq> CHR '')'') s2"
  have k: "k \<noteq> []" using a by (auto simp: s1 s2 sscanf_def paren_fmt_def k_def[symmetric] Let_def split: if_splits)
  have s2k: "s2 = k @ drop (length k) s2" unfolding k_def by (metis takeWhile_dropWhile_id dropWhile_eq_drop)
  have kin: "CHR '')'' \<notin> set k" unfolding k_def by (auto dest: set_takeWhileD)
  show ?thesis
  proof (cases "drop (length k) s2")
    case Nil
    then show ?thesis using a k by (auto simp: s1 s2 sscanf_def paren_fmt_def k_def[symmetric] Let_def pos_item_def split: if_splits)
  next
    case (Cons x r)
    have dw: "dropWhile (\<lambda>x. x \<noteq> CHR '')'') s2 = x # r" using Cons by (simp add: k_def dropWhile_eq_drop)
    have x: "x = CHR '')''" using hd_dropWhile[of "\<lambda>x. x \<noteq> CHR '')''" s2] unfolding dw by simp
    have its: "its = [IStr k, IPos (length k + 3)]"
      using a k Cons x by (auto simp: s1 s2 sscanf_def paren_fmt_def k_def[symmetric] Let_def)
    have "s = c # CHR ''('' # k @ CHR '')'' # r" using s1 s2 s2k Cons x by simp
    then show ?thesis using its k kin by (auto simp: pos_item_def str_item_def)
  qed
qed


text \<open>What every conversion that is returned has: a non-empty segment of the pattern, and a time cache of its
  own when it prints a time.\<close>

definition parse_ok :: "string \<Rightarrow> int \<Rightarrow> spec \<Rightarrow> nat \<Rightarrow> int \<Rightarrow> bool" where
  "parse_ok s cnt a n cnt' \<longleftrightarrow> sp_str a = s \<and> sp_len a = n \<and> n \<le> length s \<and> (s \<noteq> [] \<longrightarrow> 0 < n) \<and>
     (if is_time a then time_cache_index a = cnt \<and> cnt' = cnt + 1 else cnt' = cnt)"

lemma spec_time_ok:
  assumes "spec_time a p cnt = Some (a', n, cnt')" "sp_str a = s" "0 < p" "p \<le> length s" "char_at s p = CHR ''d'' \<or> char_at s p = CHR ''g''"
  shows "parse_ok s cnt a' n cnt'"
proof -
  have p: "p < length s" using assms(5) char_at_length by force
  have t3: "p + 3 \<le> length s" if "strncmp_eq (drop p s) ''d()'' 3"
    using strncmp_length[OF that] p by simp
  show ?thesis
  proof (cases "sscanf (drop p s) (paren_fmt (CHR ''d''))")
    case (Pair nscan its)
    then have "nscan = 1 \<Longrightarrow> p + pos_item its 1 0 \<le> length s" using paren_scan[OF Pair] p by auto
    then show ?thesis using assms Pair p t3
      by (auto simp: spec_time_def parse_ok_def is_time_def Let_def split: if_splits)
  qed
qed


lemma spec_mdc_ok:
  assumes "spec_mdc a p cnt = Some (Some (a', n, cnt'))" "sp_str a = s" "0 < p" "p < length s"
  shows "parse_ok s cnt a' n cnt' \<and> length (mdc_key a') \<le> MAXLEN_PATH"
proof (cases "sscanf (drop p s) (paren_fmt (CHR ''M''))")
  case (Pair nscan its)
  have "nscan = 1 \<Longrightarrow> p + pos_item its 1 0 \<le> length s" using paren_scan[OF Pair] assms(4) by auto
  moreover have "p + 3 \<le> length s" if "strncmp_eq (drop p s) ''M()'' 3" using strncmp_length[OF that] assms(4) by simp
  ultimately show ?thesis using assms Pair
    by (auto simp: spec_mdc_def parse_ok_def is_time_def Let_def split: if_splits)
qed

lemma char_fn_time: "char_fn c = Some f \<Longrightarrow> (f = W_time_UTC \<or> f = W_time_local) = (c = CHR ''D'' \<or> c = CHR ''G'') \<and> c \<noteq> NUL"
  by (auto simp: char_fn_def split: if_splits)

lemma spec_char_ok:
  assumes "spec_char a p cnt = Some (a', n, cnt')" "sp_str a = s" "0 < p"
  shows "parse_ok s cnt a' n cnt'"
proof -
  obtain f where f: "char_fn (char_at s p) = Some f" using assms(1,2) by (auto simp: spec_char_def Let_def split: option.splits)
  note t = char_fn_time[OF f]
  have "p < length s" using t char_at_length by blast
  then show ?thesis using assms f t
    by (auto simp: spec_char_def parse_ok_def is_time_def Let_def split: if_splits)
qed

lemma spec_percent_ok:
  assumes "spec_percent lmax s cnt = Some (Some (a, n, cnt'))" "char_at s 0 = CHR ''%''"
  shows "parse_ok s cnt a n cnt' \<and> 0 < n"
proof (cases "spec_flags lmax s")
  case (Pair a0 p)
  have p: "sp_str a0 = s" "0 < p" "p \<le> length s" using spec_flags_pos[OF assms(2), of lmax] Pair by auto
  have s: "s \<noteq> []" using assms(2) by (auto simp: char_at_def)
  have ok: "parse_ok s cnt a n cnt'"
  proof (cases "char_at s p = CHR ''d'' \<or> char_at s p = CHR ''g''")
    case True
    then show ?thesis using assms(1) Pair spec_time_ok[OF _ p True] by (auto simp: spec_percent_def)
  next
    case dg: False
    show ?thesis
    proof (cases "char_at s p = CHR ''M''")
      case True
      then have "p < length s" using char_at_length by force
      then show ?thesis using assms(1) Pair True dg spec_mdc_ok[OF _ p(1,2)] by (simp add: spec_percent_def)
    next
      case M: False
      show ?thesis
      proof (cases "strncmp_eq (drop p s) ''ms'' 2 \<or> strncmp_eq (drop p s) ''us'' 2")
        case True
        then have "p + 2 \<le> length s" using strncmp_length[of "drop p s" _ 2] p(3) by fastforce
        then show ?thesis using assms(1) Pair True dg M p by (auto simp: spec_percent_def parse_ok_def is_time_def split: if_splits)
      next
        case False
        then show ?thesis using assms(1) Pair dg M spec_char_ok[OF _ p(1,2)] by (auto simp: spec_percent_def)
      qed
    qed
  qed
  then show ?thesis using s by (simp add: parse_ok_def)
qed

lemma spec_const_ok:
  assumes "spec_const s cnt = Some (a, n, cnt')" "char_at s 0 \<noteq> CHR ''%''"
  shows "parse_ok s cnt a n cnt'"
proof -
  have "strchr s (CHR ''%'') \<noteq> Some 0" using assms(2) by (cases s) (auto simp: char_at_def)
  then show ?thesis using assms(1) strchr_Some[of s "CHR ''%''"]
    by (auto simp: spec_const_def parse_ok_def is_time_def spec_zero_def Let_def split: option.splits intro!: gr0I)
qed

lemma zlog_spec_new_ok:
  assumes "zlog_spec_new lmax s cnt orc = Some (Some (a, n, cnt'), orc')"
  shows "parse_ok s cnt a n cnt'"
proof (cases "char_at s 0 = CHR ''%''")
  case True
  then have "spec_percent lmax s cnt = Some (Some (a, n, cnt'))"
    using assms by (auto simp: zlog_spec_new_def split: prod.splits if_splits bind_splits)
  then show ?thesis using spec_percent_ok True by blast
next
  case False
  then have "spec_const s cnt = Some (a, n, cnt')"
    using assms by (auto simp: zlog_spec_new_def split: prod.splits if_splits)
  then show ?thesis using spec_const_ok False by blast
qed

section \<open>Formats\<close>

record format =
  fm_name :: string
  fm_pattern :: string
  pattern_specs :: "spec arraylist option"

text \<open>The conversions \<open>zlog_format_del\<close> frees.\<close>

definition zlog_format_del :: "format \<Rightarrow> spec list" where
  "zlog_format_del a_format = (case pattern_specs a_format of None \<Rightarrow> [] | Some l \<Rightarrow> zc_arraylist_del l)"

text \<open>The loop over the pattern, from the offset \<open>off\<close> on; the inner \<open>None\<close> is the error return.\<close>

function format_specs :: "int \<Rightarrow> string \<Rightarrow> nat \<Rightarrow> int \<Rightarrow> spec arraylist \<Rightarrow> outcomes \<Rightarrow>
    (spec arraylist option \<times> int \<times> outcomes) option" where
  "format_specs lmax pat off cnt specs orc =
     (if length pat \<le> off then Some (Some specs, cnt, orc)
      else case zlog_spec_new lmax (drop off pat) cnt orc of
        None \<Rightarrow> None
      | Some (None, orc1) \<Rightarrow> Some (None, cnt, orc1)
      | Some (Some (a_spec, n, cnt1), orc1) \<Rightarrow>
          (case zc_arraylist_add specs (Some a_spec) orc1 of
             None \<Rightarrow> None
           | Some (rc, specs1, _, orc2) \<Rightarrow>
               if rc \<noteq> 0 then Some (None, cnt1, orc2)
               else format_specs lmax pat (off + n) cnt1 specs1 orc2))"
  by auto
termination
proof (relation "measure (\<lambda>(lmax, pat, off, cnt, specs, orc). length pat - off)")
  fix lmax :: int and pat off cnt specs orc x2 a b r y z c d e f g h i j k
  assume a: "\<not> length pat \<le> off" "zlog_spec_new lmax (drop off pat) cnt orc = Some x2" "(a, b) = x2" "a = Some r" "(y, z) = r" "(c, d) = z"
  have "parse_ok (drop off pat) cnt y c d" using zlog_spec_new_ok[of lmax "drop off pat" cnt orc y c d b] a by auto
  then have "0 < c" using a(1) by (simp add: parse_ok_def)
  then show "((lmax, pat, off + c, d, h, k), lmax, pat, off, cnt, specs, orc) \<in> measure (\<lambda>(lmax, pat, off, cnt, specs, orc). length pat - off)"
    using a(1) by auto
qed simp

declare format_specs.simps [simp del]

definition name_stop :: "char \<Rightarrow> bool" where
  "name_stop c \<longleftrightarrow> c = CHR ''='' \<or> c = CHR '' '' \<or> c = CHR 0x09"

text \<open>\<open>None\<close>: a name longer than its array. The error returns keep the count of time caches reached.\<close>

definition zlog_format_new :: "int \<Rightarrow> (string \<Rightarrow> string option) \<Rightarrow> string \<Rightarrow> int \<Rightarrow> outcomes \<Rightarrow>
    (format option \<times> int \<times> outcomes) option" where
  "zlog_format_new lmax getenv line cnt orc =
     (let (ok, orc1) = ask orc in
      if \<not> ok then Some (None, cnt, orc1)
      else
        let (nscan, its) = sscanf line [SWs, SSet (\<lambda>c. \<not> name_stop c), SWs, SLit (CHR ''=''), SWs, SPos];
            name = str_item its 0 []; nread = pos_item its 1 0;
            p_start = nread + 1 in
        if MAXLEN_CFG_LINE < length name then None
        else if nscan \<noteq> 1 then Some (None, cnt, orc1)
        else if char_at line nread \<noteq> CHR ''\"'' then Some (None, cnt, orc1)
        else if \<exists>c \<in> set name. \<not> isalnum c \<and> c \<noteq> CHR ''_'' then Some (None, cnt, orc1)
        else case strrchr (drop p_start line) (CHR ''\"'') of
          None \<Rightarrow> Some (None, cnt, orc1)
        | Some len \<Rightarrow>
            if MAXLEN_CFG_LINE < len then Some (None, cnt, orc1)
            else do {
              (rc, m) \<leftarrow> zc_str_replace_env getenv (MAXLEN_CFG_LINE + 1)
                 (take len (drop p_start line) @ replicate (MAXLEN_CFG_LINE + 1 - len) NUL);
              if rc \<noteq> 0 then Some (None, cnt, orc1)
              else do {
                pattern \<leftarrow> cstr m 0;
                case zc_arraylist_new True orc1 of
                  (None, orc2) \<Rightarrow> Some (None, cnt, orc2)
                | (Some specs, orc2) \<Rightarrow> do {
                    (r, cnt', orc3) \<leftarrow> format_specs lmax pattern 0 cnt specs orc2;
                    Some (map_option (\<lambda>l. \<lparr>fm_name = name, fm_pattern = pattern, pattern_specs = Some l\<rparr>) r, cnt', orc3) } } })"

definition zlog_format_gen_msg :: "'tm sys \<Rightarrow> level arraylist \<Rightarrow> format \<Rightarrow> 'tm thread \<Rightarrow> outcomes \<Rightarrow>
    (int \<times> 'tm thread \<times> outcomes) option" where
  "zlog_format_gen_msg sys levels a_format t orc = do {
     specs \<leftarrow> pattern_specs a_format;
     gen_loop (zlog_spec_gen_msg sys levels) (zc_arraylist_foreach specs) (t\<lparr>msg_buf := zlog_buf_restart (msg_buf t)\<rparr>) orc }"

definition zlog_format_has_name :: "format \<Rightarrow> string \<Rightarrow> bool" where
  "zlog_format_has_name a_format fname \<longleftrightarrow> fm_name a_format = fname"

section \<open>What the parser returns\<close>

text \<open>The segment of the pattern a conversion was parsed from.\<close>

definition segment :: "spec \<Rightarrow> string" where
  "segment a = take (sp_len a) (sp_str a)"

lemma format_specs_ok:
  "al_inv specs \<Longrightarrow> zc_arraylist_foreach specs = map Some xs \<Longrightarrow> off \<le> length pat \<Longrightarrow>
   format_specs lmax pat off cnt specs orc = Some (r, cnt', orc') \<Longrightarrow>
   r = None \<or> (\<exists>l ys. r = Some l \<and> al_inv l \<and> zc_arraylist_foreach l = map Some (xs @ ys) \<and>
     concat (map segment ys) = drop off pat \<and>
     map time_cache_index (List.filter is_time ys) = [cnt..cnt' - 1] \<and> cnt \<le> cnt' \<and>
     (\<forall>y \<in> set ys. sp_len y \<le> length (sp_str y)))"
proof (induction lmax pat off cnt specs orc arbitrary: xs r cnt' orc' rule: format_specs.induct)
  case (1 lmax pat off cnt specs orc)
  show ?case
  proof (cases "length pat \<le> off")
    case True
    then show ?thesis using 1(2-5) by (auto simp: format_specs.simps[of lmax pat off])
  next
    case False
    then obtain p orc1 where z: "zlog_spec_new lmax (drop off pat) cnt orc = Some (p, orc1)"
      using 1(5) by (auto simp: format_specs.simps[of lmax pat off] split: option.splits)
    show ?thesis
    proof (cases p)
      case None
      then show ?thesis using 1(5) False z by (simp add: format_specs.simps[of lmax pat off])
    next
      case (Some t)
      obtain a n cnt1 where t: "t = (a, n, cnt1)" by (cases t)
      have ok: "parse_ok (drop off pat) cnt a n cnt1" using zlog_spec_new_ok z Some t by simp
      obtain rc specs1 orc2 where ad: "zc_arraylist_add specs (Some a) orc1 = Some (rc, specs1, [], orc2)" "al_inv specs1"
        "rc = 0 \<longrightarrow> zc_arraylist_foreach specs1 = zc_arraylist_foreach specs @ [Some a]"
        by (rule zc_arraylist_add_spec[OF 1(2)])
      show ?thesis
      proof (cases "rc = 0")
        case rc: False
        then show ?thesis using 1(5) False z Some t ad(1) by (simp add: format_specs.simps[of lmax pat off])
      next
        case True
        have n: "off + n \<le> length pat" using ok False by (auto simp: parse_ok_def)
        have rec: "format_specs lmax pat (off + n) cnt1 specs1 orc2 = Some (r, cnt', orc')"
          using 1(5) False z Some t ad(1) True by (simp add: format_specs.simps[of lmax pat off])
        have fe: "zc_arraylist_foreach specs1 = map Some (xs @ [a])" using ad(3) True 1(3) by simp
        from 1(1)[OF False z HOL.refl Some t[symmetric] HOL.refl ad(1) HOL.refl HOL.refl HOL.refl _ ad(2) fe n rec] True
        have "r = None \<or> (\<exists>l ys. r = Some l \<and> al_inv l \<and> zc_arraylist_foreach l = map Some ((xs @ [a]) @ ys) \<and>
           concat (map segment ys) = drop (off + n) pat \<and>
           map time_cache_index (List.filter is_time ys) = [cnt1..cnt' - 1] \<and> cnt1 \<le> cnt' \<and>
           (\<forall>y \<in> set ys. sp_len y \<le> length (sp_str y)))" by simp
        then show ?thesis
        proof (elim disjE exE conjE)
          fix l ys
          assume h: "r = Some l" "al_inv l" "zc_arraylist_foreach l = map Some ((xs @ [a]) @ ys)"
            "concat (map segment ys) = drop (off + n) pat"
            "map time_cache_index (List.filter is_time ys) = [cnt1..cnt' - 1]" "cnt1 \<le> cnt'" "\<forall>y \<in> set ys. sp_len y \<le> length (sp_str y)"
          have seg: "segment a = take n (drop off pat)" using ok by (simp add: parse_ok_def segment_def)
          have "concat (map segment (a # ys)) = drop off pat"
            using h(4) seg by (simp add: add.commute) (metis append_take_drop_id drop_drop add.commute)
          moreover have "map time_cache_index (List.filter is_time (a # ys)) = [cnt..cnt' - 1] \<and> cnt \<le> cnt'"
            using h(5,6) ok by (auto simp: parse_ok_def upto.simps[of cnt "cnt' - 1"])
          moreover have "\<forall>y \<in> set (a # ys). sp_len y \<le> length (sp_str y)" using h(7) ok by (auto simp: parse_ok_def)
          moreover have "zc_arraylist_foreach l = map Some (xs @ (a # ys))" using h(3) by simp
          ultimately show ?thesis using h(1,2) by blast
        qed simp
      qed
    qed
  qed
qed


subsection \<open>The parser is defined on patterns whose keys fit\<close>

lemma str_item_paren: "sscanf s (paren_fmt c) = (nscan, its) \<Longrightarrow> length (str_item its 0 []) \<le> length s"
proof -
  assume a: "sscanf s (paren_fmt c) = (nscan, its)"
  show ?thesis
  proof (cases s)
    case Nil
    then show ?thesis using a by (simp add: sscanf_def paren_fmt_def str_item_def)
  next
    case (Cons x s1)
    show ?thesis
    proof (cases s1)
      case Nil
      then show ?thesis using a Cons by (auto simp: sscanf_def paren_fmt_def str_item_def split: if_splits)
    next
      case (Cons y s2)
      let ?k = "takeWhile (\<lambda>x. x \<noteq> CHR '')'') s2"
      have "str_item its 0 [] \<in> {[], ?k}"
        using a \<open>s = x # s1\<close> Cons by (auto simp: sscanf_def paren_fmt_def str_item_def Let_def split: if_splits prod.splits)
      then show ?thesis using \<open>s = x # s1\<close> Cons length_takeWhile_le[of "\<lambda>x. x \<noteq> CHR '')''" s2] by auto
    qed
  qed
qed

lemma spec_new_defined: "length s \<le> MAXLEN_PATH \<Longrightarrow> zlog_spec_new lmax s cnt orc \<noteq> None"
proof -
  assume len: "length s \<le> MAXLEN_PATH"
  have "spec_percent lmax s cnt \<noteq> None" if c: "char_at s 0 = CHR ''%''"
  proof (cases "spec_flags lmax s")
    case (Pair a p)
    have a: "sp_str a = s" using spec_flags_pos[OF c, of lmax] Pair by simp
    have "spec_mdc a p cnt \<noteq> None"
    proof (cases "sscanf (drop p s) (paren_fmt (CHR ''M''))")
      case m: (Pair nscan its)
      have "length (str_item its 0 []) \<le> MAXLEN_PATH" using str_item_paren[OF m] len by simp
      then show ?thesis using a m by (simp add: spec_mdc_def Let_def)
    qed
    then show ?thesis using Pair by (simp add: spec_percent_def Let_def)
  qed
  then show ?thesis by (auto simp: zlog_spec_new_def split: prod.split)
qed

lemma format_specs_defined:
  "al_inv specs \<Longrightarrow> length pat \<le> MAXLEN_PATH \<Longrightarrow> format_specs lmax pat off cnt specs orc \<noteq> None"
proof (induction lmax pat off cnt specs orc rule: format_specs.induct)
  case (1 lmax pat off cnt specs orc)
  show ?case
  proof (cases "length pat \<le> off")
    case True
    then show ?thesis by (simp add: format_specs.simps[of lmax pat off])
  next
    case False
    obtain p orc1 where z: "zlog_spec_new lmax (drop off pat) cnt orc = Some (p, orc1)"
      using spec_new_defined[of "drop off pat" lmax cnt orc] 1(3) by fastforce
    show ?thesis
    proof (cases p)
      case None
      then show ?thesis using False z by (simp add: format_specs.simps[of lmax pat off])
    next
      case (Some t)
      obtain a n cnt1 where t: "t = (a, n, cnt1)" by (cases t)
      obtain rc specs1 orc2 where ad: "zc_arraylist_add specs (Some a) orc1 = Some (rc, specs1, [], orc2)" "al_inv specs1"
        by (rule zc_arraylist_add_spec[OF 1(2)])
      show ?thesis
      proof (cases "rc = 0")
        case rc: False
        then show ?thesis using False z Some t ad(1) by (simp add: format_specs.simps[of lmax pat off])
      next
        case True
        from 1(1)[OF False z HOL.refl Some t[symmetric] HOL.refl ad(1) HOL.refl HOL.refl HOL.refl _ ad(2) 1(3)] True
        show ?thesis using False z Some t ad(1) by (simp add: format_specs.simps[of lmax pat off])
      qed
    qed
  qed
qed

subsection \<open>Reading a line\<close>

definition name_ok :: "string \<Rightarrow> bool" where
  "name_ok s \<longleftrightarrow> s \<noteq> [] \<and> length s \<le> MAXLEN_CFG_LINE \<and> (\<forall>c \<in> set s. isalnum c \<or> c = CHR ''_'')"

lemma isalnum_plain: "isalnum c \<or> c = CHR ''_'' \<Longrightarrow> \<not> isspace c \<and> \<not> name_stop c \<and> c \<noteq> NUL"
  by (auto simp: isalnum_def isdigit_def isupper_def islower_def isspace_def name_stop_def)

lemma line_scan:
  assumes "name_ok name" "r \<noteq> []" "\<not> isspace (hd r)"
  shows "sscanf (name @ '' = '' @ r) [SWs, SSet (\<lambda>c. \<not> name_stop c), SWs, SLit (CHR ''=''), SWs, SPos] =
    (1, [IStr name, IPos (length name + 3)])"
proof -
  let ?ds = "[SWs, SLit (CHR ''=''), SWs, SPos]"
  have n: "name \<noteq> []" "\<forall>c \<in> set name. \<not> name_stop c" "\<not> isspace (hd name)"
    using assms(1) isalnum_plain by (auto simp: name_ok_def)
  have w: "takeWhile isspace r = []" using assms(2,3) by (cases r) auto
  have eq: "takeWhile isspace ('' = '' @ r) = '' ''" "takeWhile isspace ('' '' @ r) = '' ''"
    using w by (auto simp: isspace_def)
  have "scan (SWs # SSet (\<lambda>c. \<not> name_stop c) # ?ds) (name @ '' = '' @ r) 0 0 =
      scan (SSet (\<lambda>c. \<not> name_stop c) # ?ds) (name @ '' = '' @ r) 0 0"
    by (rule scan_SWs_none) (use n in \<open>cases name; simp\<close>)
  also have "\<dots> = (let (r', its) = scan ?ds ('' = '' @ r) (0 + length name) (0 + 1) in (r', IStr name # its))"
    by (rule scan_SSet_append) (use n in \<open>auto simp: name_stop_def\<close>)
  also have "scan ?ds ('' = '' @ r) (0 + length name) (0 + 1) = (1, [IPos (length name + 3)])"
    using eq by (simp add: Let_def)
  finally show ?thesis by (simp add: sscanf_def)
qed

lemma zlog_format_new_line:
  assumes name: "name_ok name" and pat: "env_free pat" "NUL \<notin> set pat" "length pat \<le> MAXLEN_PATH" and rest: "CHR 0x22 \<notin> set rest"
  shows "zlog_format_new lmax g (name @ '' = '' @ CHR 0x22 # pat @ CHR 0x22 # rest) cnt orc =
    (let (ok, orc1) = ask orc in
      if \<not> ok then Some (None, cnt, orc1)
      else case zc_arraylist_new True orc1 of
          (None, orc2) \<Rightarrow> Some (None, cnt, orc2)
        | (Some specs, orc2) \<Rightarrow> do {
            (r, cnt', orc3) \<leftarrow> format_specs lmax pat 0 cnt specs orc2;
            Some (map_option (\<lambda>l. \<lparr>fm_name = name, fm_pattern = pat, pattern_specs = Some l\<rparr>) r, cnt', orc3) })"
proof -
  let ?line = "name @ '' = '' @ CHR 0x22 # pat @ CHR 0x22 # rest"
  have sc: "sscanf ?line [SWs, SSet (\<lambda>c. \<not> name_stop c), SWs, SLit (CHR ''=''), SWs, SPos] = (1, [IStr name, IPos (length name + 3)])"
    by (rule line_scan[OF name]) (simp_all add: isspace_def)
  have ch: "char_at ?line (length name + 3) = CHR 0x22" by (simp add: char_at_def nth_append)
  have nm: "(\<exists>c \<in> set name. \<not> isalnum c \<and> c \<noteq> CHR ''_'') = False" "length name \<le> MAXLEN_CFG_LINE" using name by (auto simp: name_ok_def)
  have dr: "drop (length name + 3 + 1) ?line = pat @ CHR 0x22 # rest" by simp
  have qu: "strrchr (pat @ CHR 0x22 # rest) (CHR 0x22) = Some (length pat)" by (rule strrchr_append[OF rest])
  have pl: "length pat < MAXLEN_CFG_LINE" using pat(3) by (simp add: MAXLEN_CFG_LINE_def MAXLEN_PATH_def)
  have rep: "replicate (MAXLEN_CFG_LINE + 1 - length pat) NUL = NUL # replicate (MAXLEN_CFG_LINE - length pat) NUL"
    using pl by (simp add: Suc_diff_le)
  have env: "zc_str_replace_env g n (pat @ replicate (MAXLEN_CFG_LINE + 1 - length pat) NUL) =
      Some (0, pat @ replicate (MAXLEN_CFG_LINE + 1 - length pat) NUL)" for n
    unfolding rep by (rule replace_env_free[OF pat(1,2) pl])
  have cs: "cstr (pat @ replicate (MAXLEN_CFG_LINE + 1 - length pat) NUL) 0 = Some pat"
    unfolding rep by (rule cstr_append[OF pat(2)])
  have items: "str_item [IStr name, IPos (length name + 3)] 0 [] = name" "pos_item [IStr name, IPos (length name + 3)] 1 0 = length name + 3"
    by (simp_all add: str_item_def pos_item_def)
  show ?thesis
  proof (cases "ask orc")
    case (Pair ok orc1)
    show ?thesis
      unfolding zlog_format_new_def sc Let_def prod.case items ch dr qu Pair
      using nm pl env cs by (auto simp del: replicate.simps)
  qed
qed

text \<open>
  C26. A \<open>[formats]\<close> line \<open>name = "pattern"\<close> whose pattern has no environment reference and at most
  \<open>MAXLEN_PATH\<close> bytes, for every pattern of allocation failures: reading it is defined and terminates,
  and a format that is returned has that name, that pattern, and conversions whose segments make up
  the pattern; its time conversions get the time caches from \<open>cnt\<close> on, one each, and the count moves on
  by their number.
\<close>

theorem zlog_format_new_segments:
  assumes "name_ok name" "env_free pat" "NUL \<notin> set pat" "length pat \<le> MAXLEN_PATH" "CHR 0x22 \<notin> set rest"
  shows "\<exists>r cnt' orc'. zlog_format_new lmax g (name @ '' = '' @ CHR 0x22 # pat @ CHR 0x22 # rest) cnt orc = Some (r, cnt', orc') \<and>
    (\<forall>f. r = Some f \<longrightarrow> fm_name f = name \<and> fm_pattern f = pat \<and>
      (\<exists>l ys. pattern_specs f = Some l \<and> al_inv l \<and> zc_arraylist_foreach l = map Some ys \<and> concat (map segment ys) = pat \<and>
         map time_cache_index (List.filter is_time ys) = [cnt..cnt' - 1] \<and> cnt \<le> cnt' \<and> (\<forall>y \<in> set ys. sp_len y \<le> length (sp_str y))))"
proof -
  note line = zlog_format_new_line[OF assms, of lmax g cnt orc]
  show ?thesis
  proof (cases "ask orc")
    case (Pair ok orc1)
    show ?thesis
    proof (cases ok)
      case False
      then show ?thesis using line Pair by simp
    next
      case True
      show ?thesis
      proof (cases "zc_arraylist_new True orc1 :: spec arraylist option \<times> outcomes")
        case new: (Pair q orc2)
        show ?thesis
        proof (cases q)
          case None
          then show ?thesis using line Pair True new by simp
        next
          case (Some specs)
          have inv: "al_inv specs" "zc_arraylist_foreach specs = map Some []"
            using zc_arraylist_new_inv new Some by auto
          obtain r cnt' orc' where f: "format_specs lmax pat 0 cnt specs orc2 = Some (r, cnt', orc')"
            using format_specs_defined[OF inv(1) assms(4)] by (metis not_None_eq prod_cases3)
          from format_specs_ok[OF inv _ f] show ?thesis using line Pair True new Some f by auto
        qed
      qed
    qed
  qed
qed

lemma sample_format:
  "\<exists>f cnt' orc'. zlog_format_new 2147483647 (\<lambda>k. None) (''simple'' @ '' = '' @ CHR 0x22 # ''%m%n'' @ CHR 0x22 # '''') 0 [] = Some (Some f, cnt', orc')"
proof -
  have n: "name_ok ''simple''" by (simp add: name_ok_def clib MAXLEN_CFG_LINE_def)
  have e: "env_free ''%m%n''" by (simp add: fmt_flag_def clib)
  have s: "zlog_spec_new 2147483647 ''%m%n'' 0 [] = Some (Some ((spec_zero ''%m%n'')\<lparr>sp_len := 2, write_buf := W_usrmsg\<rparr>, 2, 0), [])"
    "zlog_spec_new 2147483647 ''%n'' 0 [] = Some (Some ((spec_zero ''%n'')\<lparr>sp_len := 2, write_buf := W_newline\<rparr>, 2, 0), [])"
    by (simp_all add: zlog_spec_new_def spec_percent_def spec_flags_def spec_char_def char_fn_def char_at_def fmt_flag_def spec_zero_def clib Let_def)
  have new: "zc_arraylist_new True [] = (Some \<lparr>al_array = replicate 32 None, al_len = 0, al_size = 32, al_del = True\<rparr>, [])"
    by (simp add: zc_arraylist_new_def ARRAY_LIST_DEFAULT_SIZE_def)
  have add: "\<exists>l'. zc_arraylist_add \<lparr>al_array = a, al_len = i, al_size = 32, al_del = True\<rparr> d [] =
      Some (0, \<lparr>al_array = a[nat i := d], al_len = i + 1, al_size = 32, al_del = True\<rparr>, [], [])"
    if "0 \<le> i" "i < 32" "length a = 32" "a ! nat i = None" for a :: "spec option list" and i d
    using that by (simp add: zc_arraylist_add_def zc_arraylist_set_def arr_get_def arr_set_def Let_def nat_less_iff)
  show ?thesis
    using s add[of 0 "replicate 32 None"] add[of 1 "(replicate 32 None)[0 := _]"]
    by (subst zlog_format_new_line[OF n e]) (simp_all add: MAXLEN_PATH_def new format_specs.simps[of _ "''%m%n''"])
qed

theorem zlog_format_new_segments_witness:
  "\<exists>(f::format) ys cnt'. fm_name f = ''simple'' \<and> fm_pattern f = ''%m%n'' \<and> concat (map segment ys) = ''%m%n'' \<and>
     map time_cache_index (List.filter is_time ys) = [0..cnt' - 1] \<and>
     map_option zc_arraylist_foreach (pattern_specs f) = Some (map Some ys)"
proof -
  have n: "name_ok ''simple''" by (simp add: name_ok_def clib MAXLEN_CFG_LINE_def)
  have e: "env_free ''%m%n''" by (simp add: fmt_flag_def clib)
  obtain f cnt' orc' where f: "zlog_format_new 2147483647 (\<lambda>k. None) (''simple'' @ '' = '' @ CHR 0x22 # ''%m%n'' @ CHR 0x22 # '''') 0 [] = Some (Some f, cnt', orc')"
    using sample_format by blast
  obtain l ys where "fm_name f = ''simple''" "fm_pattern f = ''%m%n''" "pattern_specs f = Some l"
    "zc_arraylist_foreach l = map Some ys" "concat (map segment ys) = ''%m%n''"
    "map time_cache_index (List.filter is_time ys) = [0..cnt' - 1]"
    using zlog_format_new_segments[OF n e, of "[]" 2147483647 "\<lambda>k. None" 0 "[]"] unfolding f
    by (auto simp: MAXLEN_PATH_def)
  then show ?thesis by (intro exI[of _ f] exI[of _ ys] exI[of _ cnt']) simp
qed

section \<open>Generating a message\<close>

text \<open>Conversions with time caches of their own never share one; a new event has fresh caches, and setting an
  event keeps its caches.\<close>

lemma distinct_caches_apart:
  assumes "distinct (map time_cache_index (List.filter is_time ys))"
  shows "caches_apart (set ys)"
  unfolding caches_apart_def
proof (intro ballI impI)
  fix s s' assume a: "s \<in> set ys" "s' \<in> set ys" "is_time s \<and> is_time s' \<and> time_cache_index s = time_cache_index s'"
  have "inj_on time_cache_index (set (List.filter is_time ys))" using assms by (simp add: distinct_map)
  then have "s = s'" using a by (auto simp: inj_on_def)
  then show "time_fmt s = time_fmt s' \<and> write_buf s = write_buf s'" by simp
qed

lemma event_new_inv:
  assumes "zlog_event_new sys n orc = (Some e, orc')" "\<forall>s \<in> ss. is_time s \<longrightarrow> 0 \<le> time_cache_index s \<and> time_cache_index s < n"
  shows "event_inv sys ss e"
proof -
  have "event_ok e" using event_new_fields[OF assms(1)] by simp
  moreover have "\<forall>s \<in> ss. is_time s \<longrightarrow> cache_ok sys e s"
    using assms by (auto simp: zlog_event_new_def alloc_then_Some cache_ok_def nat_less_iff)
  ultimately show ?thesis using assms(1) by (auto simp: event_inv_def zlog_event_new_def alloc_then_Some)
qed

definition lens_ok :: "string \<Rightarrow> nat \<Rightarrow> string option \<Rightarrow> nat \<Rightarrow> string option \<Rightarrow> nat \<Rightarrow> bool" where
  "lens_ok cname cname_len file file_len func func_len \<longleftrightarrow> cname_len \<le> length cname \<and>
     (case file of None \<Rightarrow> True | Some f \<Rightarrow> file_len \<le> length f) \<and> (case func of None \<Rightarrow> True | Some f \<Rightarrow> func_len \<le> length f)"

lemma event_set_fmt_inv:
  assumes "event_inv sys ss e" "lens_ok cname cname_len file file_len func func_len"
  shows "event_inv sys ss (zlog_event_set_fmt e cname cname_len file file_len func func_len line level fa)"
proof -
  have c: "cache_ok sys (zlog_event_set_fmt e cname cname_len file file_len func func_len line level fa) s = cache_ok sys e s" for s
    by (simp add: zlog_event_set_fmt_def cache_ok_def)
  show ?thesis using assms by (simp add: event_inv_def c) (simp add: zlog_event_set_fmt_def event_ok_def lens_ok_def cong: option.case_cong)
qed

lemma event_set_hex_inv:
  assumes "event_inv sys ss e" "lens_ok cname cname_len file file_len func func_len" "bs = None \<or> n \<le> length (the bs)"
  shows "event_inv sys ss (zlog_event_set_hex e cname cname_len file file_len func func_len line level bs n)"
proof -
  have c: "cache_ok sys (zlog_event_set_hex e cname cname_len file file_len func func_len line level bs n) s = cache_ok sys e s" for s
    by (simp add: zlog_event_set_hex_def cache_ok_def)
  show ?thesis using assms by (simp add: event_inv_def c) (auto simp: zlog_event_set_hex_def event_ok_def lens_ok_def split: option.split cong: option.case_cong)
qed

text \<open>The text of a message: the texts of the conversions, in order.\<close>

definition msg_text :: "'tm sys \<Rightarrow> level arraylist \<Rightarrow> 'tm thread \<Rightarrow> spec list \<Rightarrow> string" where
  "msg_text sys levels t ys = concat (map (seg_text sys levels (th_mdc t) (th_event t) (pre_msg_buf t)) ys)"

definition msg_bufs_ok :: "'tm thread \<Rightarrow> bool" where
  "msg_bufs_ok t \<longleftrightarrow> buf_inv (msg_buf t) \<and> mem (msg_buf t) \<noteq> None \<and> buf_inv (pre_msg_buf t) \<and> mem (pre_msg_buf t) \<noteq> None"

lemma a_text_fits: "buf_inv b \<Longrightarrow> a_text (buf_abs b) = Some t \<Longrightarrow> size_max b \<noteq> 0 \<Longrightarrow> length t < size_max b"
proof -
  assume a: "buf_inv b" "a_text (buf_abs b) = Some t" "size_max b \<noteq> 0"
  obtain m where m: "mem b = Some m" "t = take (buf_tail b) m" using a(2) unfolding a_text_cases by blast
  then have "length t \<le> buf_tail b" by simp
  also have "buf_tail b < size_real b" using a(1) m(1) by (auto simp: buf_inv_def)
  finally show ?thesis using a by (auto simp: buf_inv_def)
qed

lemma gen_msg_run:
  assumes r: "gen_ready sys levels ss t" "set ys \<subseteq> ss" and f: "pattern_specs f = Some l" "zc_arraylist_foreach l = map Some ys"
    and b: "msg_bufs_ok t"
  shows "\<exists>rc t' orc'. zlog_format_gen_msg sys levels f t orc = Some (rc, t', orc') \<and> (rc = 0 \<or> rc = -1) \<and>
    gen_ready sys levels ss t' \<and> msg_kept sys t t' \<and> buf_inv (msg_buf t') \<and> buf_inv (pre_msg_buf t') \<and>
    (rc = 0 \<longrightarrow> msg_bufs_ok t' \<and> a_text (buf_abs (msg_buf t')) = Some (msg_text sys levels t ys)) \<and>
    (size_max (msg_buf t) \<noteq> 0 \<and> size_max (msg_buf t) \<le> length (msg_text sys levels t ys) \<longrightarrow> rc = -1) \<and>
    (orc = [] \<and> (size_max (msg_buf t) = 0 \<or> length (msg_text sys levels t ys) < size_max (msg_buf t)) \<longrightarrow> rc = 0 \<and> orc' = [])"
proof -
  let ?t = "t\<lparr>msg_buf := zlog_buf_restart (msg_buf t)\<rparr>"
  have m: "buf_inv (msg_buf ?t)" "mem (msg_buf ?t) \<noteq> None" "a_text (buf_abs (msg_buf ?t)) = Some []"
    "size_max (msg_buf ?t) = size_max (msg_buf t)" using b restart_empty[of "msg_buf t"] by (auto simp: msg_bufs_ok_def)
  have p: "buf_inv (pre_msg_buf ?t)" "mem (pre_msg_buf ?t) \<noteq> None" using b by (auto simp: msg_bufs_ok_def)
  have r': "gen_ready sys levels ss ?t" using r(1) by (simp add: gen_ready_def)
  from msg.loop[OF r' r(2) m(1,2) p m(3), of orc]
  obtain rc t' orc' where g: "gen_loop (zlog_spec_gen_msg sys levels) (map Some ys) ?t orc = Some (rc, t', orc')"
    "rc = 0 \<or> rc = -1" "gen_ready sys levels ss t'" "buf_inv (msg_buf t')" "size_max (msg_buf t') = size_max (msg_buf t)"
    "buf_inv (pre_msg_buf t')" "msg_kept sys ?t t'"
    "rc = 0 \<longrightarrow> mem (pre_msg_buf t') \<noteq> None \<and> a_text (buf_abs (msg_buf t')) = Some (msg_text sys levels t ys)"
    "orc = [] \<and> (size_max (msg_buf t) = 0 \<or> length (msg_text sys levels t ys) < size_max (msg_buf t)) \<longrightarrow> rc = 0 \<and> orc' = []"
    using m(4) by (auto simp: msg_text_def simp del: buf_abs_fields(4))
  have "zlog_format_gen_msg sys levels f t orc = Some (rc, t', orc')"
    using g(1) f by (simp add: zlog_format_gen_msg_def)
  moreover have "msg_kept sys t t'" using g(7) by (simp add: msg_kept_def)
  moreover have "msg_bufs_ok t'" if "rc = 0"
    using g(4,6,8) that by (auto simp: msg_bufs_ok_def a_text_cases simp del: buf_abs_fields(4))
  moreover have "rc = -1" if "size_max (msg_buf t) \<noteq> 0" "size_max (msg_buf t) \<le> length (msg_text sys levels t ys)"
    using a_text_fits[OF g(4), of "msg_text sys levels t ys"] that g(2,5,8) by auto
  ultimately show ?thesis using g(2,3,4,6,8,9) by blast
qed

text \<open>
  C5. Generating a message on a thread whose buffers are live, for every pattern of allocation failures
  and whatever the caches hold: the call is defined and returns 0 or -1; on 0 the message buffer holds
  exactly the texts of the conversions, in order, as computed without any cache; context, format event
  and path buffers keep what they print; a message that reaches the limit of the buffer is reported
  as a failure, and one below the limit succeeds when no allocation fails.
\<close>

theorem zlog_format_gen_msg_ok:
  assumes r: "gen_ready sys levels (set ys) t" and f: "pattern_specs f = Some l" "zc_arraylist_foreach l = map Some ys"
    and b: "msg_bufs_ok t"
  shows "\<exists>rc t' orc'. zlog_format_gen_msg sys levels f t orc = Some (rc, t', orc') \<and> (rc = 0 \<or> rc = -1) \<and>
    gen_ready sys levels (set ys) t' \<and> msg_kept sys t t' \<and> buf_inv (msg_buf t') \<and> buf_inv (pre_msg_buf t') \<and>
    (rc = 0 \<longrightarrow> msg_bufs_ok t' \<and> a_text (buf_abs (msg_buf t')) = Some (msg_text sys levels t ys)) \<and>
    (size_max (msg_buf t) \<noteq> 0 \<and> size_max (msg_buf t) \<le> length (msg_text sys levels t ys) \<longrightarrow> rc = -1) \<and>
    (orc = [] \<and> (size_max (msg_buf t) = 0 \<or> length (msg_text sys levels t ys) < size_max (msg_buf t)) \<longrightarrow> rc = 0 \<and> orc' = [])"
  by (rule gen_msg_run[OF r order.refl f b])

subsection \<open>The levels have their full names\<close>

lemma set_list_put: "set (list_put xs i d) \<subseteq> insert d (insert None (set xs))"
  using set_update_subset_insert[of xs i d] by (auto simp: list_put_def)

lemma zlog_level_new_names:
  "zlog_level_new line orc = Some (Some a, orc') \<Longrightarrow>
     level_str_len a = length (str_uppercase a) \<and> level_str_len a = length (str_lowercase a)"
  by (auto simp: zlog_level_new_def Let_def split: if_splits prod.splits)

lemma levels_ok_set:
  assumes ls: "levels_ok ls" and s: "zlog_level_list_set ls line orc = Some (rc, ls', fr, orc')"
  shows "levels_ok ls'"
proof -
  have inv: "ll_inv ls" using ls by (simp add: levels_ok_def)
  obtain a orc1 where a: "zlog_level_new line orc = Some (a, orc1)" using s by (auto simp: zlog_level_list_set_def bind_eq_Some_conv)
  obtain rc2 ls2 fr2 orc2 where z: "zlog_level_list_set ls line orc = Some (rc2, ls2, fr2, orc2)" "ll_inv ls2"
    "a = None \<longrightarrow> ls2 = ls" "\<forall>x. a = Some x \<longrightarrow> zc_arraylist_foreach ls2 = list_put (zc_arraylist_foreach ls) (nat (int_level x)) a"
    by (rule level_set_inv[OF inv a])
  have eq: "ls2 = ls'" using s z(1) by simp
  show ?thesis
  proof (cases a)
    case None
    then show ?thesis using ls z eq by simp
  next
    case (Some x)
    have "zc_arraylist_foreach ls' = list_put (zc_arraylist_foreach ls) (nat (int_level x)) (Some x)" using z(4) Some eq by simp
    then have "set (zc_arraylist_foreach ls') \<subseteq> insert (Some x) (insert None (set (zc_arraylist_foreach ls)))"
      using set_list_put by simp
    then show ?thesis using ls zlog_level_new_names[OF a[unfolded Some]] z(2) eq by (auto simp: levels_ok_def)
  qed
qed

lemma default_names: "Some a \<in> set (foldl (\<lambda>xs a. list_put xs (nat (int_level a)) (Some a)) xs as) \<Longrightarrow>
    Some a \<in> set xs \<or> a \<in> set as"
proof (induction as arbitrary: xs)
  case (Cons b as)
  then show ?case using set_list_put[of xs "nat (int_level b)" "Some b"] by (simp, blast)
qed simp

lemma default_levels_names: "a \<in> set default_levels \<Longrightarrow>
    level_str_len a = length (str_uppercase a) \<and> level_str_len a = length (str_lowercase a)"
  by (auto simp: default_levels_def)

lemma default_fold_names: "Some a \<in> set (foldl (\<lambda>xs a. list_put xs (nat (int_level a)) (Some a)) [] default_levels) \<Longrightarrow>
    level_str_len a = length (str_uppercase a) \<and> level_str_len a = length (str_lowercase a)"
  by (rule default_levels_names) (use default_names[of a "[]" default_levels] in simp)

lemma levels_ok_new: "zlog_level_list_new orc = Some (Some ls, orc') \<Longrightarrow> levels_ok ls"
proof -
  assume a: "zlog_level_list_new orc = Some (Some ls, orc')"
  obtain r orc2 where "zlog_level_list_new orc = Some (r, orc2)" "\<forall>ls. r = Some ls \<longrightarrow> ll_inv ls \<and> zc_arraylist_foreach ls =
      foldl (\<lambda>xs a. list_put xs (nat (int_level a)) (Some a)) [] default_levels" by (rule level_list_new_spec)
  then have l: "ll_inv ls" "zc_arraylist_foreach ls = foldl (\<lambda>xs a. list_put xs (nat (int_level a)) (Some a)) [] default_levels"
    using a by auto
  show ?thesis unfolding levels_ok_def l(2) using l(1) default_fold_names by blast
qed

lemma default_levels_ok: "levels_ok default_list"
proof -
  have "Some a \<in> set (zc_arraylist_foreach default_list) \<Longrightarrow>
     Some a \<in> set (foldl (\<lambda>xs a. list_put xs (nat (int_level a)) (Some a)) [] default_levels)" for a
    by (auto simp: zc_arraylist_foreach_def default_list_def dest: in_set_takeD)
  then show ?thesis unfolding levels_ok_def using default_list_inv default_fold_names by blast
qed

definition sample_sys :: "nat sys" where
  "sample_sys = \<lparr>sys_sec = 1000, sys_usec = 5000, sys_pid = 7, sys_tid = 8, sys_ktid = 9, sys_hostname = ''box'',
     sys_gmtime = nat, sys_localtime = nat, sys_strftime = (\<lambda>f t. f), sys_tm0 = 0\<rparr>"

definition sample_specs :: "spec list" where
  "sample_specs = [(spec_zero ''%m%n'')\<lparr>sp_len := 2, write_buf := W_usrmsg\<rparr>, (spec_zero ''%n'')\<lparr>sp_len := 2, write_buf := W_newline\<rparr>]"

definition sample_fmt :: format where
  "sample_fmt = \<lparr>fm_name = ''simple'', fm_pattern = ''%m%n'',
     pattern_specs = Some \<lparr>al_array = map Some sample_specs, al_len = 2, al_size = 2, al_del = True\<rparr>\<rparr>"

definition sample_event :: "nat event" where
  "sample_event = zlog_event_set_fmt (the (fst (zlog_event_new sample_sys 0 []))) ''cat'' 3 (Some ''a.c'') 3 (Some ''f'') 1 12 20 (Some (Some ''hello''))"

definition sample_thread :: "nat thread" where
  "sample_thread = \<lparr>init_version = 1, th_mdc = sample_mdc, th_event = sample_event,
     pre_path_buf = sample_buf, path_buf = sample_buf, archive_path_buf = sample_buf, pre_msg_buf = sample_buf, msg_buf = sample_buf\<rparr>"

lemma sample_gen_ready: "gen_ready sample_sys default_list (set sample_specs) sample_thread"
proof -
  have new: "zlog_event_new sample_sys 0 [] = (Some (the (fst (zlog_event_new sample_sys 0 []))), [])"
    by (simp add: zlog_event_new_def alloc_then_def calloc_ok_def)
  have e: "event_inv sample_sys (set sample_specs) sample_event" unfolding sample_event_def
    by (rule event_set_fmt_inv[OF event_new_inv[OF new]]) (auto simp: lens_ok_def sample_specs_def is_time_def)
  have f: "ev_level sample_event = 20" "ev_func sample_event = Some ''f''" "str_format sample_event = Some (Some ''hello'')"
    by (simp_all add: sample_event_def zlog_event_set_fmt_def)
  have l: "levels_ok default_list" by (rule default_levels_ok)
  show ?thesis using e f l sample_mdc
    by (auto simp: gen_ready_def sys_ok_def sample_sys_def sample_thread_def caches_apart_def sample_specs_def is_time_def spec_ready_def spec_zero_def)
qed

theorem zlog_format_gen_msg_ok_witness:
  "\<exists>t'. zlog_format_gen_msg sample_sys default_list sample_fmt sample_thread [] = Some (0, t', []) \<and>
     a_text (buf_abs (msg_buf t')) = Some (''hello'' @ [CHR 0x0A])"
proof -
  have t: "msg_text sample_sys default_list sample_thread sample_specs = ''hello'' @ [CHR 0x0A]"
    by (simp add: msg_text_def sample_specs_def seg_text_def spec_zero_def spec_text_def usrmsg_text_def sample_thread_def
        sample_event_def zlog_event_set_fmt_def)
  have m: "size_max (msg_buf sample_thread) = 10" using sample_buf(3) by (simp add: sample_thread_def buf_abs_def)
  have b: "msg_bufs_ok sample_thread" using sample_buf by (simp add: msg_bufs_ok_def sample_thread_def)
  have f: "pattern_specs sample_fmt = Some \<lparr>al_array = map Some sample_specs, al_len = 2, al_size = 2, al_del = True\<rparr>"
    "zc_arraylist_foreach \<lparr>al_array = map Some sample_specs, al_len = 2, al_size = 2, al_del = True\<rparr> = map Some sample_specs"
    by (simp_all add: sample_fmt_def zc_arraylist_foreach_def sample_specs_def)
  show ?thesis using zlog_format_gen_msg_ok[OF sample_gen_ready f b, of "[]"] unfolding t m by force
qed

section \<open>Two conversions that cannot be used\<close>

lemma spec_flags_none: "\<not> fmt_flag c \<Longrightarrow> spec_flags lmax (CHR ''%'' # c # s) = (spec_zero (CHR ''%'' # c # s), 1)"
  by (simp add: spec_flags_def sscanf_def Let_def)

text \<open>
  A UTC time with a format of its own, \<open>%g(...)\<close>, is never accepted: the parser looks for \<open>d(\<close> in both
  cases, so whatever follows, \<open>zlog_spec_new\<close> returns NULL.
\<close>

theorem spec_g_rejected: "zlog_spec_new lmax (''%g('' @ rest) cnt orc = Some (None, snd (ask orc))"
proof -
  have f: "spec_flags lmax (''%g('' @ rest) = (spec_zero (''%g('' @ rest), 1)"
    using spec_flags_none[of "CHR ''g''" lmax "CHR ''('' # rest"] by (simp add: fmt_flag_def isdigit_def)
  have "spec_time (spec_zero (''%g('' @ rest)) 1 cnt = None"
    by (simp add: spec_time_def spec_zero_def char_at_def strncmp_eq_def numeral_eq_Suc paren_fmt_def sscanf_def)
  then show ?thesis using f
    by (simp add: zlog_spec_new_def spec_percent_def char_at_def split: prod.split)
qed

text \<open>
  A context key longer than \<open>MAXLEN_PATH\<close> overflows \<open>mdc_key\<close>: the conversion \<open>%M(key)\<close> of such a key, which
  a pattern of up to \<open>MAXLEN_CFG_LINE\<close> bytes can hold, is undefined behaviour (the allocation before it succeeding).
\<close>

theorem spec_mdc_key_overflow:
  assumes "MAXLEN_PATH < length key" "CHR '')'' \<notin> set key" "fst (ask orc)"
  shows "zlog_spec_new lmax (''%M('' @ key @ '')'' @ rest) cnt orc = None"
proof -
  let ?s = "''%M('' @ key @ '')'' @ rest"
  have f: "spec_flags lmax ?s = (spec_zero ?s, 1)"
    using spec_flags_none[of "CHR ''M''" lmax "CHR ''('' # key @ '')'' @ rest"] by (simp add: fmt_flag_def isdigit_def)
  have tw: "takeWhile (\<lambda>x. x \<noteq> CHR '')'') (key @ CHR '')'' # rest) = key"
    by (rule takeWhile_append_stop) (use assms(2) in auto)
  have "key \<noteq> []" using assms(1) by auto
  then have "sscanf (drop 1 ?s) (paren_fmt (CHR ''M'')) = (1, [IStr key, IPos (length key + 3)])"
    by (simp add: sscanf_def paren_fmt_def Let_def tw)
  then have "spec_mdc (spec_zero ?s) 1 cnt = None" using assms(1) by (simp add: spec_mdc_def spec_zero_def str_item_def)
  then show ?thesis using f assms(3)
    by (cases "ask orc") (simp add: zlog_spec_new_def spec_percent_def char_at_def)
qed

theorem spec_mdc_key_overflow_witness:
  "zlog_spec_new 2147483647 (''%M('' @ replicate 1025 (CHR ''k'') @ '')'' @ ''%n'') 0 [] = None"
  by (rule spec_mdc_key_overflow) (simp_all add: MAXLEN_PATH_def)

text \<open>
  A context value longer than its array: \<open>zlog_mdc_put\<close> stores the length \<open>snprintf\<close> reports, which is that of
  the whole value, and printing it reads past the cut copy.
\<close>

theorem spec_mdc_overread:
  assumes "ht_map m (mdc_key s) = Some kv" "mdc_inv m" "MAXLEN_PATH + 1 < kv_value_len kv"
    "buf_tail b + kv_value_len kv \<le> buf_end b"
  shows "zlog_spec_write_mdc m s b orc = None"
proof -
  have "length (kv_array kv) < kv_value_len kv" using assms(1-3) by (auto simp: mdc_inv_def kv_ok_def kv_array_def)
  then show ?thesis using assms(1,4) mdc_get_map[OF assms(2)]
    by (simp add: zlog_spec_write_mdc_def zlog_buf_append_def mem_copy_def get_bytes_def)
qed

lemma put_no_failure: "zc_hashtable_put t k v [] = Some (rc, t', f, orc') \<Longrightarrow> rc = 0"
  by (auto simp: zc_hashtable_put_def zc_hashtable_rehash_def Let_def bind_eq_Some_conv split: option.splits if_splits)

lemma sample_long_value:
  "\<exists>m. mdc_inv m \<and> ht_map m ''k'' = Some \<lparr>kv_key = ''k'', kv_value = replicate MAXLEN_PATH (CHR ''v''), kv_value_len = 1100\<rparr>"
proof -
  let ?kv = "\<lparr>kv_key = ''k'', kv_value = replicate MAXLEN_PATH (CHR ''v''), kv_value_len = 1100\<rparr>"
  have ht: "ht_inv sample_mdc" and kvs: "\<And>k kv. ht_map sample_mdc k = Some kv \<Longrightarrow> kv_ok kv \<and> kv_key kv = k"
    using sample_mdc by (auto simp: mdc_inv_def)
  obtain rc m' kf vf orc' where p: "zc_hashtable_put sample_mdc ''k'' ?kv [] = Some (rc, m', (kf, vf), orc')" "ht_inv m'"
    "rc = 0 \<longrightarrow> ht_map m' = (ht_map sample_mdc)(''k'' \<mapsto> ?kv)" by (rule zc_hashtable_put_ok[OF ht, of "''k''" ?kv "[]"])
  have "rc = 0" by (rule put_no_failure[OF p(1)])
  then have "mdc_inv m' \<and> ht_map m' ''k'' = Some ?kv" using p(2,3) kvs by (auto simp: mdc_inv_def kv_ok_def MAXLEN_PATH_def)
  then show ?thesis by blast
qed

theorem spec_mdc_overread_witness:
  "\<exists>m. mdc_inv m \<and> zlog_spec_write_mdc m ((spec_zero ''%M(k)'')\<lparr>mdc_key := ''k'', write_buf := W_mdc\<rparr>)
     \<lparr>mem = Some (replicate 2048 NUL), buf_tail = 0, buf_end = 2047, end_plus_1 = 2048, size_min = 2048, size_max = 0,
       size_real = 2048, truncate_str = []\<rparr> [] = None"
proof -
  obtain m where m: "mdc_inv m" "ht_map m ''k'' = Some \<lparr>kv_key = ''k'', kv_value = replicate MAXLEN_PATH (CHR ''v''), kv_value_len = 1100\<rparr>"
    using sample_long_value by blast
  let ?s = "(spec_zero ''%M(k)'')\<lparr>mdc_key := ''k'', write_buf := W_mdc\<rparr>"
  let ?b = "\<lparr>mem = Some (replicate 2048 NUL), buf_tail = 0, buf_end = 2047, end_plus_1 = 2048, size_min = 2048, size_max = 0,
       size_real = 2048, truncate_str = []\<rparr>"
  have "ht_map m (mdc_key ?s) = Some \<lparr>kv_key = ''k'', kv_value = replicate MAXLEN_PATH (CHR ''v''), kv_value_len = 1100\<rparr>"
    using m(2) by simp
  from spec_mdc_overread[OF this m(1), of ?b "[]"] show ?thesis using m(1) by (auto simp: MAXLEN_PATH_def)
qed

end
