(* ===== verification/Os.thy ===== *)
theory Os
  imports CLib
begin

text \<open>
  The parts of the operating system the library writes to, as explicit state: a directory from paths to
  inodes, the contents of the inodes (a pipe, the standard output and the standard error are inodes too),
  the open descriptors, what was sent to syslog and to the user's record functions, and whether another
  process holds the record lock of the lock file. All files are on one device; descriptors and inodes are
  numbered in the order they are made. Every call can fail, as the outcomes list tells; \<open>write\<close> writes
  all of its bytes or fails.
\<close>

record os =
  names :: "string \<Rightarrow> nat option"
  inodes :: "nat \<Rightarrow> string"
  next_ino :: nat
  fds :: "int \<Rightarrow> nat option"
  next_fd :: int
  sys_log :: "(int \<times> string) list"
  rec_log :: "(nat \<times> string \<times> string) list"
  plock :: bool

definition STDOUT_FILENO :: int where "STDOUT_FILENO = 1"
definition STDERR_FILENO :: int where "STDERR_FILENO = 2"

text \<open>\<open>open\<close> with \<open>O_CREAT\<close> and \<open>O_APPEND\<close>.\<close>

definition os_open :: "os \<Rightarrow> string \<Rightarrow> outcomes \<Rightarrow> int \<times> os \<times> outcomes" where
  "os_open os path orc =
     (let (ok, orc1) = ask orc; fd = next_fd os in
      if \<not> ok then (-1, os, orc1)
      else case names os path of
        Some i \<Rightarrow> (fd, os\<lparr>fds := (fds os)(fd \<mapsto> i), next_fd := fd + 1\<rparr>, orc1)
      | None \<Rightarrow> (fd, os\<lparr>names := (names os)(path \<mapsto> next_ino os), inodes := (inodes os)(next_ino os := []),
                       next_ino := next_ino os + 1, fds := (fds os)(fd \<mapsto> next_ino os), next_fd := fd + 1\<rparr>, orc1))"

definition os_write :: "os \<Rightarrow> int \<Rightarrow> string \<Rightarrow> outcomes \<Rightarrow> int \<times> os \<times> outcomes" where
  "os_write os fd bytes orc =
     (case fds os fd of
        None \<Rightarrow> (-1, os, orc)
      | Some i \<Rightarrow> let (ok, orc1) = ask orc in
          if ok then (int (length bytes), os\<lparr>inodes := (inodes os)(i := inodes os i @ bytes)\<rparr>, orc1) else (-1, os, orc1))"

definition os_close :: "os \<Rightarrow> int \<Rightarrow> outcomes \<Rightarrow> int \<times> os \<times> outcomes" where
  "os_close os fd orc =
     (case fds os fd of
        None \<Rightarrow> (-1, os, orc)
      | Some i \<Rightarrow> let (ok, orc1) = ask orc in (if ok then 0 else -1, os\<lparr>fds := (fds os)(fd := None)\<rparr>, orc1))"

text \<open>\<open>stat\<close> gives inode and size, or \<open>errno\<close> is \<open>ENOENT\<close> or something else.\<close>

datatype stat_result = Stat nat nat | Enoent | Stat_err

definition os_stat :: "os \<Rightarrow> string \<Rightarrow> outcomes \<Rightarrow> stat_result \<times> outcomes" where
  "os_stat os path orc =
     (let (ok, orc1) = ask orc in
      if \<not> ok then (Stat_err, orc1)
      else case names os path of None \<Rightarrow> (Enoent, orc1) | Some i \<Rightarrow> (Stat i (length (inodes os i)), orc1))"

definition os_fstat :: "os \<Rightarrow> int \<Rightarrow> outcomes \<Rightarrow> stat_result \<times> outcomes" where
  "os_fstat os fd orc =
     (let (ok, orc1) = ask orc in
      if \<not> ok then (Stat_err, orc1)
      else case fds os fd of None \<Rightarrow> (Stat_err, orc1) | Some i \<Rightarrow> (Stat i (length (inodes os i)), orc1))"

text \<open>Two names of one file are left alone by \<open>rename\<close>.\<close>

definition os_rename :: "os \<Rightarrow> string \<Rightarrow> string \<Rightarrow> outcomes \<Rightarrow> int \<times> os \<times> outcomes" where
  "os_rename os old new orc =
     (case names os old of
        None \<Rightarrow> (-1, os, orc)
      | Some i \<Rightarrow> let (ok, orc1) = ask orc in
          if \<not> ok then (-1, os, orc1)
          else if names os new = Some i then (0, os, orc1)
          else (0, os\<lparr>names := (names os)(new \<mapsto> i, old := None)\<rparr>, orc1))"

definition os_unlink :: "os \<Rightarrow> string \<Rightarrow> outcomes \<Rightarrow> int \<times> os \<times> outcomes" where
  "os_unlink os path orc =
     (case names os path of
        None \<Rightarrow> (-1, os, orc)
      | Some i \<Rightarrow> let (ok, orc1) = ask orc in
          if \<not> ok then (-1, os, orc1) else (0, os\<lparr>names := (names os)(path := None)\<rparr>, orc1))"

text \<open>The files by path.\<close>

definition file_text :: "os \<Rightarrow> string \<Rightarrow> string option" where
  "file_text os path = map_option (inodes os) (names os path)"

text \<open>Every name and descriptor refers to an inode made before, and no descriptor is out of range.\<close>

definition os_ok :: "os \<Rightarrow> bool" where
  "os_ok os \<longleftrightarrow> (\<forall>p i. names os p = Some i \<longrightarrow> i < next_ino os) \<and>
     (\<forall>fd i. fds os fd = Some i \<longrightarrow> i < next_ino os \<and> 0 \<le> fd \<and> fd < next_fd os) \<and> 2 < next_fd os"

lemma os_okD:
  assumes "os_ok os"
  shows "names os p = Some i \<Longrightarrow> i < next_ino os"
    and "fds os fd = Some i \<Longrightarrow> i < next_ino os"
    and "fds os fd = Some i \<Longrightarrow> 0 \<le> fd" and "fds os fd = Some i \<Longrightarrow> fd < next_fd os" and "2 < next_fd os"
  using assms by (auto simp: os_ok_def)

lemma os_ok_fresh: "os_ok os \<Longrightarrow> fds os (next_fd os) = None"
  using os_okD(4)[of os "next_fd os"] by (cases "fds os (next_fd os)") auto

lemma file_text_new: "os_ok os \<Longrightarrow> names os path = None \<Longrightarrow>
    file_text (os\<lparr>names := (names os)(path \<mapsto> next_ino os), inodes := (inodes os)(next_ino os := []),
                  next_ino := ni, fds := f, next_fd := nf\<rparr>) = (file_text os)(path \<mapsto> [])"
  using os_okD(1)[of os] by (fastforce simp: file_text_def fun_eq_iff map_option_case split: option.split)

lemma file_text_fds [simp]: "file_text (os\<lparr>fds := f\<rparr>) = file_text os" "file_text (os\<lparr>next_fd := nf\<rparr>) = file_text os"
  "file_text (os\<lparr>sys_log := sl\<rparr>) = file_text os" "file_text (os\<lparr>rec_log := rl\<rparr>) = file_text os"
  by (simp_all add: file_text_def fun_eq_iff)

lemma os_open_ok:
  assumes ok: "os_ok os" and o: "os_open os path orc = (fd, os', orc')"
  shows "os_ok os' \<and>
    (if fd < 0 then os' = os else fds os fd = None \<and> (\<exists>i. names os' path = Some i \<and> fds os' = (fds os)(fd \<mapsto> i) \<and>
       file_text os' = (file_text os)(path \<mapsto> (case file_text os path of None \<Rightarrow> [] | Some t \<Rightarrow> t))))"
proof (cases "ask orc")
  case (Pair b orc1)
  note d = os_okD[OF ok]
  show ?thesis
  proof (cases b)
    case False
    then show ?thesis using o Pair ok by (auto simp: os_open_def)
  next
    case b: True
    show ?thesis
    proof (cases "names os path")
      case None
      have os': "os' = os\<lparr>names := (names os)(path \<mapsto> next_ino os), inodes := (inodes os)(next_ino os := []),
                       next_ino := next_ino os + 1, fds := (fds os)(fd \<mapsto> next_ino os), next_fd := fd + 1\<rparr>" "fd = next_fd os"
        using o Pair b None by (auto simp: os_open_def Let_def)
      have "j < next_ino os'" if "names os' p = Some j" for p j using d(1)[of p j] that by (auto simp: os' split: if_splits)
      moreover have "j < next_ino os' \<and> 0 \<le> f \<and> f < next_fd os'" if "fds os' f = Some j" for f j
        using d(2)[of f j] d(3)[of f j] d(4)[of f j] d(5) that by (auto simp: os' split: if_splits)
      ultimately have "os_ok os'" using d(5) by (simp add: os_ok_def os')
      moreover have "file_text os' = (file_text os)(path \<mapsto> [])" unfolding os'(1) by (rule file_text_new[OF ok None])
      ultimately show ?thesis using os' None os_ok_fresh[OF ok] d(5) by (simp add: file_text_def)
    next
      case (Some i)
      have os': "os' = os\<lparr>fds := (fds os)(fd \<mapsto> i), next_fd := fd + 1\<rparr>" "fd = next_fd os"
        using o Pair b Some by (auto simp: os_open_def Let_def)
      have "j < next_ino os'" if "names os' p = Some j" for p j using d(1)[of p j] that by (simp add: os')
      moreover have "j < next_ino os' \<and> 0 \<le> f \<and> f < next_fd os'" if "fds os' f = Some j" for f j
        using d(1)[OF Some] d(2)[of f j] d(3)[of f j] d(4)[of f j] d(5) that by (auto simp: os' split: if_splits)
      ultimately have "os_ok os'" using d(5) by (simp add: os_ok_def os')
      moreover have "file_text os' = file_text os" by (simp add: os'(1))
      moreover have "(file_text os)(path \<mapsto> inodes os i) = file_text os" using Some by (auto simp: file_text_def fun_eq_iff)
      ultimately show ?thesis using os' Some os_ok_fresh[OF ok] d(5) by (simp add: file_text_def)
    qed
  qed
qed

text \<open>Distinct files: no two of the paths are names of one inode.\<close>

definition no_links :: "os \<Rightarrow> string set \<Rightarrow> bool" where
  "no_links os P \<longleftrightarrow> (\<forall>p \<in> P. \<forall>q \<in> P. names os p \<noteq> None \<and> names os p = names os q \<longrightarrow> p = q)"

lemma os_rename_text:
  assumes "os_rename os old new orc = (0, os', orc')" "no_links os P" "old \<in> P" "new \<in> P"
  shows "file_text os' = (if new = old then file_text os else (file_text os)(new := file_text os old, old := None)) \<and>
    no_links os' P \<and> file_text os old \<noteq> None"
proof -
  obtain i where i: "names os old = Some i" using assms(1) by (auto simp: os_rename_def split: option.splits)
  show ?thesis
  proof (cases "names os new = Some i")
    case True
    then have "new = old" using assms(2-4) i by (auto simp: no_links_def)
    then show ?thesis using assms i True by (auto simp: os_rename_def file_text_def split: prod.splits if_splits)
  next
    case False
    then have os': "os' = os\<lparr>names := (names os)(new \<mapsto> i, old := None)\<rparr>" and ne: "new \<noteq> old"
      using assms(1) i by (auto simp: os_rename_def split: prod.splits if_splits)
    have d: "p = q" if "p \<in> P" "q \<in> P" "names os p = Some j" "names os q = Some j" for p q j
      using assms(2) that unfolding no_links_def by fastforce
    have "no_links os' P" unfolding no_links_def
    proof (intro ballI impI)
      fix p q assume pq: "p \<in> P" "q \<in> P" "names os' p \<noteq> None \<and> names os' p = names os' q"
      have n: "names os' x = (if x = old then None else if x = new then Some i else names os x)" for x
        by (simp add: os')
      obtain j where "names os' p = Some j" using pq(3) by blast
      then have j: "names os' p = Some j" "names os' q = Some j" using pq(3) by simp_all
      show "p = q"
      proof (cases "p = new")
        case True
        then have "q = new \<or> names os q = Some i" "q \<noteq> old" using j n[of p] n[of q] ne by (auto split: if_splits)
        then show ?thesis using d[OF pq(2) assms(3) _ i] True by auto
      next
        case False
        then have p: "names os p = Some j" "p \<noteq> old" using j(1) n[of p] by (auto split: if_splits)
        show ?thesis
        proof (cases "q = new")
          case True
          then have "j = i" using j(2) n[of q] ne by auto
          then show ?thesis using d[OF pq(1) assms(3) _ i] p by auto
        next
          case False
          then have "names os q = Some j" using j(2) n[of q] by (auto split: if_splits)
          then show ?thesis using d[OF pq(1,2) p(1)] by blast
        qed
      qed
    qed
    then show ?thesis using i ne by (simp add: os' file_text_def fun_eq_iff)
  qed
qed

lemma os_unlink_text:
  assumes "os_unlink os path orc = (0, os', orc')" "no_links os P"
  shows "file_text os' = (file_text os)(path := None) \<and> no_links os' P \<and> file_text os path \<noteq> None"
proof -
  obtain i where i: "names os path = Some i" using assms(1) by (auto simp: os_unlink_def split: option.splits)
  then have os': "os' = os\<lparr>names := (names os)(path := None)\<rparr>" using assms(1) by (auto simp: os_unlink_def split: prod.splits if_splits)
  have "no_links os' P" unfolding no_links_def
  proof (intro ballI impI)
    fix p q assume pq: "p \<in> P" "q \<in> P" "names os' p \<noteq> None \<and> names os' p = names os' q"
    then have "names os p \<noteq> None \<and> names os p = names os q" by (cases "p = path"; cases "q = path"; simp add: os')
    then show "p = q" using assms(2) pq(1,2) unfolding no_links_def by blast
  qed
  then show ?thesis using i by (simp add: os' file_text_def fun_eq_iff)
qed

lemma os_rename_fail: "os_rename os old new orc = (rc, os', orc') \<Longrightarrow> rc = 0 \<or> (rc = -1 \<and> os' = os)"
  by (auto simp: os_rename_def split: option.splits prod.splits if_splits)

lemma os_unlink_fail: "os_unlink os path orc = (rc, os', orc') \<Longrightarrow> rc = 0 \<or> (rc = -1 \<and> os' = os)"
  by (auto simp: os_unlink_def split: option.splits prod.splits if_splits)

lemma os_rename_nil: "file_text os old \<noteq> None \<Longrightarrow> \<exists>os'. os_rename os old new [] = (0, os', [])"
  by (auto simp: os_rename_def file_text_def)

lemma os_unlink_nil: "file_text os path \<noteq> None \<Longrightarrow> \<exists>os'. os_unlink os path [] = (0, os', [])"
  by (auto simp: os_unlink_def file_text_def)

end
