(* ===== verification/Rotater.thy ===== *)
theory Rotater
  imports Os Arraylist Buf Level
begin

text \<open>
  \<open>rotater.c\<close>: renaming a full log file to a numbered archive. The archives are found by \<open>glob\<close>, whose answer is an
  argument of the definitions; they are sorted by their number and either shifted by one (rolling), or
  the file gets the next free number (sequence). The mutex is a field of the rotater, the lock of the lock
  file a field of the operating system.
\<close>


section \<open>The rotater\<close>

datatype mv_kind = MV_NONE | ROLLING | SEQUENCE

record zlog_file =
  f_index :: int
  f_path :: string

record rotater =
  lock_mutex :: bool
  lock_file :: string
  lock_fd :: int
  base_path :: "string option"
  archive_path :: "string option"
  glob_path :: string
  num_start_len :: nat
  num_end_len :: nat
  num_width :: int
  mv_type :: mv_kind
  max_count :: int
  files :: "zlog_file arraylist option"

datatype glob_result = Glob_paths "string list" | Glob_nomatch | Glob_error

type_synonym globber = "string \<Rightarrow> os \<Rightarrow> glob_result"

definition zlog_rotater_del :: "rotater \<Rightarrow> os \<Rightarrow> outcomes \<Rightarrow> os \<times> outcomes" where
  "zlog_rotater_del a_rotater os orc =
     (if lock_fd a_rotater \<noteq> 0 then let (_, os1, orc1) = os_close os (lock_fd a_rotater) orc in (os1, orc1) else (os, orc))"

definition zlog_rotater_new :: "string \<Rightarrow> os \<Rightarrow> outcomes \<Rightarrow> rotater option \<times> os \<times> outcomes" where
  "zlog_rotater_new lockfile os orc =
     (let (ok1, orc1) = ask orc in
      if \<not> ok1 then (None, os, orc1)
      else let (ok2, orc2) = ask orc1 in
        if \<not> ok2 then (None, os, orc2)
        else let (fd, os1, orc3) = os_open os lockfile orc2 in
          if fd < 0 then (None, os1, orc3)
          else (Some \<lparr>lock_mutex = False, lock_file = lockfile, lock_fd = fd, base_path = None, archive_path = None,
                      glob_path = [], num_start_len = 0, num_end_len = 0, num_width = 0, mv_type = MV_NONE,
                      max_count = 0, files = None\<rparr>, os1, orc3))"

definition int_ok :: "int \<Rightarrow> bool" where
  "int_ok i \<longleftrightarrow> - (2 ^ 31) \<le> i \<and> i < 2 ^ 31"

text \<open>\<open>None\<close>: the empty path, a base path that is NULL, or a number that does not fit \<open>int\<close>.\<close>

definition zlog_file_check_new :: "rotater \<Rightarrow> string \<Rightarrow> outcomes \<Rightarrow> (zlog_file option \<times> outcomes) option" where
  "zlog_file_check_new a_rotater path orc = do {
     base \<leftarrow> base_path a_rotater;
     if base = path then Some (None, orc)
     else if path = [] then None
     else if last path = CHR ''/'' then Some (None, orc)
     else let (ok, orc1) = ask orc in
       if \<not> ok then Some (None, orc1)
       else if MAXLEN_PATH < length path then Some (None, orc1)
       else
         let r = sscanf (drop (num_start_len a_rotater) path) [SInt, SPos];
             index = int_item (snd r) 0 0; nread = int (pos_item (snd r) 1 0) in
         if \<not> int_ok index then None
         else if num_width a_rotater \<noteq> 0 \<and> nread < num_width a_rotater then Some (None, orc1)
         else Some (Some \<lparr>f_index = index, f_path = path\<rparr>, orc1) }"

definition zlog_file_cmp :: "zlog_file option \<Rightarrow> zlog_file option \<Rightarrow> int" where
  "zlog_file_cmp a_file_1 a_file_2 = (if f_index (the a_file_1) > f_index (the a_file_2) then 1 else 0)"

text \<open>The loop over the paths \<open>glob\<close> found.\<close>

fun add_files :: "rotater \<Rightarrow> zlog_file arraylist \<Rightarrow> string list \<Rightarrow> outcomes \<Rightarrow> (int \<times> zlog_file arraylist \<times> outcomes) option" where
  "add_files a_rotater l [] orc = Some (0, l, orc)"
| "add_files a_rotater l (path # paths) orc = do {
     (a_file, orc1) \<leftarrow> zlog_file_check_new a_rotater path orc;
     case a_file of
       None \<Rightarrow> add_files a_rotater l paths orc1
     | Some f \<Rightarrow> do {
         (rc, l1, _, orc2) \<leftarrow> zc_arraylist_sortadd l zlog_file_cmp (Some f) orc1;
         if rc \<noteq> 0 then Some (-1, l1, orc2) else add_files a_rotater l1 paths orc2 } }"

definition zlog_rotater_add_archive_files :: "globber \<Rightarrow> rotater \<Rightarrow> os \<Rightarrow> outcomes \<Rightarrow> (int \<times> rotater \<times> outcomes) option" where
  "zlog_rotater_add_archive_files glob a_rotater os orc =
     (case zc_arraylist_new True orc of
        (None, orc1) \<Rightarrow> Some (-1, a_rotater\<lparr>files := None\<rparr>, orc1)
      | (Some l, orc1) \<Rightarrow>
          (case glob (glob_path a_rotater) os of
             Glob_nomatch \<Rightarrow> Some (0, a_rotater\<lparr>files := Some l\<rparr>, orc1)
           | Glob_error \<Rightarrow> Some (-1, a_rotater\<lparr>files := Some l\<rparr>, orc1)
           | Glob_paths paths \<Rightarrow> do {
               (rc, l1, orc2) \<leftarrow> add_files a_rotater l paths orc1;
               Some (rc, a_rotater\<lparr>files := Some l1\<rparr>, orc2) }))"

text \<open>\<open>%0*d\<close>: a negative width means left adjustment with blanks.\<close>

definition printf_0d :: "int \<Rightarrow> int \<Rightarrow> string" where
  "printf_0d width j =
     (if width < 0 then dec_int j @ replicate (nat (- width) - length (dec_int j)) (CHR '' '')
      else if j < 0 then CHR ''-'' # zero_padded (dec (nat (- j))) (width - 1)
      else zero_padded (dec (nat j)) width)"

text \<open>\<open>None\<close>: the rest of the pattern would be read from behind its array.\<close>

definition numbered_path :: "rotater \<Rightarrow> int \<Rightarrow> string option" where
  "numbered_path a_rotater j =
     (if MAXLEN_PATH < num_end_len a_rotater then None
      else Some (take (num_start_len a_rotater) (glob_path a_rotater) @ printf_0d (num_width a_rotater) j @
                 drop (num_end_len a_rotater) (glob_path a_rotater)))"

text \<open>The two renames: the file \<open>old\<close> becomes the archive number \<open>j\<close>.\<close>

definition move_to :: "rotater \<Rightarrow> string \<Rightarrow> int \<Rightarrow> os \<Rightarrow> outcomes \<Rightarrow> (int \<times> os \<times> outcomes) option" where
  "move_to a_rotater old j os orc = do {
     new_path \<leftarrow> numbered_path a_rotater j;
     if MAXLEN_PATH < length new_path then Some (-1, os, orc)
     else let (rc, os1, orc1) = os_rename os old new_path orc in Some (if rc \<noteq> 0 then -1 else 0, os1, orc1) }"

fun unlink_old :: "zlog_file option list \<Rightarrow> int \<Rightarrow> os \<Rightarrow> outcomes \<Rightarrow> (int \<times> os \<times> outcomes) option" where
  "unlink_old [] n os orc = Some (0, os, orc)"
| "unlink_old (x # xs) n os orc =
     (if n > 0 then do {
        a_file \<leftarrow> x;
        let (rc, os1, orc1) = os_unlink os (f_path a_file) orc in
        if rc \<noteq> 0 then Some (-1, os1, orc1) else unlink_old xs (n - 1) os1 orc1 }
      else Some (0, os, orc))"

definition zlog_rotater_seq_files :: "rotater \<Rightarrow> os \<Rightarrow> outcomes \<Rightarrow> (int \<times> os \<times> outcomes) option" where
  "zlog_rotater_seq_files a_rotater os orc = do {
     l \<leftarrow> files a_rotater;
     (rc, os1, orc1) \<leftarrow> (if max_count a_rotater > 0
        then unlink_old (zc_arraylist_foreach l) (al_len l - max_count a_rotater) os orc else Some (0, os, orc));
     if rc \<noteq> 0 then Some (-1, os1, orc1)
     else do {
       j \<leftarrow> (if al_len l > 0 then do {
               a \<leftarrow> zc_arraylist_get l (al_len l - 1);
               Some (map_option (\<lambda>a_file. max (al_len l - 1) (f_index a_file) + 1) a) }
             else Some (Some 0));
       case j of
         None \<Rightarrow> Some (-1, os1, orc1)
       | Some j \<Rightarrow> do { base \<leftarrow> base_path a_rotater; if \<not> int_ok j then None else move_to a_rotater base j os1 orc1 } } }"

text \<open>The loop of \<open>zlog_rotater_roll_files\<close>, from the position \<open>n - 1\<close> down.\<close>

fun roll_down :: "rotater \<Rightarrow> zlog_file arraylist \<Rightarrow> nat \<Rightarrow> os \<Rightarrow> outcomes \<Rightarrow> (int \<times> os \<times> outcomes) option" where
  "roll_down a_rotater l 0 os orc = Some (0, os, orc)"
| "roll_down a_rotater l (Suc i) os orc = do {
     a \<leftarrow> zc_arraylist_get l (int i);
     case a of
       None \<Rightarrow> Some (-1, os, orc)
     | Some a_file \<Rightarrow> do {
         (rc, os1, orc1) \<leftarrow>
           (if max_count a_rotater > 0 \<and> int i \<ge> max_count a_rotater - 1 then Some (os_unlink os (f_path a_file) orc)
            else move_to a_rotater (f_path a_file) (int i + 1) os orc);
         if rc \<noteq> 0 then Some (-1, os1, orc1) else roll_down a_rotater l i os1 orc1 } }"

definition zlog_rotater_roll_files :: "rotater \<Rightarrow> os \<Rightarrow> outcomes \<Rightarrow> (int \<times> os \<times> outcomes) option" where
  "zlog_rotater_roll_files a_rotater os orc = do {
     l \<leftarrow> files a_rotater;
     (rc, os1, orc1) \<leftarrow> roll_down a_rotater l (nat (al_len l)) os orc;
     if rc \<noteq> 0 then Some (-1, os1, orc1)
     else do { base \<leftarrow> base_path a_rotater; move_to a_rotater base 0 os1 orc1 } }"

text \<open>The size checks compare with \<open>>\<close>, so a text of exactly the size is cut by \<open>snprintf\<close> and passes.\<close>

definition zlog_rotater_parse_archive_path :: "rotater \<Rightarrow> (int \<times> rotater) option" where
  "zlog_rotater_parse_archive_path a_rotater = do {
     base \<leftarrow> base_path a_rotater;
     archive \<leftarrow> archive_path a_rotater;
     if archive = [] then
       (let g = base @ ''.*'' in
        if MAXLEN_PATH + 1 < length g then Some (-1, a_rotater\<lparr>glob_path := take MAXLEN_PATH g\<rparr>)
        else Some (0, a_rotater\<lparr>glob_path := take MAXLEN_PATH g, mv_type := ROLLING, num_width := 0,
               num_start_len := length base + 1, num_end_len := length base + 2\<rparr>))
     else case strchr archive (CHR ''#'') of
       None \<Rightarrow> Some (-1, a_rotater)
     | Some len \<Rightarrow>
         let p = drop len archive;
             r = sscanf p [SLit (CHR ''#''), SInt, SPos];
             w = int_item (snd r) 0 (num_width a_rotater); n0 = pos_item (snd r) 1 0;
             nread = (if n0 = 0 then 1 else n0); c = char_at p nread in
         if \<not> int_ok w then None
         else let a1 = a_rotater\<lparr>num_width := w\<rparr> in
         if c \<noteq> CHR ''r'' \<and> c \<noteq> CHR ''s'' then Some (-1, a1)
         else let a2 = a1\<lparr>mv_type := (if c = CHR ''r'' then ROLLING else SEQUENCE)\<rparr> in
         if MAXLEN_PATH < len then Some (-1, a2)
         else let t = CHR ''*'' # drop (nread + 1) p;
                  a3 = a2\<lparr>glob_path := take len archive @ take (MAXLEN_PATH - len) t\<rparr> in
         if MAXLEN_PATH + 1 - len < length t then Some (-1, a3)
         else Some (0, a3\<lparr>num_start_len := len, num_end_len := len + 1\<rparr>) }"

definition zlog_rotater_clean :: "rotater \<Rightarrow> rotater" where
  "zlog_rotater_clean a_rotater = a_rotater\<lparr>base_path := None, archive_path := None, max_count := 0, mv_type := MV_NONE,
     num_width := 0, num_start_len := 0, num_end_len := 0, glob_path := [], files := None\<rparr>"

definition zlog_rotater_lsmv :: "globber \<Rightarrow> rotater \<Rightarrow> string \<Rightarrow> string option \<Rightarrow> int \<Rightarrow> os \<Rightarrow> outcomes \<Rightarrow>
    (int \<times> rotater \<times> os \<times> outcomes) option" where
  "zlog_rotater_lsmv glob a_rotater base archive archive_max_count os orc = do {
     (rc, a1) \<leftarrow> zlog_rotater_parse_archive_path (a_rotater\<lparr>base_path := Some base, archive_path := archive, max_count := archive_max_count\<rparr>);
     if rc \<noteq> 0 then Some (-1, zlog_rotater_clean a1, os, orc)
     else do {
       (rc2, a2, orc2) \<leftarrow> zlog_rotater_add_archive_files glob a1 os orc;
       if rc2 \<noteq> 0 then Some (-1, zlog_rotater_clean a2, os, orc2)
       else do {
         (rc3, os3, orc3) \<leftarrow> (case mv_type a2 of
             ROLLING \<Rightarrow> zlog_rotater_roll_files a2 os orc2
           | SEQUENCE \<Rightarrow> zlog_rotater_seq_files a2 os orc2
           | MV_NONE \<Rightarrow> Some (0, os, orc2));
         Some (if rc3 \<noteq> 0 then -1 else 0, zlog_rotater_clean a2, os3, orc3) } } }"

text \<open>\<open>pthread_mutex_trylock\<close> fails when the mutex is held, \<open>fcntl\<close> when another process holds the record lock;
  either may fail otherwise.\<close>

definition zlog_rotater_trylock :: "rotater \<Rightarrow> os \<Rightarrow> outcomes \<Rightarrow> int \<times> rotater \<times> outcomes" where
  "zlog_rotater_trylock a_rotater os orc =
     (if lock_mutex a_rotater then (-1, a_rotater, orc)
      else let (ok, orc1) = ask orc in
        if \<not> ok then (-1, a_rotater, orc1)
        else let a1 = a_rotater\<lparr>lock_mutex := True\<rparr>; (ok2, orc2) = ask orc1 in
          if plock os \<or> \<not> ok2 then (-1, a1\<lparr>lock_mutex := False\<rparr>, orc2) else (0, a1, orc2))"

definition zlog_rotater_unlock :: "rotater \<Rightarrow> outcomes \<Rightarrow> int \<times> rotater \<times> outcomes" where
  "zlog_rotater_unlock a_rotater orc =
     (let (ok, orc1) = ask orc in (if ok then 0 else -1, a_rotater\<lparr>lock_mutex := False\<rparr>, orc1))"

text \<open>The size of the file and the length of the message are added and compared as \<open>size_t\<close>.\<close>

definition zlog_rotater_rotate :: "globber \<Rightarrow> int \<Rightarrow> rotater \<Rightarrow> string \<Rightarrow> nat \<Rightarrow> string option \<Rightarrow> int \<Rightarrow> int \<Rightarrow> os \<Rightarrow> outcomes \<Rightarrow>
    (int \<times> rotater \<times> os \<times> outcomes) option" where
  "zlog_rotater_rotate glob lmax a_rotater base msg_len archive archive_max_size archive_max_count os orc =
     (case zlog_rotater_trylock a_rotater os orc of (rc, a1, orc1) \<Rightarrow>
      if rc \<noteq> 0 then Some (0, a1, os, orc1)
      else do {
        (rc3, a3, os3, orc3) \<leftarrow>
          (case os_stat os base orc1 of
             (Stat _ st_size, orc2) \<Rightarrow>
               if to_size lmax (int (st_size + msg_len)) \<le> to_size lmax archive_max_size then Some (0, a1, os, orc2)
               else do {
                 (rc4, a4, os4, orc4) \<leftarrow> zlog_rotater_lsmv glob a1 base archive archive_max_count os orc2;
                 Some (if rc4 \<noteq> 0 then -1 else 0, a4, os4, orc4) }
           | (_, orc2) \<Rightarrow> Some (-1, a1, os, orc2));
        let (_, a5, orc5) = zlog_rotater_unlock a3 orc3;
        Some (rc3, a5, os3, orc5) })"

section \<open>Rolling\<close>

text \<open>The state of the files when the archives from position \<open>c\<close> on have been dealt with: \<open>P i\<close> is the path of
  archive \<open>i\<close>, \<open>n\<close> their number, and the archives from \<open>m - 1\<close> on are removed when \<open>m\<close> is positive.\<close>

definition kept :: "int \<Rightarrow> nat \<Rightarrow> bool" where
  "kept m i \<longleftrightarrow> \<not> (m > 0 \<and> int i \<ge> m - 1)"

definition shifted :: "(nat \<Rightarrow> string) \<Rightarrow> int \<Rightarrow> nat \<Rightarrow> nat \<Rightarrow> (string \<Rightarrow> string option) \<Rightarrow> string \<Rightarrow> string option" where
  "shifted P m n c F p =
     (if \<exists>i. c \<le> i \<and> i < n \<and> kept m i \<and> p = P (i + 1) then F (P (THE i. p = P (i + 1)))
      else if \<exists>i. c \<le> i \<and> i < n \<and> p = P i then None else F p)"

lemma shifted_end: "n \<le> c \<Longrightarrow> shifted P m n c F = F"
  by (auto simp: shifted_def fun_eq_iff)

lemma the_index: "inj P \<Longrightarrow> (THE j. P i = P (j + 1)) = i - 1" if "0 < i" for i :: nat
  using that by (intro the_equality) (auto dest!: injD)

lemma shifted_archive:
  assumes "inj P"
  shows "shifted P m n c F (P i) =
    (if c < i \<and> i \<le> n \<and> kept m (i - 1) then F (P (i - 1)) else if c \<le> i \<and> i < n then None else F (P i))"
proof -
  have inj: "P i = P j \<longleftrightarrow> i = j" for i j using assms by (auto simp: inj_def)
  have e: "(\<exists>j. c \<le> j \<and> j < n \<and> kept m j \<and> P i = P (j + 1)) \<longleftrightarrow> c < i \<and> i \<le> n \<and> kept m (i - 1)"
  proof
    assume "\<exists>j. c \<le> j \<and> j < n \<and> kept m j \<and> P i = P (j + 1)"
    then obtain j where "c \<le> j" "j < n" "kept m j" "i = j + 1" using inj by auto
    then show "c < i \<and> i \<le> n \<and> kept m (i - 1)" by simp
  next
    assume "c < i \<and> i \<le> n \<and> kept m (i - 1)"
    then show "\<exists>j. c \<le> j \<and> j < n \<and> kept m j \<and> P i = P (j + 1)" by (intro exI[of _ "i - 1"]) auto
  qed
  have "(\<exists>j. c \<le> j \<and> j < n \<and> P i = P j) \<longleftrightarrow> c \<le> i \<and> i < n" using inj by auto
  then show ?thesis using e the_index[OF _ assms, of i] by (auto simp: shifted_def)
qed

lemma shifted_other: "p \<notin> range P \<Longrightarrow> shifted P m n c F p = F p"
  by (auto simp: shifted_def)

lemma shifted_step:
  assumes inj: "inj P" and i: "i < n" and top: "F (P n) = None"
  shows "shifted P m n i F =
    (if kept m i then (shifted P m n (Suc i) F)(P (Suc i) := shifted P m n (Suc i) F (P i), P i := None)
     else (shifted P m n (Suc i) F)(P i := None))"
proof
  fix p
  have eq: "P a = P b \<longleftrightarrow> a = b" for a b using inj by (auto simp: inj_def)
  show "shifted P m n i F p =
    (if kept m i then (shifted P m n (Suc i) F)(P (Suc i) := shifted P m n (Suc i) F (P i), P i := None)
     else (shifted P m n (Suc i) F)(P i := None)) p"
  proof (cases "p \<in> range P")
    case False
    then have "p \<noteq> P i" "p \<noteq> P (Suc i)" by auto
    then show ?thesis using False by (simp add: shifted_other)
  next
    case True
    then obtain j where p: "p = P j" by auto
    consider "j = i" | "j = Suc i" | "j \<noteq> i" "j \<noteq> Suc i" by blast
    then show ?thesis
    proof cases
      case 1
      then show ?thesis using i by (simp add: p shifted_archive[OF inj] eq)
    next
      case 2
      then show ?thesis using i top by (auto simp: p shifted_archive[OF inj] eq le_Suc_eq)
    next
      case 3
      then have "(i < j) = (Suc i < j)" "(i \<le> j) = (Suc i \<le> j)" by auto
      then show ?thesis using 3 by (simp add: p shifted_archive[OF inj] eq)
    qed
  qed
qed

text \<open>One rename or unlink of the loop.\<close>

lemma move_to_text:
  assumes P: "numbered_path a (int j) = Some (P j)" and nl: "no_links os Q" "old \<in> Q" "P j \<in> Q"
    and ne: "old \<noteq> P j"
  obtains rc os' orc' where "move_to a old (int j) os orc = Some (rc, os', orc')" and "rc = 0 \<or> rc = -1"
    and "no_links os' Q" and "rc = -1 \<longrightarrow> os' = os"
    and "rc = 0 \<longrightarrow> file_text os' = (file_text os)(P j := file_text os old, old := None) \<and> file_text os old \<noteq> None"
    and "orc = [] \<and> length (P j) \<le> MAXLEN_PATH \<and> file_text os old \<noteq> None \<longrightarrow> rc = 0 \<and> orc' = []"
proof (cases "MAXLEN_PATH < length (P j)")
  case True
  then have m: "move_to a old (int j) os orc = Some (-1, os, orc)" using P by (simp add: move_to_def)
  show ?thesis by (rule that[OF m]) (use nl(1) True in auto)
next
  case False
  note result = that
  obtain rc os1 orc1 where r: "os_rename os old (P j) orc = (rc, os1, orc1)" by (cases "os_rename os old (P j) orc")
  have m: "move_to a old (int j) os orc = Some (if rc \<noteq> 0 then -1 else 0, os1, orc1)"
    using P False r by (simp add: move_to_def)
  show ?thesis
  proof (cases "rc = 0")
    case True
    note t = os_rename_text[OF r[unfolded True] nl]
    have "orc = [] \<longrightarrow> orc1 = []" using r True by (auto simp: os_rename_def split: option.splits if_splits)
    then show ?thesis using result[OF m] True t ne by auto
  next
    case rc: False
    have os: "os1 = os" using os_rename_fail[OF r] rc by auto
    have "\<not> (orc = [] \<and> file_text os old \<noteq> None)" using r rc os_rename_nil[of os old "P j"] by fastforce
    then show ?thesis using result[OF m] rc os nl(1) by auto
  qed
qed

lemma roll_down_text:
  assumes inj: "inj P" and P: "\<And>j. numbered_path a (int j) = Some (P j)" and base: "base \<notin> range P"
    and l: "al_inv l" "zc_arraylist_foreach l = map (\<lambda>i. Some \<lparr>f_index = ix i, f_path = P i\<rparr>) [0..<n]"
    and top: "F (P n) = None" and ex: "\<forall>i < n. F (P i) \<noteq> None"
  shows "i \<le> n \<Longrightarrow> file_text os = shifted P (max_count a) n i F \<Longrightarrow> no_links os (insert base (range P)) \<Longrightarrow>
    \<exists>rc os' orc'. roll_down a l i os orc = Some (rc, os', orc') \<and> no_links os' (insert base (range P)) \<and>
      (rc = 0 \<and> file_text os' = shifted P (max_count a) n 0 F \<or>
       rc = -1 \<and> (\<exists>c \<le> n. file_text os' = shifted P (max_count a) n c F)) \<and>
      (orc = [] \<and> (\<forall>j \<le> n. length (P j) \<le> MAXLEN_PATH) \<longrightarrow> rc = 0 \<and> orc' = [])"
proof (induction i arbitrary: os orc)
  case 0
  then show ?case by auto
next
  case (Suc i)
  let ?m = "max_count a" and ?Q = "insert base (range P)"
  have i: "i < n" using Suc.prems(1) by simp
  have len: "length (zc_arraylist_foreach l) = n" using l(2) by simp
  have g: "zc_arraylist_get l (int i) = Some (Some \<lparr>f_index = ix i, f_path = P i\<rparr>)"
    using ll_get[OF l(1), of "int i"] l(2) i len by (simp del: length_foreach)
  have Fi: "file_text os (P i) = F (P i)" using i by (simp add: Suc.prems(2) shifted_archive[OF inj])
  note st = shifted_step[where F = F and m = ?m, OF inj i top]
  show ?case
  proof (cases "kept ?m i")
    case False
    obtain rc os1 orc1 where u: "os_unlink os (P i) orc = (rc, os1, orc1)" by (cases "os_unlink os (P i) orc")
    have rd: "roll_down a l (Suc i) os orc = (if rc \<noteq> 0 then Some (-1, os1, orc1) else roll_down a l i os1 orc1)"
      using g u False by (simp add: kept_def)
    show ?thesis
    proof (cases "rc = 0")
      case True
      note t = os_unlink_text[OF u[unfolded True] Suc.prems(3)]
      have ft: "file_text os1 = shifted P ?m n i F" using t False st Suc.prems(2) by simp
      have "orc = [] \<longrightarrow> orc1 = []" using u by (auto simp: os_unlink_def split: option.splits if_splits)
      then show ?thesis using Suc.IH[OF _ ft, of orc1] t rd True i by auto
    next
      case rc: False
      then have "os1 = os" using os_unlink_fail[OF u] by auto
      moreover have "orc \<noteq> []" using u rc os_unlink_nil[of os "P i"] Fi ex i by auto
      ultimately show ?thesis using rd rc Suc.prems by auto
    qed
  next
    case True
    have ne: "P i \<noteq> P (Suc i)" using inj by (auto dest: injD)
    have q: "P i \<in> ?Q" "P (Suc i) \<in> ?Q" by auto
    obtain rc os1 orc1 where u: "move_to a (P i) (int (Suc i)) os orc = Some (rc, os1, orc1)" "rc = 0 \<or> rc = -1"
      "no_links os1 ?Q" "rc = -1 \<longrightarrow> os1 = os"
      "rc = 0 \<longrightarrow> file_text os1 = (file_text os)(P (Suc i) := file_text os (P i), P i := None) \<and> file_text os (P i) \<noteq> None"
      "orc = [] \<and> length (P (Suc i)) \<le> MAXLEN_PATH \<and> file_text os (P i) \<noteq> None \<longrightarrow> rc = 0 \<and> orc1 = []"
      by (rule move_to_text[where P = P and j = "Suc i" and orc = orc, OF P Suc.prems(3) q ne])
    have rd: "roll_down a l (Suc i) os orc = (if rc \<noteq> 0 then Some (-1, os1, orc1) else roll_down a l i os1 orc1)"
      using g u(1) True by (auto simp: kept_def algebra_simps)
    show ?thesis
    proof (cases "rc = 0")
      case rc: True
      have ft: "file_text os1 = shifted P ?m n i F" using u(5) rc True st Suc.prems(2) by simp
      have "orc = [] \<and> (\<forall>j \<le> n. length (P j) \<le> MAXLEN_PATH) \<longrightarrow> orc1 = []" using u(6) Fi ex i by auto
      then show ?thesis using Suc.IH[OF _ ft u(3), of orc1] rd rc i by auto
    next
      case False
      then have "\<not> (orc = [] \<and> (\<forall>j \<le> n. length (P j) \<le> MAXLEN_PATH))" using u(6) Fi ex i Suc_leI[OF i] by auto
      then show ?thesis using rd False u(2,4) Suc.prems by auto
    qed
  qed
qed

lemma rolled_archives:
  assumes inj: "inj P" and base: "base \<notin> range P" and top: "F (P n) = None"
    and f2: "F' = (shifted P m n 0 F)(P 0 := F base, base := None)"
  shows "F' base = None \<and> F' (P 0) = F base \<and> (\<forall>i < n. F' (P (i + 1)) = (if kept m i then F (P i) else None)) \<and>
    (\<forall>p. p \<noteq> base \<and> p \<notin> P ` {..n} \<longrightarrow> F' p = F p)"
proof -
  have eq: "P i = P j \<longleftrightarrow> i = j" for i j using inj by (auto dest: injD)
  have nb: "base \<noteq> P i" for i using base by auto
  have "F' (P (i + 1)) = (if kept m i then F (P i) else None)" if i: "i < n" for i
  proof (cases "Suc i = n")
    case True
    then show ?thesis using top nb[of "i + 1"] by (auto simp: f2 eq shifted_archive[OF inj])
  next
    case False
    then show ?thesis using i nb[of "i + 1"] by (auto simp: f2 eq shifted_archive[OF inj])
  qed
  moreover have "F' p = F p" if "p \<noteq> base" "p \<notin> P ` {..n}" for p
    using that by (cases "p \<in> range P") (auto simp: f2 shifted_archive[OF inj] shifted_other)
  ultimately show ?thesis using nb by (auto simp: f2)
qed

lemma half_rolled_archives:
  assumes inj: "inj P" and base: "base \<notin> range P" and f: "F' = shifted P m n c F"
  shows "F' base = F base \<and> (\<forall>i < n. kept m i \<longrightarrow> F (P i) \<in> {F' (P i), F' (P (i + 1))}) \<and>
    (\<forall>p. p \<notin> P ` {..n} \<longrightarrow> F' p = F p)"
proof (intro conjI allI impI)
  show "F' base = F base" unfolding f by (rule shifted_other[OF base])
  fix i assume "i < n" "kept m i"
  then show "F (P i) \<in> {F' (P i), F' (P (i + 1))}" by (auto simp: f shifted_archive[OF inj])
next
  fix p assume "p \<notin> P ` {..n}"
  then show "F' p = F p" by (cases "p \<in> range P") (auto simp: f shifted_archive[OF inj] shifted_other)
qed

lemma roll_files_text:
  assumes inj: "inj P" and P: "\<forall>j. numbered_path a (int j) = Some (P j)" and base: "base \<notin> range P" "base_path a = Some base"
    and l: "files a = Some l" "al_inv l" "zc_arraylist_foreach l = map (\<lambda>i. Some \<lparr>f_index = ix i, f_path = P i\<rparr>) [0..<n]"
    and nl: "no_links os (insert base (range P))"
    and ex: "file_text os (P n) = None" "\<forall>i < n. file_text os (P i) \<noteq> None" "file_text os base \<noteq> None"
  obtains rc os' orc' where "zlog_rotater_roll_files a os orc = Some (rc, os', orc')" and "no_links os' (insert base (range P))"
    and "rc = 0 \<and> file_text os' = (shifted P (max_count a) n 0 (file_text os))(P 0 := file_text os base, base := None) \<or>
      rc = -1 \<and> (\<exists>c \<le> n. file_text os' = shifted P (max_count a) n c (file_text os))"
    and "orc = [] \<and> (\<forall>j \<le> n. length (P j) \<le> MAXLEN_PATH) \<longrightarrow> rc = 0 \<and> orc' = []"
proof -
  note result = that
  let ?m = "max_count a" and ?Q = "insert base (range P)" and ?F = "file_text os"
  have len: "nat (al_len l) = n" using l(2,3) by (metis al_inv_def length_foreach length_map length_upt diff_zero)
  have nb: "base \<noteq> P i" for i using base(1) by auto
  have s0: "?F = shifted P ?m n n ?F" by (simp add: shifted_end)
  have P': "\<And>j. numbered_path a (int j) = Some (P j)" using P by simp
  obtain rc os1 orc1 where r: "roll_down a l n os orc = Some (rc, os1, orc1)" "no_links os1 ?Q"
    "rc = 0 \<and> file_text os1 = shifted P ?m n 0 ?F \<or> rc = -1 \<and> (\<exists>c \<le> n. file_text os1 = shifted P ?m n c ?F)"
    "orc = [] \<and> (\<forall>j \<le> n. length (P j) \<le> MAXLEN_PATH) \<longrightarrow> rc = 0 \<and> orc1 = []"
    using roll_down_text[where F = ?F and i = n and os = os and orc = orc, OF inj P' base(1) l(2,3) ex(1,2) order.refl s0 nl] by blast
  have rf: "zlog_rotater_roll_files a os orc = (if rc \<noteq> 0 then Some (-1, os1, orc1) else move_to a base 0 os1 orc1)"
    using l(1) len r(1) base(2) by (simp add: zlog_rotater_roll_files_def)
  show ?thesis
  proof (cases "rc = 0")
    case False
    then have rf1: "zlog_rotater_roll_files a os orc = Some (-1, os1, orc1)" using rf by simp
    show ?thesis by (rule result[OF rf1 r(2)]) (use r(3,4) False in auto)
  next
    case True
    then have ft: "file_text os1 = shifted P ?m n 0 ?F" using r(3) by auto
    have q: "base \<in> ?Q" "P 0 \<in> ?Q" by auto
    obtain rc2 os2 orc2 where m: "move_to a base (int 0) os1 orc1 = Some (rc2, os2, orc2)" "rc2 = 0 \<or> rc2 = -1"
      "no_links os2 ?Q" "rc2 = -1 \<longrightarrow> os2 = os1"
      "rc2 = 0 \<longrightarrow> file_text os2 = (file_text os1)(P 0 := file_text os1 base, base := None) \<and> file_text os1 base \<noteq> None"
      "orc1 = [] \<and> length (P 0) \<le> MAXLEN_PATH \<and> file_text os1 base \<noteq> None \<longrightarrow> rc2 = 0 \<and> orc2 = []"
      by (rule move_to_text[where P = P and j = 0 and orc = orc1, OF P' r(2) q nb])
    have b: "file_text os1 base = ?F base" using ft shifted_other[OF base(1)] by metis
    have rf2: "zlog_rotater_roll_files a os orc = Some (rc2, os2, orc2)" using rf True m(1) by simp
    show ?thesis
    proof (rule result[OF rf2 m(3)])
      show "rc2 = 0 \<and> file_text os2 = (shifted P ?m n 0 ?F)(P 0 := ?F base, base := None) \<or>
        rc2 = -1 \<and> (\<exists>c \<le> n. file_text os2 = shifted P ?m n c ?F)" using m(2,4,5) b ft by auto
      show "orc = [] \<and> (\<forall>j \<le> n. length (P j) \<le> MAXLEN_PATH) \<longrightarrow> rc2 = 0 \<and> orc2 = []" using m(6) r(4) b ex(3) by auto
    qed
  qed
qed

text \<open>
  C25. Rolling for every pattern of failures, on \<open>n\<close> archives numbered without gaps. On success the log file has
  become archive 0, every archive that is kept has moved up by one, the surplus ones (from \<open>max_count - 1\<close> on)
  are gone, and no other file has changed. On a failure half way nothing that would have been kept is lost:
  the log file is where it was and every such archive is at its old or its new place. When no call fails and the
  paths fit their array, rolling succeeds. (The comment at the definition of \<open>ROLLING\<close> writes \<open>aa->aa.01\<close>; the code counts from 0.)
\<close>

theorem zlog_rotater_roll_files_ok:
  assumes inj: "inj P" and P: "\<forall>j. numbered_path a (int j) = Some (P j)" and base: "base \<notin> range P" "base_path a = Some base"
    and l: "files a = Some l" "al_inv l" "zc_arraylist_foreach l = map (\<lambda>i. Some \<lparr>f_index = ix i, f_path = P i\<rparr>) [0..<n]"
    and nl: "no_links os (insert base (range P))"
    and ex: "file_text os (P n) = None" "\<forall>i < n. file_text os (P i) \<noteq> None" "file_text os base \<noteq> None"
  shows "\<exists>rc os' orc'. zlog_rotater_roll_files a os orc = Some (rc, os', orc') \<and>
    (rc = 0 \<and> file_text os' base = None \<and> file_text os' (P 0) = file_text os base \<and>
       (\<forall>i < n. file_text os' (P (i + 1)) = (if kept (max_count a) i then file_text os (P i) else None)) \<and>
       (\<forall>p. p \<noteq> base \<and> p \<notin> P ` {..n} \<longrightarrow> file_text os' p = file_text os p) \<or>
     rc = -1 \<and> file_text os' base = file_text os base \<and>
       (\<forall>i < n. kept (max_count a) i \<longrightarrow> file_text os (P i) \<in> {file_text os' (P i), file_text os' (P (i + 1))}) \<and>
       (\<forall>p. p \<notin> P ` {..n} \<longrightarrow> file_text os' p = file_text os p)) \<and>
    (orc = [] \<and> (\<forall>j \<le> n. length (P j) \<le> MAXLEN_PATH) \<longrightarrow> rc = 0 \<and> orc' = [])"
proof -
  obtain rc os' orc' where r: "zlog_rotater_roll_files a os orc = Some (rc, os', orc')"
    "rc = 0 \<and> file_text os' = (shifted P (max_count a) n 0 (file_text os))(P 0 := file_text os base, base := None) \<or>
      rc = -1 \<and> (\<exists>c \<le> n. file_text os' = shifted P (max_count a) n c (file_text os))"
    "orc = [] \<and> (\<forall>j \<le> n. length (P j) \<le> MAXLEN_PATH) \<longrightarrow> rc = 0 \<and> orc' = []"
    by (rule roll_files_text[OF inj P base l nl ex])
  from r(2) show ?thesis
  proof (elim disjE exE conjE)
    assume a: "rc = 0" "file_text os' = (shifted P (max_count a) n 0 (file_text os))(P 0 := file_text os base, base := None)"
    show ?thesis using r(1,3) a(1) rolled_archives[where F = "file_text os", OF inj base(1) ex(1) a(2)] by (intro exI conjI) (assumption, simp_all)
  next
    fix c assume a: "rc = -1" "file_text os' = shifted P (max_count a) n c (file_text os)"
    show ?thesis using r(1,3) a(1) half_rolled_archives[OF inj base(1) a(2)] by (intro exI conjI) (assumption, simp_all)
  qed
qed

section \<open>Numbers in paths\<close>

lemma dec_val_append: "dec_val (s @ t) = foldl (\<lambda>a c. a * 10 + (code c - 48)) (dec_val s) t"
  by (simp add: dec_val_def)

lemma dec_val_zeros: "dec_val (replicate k (CHR ''0'') @ s) = dec_val s"
proof -
  have "dec_val (replicate k (CHR ''0'')) = 0" by (induction k) (simp_all add: dec_val_def)
  then show ?thesis by (simp add: dec_val_append) (simp add: dec_val_def)
qed

lemma scan_int_digits:
  assumes "ds \<noteq> []" "\<forall>c \<in> set ds. isdigit c" "rest = [] \<or> \<not> isdigit (hd rest)"
  shows "scan_int (ds @ rest) = Some (int (dec_val ds), length ds)"
proof -
  obtain d es where d: "ds = d # es" using assms(1) by (cases ds) auto
  then have nd: "\<not> isspace d" "d \<noteq> CHR ''-''" "d \<noteq> CHR ''+''"
    using assms(2) by (auto simp: isdigit_def isspace_def)
  have "takeWhile isdigit (ds @ rest) = ds" by (rule takeWhile_append_stop[OF assms(2,3)])
  then show ?thesis using nd by (simp add: scan_int_def Let_def d)
qed

lemma printf_0d_digits: "0 \<le> w \<Longrightarrow> printf_0d w (int j) = replicate (nat w - length (dec j)) (CHR ''0'') @ dec j"
  by (simp add: printf_0d_def zero_padded_def)

lemma printf_0d_scan:
  assumes "0 \<le> w" "rest = [] \<or> \<not> isdigit (hd rest)"
  shows "scan_int (printf_0d w (int j) @ rest) = Some (int j, length (printf_0d w (int j)))" and "nat w \<le> length (printf_0d w (int j))"
proof -
  let ?ds = "printf_0d w (int j)"
  have p: "?ds = replicate (nat w - length (dec j)) (CHR ''0'') @ dec j" by (rule printf_0d_digits[OF assms(1)])
  then have "?ds \<noteq> []" "\<forall>c \<in> set ?ds. isdigit c" "dec_val ?ds = j"
    by (auto simp: dec_val_zeros dec_isdigit) (simp add: isdigit_def)
  then show "scan_int (?ds @ rest) = Some (int j, length ?ds)" using scan_int_digits[OF _ _ assms(2), of ?ds] by simp
  show "nat w \<le> length ?ds" by (simp add: p)
qed

text \<open>A pattern whose numbers can be read back: what follows the number does not start with a digit.\<close>

definition pattern_ok :: "rotater \<Rightarrow> bool" where
  "pattern_ok a \<longleftrightarrow> 0 \<le> num_width a \<and> num_end_len a \<le> MAXLEN_PATH \<and> num_start_len a \<le> length (glob_path a) \<and>
     (drop (num_end_len a) (glob_path a) = [] \<or>
      \<not> isdigit (hd (drop (num_end_len a) (glob_path a))) \<and> last (glob_path a) \<noteq> CHR ''/'')"

definition arch_path :: "rotater \<Rightarrow> nat \<Rightarrow> string" where
  "arch_path a j = take (num_start_len a) (glob_path a) @ printf_0d (num_width a) (int j) @ drop (num_end_len a) (glob_path a)"

lemma arch_numbered: "pattern_ok a \<Longrightarrow> numbered_path a (int j) = Some (arch_path a j)"
  by (simp add: pattern_ok_def numbered_path_def arch_path_def)

lemma arch_scan:
  assumes "pattern_ok a"
  shows "scan_int (drop (num_start_len a) (arch_path a j)) = Some (int j, length (printf_0d (num_width a) (int j)))"
proof -
  have "drop (num_start_len a) (arch_path a j) = printf_0d (num_width a) (int j) @ drop (num_end_len a) (glob_path a)"
    using assms by (simp add: arch_path_def pattern_ok_def)
  then show ?thesis using printf_0d_scan(1)[of "num_width a" "drop (num_end_len a) (glob_path a)" j] assms by (auto simp: pattern_ok_def)
qed

lemma arch_inj: "pattern_ok a \<Longrightarrow> inj (arch_path a)"
proof (rule injI)
  fix i j assume a: "pattern_ok a" "arch_path a i = arch_path a j"
  show "i = j" using arch_scan[OF a(1), of i] arch_scan[OF a(1), of j] unfolding a(2) by simp
qed

lemma arch_not_dir: "pattern_ok a \<Longrightarrow> arch_path a j \<noteq> [] \<and> last (arch_path a j) \<noteq> CHR ''/''"
proof -
  assume p: "pattern_ok a"
  have d: "printf_0d (num_width a) (int j) = replicate (nat (num_width a) - length (dec j)) (CHR ''0'') @ dec j"
    by (rule printf_0d_digits) (use p in \<open>simp add: pattern_ok_def\<close>)
  have l: "isdigit (last (dec j))" using dec_isdigit dec_nonempty last_in_set by blast
  then have "last (dec j) \<noteq> CHR ''/''" by (auto simp: isdigit_def)
  then show ?thesis using p by (auto simp: arch_path_def d pattern_ok_def last_append)
qed

text \<open>The archive \<open>j\<close> is recognised, with its number.\<close>

lemma check_new_arch:
  assumes p: "pattern_ok a" and b: "base_path a = Some base" "base \<noteq> arch_path a j" and j: "int_ok (int j)" "length (arch_path a j) \<le> MAXLEN_PATH"
  shows "zlog_file_check_new a (arch_path a j) orc =
    Some (if fst (ask orc) then Some \<lparr>f_index = int j, f_path = arch_path a j\<rparr> else None, snd (ask orc))"
proof -
  let ?n = "length (printf_0d (num_width a) (int j))"
  have s: "sscanf (drop (num_start_len a) (arch_path a j)) [SInt, SPos] = (1, [IInt (int j), IPos ?n])"
    by (simp add: sscanf_def arch_scan[OF p])
  have "\<not> int ?n < num_width a" using printf_0d_scan(2)[of "num_width a" "[]" j] p by (simp add: pattern_ok_def)
  then show ?thesis using b j arch_not_dir[OF p, of j]
    by (cases "ask orc") (simp add: zlog_file_check_new_def s int_item_def pos_item_def)
qed

lemma check_new_base: "base_path a = Some base \<Longrightarrow> zlog_file_check_new a base orc = Some (None, orc)"
  by (simp add: zlog_file_check_new_def)

lemma file_cmp_key: "zlog_file_cmp = key_cmp f_index"
  by (simp add: fun_eq_iff zlog_file_cmp_def key_cmp_def)

lemma sortadd_nil: "zc_arraylist_sortadd l cmp d [] = Some (rc, l', f, orc') \<Longrightarrow> rc = 0 \<and> orc' = []"
  by (auto simp: zc_arraylist_sortadd_def zc_arraylist_add_def zc_arraylist_set_def zc_arraylist_insert_inner_def
      zc_arraylist_expand_inner_def Let_def bind_eq_Some_conv split: if_splits)

lemma sorted_map_int: "sorted (map int js) = sorted js"
  by (induction js) auto

text \<open>Without failures the listing holds every archive found, sorted by number.\<close>

definition arch_file :: "rotater \<Rightarrow> nat \<Rightarrow> zlog_file" where
  "arch_file a j = \<lparr>f_index = int j, f_path = arch_path a j\<rparr>"

lemma add_files_complete:
  assumes p: "pattern_ok a" and b: "base_path a = Some base" "base \<notin> range (arch_path a)"
  shows "al_inv l \<Longrightarrow> zc_arraylist_foreach l = map (Some \<circ> arch_file a) js \<Longrightarrow> sorted js \<Longrightarrow>
    \<forall>q \<in> set ps. q = base \<or> (\<exists>j. q = arch_path a j \<and> int_ok (int j) \<and> length q \<le> MAXLEN_PATH) \<Longrightarrow>
    \<exists>l' js'. add_files a l ps [] = Some (0, l', []) \<and> al_inv l' \<and> zc_arraylist_foreach l' = map (Some \<circ> arch_file a) js' \<and>
      sorted js' \<and> mset (map (arch_path a) js') = mset (map (arch_path a) js) + mset (filter (\<lambda>q. q \<noteq> base) ps)"
proof (induction ps arbitrary: l js)
  case Nil
  then show ?case by auto
next
  case (Cons q ps)
  have rest: "\<forall>q \<in> set ps. q = base \<or> (\<exists>j. q = arch_path a j \<and> int_ok (int j) \<and> length q \<le> MAXLEN_PATH)"
    using Cons.prems(4) by simp
  show ?case
  proof (cases "q = base")
    case True
    then show ?thesis using Cons.IH[OF Cons.prems(1-3) rest] check_new_base[OF b(1)] by simp
  next
    case False
    then obtain j where j: "q = arch_path a j" "int_ok (int j)" "length q \<le> MAXLEN_PATH" using Cons.prems(4) by auto
    have c: "zlog_file_check_new a q [] = Some (Some (arch_file a j), [])"
      using check_new_arch[OF p b(1), of j "[]"] b(2) j by (auto simp: arch_file_def)
    have full: "None \<notin> set (zc_arraylist_foreach l)" unfolding Cons.prems(2) by auto
    obtain rc l1 orc1 where s: "zc_arraylist_sortadd l zlog_file_cmp (Some (arch_file a j)) [] = Some (rc, l1, [], orc1)"
      "al_inv l1" "rc = 0 \<longrightarrow> zc_arraylist_foreach l1 = sort_insert zlog_file_cmp (Some (arch_file a j)) (zc_arraylist_foreach l)"
      by (rule zc_arraylist_sortadd_spec[OF Cons.prems(1) full])
    have rc: "rc = 0" "orc1 = []" using sortadd_nil[OF s(1)] by auto
    define xs where "xs = sort_insert zlog_file_cmp (Some (arch_file a j)) (zc_arraylist_foreach l)"
    have set: "set xs = insert (Some (arch_file a j)) (set (zc_arraylist_foreach l))" by (simp add: xs_def set_sort_insert)
    have "\<exists>js1. xs = map (Some \<circ> arch_file a) js1"
    proof (rule ex_map_conv[THEN iffD2], rule ballI)
      fix x assume "x \<in> set xs"
      then show "\<exists>i. x = (Some \<circ> arch_file a) i" unfolding set Cons.prems(2) by auto
    qed
    then obtain js1 where js1: "xs = map (Some \<circ> arch_file a) js1" by blast
    have "sorted (map (f_index \<circ> the) (zc_arraylist_foreach l))"
      using Cons.prems(2,3) by (simp add: arch_file_def comp_def sorted_map_int)
    then have "sorted (map (f_index \<circ> the) xs)" unfolding xs_def file_cmp_key by (rule sorted_sort_insert)
    then have sj: "sorted js1" unfolding js1 by (simp add: comp_def arch_file_def sorted_map_int)
    have "mset xs = add_mset (Some (arch_file a j)) (mset (zc_arraylist_foreach l))" by (simp add: xs_def mset_sort_insert)
    then have "image_mset (f_path \<circ> the) (mset xs) = add_mset (arch_path a j) (image_mset (f_path \<circ> the) (mset (zc_arraylist_foreach l)))"
      by (simp add: arch_file_def)
    then have ms: "mset (map (arch_path a) js1) = add_mset (arch_path a j) (mset (map (arch_path a) js))"
      unfolding js1 Cons.prems(2) by (simp add: comp_def arch_file_def image_mset.compositionality)
    have fe: "zc_arraylist_foreach l1 = map (Some \<circ> arch_file a) js1" using s(3) rc js1 xs_def by simp
    from Cons.IH[OF s(2) fe sj rest] show ?thesis using c s(1) rc False ms j(1) by auto
  qed
qed

section \<open>A whole rotation\<close>

lemma numbered_path_files: "numbered_path (a\<lparr>files := l\<rparr>) j = numbered_path a j"
  by (simp add: numbered_path_def)

lemma clean_fields [simp]: "lock_fd (zlog_rotater_clean a) = lock_fd a" "files (zlog_rotater_clean a) = None"
  by (simp_all add: zlog_rotater_clean_def)

text \<open>What parsing leaves alone.\<close>

definition same_frame :: "rotater \<Rightarrow> rotater \<Rightarrow> bool" where
  "same_frame a b \<longleftrightarrow> lock_mutex b = lock_mutex a \<and> lock_file b = lock_file a \<and> lock_fd b = lock_fd a \<and>
     base_path b = base_path a \<and> archive_path b = archive_path a \<and> max_count b = max_count a \<and> files b = files a"

lemma same_frame_simps [simp]: "same_frame a a"
  "same_frame a (b\<lparr>glob_path := g\<rparr>) = same_frame a b" "same_frame a (b\<lparr>mv_type := mt\<rparr>) = same_frame a b"
  "same_frame a (b\<lparr>num_width := w\<rparr>) = same_frame a b" "same_frame a (b\<lparr>num_start_len := n\<rparr>) = same_frame a b"
  "same_frame a (b\<lparr>num_end_len := n\<rparr>) = same_frame a b"
  by (simp_all add: same_frame_def)

lemma parse_frame:
  assumes "zlog_rotater_parse_archive_path a = Some (rc, a1)"
  shows "same_frame a a1"
proof -
  obtain base archive where b: "base_path a = Some base" "archive_path a = Some archive"
    using assms by (auto simp: zlog_rotater_parse_archive_path_def bind_eq_Some_conv)
  show ?thesis
  proof (cases "archive = []")
    case True
    then show ?thesis using assms b by (auto simp: zlog_rotater_parse_archive_path_def Let_def split: if_splits)
  next
    case False
    then show ?thesis using assms b
      by (cases "strchr archive (CHR ''#'')") (auto simp: zlog_rotater_parse_archive_path_def Let_def split: if_splits)
  qed
qed

lemma clean_cong: "lock_mutex a = lock_mutex b \<Longrightarrow> lock_file a = lock_file b \<Longrightarrow> lock_fd a = lock_fd b \<Longrightarrow>
    zlog_rotater_clean a = zlog_rotater_clean b"
  by (cases a; cases b) (simp add: zlog_rotater_clean_def)

lemma add_archives_complete:
  assumes p: "pattern_ok a" and b: "base_path a = Some base" "base \<notin> range (arch_path a)"
    and g: "glob (glob_path a) os = Glob_paths ps" "distinct ps" "set ps - {base} = arch_path a ` {..<n}"
    and len: "\<forall>j < n. length (arch_path a j) \<le> MAXLEN_PATH" "n \<le> 2 ^ 31"
  obtains l where "zlog_rotater_add_archive_files glob a os [] = Some (0, a\<lparr>files := Some l\<rparr>, [])" and "al_inv l"
    and "zc_arraylist_foreach l = map (Some \<circ> arch_file a) [0..<n]"
proof -
  note result = that
  obtain l0 :: "zlog_file arraylist" where l0: "zc_arraylist_new True [] = (Some l0, [])"
    by (simp add: zc_arraylist_new_def)
  have i0: "al_inv l0" "zc_arraylist_foreach l0 = map (Some \<circ> arch_file a) []" using zc_arraylist_new_inv[OF l0] by auto
  have inj: "inj (arch_path a)" by (rule arch_inj[OF p])
  have ps: "\<forall>q \<in> set ps. q = base \<or> (\<exists>j. q = arch_path a j \<and> int_ok (int j) \<and> length q \<le> MAXLEN_PATH)"
  proof
    fix q assume "q \<in> set ps"
    then show "q = base \<or> (\<exists>j. q = arch_path a j \<and> int_ok (int j) \<and> length q \<le> MAXLEN_PATH)"
    proof (cases "q = base")
      case False
      then obtain j where j: "j < n" "q = arch_path a j" using g(3) \<open>q \<in> set ps\<close> by blast
      then have "int_ok (int j)" using len(2) by (simp add: int_ok_def)
      then show ?thesis using j len(1) by auto
    qed simp
  qed
  obtain l js where l: "add_files a l0 ps [] = Some (0, l, [])" "al_inv l" "zc_arraylist_foreach l = map (Some \<circ> arch_file a) js"
    "sorted js" "mset (map (arch_path a) js) = mset (filter (\<lambda>q. q \<noteq> base) ps)"
    using add_files_complete[OF p b i0 _ ps] by auto
  have "distinct (map (arch_path a) js)" using mset_eq_imp_distinct_iff[OF l(5)] g(2) by simp
  then have dj: "distinct js" by (simp add: distinct_map)
  have "arch_path a ` set js = set (filter (\<lambda>q. q \<noteq> base) ps)" using l(5) by (metis set_map set_mset_mset)
  also have "\<dots> = arch_path a ` {..<n}" using g(3) by auto
  finally have "set js = {..<n}" using inj by (simp add: inj_image_eq_iff)
  then have "js = [0..<n]" using sorted_distinct_set_unique[of js "[0..<n]"] l(4) dj by (simp add: atLeast0LessThan)
  then show ?thesis using result[OF _ l(2)] l(1,3) l0 g(1) by (simp add: zlog_rotater_add_archive_files_def)
qed

text \<open>
  C6. A rotation from end to end, when no call fails: the parsed archive pattern asks for rolling, the mutex and the
  record lock are free, the file has reached its limit and \<open>glob\<close> finds archives \<open>0\<close> to \<open>n - 1\<close> (in any order, with or
  without the log file). Then the file becomes archive 0, kept archives move up by one, the others are
  removed, nothing else changes, and the rotater is unlocked and cleaned for its next use. (The comment at the
  definition of \<open>ROLLING\<close> writes \<open>aa->aa.01\<close>; the code counts from 0. Without the premise on \<open>glob\<close>, with gaps in the
  numbers, an archive can be lost.)
\<close>

theorem zlog_rotater_rotate_rolls:
  assumes parse: "zlog_rotater_parse_archive_path (a\<lparr>lock_mutex := True, base_path := Some base, archive_path := archive, max_count := m\<rparr>) = Some (0, a1)"
      "mv_type a1 = ROLLING" "pattern_ok a1"
    and free: "\<not> lock_mutex a" "\<not> plock os"
    and full: "file_text os base = Some t" "to_size lmax archive_max_size < to_size lmax (int (length t + msg_len))"
    and g: "base \<notin> range (arch_path a1)" "glob (glob_path a1) os = Glob_paths ps" "distinct ps" "set ps - {base} = arch_path a1 ` {..<n}"
    and len: "\<forall>j \<le> n. length (arch_path a1 j) \<le> MAXLEN_PATH" "n \<le> 2 ^ 31"
    and nl: "no_links os (insert base (range (arch_path a1)))"
    and ex: "file_text os (arch_path a1 n) = None" "\<forall>i < n. file_text os (arch_path a1 i) \<noteq> None"
  shows "\<exists>os'. zlog_rotater_rotate glob lmax a base msg_len archive archive_max_size m os [] = Some (0, zlog_rotater_clean a, os', []) \<and>
    file_text os' base = None \<and> file_text os' (arch_path a1 0) = Some t \<and>
    (\<forall>i < n. file_text os' (arch_path a1 (i + 1)) = (if kept m i then file_text os (arch_path a1 i) else None)) \<and>
    (\<forall>p. p \<noteq> base \<and> p \<notin> arch_path a1 ` {..n} \<longrightarrow> file_text os' p = file_text os p)"
proof -
  let ?a = "a\<lparr>lock_mutex := True, base_path := Some base, archive_path := archive, max_count := m\<rparr>" and ?P = "arch_path a1"
  have fr: "lock_mutex a1" "lock_file a1 = lock_file a" "lock_fd a1 = lock_fd a" "base_path a1 = Some base" "max_count a1 = m"
    using parse_frame[OF parse(1)] by (auto simp: same_frame_def)
  have len': "\<forall>j < n. length (?P j) \<le> MAXLEN_PATH" using len(1) by simp
  obtain l where l: "zlog_rotater_add_archive_files glob a1 os [] = Some (0, a1\<lparr>files := Some l\<rparr>, [])" "al_inv l"
    "zc_arraylist_foreach l = map (Some \<circ> arch_file a1) [0..<n]"
    by (rule add_archives_complete[where glob = glob and os = os and ps = ps, OF parse(3) fr(4) g len' len(2)])
  let ?a2 = "a1\<lparr>files := Some l\<rparr>"
  have P: "\<forall>j. numbered_path ?a2 (int j) = Some (?P j)" using arch_numbered[OF parse(3)] by (simp add: numbered_path_files)
  have fe: "zc_arraylist_foreach l = map (\<lambda>i. Some \<lparr>f_index = int i, f_path = ?P i\<rparr>) [0..<n]"
    unfolding l(3) by (simp add: arch_file_def comp_def)
  have fl: "files ?a2 = Some l" "base_path ?a2 = Some base" using fr(4) by simp_all
  have bt: "file_text os base \<noteq> None" using full(1) by simp
  obtain rc os' orc' where r: "zlog_rotater_roll_files ?a2 os [] = Some (rc, os', orc')"
    "rc = 0 \<and> file_text os' = (shifted ?P (max_count ?a2) n 0 (file_text os))(?P 0 := file_text os base, base := None) \<or>
      rc = -1 \<and> (\<exists>c \<le> n. file_text os' = shifted ?P (max_count ?a2) n c (file_text os))"
    "[] = ([] :: outcomes) \<and> (\<forall>j \<le> n. length (?P j) \<le> MAXLEN_PATH) \<longrightarrow> rc = 0 \<and> orc' = []"
    by (rule roll_files_text[OF arch_inj[OF parse(3)] P g(1) fl(2) fl(1) l(2) fe nl ex bt])
  have rc: "rc = 0" "orc' = []" using r(3) len(1) by auto
  then have f: "file_text os' = (shifted ?P m n 0 (file_text os))(?P 0 := file_text os base, base := None)" using r(2) fr(5) by auto
  have ls: "zlog_rotater_lsmv glob (a\<lparr>lock_mutex := True\<rparr>) base archive m os [] = Some (0, zlog_rotater_clean ?a2, os', [])"
    using parse(1,2) l(1) r(1) rc by (simp add: zlog_rotater_lsmv_def)
  obtain i where i: "names os base = Some i" "t = inodes os i" using full(1) by (auto simp: file_text_def)
  have "zlog_rotater_rotate glob lmax a base msg_len archive archive_max_size m os [] =
      Some (0, (zlog_rotater_clean ?a2)\<lparr>lock_mutex := False\<rparr>, os', [])"
    using free full(2) i ls by (simp add: zlog_rotater_rotate_def zlog_rotater_trylock_def os_stat_def zlog_rotater_unlock_def)
  moreover have "(zlog_rotater_clean ?a2)\<lparr>lock_mutex := False\<rparr> = zlog_rotater_clean a"
    using fr free(1) by (cases a) (simp add: zlog_rotater_clean_def)
  ultimately show ?thesis
    using rolled_archives[where F = "file_text os", OF arch_inj[OF parse(3)] g(1) ex(1) f] full(1) by auto
qed

text \<open>
  The locks, for every pattern of failures: whatever happens, a rotation that was not stopped by the mutex leaves
  the mutex free and the rotater without base path, archive path and file list; when another thread
  holds the mutex or another process the record lock, it returns 0 and touches no file, and below the
  size limit it touches none either.
\<close>

theorem zlog_rotater_rotate_locks:
  assumes "files a = None" "zlog_rotater_rotate glob lmax a base msg_len archive archive_max_size m os orc = Some (rc, a', os', orc')"
  shows "lock_fd a' = lock_fd a \<and> files a' = None \<and> (rc = 0 \<or> rc = -1) \<and>
    (if lock_mutex a then a' = a else \<not> lock_mutex a') \<and>
    (lock_mutex a \<or> plock os \<or> (\<forall>t. file_text os base = Some t \<longrightarrow> to_size lmax (int (length t + msg_len)) \<le> to_size lmax archive_max_size) \<longrightarrow>
       os' = os) \<and> (lock_mutex a \<or> plock os \<longrightarrow> rc = 0)"
proof -
  have ls: "lock_fd a4 = lock_fd a \<and> files a4 = None"
    if z: "zlog_rotater_lsmv glob (a\<lparr>lock_mutex := True\<rparr>) base archive m os orc2 = Some (rc4, a4, os4, orc4)" for rc4 a4 os4 orc2 orc4
  proof -
    obtain rc1 a1 where p: "zlog_rotater_parse_archive_path (a\<lparr>lock_mutex := True, base_path := Some base, archive_path := archive, max_count := m\<rparr>) = Some (rc1, a1)"
      using z by (auto simp: zlog_rotater_lsmv_def bind_eq_Some_conv)
    have f: "lock_fd a1 = lock_fd a" using parse_frame[OF p] by (simp add: same_frame_def)
    have ad: "lock_fd a2 = lock_fd a1" if "zlog_rotater_add_archive_files glob a1 os orc2 = Some (rc2, a2, orc3)" for rc2 a2 orc3
      using that by (auto simp: zlog_rotater_add_archive_files_def bind_eq_Some_conv split: option.splits prod.splits glob_result.splits)
    have "a4 = zlog_rotater_clean a1 \<or>
        (\<exists>rc2 a2 orc3. zlog_rotater_add_archive_files glob a1 os orc2 = Some (rc2, a2, orc3) \<and> a4 = zlog_rotater_clean a2)"
      using z p by (auto simp: zlog_rotater_lsmv_def bind_eq_Some_conv split: if_splits)
    then show ?thesis using f ad by auto
  qed
  show ?thesis
  proof (cases "lock_mutex a")
    case True
    then show ?thesis using assms by (auto simp: zlog_rotater_rotate_def zlog_rotater_trylock_def)
  next
    case m: False
    obtain ok1 o1 where a1: "ask orc = (ok1, o1)" by (cases "ask orc")
    obtain ok2 o2 where a2: "ask o1 = (ok2, o2)" by (cases "ask o1")
    show ?thesis
    proof (cases "ok1 \<and> ok2 \<and> \<not> plock os")
      case False
      then show ?thesis using assms m a1 a2
        by (auto simp: zlog_rotater_rotate_def zlog_rotater_trylock_def split: if_splits)
    next
      case True
      have tl: "zlog_rotater_trylock a os orc = (0, a\<lparr>lock_mutex := True\<rparr>, o2)"
        using m a1 a2 True by (simp add: zlog_rotater_trylock_def)
      obtain rc3 a3 os3 orc3 where b: "(case os_stat os base o2 of
             (Stat _ st_size, orc2) \<Rightarrow>
               if to_size lmax (int (st_size + msg_len)) \<le> to_size lmax archive_max_size then Some (0, a\<lparr>lock_mutex := True\<rparr>, os, orc2)
               else do {
                 (rc4, a4, os4, orc4) \<leftarrow> zlog_rotater_lsmv glob (a\<lparr>lock_mutex := True\<rparr>) base archive m os orc2;
                 Some (if rc4 \<noteq> 0 then -1 else 0, a4, os4, orc4) }
           | (_, orc2) \<Rightarrow> Some (-1, a\<lparr>lock_mutex := True\<rparr>, os, orc2)) = Some (rc3, a3, os3, orc3)"
        and r: "rc = rc3" "os' = os3" "a' = a3\<lparr>lock_mutex := False\<rparr>"
        using assms(2) tl unfolding zlog_rotater_rotate_def zlog_rotater_unlock_def
        by (auto simp: bind_eq_Some_conv split: prod.splits)
      have "lock_fd a3 = lock_fd a \<and> files a3 = None \<and> (rc3 = 0 \<or> rc3 = -1)"
        using b assms(1) ls by (auto simp: bind_eq_Some_conv split: prod.splits stat_result.splits if_splits)
      moreover have "os3 = os" if "\<forall>t. file_text os base = Some t \<longrightarrow> to_size lmax (int (length t + msg_len)) \<le> to_size lmax archive_max_size"
        using b that by (auto simp: os_stat_def file_text_def Let_def bind_eq_Some_conv split: prod.splits stat_result.splits if_splits option.splits)
      ultimately show ?thesis using m True r by auto
    qed
  qed
qed

section \<open>An example\<close>

definition sample_os :: os where
  "sample_os = \<lparr>names = [''a'' \<mapsto> 0, ''a.0'' \<mapsto> 1], inodes = (\<lambda>i. if i = 0 then ''new'' else ''old''), next_ino = 2,
     fds = Map.empty, next_fd = 4, sys_log = [], rec_log = [], plock = False\<rparr>"

definition sample_rot :: rotater where
  "sample_rot = \<lparr>lock_mutex = False, lock_file = ''lock'', lock_fd = 3, base_path = None, archive_path = None, glob_path = [],
     num_start_len = 0, num_end_len = 0, num_width = 0, mv_type = MV_NONE, max_count = 0, files = None\<rparr>"

definition sample_parsed :: rotater where
  "sample_parsed = sample_rot\<lparr>lock_mutex := True, base_path := Some ''a'', archive_path := Some [], max_count := 0, glob_path := ''a.*'',
     mv_type := ROLLING, num_start_len := 2, num_end_len := 3\<rparr>"

lemma sample_parse:
  "zlog_rotater_parse_archive_path (sample_rot\<lparr>lock_mutex := True, base_path := Some ''a'', archive_path := Some [], max_count := 0\<rparr>) =
    Some (0, sample_parsed)"
  by (simp add: zlog_rotater_parse_archive_path_def sample_parsed_def sample_rot_def MAXLEN_PATH_def)

lemma sample_pattern: "pattern_ok sample_parsed"
  by (simp add: pattern_ok_def sample_parsed_def sample_rot_def MAXLEN_PATH_def)

lemma dec_one [simp]: "dec 0 = ''0''" "dec (Suc 0) = ''1''"
  by (simp_all add: dec.simps digit_def char_eval)

lemma arch_path_files: "arch_path (a\<lparr>files := l\<rparr>) = arch_path a"
  by (simp add: arch_path_def fun_eq_iff)

lemma sample_arch: "arch_path sample_parsed j = ''a.'' @ dec j"
  using printf_0d_digits[of 0 j] by (simp add: arch_path_def sample_parsed_def sample_rot_def)

lemma sample_archs: "arch_path sample_parsed 0 = ''a.0''" "arch_path sample_parsed (Suc 0) = ''a.1''"
  "''a'' \<notin> range (arch_path sample_parsed)" "no_links sample_os P"
  by (auto simp: sample_arch no_links_def sample_os_def split: if_splits)

lemma sample_text: "file_text sample_os ''a'' = Some ''new''" "file_text sample_os ''a.0'' = Some ''old''" "file_text sample_os ''a.1'' = None"
  by (simp_all add: file_text_def sample_os_def)

theorem zlog_rotater_roll_files_ok_witness:
  "\<exists>os'. zlog_rotater_roll_files (sample_parsed\<lparr>files := Some \<lparr>al_array = [Some (arch_file sample_parsed 0), None], al_len = 1, al_size = 2, al_del = True\<rparr>\<rparr>)
      sample_os [] = Some (0, os', []) \<and> file_text os' ''a.1'' = Some ''old'' \<and> file_text os' ''a.0'' = Some ''new'' \<and> file_text os' ''a'' = None"
proof -
  let ?l = "\<lparr>al_array = [Some (arch_file sample_parsed 0), None], al_len = 1, al_size = 2, al_del = True\<rparr>"
  let ?a = "sample_parsed\<lparr>files := Some ?l\<rparr>" and ?P = "arch_path sample_parsed"
  have P: "\<forall>j. numbered_path ?a (int j) = Some (?P j)" using arch_numbered[OF sample_pattern] by (simp add: numbered_path_files)
  have b: "base_path ?a = Some ''a''" by (simp add: sample_parsed_def)
  have m: "max_count ?a = 0" by (simp add: sample_parsed_def)
  have l: "files ?a = Some ?l" "al_inv ?l" "zc_arraylist_foreach ?l = map (\<lambda>i. Some \<lparr>f_index = int i, f_path = ?P i\<rparr>) [0..<1]"
    by (simp_all add: al_inv_def zc_arraylist_foreach_def arch_file_def less_Suc_eq)
  have ex: "file_text sample_os (?P 1) = None" "\<forall>i<1. file_text sample_os (?P i) \<noteq> None" "file_text sample_os ''a'' \<noteq> None"
    by (simp_all add: sample_archs sample_text)
  have len: "\<forall>j \<le> 1. length (?P j) \<le> MAXLEN_PATH" by (simp add: le_Suc_eq sample_archs MAXLEN_PATH_def)
  show ?thesis
    using zlog_rotater_roll_files_ok[OF arch_inj[OF sample_pattern] P sample_archs(3) b l sample_archs(4) ex, of "[]"] len
    by (auto simp: m sample_archs sample_text kept_def)
qed

theorem zlog_rotater_rotate_rolls_witness:
  "\<exists>os'. zlog_rotater_rotate (\<lambda>_ _. Glob_paths [''a.0'']) 2147483647 sample_rot ''a'' 3 (Some []) 5 0 sample_os [] =
      Some (0, zlog_rotater_clean sample_rot, os', []) \<and>
     file_text os' ''a.1'' = Some ''old'' \<and> file_text os' ''a.0'' = Some ''new'' \<and> file_text os' ''a'' = None"
proof -
  have f: "\<not> lock_mutex sample_rot" "\<not> plock sample_os" by (simp_all add: sample_rot_def sample_os_def)
  have s: "to_size 2147483647 5 < to_size 2147483647 (int (length ''new'' + 3))" by (simp add: to_size_def)
  have mt: "mv_type sample_parsed = ROLLING" by (simp add: sample_parsed_def)
  have g: "distinct [''a.0'']" "set [''a.0''] - {''a''} = arch_path sample_parsed ` {..<1}"
    by (simp_all add: sample_archs lessThan_Suc)
  have len: "\<forall>j \<le> 1. length (arch_path sample_parsed j) \<le> MAXLEN_PATH" by (simp add: le_Suc_eq sample_archs MAXLEN_PATH_def)
  have ex: "file_text sample_os (arch_path sample_parsed 1) = None" "\<forall>i<1. file_text sample_os (arch_path sample_parsed i) \<noteq> None"
    by (simp_all add: sample_archs sample_text)
  show ?thesis
    using zlog_rotater_rotate_rolls[OF sample_parse mt sample_pattern f sample_text(1) s sample_archs(3) HOL.refl g len _ sample_archs(4) ex]
    by (auto simp: sample_archs sample_text kept_def)
qed

theorem zlog_rotater_rotate_locks_witness:
  "\<exists>rc a' os' orc'. zlog_rotater_rotate (\<lambda>_ _. Glob_nomatch) 2147483647 sample_rot ''a'' 1 (Some []) 5 0 sample_os [] = Some (rc, a', os', orc') \<and>
     os' = sample_os \<and> \<not> lock_mutex a'"
proof -
  obtain rc a' os' orc' where z: "zlog_rotater_rotate (\<lambda>_ _. Glob_nomatch) 2147483647 sample_rot ''a'' 1 (Some []) 5 0 sample_os [] = Some (rc, a', os', orc')"
    by (simp add: zlog_rotater_rotate_def zlog_rotater_trylock_def os_stat_def zlog_rotater_unlock_def to_size_def sample_rot_def sample_os_def)
  have f: "files sample_rot = None" "\<not> lock_mutex sample_rot" by (simp_all add: sample_rot_def)
  show ?thesis using zlog_rotater_rotate_locks[OF f(1) z] z f(2) sample_text(1) by (auto simp: to_size_def)
qed

section \<open>A gap in the numbers\<close>

text \<open>
  C40. Rolling renames the archive at position \<open>i\<close> of the sorted list to number \<open>i + 1\<close>, whatever its own number is. When
  the lowest archives are missing, it overwrites: of archives 2 and 3 alone, archive 3 is renamed to 2 first,
  which destroys archive 2, and then on to 1.
\<close>

theorem roll_files_gap_loses_archive:
  assumes p: "pattern_ok a" and b: "base_path a = Some base" "base \<notin> range (arch_path a)" and m: "max_count a = 0"
    and l: "files a = Some l" "al_inv l" "zc_arraylist_foreach l = [Some (arch_file a 2), Some (arch_file a 3)]"
    and nl: "no_links os (insert base (range (arch_path a)))"
    and ex: "file_text os base = Some t" "file_text os (arch_path a 2) = Some t2" "file_text os (arch_path a 3) = Some t3"
      "file_text os (arch_path a 1) = None" "file_text os (arch_path a 0) = None"
    and len: "\<forall>j \<le> 3. length (arch_path a j) \<le> MAXLEN_PATH"
  shows "\<exists>os'. zlog_rotater_roll_files a os [] = Some (0, os', []) \<and>
    file_text os' (arch_path a 0) = Some t \<and> file_text os' (arch_path a 1) = Some t3 \<and>
    file_text os' (arch_path a 2) = None \<and> file_text os' (arch_path a 3) = None"
proof -
  let ?P = "arch_path a" and ?Q = "insert base (range (arch_path a))"
  have eq: "?P i = ?P j \<longleftrightarrow> i = j" for i j using arch_inj[OF p] by (auto dest: injD)
  have P: "\<And>j. numbered_path a (int j) = Some (?P j)" by (rule arch_numbered[OF p])
  have sz: "length (zc_arraylist_foreach l) = 2" using l(3) by simp
  then have n: "nat (al_len l) = 2" using l(2) by (simp add: al_inv_def)
  have g: "zc_arraylist_get l 0 = Some (Some (arch_file a 2))" "zc_arraylist_get l 1 = Some (Some (arch_file a 3))"
    using ll_get[OF l(2), of 0] ll_get[OF l(2), of 1] l(3) sz by (simp_all del: length_foreach)
  have q: "?P j \<in> ?Q" for j by auto
  have mv: "\<exists>os'. move_to a old (int j) o1 [] = Some (0, os', []) \<and> no_links os' ?Q \<and>
      file_text os' = (file_text o1)(?P j := file_text o1 old, old := None)"
    if h: "no_links o1 ?Q" "old \<in> ?Q" "old \<noteq> ?P j" "file_text o1 old \<noteq> None" "j \<le> 3" for o1 old j
  proof -
    obtain rc os' orc' where "move_to a old (int j) o1 [] = Some (rc, os', orc')" "no_links os' ?Q"
      "rc = 0 \<longrightarrow> file_text os' = (file_text o1)(?P j := file_text o1 old, old := None) \<and> file_text o1 old \<noteq> None"
      "[] = ([]::outcomes) \<and> length (?P j) \<le> MAXLEN_PATH \<and> file_text o1 old \<noteq> None \<longrightarrow> rc = 0 \<and> orc' = []"
      by (rule move_to_text[where P = ?P and j = j and orc = "[]", OF P h(1,2) q h(3)])
    then show ?thesis using len h(4,5) by auto
  qed
  obtain o1 where o1: "move_to a (?P 3) (int 2) os [] = Some (0, o1, [])" "no_links o1 ?Q"
    "file_text o1 = (file_text os)(?P 2 := Some t3, ?P 3 := None)"
    using mv[OF nl q[of 3], of 2] ex eq by auto
  obtain o2 where o2: "move_to a (?P 2) (int 1) o1 [] = Some (0, o2, [])" "no_links o2 ?Q"
    "file_text o2 = (file_text o1)(?P 1 := Some t3, ?P 2 := None)"
    using mv[OF o1(2) q[of 2], of 1] o1(3) eq by auto
  have nb: "base \<noteq> ?P j" for j using b(2) by auto
  obtain o3 where o3: "move_to a base (int 0) o2 [] = Some (0, o3, [])"
    "file_text o3 = (file_text o2)(?P 0 := Some t, base := None)"
    using mv[OF o2(2) _ nb, of 0] o1(3) o2(3) ex(1) nb by auto
  have "roll_down a l 2 os [] = Some (0, o2, [])"
    using g o1(1) o2(1) m by (simp add: numeral_2_eq_2 arch_file_def)
  then have "zlog_rotater_roll_files a os [] = Some (0, o3, [])"
    using l(1) n b(1) o3(1) by (simp add: zlog_rotater_roll_files_def)
  then show ?thesis using o3(2) o2(3) o1(3) nb nb[symmetric] eq by simp
qed


definition gap_os :: os where
  "gap_os = \<lparr>names = [''a'' \<mapsto> 0, ''a.2'' \<mapsto> 1, ''a.3'' \<mapsto> 2], inodes = (\<lambda>i. if i = 0 then ''new'' else if i = 1 then ''two'' else ''three''),
     next_ino = 3, fds = Map.empty, next_fd = 4, sys_log = [], rec_log = [], plock = False\<rparr>"

theorem roll_files_gap_loses_archive_witness:
  "\<exists>os'. zlog_rotater_roll_files (sample_parsed\<lparr>files := Some \<lparr>al_array = [Some (arch_file sample_parsed 2), Some (arch_file sample_parsed 3)],
       al_len = 2, al_size = 2, al_del = True\<rparr>\<rparr>) gap_os [] = Some (0, os', []) \<and>
     file_text gap_os ''a.2'' = Some ''two'' \<and> (\<forall>j \<le> 3. file_text os' (''a.'' @ dec j) \<noteq> Some ''two'')"
proof -
  let ?l = "\<lparr>al_array = [Some (arch_file sample_parsed 2), Some (arch_file sample_parsed 3)], al_len = 2, al_size = 2, al_del = True\<rparr>"
  let ?a = "sample_parsed\<lparr>files := Some ?l\<rparr>"
  have d: "dec 2 = ''2''" "dec 3 = ''3''" by (simp_all add: dec.simps digit_def char_eval)
  have ap: "arch_path ?a j = ''a.'' @ dec j" for j by (simp only: arch_path_files sample_arch)
  have af: "arch_file ?a j = arch_file sample_parsed j" for j by (simp add: arch_file_def arch_path_files)
  have p: "pattern_ok ?a" using sample_pattern by (simp add: pattern_ok_def)
  have b1: "base_path ?a = Some ''a''" by (simp add: sample_parsed_def)
  have b2: "''a'' \<notin> range (arch_path ?a)" by (auto simp: ap)
  have m: "max_count ?a = 0" by (simp add: sample_parsed_def)
  have l: "files ?a = Some ?l" "al_inv ?l" "zc_arraylist_foreach ?l = [Some (arch_file ?a 2), Some (arch_file ?a 3)]"
    by (simp_all add: al_inv_def zc_arraylist_foreach_def af)
  have nl: "no_links gap_os P" for P by (auto simp: no_links_def gap_os_def split: if_splits)
  have ex: "file_text gap_os ''a'' = Some ''new''" "file_text gap_os (arch_path ?a 2) = Some ''two''" "file_text gap_os (arch_path ?a 3) = Some ''three''"
    "file_text gap_os (arch_path ?a 1) = None" "file_text gap_os (arch_path ?a 0) = None"
    unfolding ap by (simp_all add: file_text_def gap_os_def d)
  have len: "\<forall>j \<le> 3. length (arch_path ?a j) \<le> MAXLEN_PATH"
  proof (intro allI impI)
    fix j :: nat assume "j \<le> 3"
    then have "j = 0 \<or> j = 1 \<or> j = 2 \<or> j = 3" by auto
    then show "length (arch_path ?a j) \<le> MAXLEN_PATH" unfolding ap by (elim disjE) (simp_all add: d MAXLEN_PATH_def)
  qed
  obtain os' where o: "zlog_rotater_roll_files ?a gap_os [] = Some (0, os', [])"
    "file_text os' (arch_path ?a 0) = Some ''new''" "file_text os' (arch_path ?a 1) = Some ''three''"
    "file_text os' (arch_path ?a 2) = None" "file_text os' (arch_path ?a 3) = None"
    using roll_files_gap_loses_archive[OF p b1 b2 m l nl ex len] by blast
  have "\<forall>j \<le> 3. file_text os' (''a.'' @ dec j) \<noteq> Some ''two''"
  proof (intro allI impI)
    fix j :: nat assume "j \<le> 3"
    then have "j = 0 \<or> j = 1 \<or> j = 2 \<or> j = 3" by auto
    then show "file_text os' (''a.'' @ dec j) \<noteq> Some ''two''" using o(2-5) unfolding ap by (elim disjE) simp_all
  qed
  moreover have "file_text gap_os ''a.2'' = Some ''two''" by (simp add: file_text_def gap_os_def)
  ultimately show ?thesis using o(1) by blast
qed

end
