(* ===== verification/Rule.thy ===== *)
theory Rule
  imports Format Rotater "HOL-Library.Signed_Division"
begin

text \<open>
  \<open>rule.c\<close> without its parser: a rule is a category pattern, a level test and an action. The level test exists
  twice, as the comparison \<open>zlog_rule_output\<close> makes and as a bitmap the categories combine; the actions
  write the message of the thread to a file, a pipe, syslog, a standard stream or a user's function.
  What the program reads from \<open>zlog_env_conf\<close> and its environment is the record \<open>env\<close>; what an action can
  change besides the rule and the thread is the record \<open>io\<close>.
\<close>

unbundle bit_operations_syntax

section \<open>Rules\<close>

datatype output_fn = Static_file_single | Static_file_rotate | Dynamic_file_single | Dynamic_file_rotate | Pipe_out
  | Syslog | Static_record | Dynamic_record | Stdout | Stderr

text \<open>\<open>pipe\<close> stands for both \<open>pipe_fp\<close> and its descriptor \<open>pipe_fd\<close>; a record function is its number. All files
  are on one device, so \<open>static_dev\<close> is left out; \<open>O_SYNC\<close> is the only flag of \<open>file_open_flags\<close>.\<close>

record rule =
  ru_category :: string
  compare_char :: char
  ru_level :: int
  level_bitmap :: "8 word list"
  file_perms :: nat
  file_sync :: bool
  file_path :: string
  dynamic_specs :: "spec arraylist option"
  static_fd :: int
  static_ino :: nat
  archive_max_size :: int
  archive_max_count :: int
  ru_archive_path :: string
  archive_specs :: "spec arraylist option"
  pipe :: "int option"
  fsync_period :: nat
  fsync_count :: nat
  syslog_facility :: int
  ru_format :: "format option"
  ru_output :: "output_fn option"
  record_name :: string
  record_path :: string
  record_func :: "nat option"

record 'tm env =
  env_sys :: "'tm sys"
  env_levels :: "level arraylist"
  env_glob :: globber
  env_lmax :: int
  env_getenv :: "string \<Rightarrow> string option"

record io =
  io_os :: os
  io_rot :: rotater

section \<open>Level bitmaps\<close>

text \<open>One bit per level, the level \<open>8 * i + j\<close> at bit \<open>7 - j\<close> of byte \<open>i\<close>; division and remainder are those of C.\<close>

definition level_bit :: "8 word list \<Rightarrow> int \<Rightarrow> bool option" where
  "level_bit bm lv = do {
     b \<leftarrow> arr_get bm (lv sdiv 8);
     Some (drop_bit (nat (7 - lv smod 8)) (uint b) AND 1 \<noteq> 0) }"

definition bitmap_only :: "int \<Rightarrow> 8 word list option" where
  "bitmap_only lv = do {
     b \<leftarrow> arr_get (replicate 32 0) (lv sdiv 8);
     arr_set (replicate 32 0) (lv sdiv 8) (b OR word_of_int (push_bit (nat (7 - lv smod 8)) 1)) }"

definition bitmap_except :: "int \<Rightarrow> 8 word list option" where
  "bitmap_except lv = do {
     b \<leftarrow> arr_get (replicate 32 255) (lv sdiv 8);
     arr_set (replicate 32 255) (lv sdiv 8) (b AND word_of_int (NOT (push_bit (nat (7 - lv smod 8)) 1))) }"

definition bitmap_from :: "int \<Rightarrow> 8 word list option" where
  "bitmap_from lv = do {
     b \<leftarrow> arr_get (replicate 32 0) (lv sdiv 8);
     bm \<leftarrow> arr_set (replicate 32 0) (lv sdiv 8) (b OR word_of_int (NOT (push_bit (nat (8 - lv smod 8)) 255)));
     put_bytes bm (nat (lv sdiv 8) + 1) (replicate (32 - nat (lv sdiv 8) - 1) 255) }"

definition rule_bitmap :: "char \<Rightarrow> int \<Rightarrow> 8 word list option" where
  "rule_bitmap c lv =
     (if c = CHR ''='' then bitmap_only lv
      else if c = CHR ''!'' then bitmap_except lv
      else if c = CHR ''*'' then Some (replicate 32 255)
      else bitmap_from lv)"

text \<open>The comparison.\<close>

definition level_fits :: "char \<Rightarrow> int \<Rightarrow> int \<Rightarrow> bool" where
  "level_fits c lv v \<longleftrightarrow>
     c = CHR ''*'' \<or> c = CHR ''.'' \<and> lv \<le> v \<or> c = CHR ''='' \<and> v = lv \<or> c = CHR ''!'' \<and> v \<noteq> lv"

lemma level_split:
  assumes "0 \<le> (v::int)" "v < 256"
  obtains i j where "v = int (8 * i + j)" "i < 32" "j < 8" "v sdiv 8 = int i" "v smod 8 = int j"
proof
  let ?i = "nat (v div 8)" and ?j = "nat (v mod 8)"
  have d: "0 \<le> v div 8" using assms(1) by (rule pos_imp_zdiv_nonneg_iff[THEN iffD2, rotated]) simp
  then show "v = int (8 * ?i + ?j)" by simp
  show "?i < 32" "?j < 8" using assms by auto
  have "v = 0 \<or> sgn v = 1" using assms by (auto simp: sgn_if)
  then show "v sdiv 8 = int ?i" "v smod 8 = int ?j" using d
    by (auto simp: signed_divide_int_def signed_modulo_int_def)
qed

lemma split_eq: "j < 8 \<Longrightarrow> j' < 8 \<Longrightarrow> 8 * i + j = 8 * i' + (j'::nat) \<longleftrightarrow> i = i' \<and> j = j'"
  by (cases i i' rule: linorder_cases) auto

lemma split_le: "j < 8 \<Longrightarrow> j' < 8 \<Longrightarrow> 8 * i + j \<le> 8 * i' + (j'::nat) \<longleftrightarrow> i < i' \<or> i = i' \<and> j \<le> j'"
  by (cases i i' rule: linorder_cases) auto

lemma bit_255: "bit (255 :: int) k \<longleftrightarrow> k < 8" "bit (255 :: 8 word) k \<longleftrightarrow> k < 8"
  using bit_mask_iff[of 8 k, where 'a = int] bit_mask_iff[of 8 k, where 'a = "8 word"]
  by (simp_all add: mask_eq_exp_minus_1)

lemma bit_push_1: "bit (push_bit n (1::int)) k \<longleftrightarrow> k = n"
  by (auto simp: bit_exp_iff)

text \<open>The bits of a bitmap by byte and place.\<close>

lemma level_bit_place:
  assumes "v sdiv 8 = int i" "v smod 8 = int j" "i < length bm" "j < 8"
  shows "level_bit bm v = Some (bit (bm ! i) (7 - j))"
proof -
  have "nat (7 - int j) = 7 - j" by simp
  moreover have "7 - j < LENGTH(8)" by simp
  ultimately show ?thesis using assms
    by (simp add: level_bit_def arr_get_in and_one_eq bit_iff_odd_drop_bit[symmetric] bit_uint_iff odd_iff_mod_2_eq_one[symmetric])
qed


lemma bitmap_only_bit:
  assumes lv: "0 \<le> lv" "lv < 256"
  obtains bm where "bitmap_only lv = Some bm" "length bm = 32" "\<And>v. 0 \<le> v \<Longrightarrow> v < 256 \<Longrightarrow> level_bit bm v = Some (v = lv)"
proof -
  obtain i j where l: "lv = int (8 * i + j)" "i < 32" "j < 8" "lv sdiv 8 = int i" "lv smod 8 = int j" by (rule level_split[OF lv])
  let ?bm = "(replicate 32 0)[i := word_of_int (push_bit (7 - j) 1)] :: 8 word list"
  have n: "nat (7 - int j) = 7 - j" by simp
  have bm: "bitmap_only lv = Some ?bm" using l(2,4,5) n by (simp add: bitmap_only_def arr_get_in arr_set_in)
  have "level_bit ?bm v = Some (v = lv)" if v: "0 \<le> v" "v < 256" for v
  proof -
    obtain i' j' where v: "v = int (8 * i' + j')" "i' < 32" "j' < 8" "v sdiv 8 = int i'" "v smod 8 = int j'" by (rule level_split[OF v])
    have "level_bit ?bm v = Some (bit (?bm ! i') (7 - j'))" by (rule level_bit_place[OF v(4,5)]) (use v in simp_all)
    moreover have "7 - j' = 7 - j \<longleftrightarrow> j' = j" using v(3) l(3) by auto
    moreover have "v = lv \<longleftrightarrow> i' = i \<and> j' = j" unfolding v(1) l(1) of_nat_eq_iff by (rule split_eq[OF v(3) l(3)])
    ultimately show ?thesis using v(2,3) l(2,3)
      by (auto simp: nth_list_update bit_word_of_int_iff bit_push_1 simp del: push_bit_of_1)
  qed
  then show ?thesis using that[OF bm] by simp
qed

lemma bitmap_except_bit:
  assumes lv: "0 \<le> lv" "lv < 256"
  obtains bm where "bitmap_except lv = Some bm" "length bm = 32" "\<And>v. 0 \<le> v \<Longrightarrow> v < 256 \<Longrightarrow> level_bit bm v = Some (v \<noteq> lv)"
proof -
  obtain i j where l: "lv = int (8 * i + j)" "i < 32" "j < 8" "lv sdiv 8 = int i" "lv smod 8 = int j" by (rule level_split[OF lv])
  let ?bm = "(replicate 32 255)[i := 255 AND word_of_int (NOT (push_bit (7 - j) 1))] :: 8 word list"
  have n: "nat (7 - int j) = 7 - j" by simp
  have bm: "bitmap_except lv = Some ?bm" using l(2,4,5) n by (simp add: bitmap_except_def arr_get_in arr_set_in)
  have "level_bit ?bm v = Some (v \<noteq> lv)" if v: "0 \<le> v" "v < 256" for v
  proof -
    obtain i' j' where v: "v = int (8 * i' + j')" "i' < 32" "j' < 8" "v sdiv 8 = int i'" "v smod 8 = int j'" by (rule level_split[OF v])
    have "level_bit ?bm v = Some (bit (?bm ! i') (7 - j'))" by (rule level_bit_place[OF v(4,5)]) (use v in simp_all)
    moreover have "7 - j' = 7 - j \<longleftrightarrow> j' = j" using v(3) l(3) by auto
    moreover have "v = lv \<longleftrightarrow> i' = i \<and> j' = j" unfolding v(1) l(1) of_nat_eq_iff by (rule split_eq[OF v(3) l(3)])
    ultimately show ?thesis using v(2,3) l(2,3)
      by (auto simp: nth_list_update bit_word_of_int_iff bit_push_1 bit_and_iff bit_not_iff bit_255 simp del: push_bit_of_1)
  qed
  then show ?thesis using that[OF bm] by simp
qed

lemma bitmap_from_bit:
  assumes lv: "0 \<le> lv" "lv < 256"
  obtains bm where "bitmap_from lv = Some bm" "length bm = 32" "\<And>v. 0 \<le> v \<Longrightarrow> v < 256 \<Longrightarrow> level_bit bm v = Some (lv \<le> v)"
proof -
  obtain i j where l: "lv = int (8 * i + j)" "i < 32" "j < 8" "lv sdiv 8 = int i" "lv smod 8 = int j" by (rule level_split[OF lv])
  let ?w = "word_of_int (NOT (push_bit (8 - j) 255)) :: 8 word"
  let ?bm = "replicate i 0 @ ?w # replicate (31 - i) 255"
  have n: "nat (8 - int j) = 8 - j" by simp
  have up: "(replicate 32 0)[i := ?w] = replicate i 0 @ ?w # replicate (31 - i) 0"
    by (rule nth_equalityI) (use l(2) in \<open>auto simp: nth_append nth_Cons' nth_list_update\<close>)
  have bm: "bitmap_from lv = Some ?bm" using l(2,4,5) n
    by (simp add: bitmap_from_def arr_get_in arr_set_in up put_bytes_def)
  have "level_bit ?bm v = Some (lv \<le> v)" if v: "0 \<le> v" "v < 256" for v
  proof -
    obtain i' j' where v: "v = int (8 * i' + j')" "i' < 32" "j' < 8" "v sdiv 8 = int i'" "v smod 8 = int j'" by (rule level_split[OF v])
    have "level_bit ?bm v = Some (bit (?bm ! i') (7 - j'))" by (rule level_bit_place[OF v(4,5)]) (use v l in simp_all)
    moreover have "lv \<le> v \<longleftrightarrow> i < i' \<or> i = i' \<and> j \<le> j'" unfolding v(1) l(1) of_nat_le_iff by (rule split_le[OF l(3) v(3)])
    moreover have "bit ?w (7 - j') \<longleftrightarrow> j \<le> j'" using v(3) l(3)
      by (auto simp: bit_word_of_int_iff bit_not_iff bit_push_bit_iff bit_255)
    ultimately show ?thesis using v(2,3) l(2,3) bit_255(2)[of "7 - j'"]
      by (auto simp: nth_append nth_Cons')
  qed
  then show ?thesis using that[OF bm] l(2) by simp
qed

lemma rule_bitmap_bit:
  assumes lv: "0 \<le> lv" "lv < 256" and c: "c \<in> {CHR ''*'', CHR ''.'', CHR ''='', CHR ''!''}"
  obtains bm where "rule_bitmap c lv = Some bm" "length bm = 32"
    "\<And>v. 0 \<le> v \<Longrightarrow> v < 256 \<Longrightarrow> level_bit bm v = Some (level_fits c lv v)"
proof -
  have star: "level_bit (replicate 32 255) v = Some True" if v: "0 \<le> v" "v < 256" for v
  proof -
    obtain i j where v: "v = int (8 * i + j)" "i < 32" "j < 8" "v sdiv 8 = int i" "v smod 8 = int j" by (rule level_split[OF v])
    have "level_bit (replicate 32 255) v = Some (bit (replicate 32 (255::8 word) ! i) (7 - j))"
      by (rule level_bit_place[OF v(4,5)]) (use v in simp_all)
    moreover have "bit (255 :: 8 word) (7 - j)" by (simp add: bit_255)
    ultimately show ?thesis using v(2) by simp
  qed
  show ?thesis
  proof (cases "c = CHR ''*''")
    case True
    then show ?thesis using that[of "replicate 32 255"] star by (simp add: rule_bitmap_def level_fits_def)
  next
    case False
    then consider "c = CHR ''.''" | "c = CHR ''=''" | "c = CHR ''!''" using c by auto
    then show ?thesis
    proof cases
      case 1
      obtain bm where "bitmap_from lv = Some bm" "length bm = 32" "\<And>v. 0 \<le> v \<Longrightarrow> v < 256 \<Longrightarrow> level_bit bm v = Some (lv \<le> v)"
        using bitmap_from_bit[OF lv] by blast
      then show ?thesis using that[of bm] 1 by (simp add: rule_bitmap_def level_fits_def)
    next
      case 2
      obtain bm where "bitmap_only lv = Some bm" "length bm = 32" "\<And>v. 0 \<le> v \<Longrightarrow> v < 256 \<Longrightarrow> level_bit bm v = Some (v = lv)"
        using bitmap_only_bit[OF lv] by blast
      then show ?thesis using that[of bm] 2 by (simp add: rule_bitmap_def level_fits_def)
    next
      case 3
      obtain bm where "bitmap_except lv = Some bm" "length bm = 32" "\<And>v. 0 \<le> v \<Longrightarrow> v < 256 \<Longrightarrow> level_bit bm v = Some (v \<noteq> lv)"
        using bitmap_except_bit[OF lv] by blast
      then show ?thesis using that[of bm] 3 by (simp add: rule_bitmap_def level_fits_def)
    qed
  qed
qed


section \<open>Matching categories\<close>

definition zlog_rule_is_wastebin :: "rule \<Rightarrow> int" where
  "zlog_rule_is_wastebin a_rule = (if ru_category a_rule = ''!'' then 1 else 0)"

text \<open>\<open>None\<close>: an empty pattern, whose last character would be read from before its array.\<close>

definition zlog_rule_match_category :: "rule \<Rightarrow> string \<Rightarrow> int option" where
  "zlog_rule_match_category a_rule category =
     (if ru_category a_rule = ''*'' then Some 1
      else if ru_category a_rule = category then Some 1
      else let len = length (ru_category a_rule) in
        if len = 0 then None
        else if ru_category a_rule ! (len - 1) = CHR ''_'' then
          let n = (if length category = len - 1 then len - 1 else len) in
          Some (if strncmp_eq (ru_category a_rule) category n then 1 else 0)
        else Some 0)"

section \<open>Writing the message\<close>

text \<open>\<open>zlog_buf_str\<close> with \<open>zlog_buf_len\<close>: the bytes written so far (after a failed \<open>realloc\<close> both are zero).\<close>

definition zlog_buf_bytes :: "buf \<Rightarrow> string option" where
  "zlog_buf_bytes b = (case mem b of None \<Rightarrow> Some [] | Some m \<Rightarrow> get_bytes m 0 (buf_tail b))"

text \<open>\<open>zlog_buf_seal\<close> and then \<open>zlog_buf_str\<close> read as a C string.\<close>

definition zlog_buf_cstr :: "buf \<Rightarrow> string option" where
  "zlog_buf_cstr b = do { m \<leftarrow> mem b; cstr m 0 }"

definition fsync_step :: "rule \<Rightarrow> outcomes \<Rightarrow> rule \<times> outcomes" where
  "fsync_step a_rule orc =
     (if fsync_period a_rule = 0 then (a_rule, orc)
      else if fsync_count a_rule + 1 < fsync_period a_rule then (a_rule\<lparr>fsync_count := fsync_count a_rule + 1\<rparr>, orc)
      else (a_rule\<lparr>fsync_count := 0\<rparr>, snd (ask orc)))"

text \<open>The message of the thread and then the rest of the action, or -1.\<close>

type_synonym 'tm action = "rule \<Rightarrow> 'tm thread \<Rightarrow> io \<Rightarrow> outcomes \<Rightarrow> (int \<times> rule \<times> 'tm thread \<times> io \<times> outcomes) option"

definition with_msg :: "'tm env \<Rightarrow> 'tm action \<Rightarrow> 'tm action" where
  "with_msg env f a_rule t io orc = do {
     fmt \<leftarrow> ru_format a_rule;
     (rc, t1, orc1) \<leftarrow> zlog_format_gen_msg (env_sys env) (env_levels env) fmt t orc;
     if rc \<noteq> 0 then Some (-1, a_rule, t1, io, orc1) else f a_rule t1 io orc1 }"

definition reload_static :: "rule \<Rightarrow> nat option \<Rightarrow> os \<Rightarrow> outcomes \<Rightarrow> int \<times> rule \<times> os \<times> outcomes" where
  "reload_static a_rule ino os orc =
     (let (_, os1, orc1) = os_close os (static_fd a_rule) orc;
          (fd, os2, orc2) = os_open os1 (file_path a_rule) orc1;
          a1 = a_rule\<lparr>static_fd := fd\<rparr> in
      if fd < 0 then (-1, a1, os2, orc2)
      else case ino of
        Some i \<Rightarrow> (0, a1\<lparr>static_ino := i\<rparr>, os2, orc2)
      | None \<Rightarrow> (case os_stat os2 (file_path a_rule) orc2 of
          (Stat i _, orc3) \<Rightarrow> (0, a1\<lparr>static_ino := i\<rparr>, os2, orc3)
        | (_, orc3) \<Rightarrow> (-1, a1, os2, orc3)))"

definition check_static :: "rule \<Rightarrow> os \<Rightarrow> outcomes \<Rightarrow> int \<times> rule \<times> os \<times> outcomes" where
  "check_static a_rule os orc =
     (case os_stat os (file_path a_rule) orc of
        (Stat_err, orc1) \<Rightarrow> (-1, a_rule, os, orc1)
      | (Enoent, orc1) \<Rightarrow> reload_static a_rule None os orc1
      | (Stat i _, orc1) \<Rightarrow> if i \<noteq> static_ino a_rule then reload_static a_rule (Some i) os orc1 else (0, a_rule, os, orc1))"

definition static_file_action :: "'tm action" where
  "static_file_action a_rule t io orc = do {
     let (rc, a1, os1, orc1) = check_static a_rule (io_os io) orc;
     if rc \<noteq> 0 then Some (-1, a1, t, io\<lparr>io_os := os1\<rparr>, orc1)
     else do {
       bytes \<leftarrow> zlog_buf_bytes (msg_buf t);
       let (n, os2, orc2) = os_write os1 (static_fd a1) bytes orc1;
       if n < 0 then Some (-1, a1, t, io\<lparr>io_os := os2\<rparr>, orc2)
       else do { let (a2, orc3) = fsync_step a1 orc2; Some (0, a2, t, io\<lparr>io_os := os2\<rparr>, orc3) } } }"

definition zlog_rule_output_static_file_single :: "'tm env \<Rightarrow> 'tm action" where
  "zlog_rule_output_static_file_single env = with_msg env static_file_action"

text \<open>The two path generators: the inner \<open>None\<close> is the failure.\<close>

definition zlog_rule_gen_archive_path :: "'tm env \<Rightarrow> rule \<Rightarrow> 'tm thread \<Rightarrow> outcomes \<Rightarrow> (string option \<times> 'tm thread \<times> outcomes) option" where
  "zlog_rule_gen_archive_path env a_rule t orc =
     (case archive_specs a_rule of
        None \<Rightarrow> Some (Some (ru_archive_path a_rule), t, orc)
      | Some specs \<Rightarrow> do {
          (rc, t1, orc1) \<leftarrow> gen_loop (zlog_spec_gen_archive_path (env_sys env) (env_levels env)) (zc_arraylist_foreach specs)
             (t\<lparr>archive_path_buf := zlog_buf_restart (archive_path_buf t)\<rparr>) orc;
          if rc \<noteq> 0 then Some (None, t1, orc1)
          else do {
            b \<leftarrow> zlog_buf_seal (archive_path_buf t1);
            path \<leftarrow> zlog_buf_cstr b;
            Some (Some path, t1\<lparr>archive_path_buf := b\<rparr>, orc1) } })"

definition zlog_rule_gen_path :: "'tm env \<Rightarrow> rule \<Rightarrow> 'tm thread \<Rightarrow> outcomes \<Rightarrow> (string option \<times> 'tm thread \<times> outcomes) option" where
  "zlog_rule_gen_path env a_rule t orc = do {
     specs \<leftarrow> dynamic_specs a_rule;
     (rc, t1, orc1) \<leftarrow> gen_loop (zlog_spec_gen_path (env_sys env) (env_levels env)) (zc_arraylist_foreach specs)
        (t\<lparr>path_buf := zlog_buf_restart (path_buf t)\<rparr>) orc;
     if rc \<noteq> 0 then Some (None, t1, orc1)
     else do {
       b \<leftarrow> zlog_buf_seal (path_buf t1);
       path \<leftarrow> zlog_buf_cstr b;
       Some (Some path, t1\<lparr>path_buf := b\<rparr>, orc1) } }"

definition with_path :: "'tm env \<Rightarrow> (string \<Rightarrow> 'tm action) \<Rightarrow> 'tm action" where
  "with_path env f a_rule t io orc = do {
     (path, t1, orc1) \<leftarrow> zlog_rule_gen_path env a_rule t orc;
     case path of None \<Rightarrow> Some (-1, a_rule, t1, io, orc1) | Some p \<Rightarrow> f p a_rule t1 io orc1 }"

text \<open>\<open>open\<close>, \<open>write\<close>, \<open>fsync\<close>, \<open>close\<close>.\<close>

definition append_file :: "string \<Rightarrow> string \<Rightarrow> rule \<Rightarrow> os \<Rightarrow> outcomes \<Rightarrow> int \<times> rule \<times> os \<times> outcomes" where
  "append_file path bytes a_rule os orc =
     (let (fd, os1, orc1) = os_open os path orc in
      if fd < 0 then (-1, a_rule, os1, orc1)
      else let (n, os2, orc2) = os_write os1 fd bytes orc1 in
        if n < 0 then let (_, os3, orc3) = os_close os2 fd orc2 in (-1, a_rule, os3, orc3)
        else let (a1, orc3) = fsync_step a_rule orc2; (rc, os3, orc4) = os_close os2 fd orc3 in
          (if rc < 0 then -1 else 0, a1, os3, orc4))"

definition file_single :: "string \<Rightarrow> 'tm action" where
  "file_single path a_rule t io orc = do {
     bytes \<leftarrow> zlog_buf_bytes (msg_buf t);
     let (rc, a1, os1, orc1) = append_file path bytes a_rule (io_os io) orc;
     Some (rc, a1, t, io\<lparr>io_os := os1\<rparr>, orc1) }"

text \<open>The sizes are compared as \<open>size_t\<close>.\<close>

definition rotate_file :: "'tm env \<Rightarrow> string \<Rightarrow> nat \<Rightarrow> 'tm action" where
  "rotate_file env path len a_rule t io orc =
     (let lim = to_size (env_lmax env) (archive_max_size a_rule) in
      if lim < len then Some (0, a_rule, t, io, orc)
      else case os_stat (io_os io) path orc of
        (Stat _ n, orc1) \<Rightarrow>
          if to_size (env_lmax env) (int (n + len)) < lim then Some (0, a_rule, t, io, orc1)
          else do {
            (arch, t1, orc2) \<leftarrow> zlog_rule_gen_archive_path env a_rule t orc1;
            (rc, rot1, os1, orc3) \<leftarrow> zlog_rotater_rotate (env_glob env) (env_lmax env) (io_rot io) path len arch
               (archive_max_size a_rule) (archive_max_count a_rule) (io_os io) orc2;
            Some (if rc \<noteq> 0 then -1 else 0, a_rule, t1, \<lparr>io_os = os1, io_rot = rot1\<rparr>, orc3) }
      | (_, orc1) \<Rightarrow> Some (0, a_rule, t, io, orc1))"

definition file_rotate :: "'tm env \<Rightarrow> string \<Rightarrow> 'tm action" where
  "file_rotate env path a_rule t io orc = do {
     (rc, a1, t1, io1, orc1) \<leftarrow> file_single path a_rule t io orc;
     if rc \<noteq> 0 then Some (-1, a1, t1, io1, orc1)
     else rotate_file env path (buf_tail (msg_buf t1)) a1 t1 io1 orc1 }"

definition zlog_rule_output_static_file_rotate :: "'tm env \<Rightarrow> 'tm action" where
  "zlog_rule_output_static_file_rotate env = with_msg env (\<lambda>a_rule. file_rotate env (file_path a_rule) a_rule)"

definition zlog_rule_output_dynamic_file_single :: "'tm env \<Rightarrow> 'tm action" where
  "zlog_rule_output_dynamic_file_single env = with_path env (\<lambda>path. with_msg env (file_single path))"

definition zlog_rule_output_dynamic_file_rotate :: "'tm env \<Rightarrow> 'tm action" where
  "zlog_rule_output_dynamic_file_rotate env = with_path env (\<lambda>path. with_msg env (file_rotate env path))"

definition write_fd :: "int \<Rightarrow> 'tm action" where
  "write_fd fd a_rule t io orc = do {
     bytes \<leftarrow> zlog_buf_bytes (msg_buf t);
     let (n, os1, orc1) = os_write (io_os io) fd bytes orc;
     Some (if n < 0 then -1 else 0, a_rule, t, io\<lparr>io_os := os1\<rparr>, orc1) }"

definition zlog_rule_output_pipe :: "'tm env \<Rightarrow> 'tm action" where
  "zlog_rule_output_pipe env = with_msg env (\<lambda>a_rule. write_fd (case pipe a_rule of None \<Rightarrow> 0 | Some fd \<Rightarrow> fd) a_rule)"

definition zlog_rule_output_stdout :: "'tm env \<Rightarrow> 'tm action" where
  "zlog_rule_output_stdout env = with_msg env (write_fd STDOUT_FILENO)"

definition zlog_rule_output_stderr :: "'tm env \<Rightarrow> 'tm action" where
  "zlog_rule_output_stderr env = with_msg env (write_fd STDERR_FILENO)"

definition zlog_rule_output_syslog :: "'tm env \<Rightarrow> 'tm action" where
  "zlog_rule_output_syslog env = with_msg env (\<lambda>a_rule t io orc. do {
     lv \<leftarrow> zlog_level_list_get (env_levels env) (ev_level (th_event t));
     a_level \<leftarrow> lv;
     b \<leftarrow> zlog_buf_seal (msg_buf t);
     msg \<leftarrow> zlog_buf_cstr b;
     let os1 = (io_os io)\<lparr>sys_log := sys_log (io_os io) @ [(syslog_facility a_rule OR syslog_level a_level, msg)]\<rparr>;
     Some (0, a_rule, t\<lparr>msg_buf := b\<rparr>, io\<lparr>io_os := os1\<rparr>, orc) })"

text \<open>A call of a user's function: its number, the path and the message it is given.\<close>

definition call_record :: "nat \<Rightarrow> string \<Rightarrow> 'tm action" where
  "call_record f path a_rule t io orc = do {
     b \<leftarrow> zlog_buf_seal (msg_buf t);
     bytes \<leftarrow> zlog_buf_bytes b;
     let os1 = (io_os io)\<lparr>rec_log := rec_log (io_os io) @ [(f, path, bytes)]\<rparr>;
     let (ok, orc1) = ask orc;
     Some (if ok then 0 else -1, a_rule, t\<lparr>msg_buf := b\<rparr>, io\<lparr>io_os := os1\<rparr>, orc1) }"

definition zlog_rule_output_static_record :: "'tm env \<Rightarrow> 'tm action" where
  "zlog_rule_output_static_record env a_rule t io orc =
     (case record_func a_rule of
        None \<Rightarrow> Some (-1, a_rule, t, io, orc)
      | Some f \<Rightarrow> with_msg env (call_record f (record_path a_rule)) a_rule t io orc)"

definition zlog_rule_output_dynamic_record :: "'tm env \<Rightarrow> 'tm action" where
  "zlog_rule_output_dynamic_record env a_rule t io orc =
     (case record_func a_rule of
        None \<Rightarrow> Some (-1, a_rule, t, io, orc)
      | Some f \<Rightarrow> with_path env (\<lambda>path. with_msg env (call_record f path)) a_rule t io orc)"

fun run_output :: "'tm env \<Rightarrow> output_fn \<Rightarrow> 'tm action" where
  "run_output env Static_file_single = zlog_rule_output_static_file_single env"
| "run_output env Static_file_rotate = zlog_rule_output_static_file_rotate env"
| "run_output env Dynamic_file_single = zlog_rule_output_dynamic_file_single env"
| "run_output env Dynamic_file_rotate = zlog_rule_output_dynamic_file_rotate env"
| "run_output env Pipe_out = zlog_rule_output_pipe env"
| "run_output env Syslog = zlog_rule_output_syslog env"
| "run_output env Static_record = zlog_rule_output_static_record env"
| "run_output env Dynamic_record = zlog_rule_output_dynamic_record env"
| "run_output env Stdout = zlog_rule_output_stdout env"
| "run_output env Stderr = zlog_rule_output_stderr env"

definition zlog_rule_output :: "'tm env \<Rightarrow> 'tm action" where
  "zlog_rule_output env a_rule t io orc =
     (let c = compare_char a_rule; v = ev_level (th_event t);
          call = do { f \<leftarrow> ru_output a_rule; run_output env f a_rule t io orc } in
      if c = CHR ''*'' then call
      else if c = CHR ''.'' then if v \<ge> ru_level a_rule then call else Some (0, a_rule, t, io, orc)
      else if c = CHR ''='' then if v = ru_level a_rule then call else Some (0, a_rule, t, io, orc)
      else if c = CHR ''!'' then if v \<noteq> ru_level a_rule then call else Some (0, a_rule, t, io, orc)
      else Some (0, a_rule, t, io, orc))"

end
