(* ===== verification/ZRecord.thy ===== *)
theory ZRecord
  imports Hashtable Level
begin

text \<open>
  \<open>record.c\<close> and \<open>record_table.c\<close>: the user's output functions by name. A function is given by its number.
\<close>

record zlog_record =
  rec_name :: string
  rec_output :: nat

definition zlog_record_new :: "string \<Rightarrow> nat \<Rightarrow> outcomes \<Rightarrow> zlog_record option \<times> outcomes" where
  "zlog_record_new name f orc =
     (let (ok, orc1) = ask orc in
      if \<not> ok then (None, orc1)
      else if MAXLEN_PATH < length name then (None, orc1)
      else (Some \<lparr>rec_name = name, rec_output = f\<rparr>, orc1))"

text \<open>The record is one block; deleting a table frees the records it holds.\<close>

definition zlog_record_table_new :: "outcomes \<Rightarrow> (string, zlog_record) hashtable option \<times> outcomes" where
  "zlog_record_table_new orc = zc_hashtable_new 20 zc_hashtable_str_hash zc_hashtable_str_equal False True orc"

definition zlog_record_table_del :: "(string, zlog_record) hashtable \<Rightarrow> zlog_record list option" where
  "zlog_record_table_del records = map_option (\<lambda>(h, freed). map e_value freed) (zc_hashtable_del records)"

end
