(* ===== verification/RuleNew.thy ===== *)
theory RuleNew
  imports Rule ZRecord
begin

text \<open>
  The parser of the \<open>[rules]\<close> lines of the configuration, \<open>zlog_rule_new\<close>, in the order of its stages: selector
  (category and level), format, output file with its limit and archive pattern, pipe, standard streams,
  record functions. The stages work on the rule being built; a stage that fails keeps what it has opened, which
  \<open>zlog_rule_del\<close> then closes.
\<close>

unbundle bit_operations_syntax

section \<open>Destruction\<close>

text \<open>A pipe to a command: a new stream that is no file.\<close>

definition os_popen :: "os \<Rightarrow> outcomes \<Rightarrow> int option \<times> os \<times> outcomes" where
  "os_popen os orc =
     (let (ok, orc1) = ask orc; fd = next_fd os in
      if \<not> ok then (None, os, orc1)
      else (Some fd, os\<lparr>inodes := (inodes os)(next_ino os := []), next_ino := next_ino os + 1,
                       fds := (fds os)(fd \<mapsto> next_ino os), next_fd := fd + 1\<rparr>, orc1))"

text \<open>The conversions and the rule itself are only freed; what the file system sees are the two \<open>close\<close>.\<close>

definition zlog_rule_del :: "rule \<Rightarrow> os \<Rightarrow> outcomes \<Rightarrow> os \<times> outcomes" where
  "zlog_rule_del a_rule os orc =
     (let (os1, orc1) = (if static_fd a_rule > 0 then let (_, o1, r1) = os_close os (static_fd a_rule) orc in (o1, r1) else (os, orc)) in
      case pipe a_rule of None \<Rightarrow> (os1, orc1) | Some fd \<Rightarrow> let (_, o2, r2) = os_close os1 fd orc1 in (o2, r2))"

section \<open>The parts of a line\<close>

text \<open>The facilities have the values of \<open>syslog.h\<close>; the code behind the last return is never reached.\<close>

definition LOG_AUTHPRIV :: int where "LOG_AUTHPRIV = 80"

definition syslog_facility_atoi :: "string option \<Rightarrow> int" where
  "syslog_facility_atoi fac =
     (case fac of None \<Rightarrow> -187
      | Some f \<Rightarrow>
         if stricmp_eq f ''LOG_LOCAL0'' then 128
         else if stricmp_eq f ''LOG_LOCAL1'' then 136
         else if stricmp_eq f ''LOG_LOCAL2'' then 144
         else if stricmp_eq f ''LOG_LOCAL3'' then 152
         else if stricmp_eq f ''LOG_LOCAL4'' then 160
         else if stricmp_eq f ''LOG_LOCAL5'' then 168
         else if stricmp_eq f ''LOG_LOCAL6'' then 176
         else if stricmp_eq f ''LOG_LOCAL7'' then 184
         else if stricmp_eq f ''LOG_USER'' then 8
         else if stricmp_eq f ''LOG_AUTHPRIV'' then LOG_AUTHPRIV
         else if stricmp_eq f ''LOG_CRON'' then 72
         else if stricmp_eq f ''LOG_DAEMON'' then 24
         else if stricmp_eq f ''LOG_FTP'' then 88
         else if stricmp_eq f ''LOG_KERN'' then 0
         else if stricmp_eq f ''LOG_LPR'' then 48
         else if stricmp_eq f ''LOG_MAIL'' then 16
         else if stricmp_eq f ''LOG_NEWS'' then 56
         else if stricmp_eq f ''LOG_SYSLOG'' then 40
         else LOG_AUTHPRIV)"

text \<open>The array of \<open>size\<close> bytes that starts with the given text, after environment references are replaced.\<close>

definition env_path :: "(string \<Rightarrow> string option) \<Rightarrow> nat \<Rightarrow> string \<Rightarrow> (int \<times> string) option" where
  "env_path getenv sz s = do {
     (rc, m) \<leftarrow> zc_str_replace_env getenv sz (s @ replicate (sz - length s) NUL);
     if rc \<noteq> 0 then Some (rc, [])
     else do { path \<leftarrow> cstr m 0; Some (rc, path) } }"

text \<open>The result: return code, path, conversions (when the path has any), time cache count. The list is tested by
  way of the wrong pointer, so a list that could not be allocated is written to by the first conversion.\<close>

definition zlog_rule_parse_path :: "int \<Rightarrow> (string \<Rightarrow> string option) \<Rightarrow> string \<Rightarrow> nat \<Rightarrow> int \<Rightarrow> outcomes \<Rightarrow>
    (int \<times> string \<times> spec arraylist option \<times> int \<times> outcomes) option" where
  "zlog_rule_parse_path lmax getenv path_start path_size cnt orc =
     (let p = drop 1 path_start in
      case strrchr p (CHR ''\"'') of
        None \<Rightarrow> Some (-1, [], None, cnt, orc)
      | Some len \<Rightarrow>
          if path_size - 1 < len then Some (-1, [], None, cnt, orc)
          else do {
            (rc, path) \<leftarrow> env_path getenv path_size (take len p);
            if rc \<noteq> 0 then Some (-1, path, None, cnt, orc)
            else if strchr path (CHR ''%'') = None then Some (0, path, None, cnt, orc)
            else case zc_arraylist_new True orc of
              (Some specs, orc1) \<Rightarrow> do {
                (r, cnt1, orc2) \<leftarrow> format_specs lmax path 0 cnt specs orc1;
                Some (if r = None then -1 else 0, path, r, cnt1, orc2) }
            | (None, orc1) \<Rightarrow> do {
                (r, orc2) \<leftarrow> zlog_spec_new lmax path cnt orc1;
                if r = None then Some (-1, path, None, cnt, orc2) else None } })"

section \<open>The stages\<close>

definition rule_zero :: rule where
  "rule_zero = \<lparr>ru_category = [], compare_char = NUL, ru_level = 0, level_bitmap = replicate 32 0, file_perms = 0, file_sync = False,
     file_path = [], dynamic_specs = None, static_fd = 0, static_ino = 0, archive_max_size = 0, archive_max_count = 0,
     ru_archive_path = [], archive_specs = None, pipe = None, fsync_period = 0, fsync_count = 0, syslog_facility = 0,
     ru_format = None, ru_output = None, record_name = [], record_path = [], record_func = None\<rparr>"

definition category_char :: "char \<Rightarrow> bool" where
  "category_char c \<longleftrightarrow> isalnum c \<or> c \<in> {CHR ''_'', CHR ''-'', CHR ''*'', CHR ''!''}"

text \<open>The selector: the rule and the rest of the line, \<open>Some None\<close> on an error.\<close>

definition rule_level :: "level arraylist \<Rightarrow> string \<Rightarrow> rule \<Rightarrow> rule option" where
  "rule_level levels lv a_rule =
     (let c = char_at lv 0;
          cmp = (if c = CHR ''='' \<or> c = CHR ''!'' \<or> c = CHR ''*'' then c else CHR ''.'');
          p = (if c = CHR ''='' \<or> c = CHR ''!'' then drop 1 lv else lv);
          n = zlog_level_list_atoi levels p in
      do { bm \<leftarrow> rule_bitmap cmp n;
           Some (a_rule\<lparr>compare_char := cmp, ru_level := n, level_bitmap := bm\<rparr>) })"

definition rule_selector :: "level arraylist \<Rightarrow> string \<Rightarrow> rule \<Rightarrow> (rule \<times> string) option option" where
  "rule_selector levels line a_rule =
     (let (nscan, its) = sscanf line [SWord, SWs, SPos]; selector = str_item its 0 [] in
      if MAXLEN_CFG_LINE < length selector then None
      else if nscan \<noteq> 1 then Some None
      else let action = drop (pos_item its 1 0) line;
               (nscan2, its2) = sscanf selector [SWs, SSet (\<lambda>c. c \<noteq> CHR ''.''), SLit (CHR ''.''), SWord];
               category = str_item its2 0 []; lv = str_item its2 1 [] in
        if nscan2 \<noteq> 2 then Some None
        else if \<exists>c \<in> set category. \<not> category_char c then Some None
        else do { a \<leftarrow> rule_level levels lv (a_rule\<lparr>ru_category := category\<rparr>); Some (Some (a, action)) })"

text \<open>The format: the rule and the output part of the action. An empty slot in the list of formats would be
  a NULL pointer.\<close>

fun find_format :: "format option list \<Rightarrow> string \<Rightarrow> format option option" where
  "find_format [] fname = Some None"
| "find_format (None # fs) fname = None"
| "find_format (Some f # fs) fname = (if zlog_format_has_name f fname then Some (Some f) else find_format fs fname)"

definition rule_format :: "format \<Rightarrow> format arraylist \<Rightarrow> string \<Rightarrow> rule \<Rightarrow> (rule \<times> string) option option" where
  "rule_format default_format formats action a_rule =
     (let (nscan, its) = sscanf action [SWs, SSet (\<lambda>c. c \<noteq> CHR '';''), SLit (CHR '';''), SWord];
          out = str_item its 0 []; fname = str_item its 1 [] in
      if MAXLEN_CFG_LINE < length out \<or> MAXLEN_CFG_LINE < length fname then None
      else if nscan < 1 then Some None
      else if fname = [] then Some (Some (a_rule\<lparr>ru_format := Some default_format\<rparr>, out))
      else do {
        f \<leftarrow> find_format (zc_arraylist_foreach formats) fname;
        Some (map_option (\<lambda>x. (a_rule\<lparr>ru_format := Some x\<rparr>, out)) f) })"

definition file_limit :: "string \<Rightarrow> string option" where
  "file_limit out = map_option (\<lambda>i. dropWhile isspace (drop (i + 1) out)) (strchr out (CHR '',''))"

text \<open>What the later stages return: return code, rule, time cache count, file system.\<close>

type_synonym stage = "(int \<times> rule \<times> int \<times> os \<times> outcomes) option"

text \<open>Size, count and archive pattern of a file output. A count \<open>%d\<close> cannot represent is undefined.\<close>

definition rule_limit :: "int \<Rightarrow> (string \<Rightarrow> string option) \<Rightarrow> string \<Rightarrow> rule \<Rightarrow> int \<Rightarrow> outcomes \<Rightarrow>
    (int \<times> rule \<times> int \<times> outcomes) option" where
  "rule_limit lmax getenv limit a_rule cnt orc =
     (let (nscan, its) = sscanf limit [SWs, SSet (\<lambda>c. isdigit c \<or> c \<in> set ''MmKkBb''), SWs, SLit (CHR ''*''), SWs, SInt, SWs, SLit (CHR ''~'')];
          n = int_item its 1 0 in
      if \<not> int32 n then None
      else do {
        sz \<leftarrow> (if nscan \<noteq> 0 then map_option snd (zc_parse_byte_size lmax (str_item its 0 [])) else Some 0);
        let a = a_rule\<lparr>archive_max_count := n, archive_max_size := sz\<rparr>;
        case strchr limit (CHR ''\"'') of
          None \<Rightarrow> Some (0, a, cnt, orc)
        | Some p \<Rightarrow> do {
            (rc, path, specs, cnt1, orc1) \<leftarrow> zlog_rule_parse_path lmax getenv (drop p limit) (MAXLEN_PATH + 1) cnt orc;
            let a1 = a\<lparr>ru_archive_path := path, archive_specs := specs\<rparr>;
            if rc \<noteq> 0 then Some (-1, a1, cnt1, orc1)
            else case strchr path (CHR ''#'') of
              None \<Rightarrow> Some (-1, a1, cnt1, orc1)
            | Some q \<Rightarrow>
                if strchr (drop q path) (CHR ''r'') = None \<and> strchr (drop q path) (CHR ''s'') = None
                then Some (-1, a1, cnt1, orc1) else Some (0, a1, cnt1, orc1) } })"

text \<open>A file without conversions is opened at once, so that a wrong path is reported, and its inode is kept.\<close>

definition open_static :: "rule \<Rightarrow> int \<Rightarrow> os \<Rightarrow> outcomes \<Rightarrow> stage" where
  "open_static a_rule cnt os orc =
     (let (fd, os1, orc1) = os_open os (file_path a_rule) orc;
          a1 = a_rule\<lparr>ru_output := Some (if archive_max_size a_rule \<le> 0 then Static_file_single else Static_file_rotate), static_fd := fd\<rparr> in
      if fd < 0 then Some (-1, a1, cnt, os1, orc1)
      else case os_fstat os1 fd orc1 of
        (Stat i _, orc2) \<Rightarrow>
          if archive_max_size a_rule > 0
          then let (_, os2, orc3) = os_close os1 fd orc2 in Some (0, a1\<lparr>static_fd := -1, static_ino := i\<rparr>, cnt, os2, orc3)
          else Some (0, a1\<lparr>static_ino := i\<rparr>, cnt, os1, orc2)
      | (_, orc2) \<Rightarrow> Some (-1, a1, cnt, os1, orc2))"

definition rule_file :: "int \<Rightarrow> (string \<Rightarrow> string option) \<Rightarrow> string \<Rightarrow> string option \<Rightarrow> rule \<Rightarrow> int \<Rightarrow> os \<Rightarrow> outcomes \<Rightarrow> stage" where
  "rule_file lmax getenv p limit a_rule cnt os orc = do {
     (rc, path, specs, cnt1, orc1) \<leftarrow> zlog_rule_parse_path lmax getenv p (MAXLEN_PATH + 1) cnt orc;
     let a1 = a_rule\<lparr>file_path := path, dynamic_specs := specs\<rparr>;
     if rc \<noteq> 0 then Some (-1, a1, cnt1, os, orc1)
     else do {
       (rc2, a2, cnt2, orc2) \<leftarrow> (case limit of None \<Rightarrow> Some (0, a1, cnt1, orc1) | Some l \<Rightarrow> rule_limit lmax getenv l a1 cnt1 orc1);
       if rc2 \<noteq> 0 then Some (-1, a2, cnt2, os, orc2)
       else if dynamic_specs a2 \<noteq> None
       then Some (0, a2\<lparr>ru_output := Some (if archive_max_size a2 \<le> 0 then Dynamic_file_single else Dynamic_file_rotate)\<rparr>, cnt2, os, orc2)
       else open_static a2 cnt2 os orc2 } }"

text \<open>A record function and its path; a name longer than its array overflows it.\<close>

definition rule_record :: "int \<Rightarrow> (string \<Rightarrow> string option) \<Rightarrow> string \<Rightarrow> string option \<Rightarrow> rule \<Rightarrow> int \<Rightarrow> os \<Rightarrow> outcomes \<Rightarrow> stage" where
  "rule_record lmax getenv fpath limit a_rule cnt os orc =
     (let rname = str_item (snd (sscanf (drop 1 fpath) [SWord])) 0 []; a1 = a_rule\<lparr>record_name := rname\<rparr>;
          quoted = (case limit of None \<Rightarrow> Some []
             | Some l \<Rightarrow> (case strchr l (CHR ''\"'') of None \<Rightarrow> None
                | Some p \<Rightarrow> (case strrchr (drop (p + 1) l) (CHR ''\"'') of None \<Rightarrow> None
                   | Some len \<Rightarrow> if MAXLEN_PATH < len then None else Some (take len (drop (p + 1) l))))) in
      if MAXLEN_PATH < length rname then None
      else case quoted of
        None \<Rightarrow> Some (-1, a1, cnt, os, orc)
      | Some path0 \<Rightarrow> do {
          (rc, path) \<leftarrow> env_path getenv (MAXLEN_PATH + 1) path0;
          let a2 = a1\<lparr>record_path := path\<rparr>;
          if rc \<noteq> 0 then Some (-1, a2, cnt, os, orc)
          else if strchr path (CHR ''%'') = None then Some (0, a2\<lparr>ru_output := Some Static_record\<rparr>, cnt, os, orc)
          else case zc_arraylist_new True orc of
            (None, orc1) \<Rightarrow> Some (-1, a2\<lparr>ru_output := Some Dynamic_record\<rparr>, cnt, os, orc1)
          | (Some specs, orc1) \<Rightarrow> do {
              (r, cnt1, orc2) \<leftarrow> format_specs lmax path 0 cnt specs orc1;
              Some (if r = None then -1 else 0, a2\<lparr>ru_output := Some Dynamic_record, dynamic_specs := r\<rparr>, cnt1, os, orc2) } })"

definition rule_stream :: "string \<Rightarrow> string option \<Rightarrow> rule \<Rightarrow> int \<Rightarrow> os \<Rightarrow> outcomes \<Rightarrow> stage" where
  "rule_stream fpath limit a_rule cnt os orc =
     (if strncmp_eq (drop 1 fpath) ''syslog'' 6 then
        let fac = syslog_facility_atoi limit; a1 = a_rule\<lparr>syslog_facility := fac\<rparr> in
        if fac = -187 then Some (-1, a1, cnt, os, orc) else Some (0, a1\<lparr>ru_output := Some Syslog\<rparr>, cnt, os, orc)
      else if strncmp_eq (drop 1 fpath) ''stdout'' 6 then Some (0, a_rule\<lparr>ru_output := Some Stdout\<rparr>, cnt, os, orc)
      else if strncmp_eq (drop 1 fpath) ''stderr'' 6 then Some (0, a_rule\<lparr>ru_output := Some Stderr\<rparr>, cnt, os, orc)
      else Some (-1, a_rule, cnt, os, orc))"

definition rule_pipe :: "rule \<Rightarrow> int \<Rightarrow> os \<Rightarrow> outcomes \<Rightarrow> stage" where
  "rule_pipe a_rule cnt os orc =
     (case os_popen os orc of
        (None, os1, orc1) \<Rightarrow> Some (-1, a_rule, cnt, os1, orc1)
      | (Some fd, os1, orc1) \<Rightarrow> Some (0, a_rule\<lparr>pipe := Some fd, ru_output := Some Pipe_out\<rparr>, cnt, os1, orc1))"

definition rule_output :: "int \<Rightarrow> (string \<Rightarrow> string option) \<Rightarrow> string \<Rightarrow> rule \<Rightarrow> int \<Rightarrow> os \<Rightarrow> outcomes \<Rightarrow> stage" where
  "rule_output lmax getenv out a_rule cnt os orc =
     (let (nscan, its) = sscanf out [SWs, SSet (\<lambda>c. c \<noteq> CHR '',''), SLit (CHR '','')];
          fpath = str_item its 0 []; limit = file_limit out; c = char_at fpath 0 in
      if nscan < 1 then Some (-1, a_rule, cnt, os, orc)
      else if c = CHR ''-'' then
        if char_at fpath 1 \<noteq> CHR ''\"'' then Some (-1, a_rule, cnt, os, orc)
        else rule_file lmax getenv (drop 1 fpath) limit (a_rule\<lparr>fsync_period := 0, file_sync := True\<rparr>) cnt os orc
      else if c = CHR ''\"'' then rule_file lmax getenv fpath limit a_rule cnt os orc
      else if c = CHR ''|'' then rule_pipe a_rule cnt os orc
      else if c = CHR ''>'' then rule_stream fpath limit a_rule cnt os orc
      else if c = CHR ''$'' then rule_record lmax getenv fpath limit a_rule cnt os orc
      else Some (-1, a_rule, cnt, os, orc))"

definition zlog_rule_new :: "int \<Rightarrow> (string \<Rightarrow> string option) \<Rightarrow> string \<Rightarrow> level arraylist \<Rightarrow> format \<Rightarrow> format arraylist \<Rightarrow>
    nat \<Rightarrow> nat \<Rightarrow> int \<Rightarrow> os \<Rightarrow> outcomes \<Rightarrow> (rule option \<times> int \<times> os \<times> outcomes) option" where
  "zlog_rule_new lmax getenv line levels default_format formats perms fsync cnt os orc =
     (let (ok, orc1) = ask orc;
          err = (\<lambda>a cnt os orc. let (os', orc') = zlog_rule_del a os orc in Some (None, cnt, os', orc'));
          a0 = rule_zero\<lparr>file_perms := perms, fsync_period := fsync\<rparr> in
      if \<not> ok then Some (None, cnt, os, orc1)
      else do {
        sel \<leftarrow> rule_selector levels line a0;
        case sel of None \<Rightarrow> err a0 cnt os orc1
        | Some (a1, action) \<Rightarrow> do {
            fo \<leftarrow> rule_format default_format formats action a1;
            case fo of None \<Rightarrow> err a1 cnt os orc1
            | Some (a2, out) \<Rightarrow> do {
                (rc, a3, cnt1, os1, orc2) \<leftarrow> rule_output lmax getenv out a2 cnt os orc1;
                if rc \<noteq> 0 then err a3 cnt1 os1 orc2 else Some (Some a3, cnt1, os1, orc2) } } })"

section \<open>Records\<close>

definition zlog_rule_set_record :: "rule \<Rightarrow> (string, zlog_record) hashtable \<Rightarrow> rule option" where
  "zlog_rule_set_record a_rule records =
     (if ru_output a_rule \<noteq> Some Static_record \<and> ru_output a_rule \<noteq> Some Dynamic_record then Some a_rule
      else do {
        r \<leftarrow> zc_hashtable_get records (record_name a_rule);
        Some (case r of None \<Rightarrow> a_rule | Some a_record \<Rightarrow> a_rule\<lparr>record_func := Some (rec_output a_record)\<rparr>) })"

section \<open>The level test\<close>

text \<open>The bitmap of a rule and its comparison are the same test, for a level that was found (0 to 255) and for one
  that was not (-1).\<close>

definition rule_ok :: "rule \<Rightarrow> bool" where
  "rule_ok a \<longleftrightarrow> compare_char a \<in> {CHR ''*'', CHR ''.'', CHR ''='', CHR ''!''} \<and> length (level_bitmap a) = 32 \<and>
     (\<forall>v. 0 \<le> v \<and> v < 256 \<longrightarrow> level_bit (level_bitmap a) v = Some (level_fits (compare_char a) (ru_level a) v))"

lemma level_bit_replicate:
  assumes "0 \<le> v" "v < 256"
  shows "level_bit (replicate 32 0) v = Some False" "level_bit (replicate 32 255) v = Some True"
proof -
  obtain i j where v: "v = int (8 * i + j)" "i < 32" "j < 8" "v sdiv 8 = int i" "v smod 8 = int j" by (rule level_split[OF assms])
  show "level_bit (replicate 32 0) v = Some False" "level_bit (replicate 32 255) v = Some True"
    by (subst level_bit_place[OF v(4,5)]; use v in \<open>simp add: bit_255\<close>)+
qed

lemma bitmap_unknown:
  "bitmap_only (-1) = Some (replicate 32 0)" "bitmap_except (-1) = Some (replicate 32 255)" "bitmap_from (-1) = Some (replicate 32 255)"
proof -
  have d: "(1::int) sdiv 8 = 0" "(1::int) smod 8 = 1" by (simp_all add: signed_divide_int_def signed_modulo_int_def)
  have u: "(replicate 32 0)[0 := 0] = (replicate 32 0 :: 8 word list)" "(replicate 32 255)[0 := 255] = (replicate 32 255 :: 8 word list)"
    by (simp_all add: list_update_same_conv)
  have z: "(256 :: 8 word) = 0" by simp
  have "(of_nat 130816 :: 8 word) = 0" unfolding word_of_nat_eq_0_iff by simp
  then have z2: "(130816 :: 8 word) = 0" by (simp only: of_nat_numeral)
  have "(- 130561 :: 8 word) = 255 - 130816" by simp
  then have m: "(- 130561 :: 8 word) = 255" unfolding z2 by (simp only: diff_zero)
  show "bitmap_only (-1) = Some (replicate 32 0)" by (simp add: bitmap_only_def d arr_get_in arr_set_in u z)
  show "bitmap_except (-1) = Some (replicate 32 255)" by (simp add: bitmap_except_def d arr_get_in arr_set_in u)
  have w: "(replicate 32 0)[0 := 255] = 255 # (replicate 31 0 :: 8 word list)" by (simp add: numeral_eq_Suc)
  show "bitmap_from (-1) = Some (replicate 32 255)"
    by (simp add: bitmap_from_def d arr_get_in arr_set_in m w put_bytes_def) (simp add: numeral_eq_Suc)
qed

lemma rule_bitmap_ok:
  assumes lv: "-1 \<le> lv" "lv < 256" and c: "c \<in> {CHR ''*'', CHR ''.'', CHR ''='', CHR ''!''}"
  obtains bm where "rule_bitmap c lv = Some bm" "length bm = 32"
    "\<forall>v. 0 \<le> v \<and> v < 256 \<longrightarrow> level_bit bm v = Some (level_fits c lv v)"
proof (cases "lv = -1")
  case True
  have "rule_bitmap c lv = Some (if c = CHR ''='' then replicate 32 0 else replicate 32 255)"
    using c by (auto simp: rule_bitmap_def True bitmap_unknown)
  then show ?thesis using that[of "if c = CHR ''='' then replicate 32 0 else replicate 32 255"] c level_bit_replicate
    by (auto simp: True level_fits_def)
next
  case False
  then show ?thesis using rule_bitmap_bit[OF _ lv(2) c] lv(1) that by (metis linorder_not_less zle_add1_eq_le add.left_inverse order_le_less zless_add1_eq)
qed

lemma level_index_range: "level_index xs s i = -1 \<or> i \<le> level_index xs s i \<and> level_index xs s i < i + int (length xs)"
proof (induction xs arbitrary: i)
  case (Cons x xs)
  from Cons.IH[of "i + 1"] show ?case by (auto split: option.split)
qed simp

lemma zlog_level_list_atoi_range: "ll_inv ls \<Longrightarrow> -1 \<le> zlog_level_list_atoi ls s \<and> zlog_level_list_atoi ls s < 256"
proof -
  assume "ll_inv ls"
  then have "length (zc_arraylist_foreach ls) \<le> 256" by (auto simp: ll_inv_def ll_ok_def al_inv_def zc_arraylist_foreach_def)
  then show ?thesis using level_index_range[of "zc_arraylist_foreach ls" s 0] by (auto simp: zlog_level_list_atoi_def)
qed

lemma rule_level_ok:
  assumes "ll_inv levels"
  obtains a where "rule_level levels lv a0 = Some a" "rule_ok a"
proof -
  let ?c = "char_at lv 0"
  let ?cmp = "if ?c = CHR ''='' \<or> ?c = CHR ''!'' \<or> ?c = CHR ''*'' then ?c else CHR ''.''"
  let ?n = "zlog_level_list_atoi levels (if ?c = CHR ''='' \<or> ?c = CHR ''!'' then drop 1 lv else lv)"
  have n: "-1 \<le> ?n" "?n < 256" using zlog_level_list_atoi_range[OF assms] by blast+
  have c: "?cmp \<in> {CHR ''*'', CHR ''.'', CHR ''='', CHR ''!''}" by auto
  obtain bm where bm: "rule_bitmap ?cmp ?n = Some bm" "length bm = 32"
    "\<forall>v. 0 \<le> v \<and> v < 256 \<longrightarrow> level_bit bm v = Some (level_fits ?cmp ?n v)" by (rule rule_bitmap_ok[OF n c])
  show ?thesis
    by (rule that[of "a0\<lparr>compare_char := ?cmp, ru_level := ?n, level_bitmap := bm\<rparr>"])
       (use bm c in \<open>simp_all add: rule_level_def Let_def rule_ok_def del: insert_iff\<close>)
qed

text \<open>The later stages leave the test alone.\<close>

definition same_test :: "rule \<Rightarrow> rule \<Rightarrow> bool" where
  "same_test a b \<longleftrightarrow> ru_category b = ru_category a \<and> compare_char b = compare_char a \<and> ru_level b = ru_level a \<and> level_bitmap b = level_bitmap a"

lemma same_test_simps [simp]: "same_test a a"
  "same_test a (b\<lparr>ru_format := x0\<rparr>) = same_test a b" "same_test (a\<lparr>ru_format := x0\<rparr>) b = same_test a b"
  "same_test a (b\<lparr>archive_max_count := x1\<rparr>) = same_test a b" "same_test (a\<lparr>archive_max_count := x1\<rparr>) b = same_test a b"
  "same_test a (b\<lparr>archive_max_size := x2\<rparr>) = same_test a b" "same_test (a\<lparr>archive_max_size := x2\<rparr>) b = same_test a b"
  "same_test a (b\<lparr>ru_archive_path := x3\<rparr>) = same_test a b" "same_test (a\<lparr>ru_archive_path := x3\<rparr>) b = same_test a b"
  "same_test a (b\<lparr>archive_specs := x4\<rparr>) = same_test a b" "same_test (a\<lparr>archive_specs := x4\<rparr>) b = same_test a b"
  "same_test a (b\<lparr>ru_output := x5\<rparr>) = same_test a b" "same_test (a\<lparr>ru_output := x5\<rparr>) b = same_test a b"
  "same_test a (b\<lparr>static_fd := x6\<rparr>) = same_test a b" "same_test (a\<lparr>static_fd := x6\<rparr>) b = same_test a b"
  "same_test a (b\<lparr>static_ino := x7\<rparr>) = same_test a b" "same_test (a\<lparr>static_ino := x7\<rparr>) b = same_test a b"
  "same_test a (b\<lparr>file_path := x8\<rparr>) = same_test a b" "same_test (a\<lparr>file_path := x8\<rparr>) b = same_test a b"
  "same_test a (b\<lparr>dynamic_specs := x9\<rparr>) = same_test a b" "same_test (a\<lparr>dynamic_specs := x9\<rparr>) b = same_test a b"
  "same_test a (b\<lparr>record_name := x10\<rparr>) = same_test a b" "same_test (a\<lparr>record_name := x10\<rparr>) b = same_test a b"
  "same_test a (b\<lparr>record_path := x11\<rparr>) = same_test a b" "same_test (a\<lparr>record_path := x11\<rparr>) b = same_test a b"
  "same_test a (b\<lparr>pipe := x12\<rparr>) = same_test a b" "same_test (a\<lparr>pipe := x12\<rparr>) b = same_test a b"
  "same_test a (b\<lparr>syslog_facility := x13\<rparr>) = same_test a b" "same_test (a\<lparr>syslog_facility := x13\<rparr>) b = same_test a b"
  "same_test a (b\<lparr>fsync_period := x14\<rparr>) = same_test a b" "same_test (a\<lparr>fsync_period := x14\<rparr>) b = same_test a b"
  "same_test a (b\<lparr>file_sync := x15\<rparr>) = same_test a b" "same_test (a\<lparr>file_sync := x15\<rparr>) b = same_test a b"
  "same_test a (b\<lparr>record_func := x16\<rparr>) = same_test a b" "same_test (a\<lparr>record_func := x16\<rparr>) b = same_test a b"
  "same_test a (b\<lparr>fsync_count := x17\<rparr>) = same_test a b" "same_test (a\<lparr>fsync_count := x17\<rparr>) b = same_test a b"
  by (simp_all add: same_test_def)

lemma same_test_trans: "same_test a b \<Longrightarrow> same_test b c \<Longrightarrow> same_test a c"
  by (simp add: same_test_def)

lemma same_test_ok: "same_test a b \<Longrightarrow> rule_ok a \<Longrightarrow> rule_ok b"
  by (simp add: same_test_def rule_ok_def)

text \<open>A result whose rule has the test of \<open>a\<close>.\<close>

definition keeps :: "rule \<Rightarrow> ('i \<times> rule \<times> 'x) option \<Rightarrow> bool" where
  "keeps a r \<longleftrightarrow> (\<forall>rc b x. r = Some (rc, b, x) \<longrightarrow> same_test a b)"

lemma keeps_simps [simp]: "keeps a None" "keeps a (Some (rc, b, x)) = same_test a b"
  "keeps a (if c then r1 else r2) \<longleftrightarrow> (c \<longrightarrow> keeps a r1) \<and> (\<not> c \<longrightarrow> keeps a r2)"
  "keeps a (Option.bind m f) \<longleftrightarrow> (\<forall>y. m = Some y \<longrightarrow> keeps a (f y))"
  by (auto simp: keeps_def bind_eq_Some_conv)

lemma keepsD: "keeps a r \<Longrightarrow> r = Some (rc, b, x) \<Longrightarrow> same_test a b"
  by (simp add: keeps_def)

lemma keeps_trans: "keeps b r \<Longrightarrow> same_test a b \<Longrightarrow> keeps a r"
  by (auto simp: keeps_def intro: same_test_trans)

lemma rule_limit_keeps: "keeps a (rule_limit lmax g l a cnt orc)"
  by (simp add: rule_limit_def Let_def split: prod.split option.split)

lemma open_static_keeps: "keeps a (open_static a cnt os orc)"
  by (simp add: open_static_def Let_def split: prod.split stat_result.split)

lemma rule_file_keeps: "keeps a (rule_file lmax g p l a cnt os orc)"
proof -
  have lim: "same_test a a2" if "(case l of None \<Rightarrow> Some (0, a1, cnt1, orc1) | Some l \<Rightarrow> rule_limit lmax g l a1 cnt1 orc1) = Some (rc, a2, x)"
    "same_test a a1" for a1 cnt1 orc1 rc a2 x
  proof (cases l)
    case None
    then show ?thesis using that by simp
  next
    case (Some l0)
    then have "same_test a1 a2" using that(1) by (intro keepsD[OF rule_limit_keeps]) simp
    then show ?thesis by (rule same_test_trans[OF that(2)])
  qed
  show ?thesis
    by (auto simp: rule_file_def Let_def dest!: lim intro!: keeps_trans[OF open_static_keeps] split: prod.split)
qed

lemma rule_record_keeps: "keeps a (rule_record lmax g fp l a cnt os orc)"
  by (simp add: rule_record_def Let_def split: prod.split option.split)

lemma rule_stream_keeps: "keeps a (rule_stream fp l a cnt os orc)"
  by (simp add: rule_stream_def Let_def)

lemma rule_pipe_keeps: "keeps a (rule_pipe a cnt os orc)"
  by (simp add: rule_pipe_def split: prod.split option.split)

lemma rule_output_keeps: "keeps a (rule_output lmax g out a cnt os orc)"
  by (auto simp: rule_output_def Let_def rule_record_keeps rule_stream_keeps rule_pipe_keeps rule_file_keeps
      intro: keeps_trans[OF rule_file_keeps] split: prod.split)

lemma selector_level:
  assumes "rule_selector levels line a = Some (Some (a1, action))"
  obtains lv a0 where "rule_level levels lv a0 = Some a1" "ru_category a0 \<noteq> []"
proof -
  obtain sel its2 where s: "sscanf sel [SWs, SSet (\<lambda>c. c \<noteq> CHR ''.''), SLit (CHR ''.''), SWord] = (2, its2)"
    "rule_level levels (str_item its2 1 []) (a\<lparr>ru_category := str_item its2 0 []\<rparr>) = Some a1"
    using assms by (auto simp: rule_selector_def Let_def bind_eq_Some_conv split: prod.splits if_splits)
  then have "str_item its2 0 [] \<noteq> []"
    by (auto simp: sscanf_def str_item_def Let_def split: if_splits prod.splits list.splits)
  then show ?thesis using that[OF s(2)] by simp
qed

lemma zlog_rule_new_ok:
  assumes "ll_inv levels" "zlog_rule_new lmax g line levels df formats perms fsync cnt os orc = Some (Some a, cnt', os', orc')"
  shows "rule_ok a" "ru_category a \<noteq> []"
proof -
  obtain a1 action a2 out where sel: "rule_selector levels line (rule_zero\<lparr>file_perms := perms, fsync_period := fsync\<rparr>) = Some (Some (a1, action))"
    and fo: "rule_format df formats action a1 = Some (Some (a2, out))"
    and st: "\<exists>orc2. rule_output lmax g out a2 cnt os orc2 = Some (0, a, cnt', os', orc')"
    using assms(2) by (auto simp: zlog_rule_new_def Let_def bind_eq_Some_conv split: prod.splits option.splits if_splits)
  have "same_test a1 a2" using fo by (auto simp: rule_format_def Let_def bind_eq_Some_conv split: prod.splits if_splits)
  moreover have "same_test a2 a" using st keepsD[OF rule_output_keeps] by blast
  ultimately have same: "same_test a1 a" by (rule same_test_trans)
  obtain lv a0 where l: "rule_level levels lv a0 = Some a1" "ru_category a0 \<noteq> []" by (rule selector_level[OF sel])
  moreover obtain a1' where "rule_level levels lv a0 = Some a1'" "rule_ok a1'" by (rule rule_level_ok[OF assms(1)])
  ultimately show "rule_ok a" using same_test_ok[OF same] by auto
  have "ru_category a1 = ru_category a0" using l(1) by (auto simp: rule_level_def Let_def bind_eq_Some_conv split: if_splits)
  then show "ru_category a \<noteq> []" using l(2) same by (simp add: same_test_def)
qed

text \<open>
  C19. Every rule that is read has one level test in two forms: for each level from 0 to 255 its bit in the bitmap is
  set exactly when \<open>zlog_rule_output\<close> runs the action for an event of that level, and otherwise
  \<open>zlog_rule_output\<close> returns 0 and changes nothing.
\<close>

theorem zlog_rule_new_level_test:
  assumes "ll_inv levels" "zlog_rule_new lmax g line levels df formats perms fsync cnt os orc = Some (Some a, cnt', os', orc')"
    and v: "0 \<le> ev_level (th_event t)" "ev_level (th_event t) < 256"
  shows "\<exists>b. level_bit (level_bitmap a) (ev_level (th_event t)) = Some b \<and>
    zlog_rule_output env a t io orc1 =
      (if b then do { f \<leftarrow> ru_output a; run_output env f a t io orc1 } else Some (0, a, t, io, orc1))"
proof -
  have ok: "rule_ok a" by (rule zlog_rule_new_ok[OF assms(1,2)])
  show ?thesis
    by (rule exI[of _ "level_fits (compare_char a) (ru_level a) (ev_level (th_event t))"])
       (use ok v in \<open>auto simp: rule_ok_def zlog_rule_output_def level_fits_def Let_def\<close>)
qed

definition sample_line :: string where
  "sample_line = ''a.=INFO >stdout''"

definition no_formats :: "format arraylist" where
  "no_formats = \<lparr>al_array = [None], al_len = 0, al_size = 1, al_del = True\<rparr>"

lemma sample_selector:
  assumes "rule_level levels ''=INFO'' (r\<lparr>ru_category := ''a''\<rparr>) = Some a"
  shows "rule_selector levels sample_line r = Some (Some (a, ''>stdout''))"
proof -
  have s1: "sscanf sample_line [SWord, SWs, SPos] = (1, [IStr ''a.=INFO'', IPos 8])"
    by (simp add: sample_line_def clib)
  have s2: "sscanf ''a.=INFO'' [SWs, SSet (\<lambda>c. c \<noteq> CHR ''.''), SLit (CHR ''.''), SWord] = (2, [IStr ''a'', IStr ''=INFO''])"
    by (simp add: clib)
  have dr: "drop 8 sample_line = ''>stdout''" by (simp add: sample_line_def)
  have i: "str_item [IStr s, x] 0 [] = s" "str_item [x, IStr s] 1 [] = s" "pos_item [x, IPos n] 1 0 = n" for s x n
    by (simp_all add: str_item_def pos_item_def)
  have l: "\<not> MAXLEN_CFG_LINE < length ''a.=INFO''" by (simp add: MAXLEN_CFG_LINE_def)
  have c: "(\<exists>c \<in> set ''a''. \<not> category_char c) = False" by (simp add: category_char_def clib)
  show ?thesis using l unfolding rule_selector_def s1 Let_def prod.case i s2 c dr assms by simp
qed

lemma sample_rule_new:
  obtains a where "zlog_rule_new 2147483647 (\<lambda>_. None) sample_line default_list sample_fmt no_formats 384 0 0 sample_os [] = Some (Some a, 0, sample_os, [])"
    "same_test a (a\<lparr>ru_output := Some Stdout\<rparr>)" "ru_output a = Some Stdout" "ru_format a = Some sample_fmt"
proof -
  obtain a where a: "rule_level default_list ''=INFO'' (rule_zero\<lparr>file_perms := 384, fsync_period := 0, ru_category := ''a''\<rparr>) = Some a" "rule_ok a"
    by (rule rule_level_ok[OF default_list_inv])
  have sel: "rule_selector default_list sample_line (rule_zero\<lparr>file_perms := 384, fsync_period := 0\<rparr>) = Some (Some (a, ''>stdout''))"
    by (rule sample_selector[OF a(1)])
  have fo: "rule_format sample_fmt no_formats ''>stdout'' a = Some (Some (a\<lparr>ru_format := Some sample_fmt\<rparr>, ''>stdout''))"
    by (simp add: rule_format_def clib MAXLEN_CFG_LINE_def)
  have out: "rule_output 2147483647 (\<lambda>_. None) ''>stdout'' (a\<lparr>ru_format := Some sample_fmt\<rparr>) 0 sample_os [] =
      Some (0, a\<lparr>ru_format := Some sample_fmt, ru_output := Some Stdout\<rparr>, 0, sample_os, [])"
    by (simp add: rule_output_def rule_stream_def clib char_at_def)
  have "zlog_rule_new 2147483647 (\<lambda>_. None) sample_line default_list sample_fmt no_formats 384 0 0 sample_os [] =
      Some (Some (a\<lparr>ru_format := Some sample_fmt, ru_output := Some Stdout\<rparr>), 0, sample_os, [])"
    using sel fo out by (simp add: zlog_rule_new_def)
  then show ?thesis by (rule that) simp_all
qed

definition sample_env :: "nat env" where
  "sample_env = \<lparr>env_sys = sample_sys, env_levels = default_list, env_glob = (\<lambda>_ _. Glob_nomatch), env_lmax = 2147483647, env_getenv = (\<lambda>_. None)\<rparr>"

theorem zlog_rule_new_level_test_witness:
  "\<exists>a b. zlog_rule_new 2147483647 (\<lambda>_. None) sample_line default_list sample_fmt no_formats 384 0 0 sample_os [] = Some (Some a, 0, sample_os, []) \<and>
     level_bit (level_bitmap a) (ev_level (th_event sample_thread)) = Some b \<and>
     (\<not> b \<longrightarrow> zlog_rule_output sample_env a sample_thread \<lparr>io_os = sample_os, io_rot = sample_rot\<rparr> [] =
        Some (0, a, sample_thread, \<lparr>io_os = sample_os, io_rot = sample_rot\<rparr>, []))"
proof -
  obtain a where a: "zlog_rule_new 2147483647 (\<lambda>_. None) sample_line default_list sample_fmt no_formats 384 0 0 sample_os [] = Some (Some a, 0, sample_os, [])"
    by (rule sample_rule_new)
  have l: "0 \<le> ev_level (th_event sample_thread)" "ev_level (th_event sample_thread) < 256"
    by (simp_all add: sample_thread_def sample_event_def zlog_event_set_fmt_def)
  from zlog_rule_new_level_test[OF default_list_inv a l, of sample_env "\<lparr>io_os = sample_os, io_rot = sample_rot\<rparr>" "[]"]
  show ?thesis using a by auto
qed

text \<open>
  The categories a rule applies to: all for \<open>*\<close>, otherwise the category of that name, and for a name that ends
  in an underscore the family: the name before the underscore and every name that continues it.
\<close>

theorem zlog_rule_match_category_iff:
  assumes "ru_category a \<noteq> []"
  shows "zlog_rule_match_category a category =
    Some (if ru_category a = ''*'' \<or> ru_category a = category \<or>
             (\<exists>p. ru_category a = p @ ''_'' \<and> (category = p \<or> (\<exists>u. category = p @ ''_'' @ u))) then 1 else 0)"
proof (cases "last (ru_category a) = CHR ''_''")
  case True
  then obtain p where p: "ru_category a = p @ ''_''" using assms by (metis append_butlast_last_id)
  have "strncmp_eq (p @ ''_'') category (length p) \<longleftrightarrow> category = p" if "length category = length p"
    using that by (auto simp: strncmp_eq_def)
  moreover have "strncmp_eq (p @ ''_'') category (Suc (length p)) \<longleftrightarrow> (\<exists>u. category = p @ ''_'' @ u)"
    using strncmp_eq_prefix[of "p @ ''_''" "[]" category] by simp
  ultimately show ?thesis using p by (auto simp: zlog_rule_match_category_def Let_def nth_append)
next
  case False
  then show ?thesis using assms by (auto simp: zlog_rule_match_category_def Let_def last_conv_nth)
qed


theorem zlog_rule_match_category_iff_witness:
  "zlog_rule_match_category (rule_zero\<lparr>ru_category := ''aa_''\<rparr>) ''aa_xx'' = Some 1 \<and>
   zlog_rule_match_category (rule_zero\<lparr>ru_category := ''aa_''\<rparr>) ''aa'' = Some 1 \<and>
   zlog_rule_match_category (rule_zero\<lparr>ru_category := ''aa_''\<rparr>) ''aa1_xx'' = Some 0"
  using zlog_rule_match_category_iff[of "rule_zero\<lparr>ru_category := ''aa_''\<rparr>"] by (simp add: append_eq_Cons_conv)

end
