(* ===== verification/RuleOut.thy ===== *)
theory RuleOut
  imports RuleNew
begin

text \<open>
  What the actions of a rule do to the files: lemmas on the system calls, the message and the path of a thread
  as the actions use them, and the two theorems on rules without rotation.
\<close>

section \<open>What the system calls change\<close>

lemma get_bytes_text: "buf_inv b \<Longrightarrow> a_text (buf_abs b) = Some c \<Longrightarrow> zlog_buf_bytes b = Some c \<and> length c = buf_tail b"
proof -
  assume a: "buf_inv b" "a_text (buf_abs b) = Some c"
  obtain m where m: "mem b = Some m" "c = take (buf_tail b) m" using a(2) unfolding a_text_cases by blast
  have "buf_tail b \<le> length m" using a(1) m(1) by (auto simp: buf_inv_def)
  then show ?thesis using m by (simp add: zlog_buf_bytes_def get_bytes_def)
qed

text \<open>Every file except those that share the inode of \<open>path\<close> has its old text, and \<open>path\<close> has its old text
  (none for a new file) followed by \<open>bytes\<close>.\<close>

definition appended :: "os \<Rightarrow> os \<Rightarrow> string \<Rightarrow> string \<Rightarrow> bool" where
  "appended os os' path bytes \<longleftrightarrow>
     file_text os' path = Some ((case file_text os path of None \<Rightarrow> [] | Some t \<Rightarrow> t) @ bytes) \<and>
     (\<forall>p. names os' p \<noteq> names os' path \<longrightarrow> file_text os' p = file_text os p)"

text \<open>After a failure at most an empty file is new.\<close>

definition untouched :: "os \<Rightarrow> os \<Rightarrow> string \<Rightarrow> bool" where
  "untouched os os' path \<longleftrightarrow> file_text os' = file_text os \<or> file_text os path = None \<and> file_text os' = (file_text os)(path \<mapsto> [])"

lemma os_stat_cases:
  "os_stat os path orc = (r, orc') \<Longrightarrow> r = Stat_err \<or> r = Enoent \<and> names os path = None \<or>
     (\<exists>i. names os path = Some i \<and> r = Stat i (length (inodes os i)))"
  by (auto simp: os_stat_def split: prod.splits option.splits if_splits)

lemma os_stat_nil: "os_stat os path [] = (r, orc') \<Longrightarrow> r \<noteq> Stat_err \<and> orc' = []"
  by (auto simp: os_stat_def split: option.splits)

lemma os_close_same:
  assumes "os_close os fd orc = (rc, os', orc')" "os_ok os"
  shows "os_ok os' \<and> names os' = names os \<and> file_text os' = file_text os \<and>
    fds os' = (fds os)(fd := None) \<and> (orc = [] \<longrightarrow> orc' = []) \<and> (orc = [] \<and> fds os fd \<noteq> None \<longrightarrow> rc = 0)"
  using assms by (auto simp: os_close_def os_ok_def split: option.splits prod.splits if_splits)

lemma os_open_nil: "os_open os path [] = (fd, os', orc') \<Longrightarrow> os_ok os \<Longrightarrow> 0 \<le> fd \<and> orc' = []"
  by (auto simp: os_open_def Let_def os_ok_def split: option.splits)

lemma os_write_ok:
  assumes "os_write os fd bytes orc = (n, os', orc')" "os_ok os"
  shows "os_ok os' \<and> names os' = names os \<and> fds os' = fds os \<and>
    (if n < 0 then os' = os else \<exists>i. fds os fd = Some i \<and> inodes os' = (inodes os)(i := inodes os i @ bytes)) \<and>
    (orc = [] \<longrightarrow> orc' = [] \<and> (fds os fd \<noteq> None \<longrightarrow> 0 \<le> n))"
  using assms by (auto simp: os_write_def os_ok_def split: option.splits prod.splits if_splits)

text \<open>A write through a descriptor of the file that \<open>path\<close> names, after the file was opened or found.\<close>

lemma write_appended:
  assumes w: "os_write os1 fd bytes orc = (n, os', orc')" "0 \<le> n" and ok: "os_ok os1"
    and fd: "fds os1 fd = Some i" "names os1 path = Some i"
    and t: "file_text os1 = (file_text os)(path \<mapsto> (case file_text os path of None \<Rightarrow> [] | Some t \<Rightarrow> t))"
  shows "appended os os' path bytes"
proof -
  have os': "names os' = names os1" "inodes os' = (inodes os1)(i := inodes os1 i @ bytes)"
    using os_write_ok[OF w(1) ok] w(2) fd(1) by auto
  have p: "file_text os1 path = Some (case file_text os path of None \<Rightarrow> [] | Some t \<Rightarrow> t)" using t by simp
  then have "file_text os' path = Some ((case file_text os path of None \<Rightarrow> [] | Some t \<Rightarrow> t) @ bytes)"
    using fd(2) by (simp add: file_text_def os')
  moreover have "file_text os' p = file_text os p" if p: "names os' p \<noteq> names os' path" for p
  proof -
    have "names os1 p \<noteq> Some i" "p \<noteq> path" using p fd(2) by (auto simp: os')
    then have "file_text os' p = file_text os1 p" by (cases "names os1 p") (auto simp: file_text_def os')
    then show ?thesis using t \<open>p \<noteq> path\<close> by simp
  qed
  ultimately show ?thesis by (simp add: appended_def)
qed

lemma file_text_self: "(file_text os)(path \<mapsto> (case file_text os path of None \<Rightarrow> [] | Some t \<Rightarrow> t)) =
    (if file_text os path = None then (file_text os)(path \<mapsto> []) else file_text os)"
  by (auto simp: fun_eq_iff)

lemma open_untouched: "os_open os path orc = (fd, os', orc') \<Longrightarrow> os_ok os \<Longrightarrow> untouched os os' path"
  using os_open_ok[of os path orc fd os' orc'] file_text_self[of os path]
  by (auto simp: untouched_def split: if_splits)

lemma untouched_same: "untouched os os1 path \<Longrightarrow> file_text os' = file_text os1 \<Longrightarrow> untouched os os' path"
  by (simp add: untouched_def)

lemma append_file_ok:
  assumes a: "append_file path bytes a os orc = (rc, a', os', orc')" and ok: "os_ok os"
  shows "os_ok os' \<and> same_test a a' \<and> fds os' = fds os \<and> (rc = 0 \<or> rc = -1) \<and>
    (rc = 0 \<longrightarrow> appended os os' path bytes) \<and>
    (rc = -1 \<longrightarrow> untouched os os' path \<or> appended os os' path bytes) \<and> (orc = [] \<longrightarrow> rc = 0 \<and> orc' = [])"
proof -
  obtain fd os1 orc1 where o: "os_open os path orc = (fd, os1, orc1)" by (metis prod_cases3)
  note oo = os_open_ok[OF ok o]
  show ?thesis
  proof (cases "fd < 0")
    case True
    then show ?thesis using a o oo os_open_nil[of os path fd os1 orc1] ok by (auto simp: append_file_def untouched_def)
  next
    case fd: False
    obtain i where i: "os_ok os1" "fds os fd = None" "names os1 path = Some i" "fds os1 = (fds os)(fd \<mapsto> i)"
      "file_text os1 = (file_text os)(path \<mapsto> (case file_text os path of None \<Rightarrow> [] | Some t \<Rightarrow> t))" using oo fd by auto
    have fdb: "(fds os)(fd := None) = fds os" using i(2) by (auto simp: fun_eq_iff)
    obtain n os2 orc2 where w: "os_write os1 fd bytes orc1 = (n, os2, orc2)" by (metis prod_cases3)
    note ww = os_write_ok[OF w i(1)]
    show ?thesis
    proof (cases "n < 0")
      case True
      obtain rc3 os3 orc3 where c: "os_close os2 fd orc2 = (rc3, os3, orc3)" by (metis prod_cases3)
      have "untouched os os1 path" by (rule open_untouched[OF o ok])
      moreover have "file_text os3 = file_text os1" "os_ok os3" "fds os3 = (fds os1)(fd := None)"
        using os_close_same[OF c] ww True by auto
      moreover have "orc \<noteq> []" using ww True os_open_nil[of os path fd os1 orc1] o ok i(4) by auto
      moreover have "fds os3 = fds os" using calculation(4) i(4) fdb by simp
      ultimately show ?thesis using a o fd w True c untouched_same[of os os1 path os3]
        by (simp add: append_file_def)
    next
      case False
      obtain a1 orc3 where f: "fsync_step a orc2 = (a1, orc3)" by force
      obtain rc3 os3 orc4 where c: "os_close os2 fd orc3 = (rc3, os3, orc4)" by (metis prod_cases3)
      have ok2: "os_ok os2" using ww by simp
      have "appended os os2 path bytes" by (rule write_appended[OF w _ i(1) _ i(3,5)]) (use False i(4) in simp_all)
      moreover have cc: "names os3 = names os2" "file_text os3 = file_text os2" "os_ok os3" "fds os3 = (fds os2)(fd := None)"
        using os_close_same[OF c ok2] by auto
      ultimately have ap: "appended os os3 path bytes" by (simp add: appended_def)
      have fd2: "fds os3 = fds os" using cc(4) ww i(4) fdb by simp
      have "same_test a a1" using f by (auto simp: fsync_step_def split: if_splits)
      moreover have "orc3 = [] \<and> rc3 = 0 \<and> orc4 = []" if "orc = []"
      proof -
        have "orc1 = []" using os_open_nil[of os path fd os1 orc1] o ok that by simp
        then have "orc2 = []" using ww by simp
        then have "orc3 = []" using f by (auto simp: fsync_step_def split: if_splits)
        then show ?thesis using os_close_same[OF c ok2] ww i(4) by auto
      qed
      ultimately show ?thesis using a o fd w False f c ap fd2 cc(3) by (auto simp: append_file_def)
    qed
  qed
qed


section \<open>The actions\<close>

text \<open>A thread that can write the conversions \<open>ss\<close>, and the text of a path.\<close>

definition out_ready :: "'tm env \<Rightarrow> spec set \<Rightarrow> 'tm thread \<Rightarrow> bool" where
  "out_ready env ss t \<longleftrightarrow> gen_ready (env_sys env) (env_levels env) ss t \<and> msg_bufs_ok t"

definition msg_of :: "'tm env \<Rightarrow> 'tm thread \<Rightarrow> spec list \<Rightarrow> string" where
  "msg_of env t ys = msg_text (env_sys env) (env_levels env) t ys"

definition msg_fits :: "'tm env \<Rightarrow> 'tm thread \<Rightarrow> spec list \<Rightarrow> bool" where
  "msg_fits env t ys \<longleftrightarrow> size_max (msg_buf t) = 0 \<or> length (msg_of env t ys) < size_max (msg_buf t)"

text \<open>The format of a rule and its conversions.\<close>

definition rule_msg :: "rule \<Rightarrow> spec list \<Rightarrow> bool" where
  "rule_msg a ys \<longleftrightarrow> (\<exists>f l. ru_format a = Some f \<and> pattern_specs f = Some l \<and> zc_arraylist_foreach l = map Some ys)"

lemma with_msg_ok:
  assumes r: "out_ready env ss t" "set ys \<subseteq> ss" and f: "rule_msg a ys"
  obtains t' orc1 where "with_msg env g a t io orc = Some (-1, a, t', io, orc1)" "msg_kept (env_sys env) t t'"
      "\<not> (orc = [] \<and> msg_fits env t ys)"
  | t' orc1 where "with_msg env g a t io orc = g a t' io orc1" "zlog_buf_bytes (msg_buf t') = Some (msg_of env t ys)"
      "buf_tail (msg_buf t') = length (msg_of env t ys)" "out_ready env ss t'" "msg_kept (env_sys env) t t'" "orc = [] \<longrightarrow> orc1 = []"
proof -
  obtain fm l where fm: "ru_format a = Some fm" "pattern_specs fm = Some l" "zc_arraylist_foreach l = map Some ys"
    using f unfolding rule_msg_def by blast
  have b: "gen_ready (env_sys env) (env_levels env) ss t" "msg_bufs_ok t" using r(1) by (simp_all add: out_ready_def)
  obtain rc t' orc1 where g: "zlog_format_gen_msg (env_sys env) (env_levels env) fm t orc = Some (rc, t', orc1)" "rc = 0 \<or> rc = -1"
    "gen_ready (env_sys env) (env_levels env) ss t'" "msg_kept (env_sys env) t t'" "buf_inv (msg_buf t')"
    "rc = 0 \<longrightarrow> msg_bufs_ok t' \<and> a_text (buf_abs (msg_buf t')) = Some (msg_of env t ys)"
    "orc = [] \<and> msg_fits env t ys \<longrightarrow> rc = 0 \<and> orc1 = []" "orc = [] \<and> rc = 0 \<longrightarrow> orc1 = []"
    using gen_msg_run[OF b(1) r(2) fm(2,3) b(2), of orc] by (force simp: msg_fits_def msg_of_def)
  show ?thesis
  proof (cases "rc = 0")
    case True
    have "zlog_buf_bytes (msg_buf t') = Some (msg_of env t ys)" "buf_tail (msg_buf t') = length (msg_of env t ys)"
      using get_bytes_text[OF g(5)] g(6) True by auto
    then show ?thesis using that(2)[of t' orc1] True fm(1) g by (simp add: with_msg_def out_ready_def)
  next
    case False
    then show ?thesis using that(1)[of t' orc1] fm(1) g by (auto simp: with_msg_def)
  qed
qed

subsection \<open>A static file\<close>

text \<open>The descriptor of the rule is open on the inode the rule has kept.\<close>

definition rule_fd_ok :: "os \<Rightarrow> rule \<Rightarrow> bool" where
  "rule_fd_ok os a \<longleftrightarrow> fds os (static_fd a) = Some (static_ino a)"

lemma reload_static_ok:
  assumes z: "reload_static a ino os orc = (rc, a', os', orc')" and ok: "os_ok os"
    and ino: "case ino of None \<Rightarrow> names os (file_path a) = None | Some i \<Rightarrow> names os (file_path a) = Some i"
  shows "os_ok os' \<and> (rc = 0 \<or> rc = -1) \<and> file_path a' = file_path a \<and> same_test a a' \<and> fsync_period a' = fsync_period a \<and>
    untouched os os' (file_path a) \<and>
    (rc = 0 \<longrightarrow> rule_fd_ok os' a' \<and> names os' (file_path a) = Some (static_ino a') \<and>
       file_text os' = (file_text os)((file_path a) \<mapsto> (case file_text os (file_path a) of None \<Rightarrow> [] | Some t \<Rightarrow> t))) \<and>
    (orc = [] \<longrightarrow> rc = 0 \<and> orc' = [])"
proof -
  let ?p = "file_path a"
  obtain c os1 orc1 where c: "os_close os (static_fd a) orc = (c, os1, orc1)" by (metis prod_cases3)
  note cc = os_close_same[OF c ok]
  obtain fd os2 orc2 where o: "os_open os1 ?p orc1 = (fd, os2, orc2)" by (metis prod_cases3)
  have ok1: "os_ok os1" using cc by simp
  note oo = os_open_ok[OF ok1 o]
  have un: "untouched os os2 ?p" using open_untouched[OF o ok1] cc by (simp add: untouched_def)
  have nil: "orc = [] \<Longrightarrow> 0 \<le> fd \<and> orc2 = []" using cc o ok1 os_open_nil[of os1 ?p fd os2 orc2] by auto
  show ?thesis
  proof (cases "fd < 0")
    case True
    then show ?thesis using z c o oo un nil by (auto simp: reload_static_def)
  next
    case False
    obtain i where i: "names os2 ?p = Some i" "fds os2 fd = Some i" "os_ok os2"
      "file_text os2 = (file_text os)(?p \<mapsto> (case file_text os ?p of None \<Rightarrow> [] | Some t \<Rightarrow> t))"
      using oo False cc by auto
    show ?thesis
    proof (cases ino)
      case None
      obtain r orc3 where s: "os_stat os2 ?p orc2 = (r, orc3)" by force
      show ?thesis
      proof (cases "r = Stat_err")
        case True
        have "orc \<noteq> []" using nil s os_stat_nil[of os2 ?p r orc3] True by auto
        then show ?thesis using z c o False None s True un i by (auto simp: reload_static_def)
      next
        case ne: False
        then have "r = Stat i (length (inodes os2 i))" using os_stat_cases[OF s] i(1) by auto
        moreover have "orc = [] \<longrightarrow> orc3 = []" using nil s os_stat_nil[of os2 ?p r orc3] by auto
        ultimately show ?thesis using z c o False None s un i by (auto simp: reload_static_def rule_fd_ok_def)
      qed
    next
      case (Some j)
      have "names os ?p = Some j" using ino Some by simp
      then have "names os1 ?p = Some j" using cc by simp
      then have "j = i" using o False i(1) by (auto simp: os_open_def Let_def split: prod.splits if_splits)
      then show ?thesis using z c o False Some un i nil by (auto simp: reload_static_def rule_fd_ok_def)
    qed
  qed
qed

lemma check_static_ok:
  assumes z: "check_static a os orc = (rc, a', os', orc')" and ok: "os_ok os" and fd: "rule_fd_ok os a"
  shows "os_ok os' \<and> (rc = 0 \<or> rc = -1) \<and> file_path a' = file_path a \<and> same_test a a' \<and>
    untouched os os' (file_path a) \<and>
    (rc = 0 \<longrightarrow> rule_fd_ok os' a' \<and> names os' (file_path a) = Some (static_ino a') \<and>
       file_text os' = (file_text os)((file_path a) \<mapsto> (case file_text os (file_path a) of None \<Rightarrow> [] | Some t \<Rightarrow> t))) \<and>
    (orc = [] \<longrightarrow> rc = 0 \<and> orc' = [])"
proof -
  obtain r orc1 where s: "os_stat os (file_path a) orc = (r, orc1)" by force
  have nil: "orc = [] \<Longrightarrow> r \<noteq> Stat_err \<and> orc1 = []" using s os_stat_nil[of os "file_path a" r orc1] by auto
  from os_stat_cases[OF s] show ?thesis
  proof (elim disjE exE conjE)
    assume 1: "r = Stat_err"
    show ?thesis using 1 z s ok nil by (auto simp: check_static_def untouched_def)
  next
    assume 2: "r = Enoent" "names os (file_path a) = None"
    then have "reload_static a None os orc1 = (rc, a', os', orc')" using z s by (simp add: check_static_def)
    from reload_static_ok[OF this ok] show ?thesis using 2 nil by auto
  next
    fix i assume 3: "names os (file_path a) = Some i" "r = Stat i (length (inodes os i))"
    show ?thesis
    proof (cases "i = static_ino a")
      case True
      then have "rc = 0" "a' = a" "os' = os" "orc' = orc1" using z s 3 by (simp_all add: check_static_def)
      moreover have "file_text os (file_path a) \<noteq> None" using 3 by (simp add: file_text_def)
      ultimately show ?thesis using ok fd 3 True nil file_text_self[of os "file_path a"] by (auto simp: untouched_def)
    next
      case False
      then have "reload_static a (Some i) os orc1 = (rc, a', os', orc')" using z s 3 by (simp add: check_static_def)
      from reload_static_ok[OF this ok] show ?thesis using 3 nil by auto
    qed
  qed
qed

lemma static_file_action_ok:
  assumes b: "zlog_buf_bytes (msg_buf t) = Some m" and ok: "os_ok (io_os io)" "rule_fd_ok (io_os io) a"
  shows "\<exists>rc a' io' orc'. static_file_action a t io orc = Some (rc, a', t, io', orc') \<and>
    os_ok (io_os io') \<and> io_rot io' = io_rot io \<and> file_path a' = file_path a \<and>
    (rc = 0 \<and> rule_fd_ok (io_os io') a' \<and> appended (io_os io) (io_os io') (file_path a) m \<or>
     rc = -1 \<and> untouched (io_os io) (io_os io') (file_path a)) \<and> (orc = [] \<longrightarrow> rc = 0)"
proof -
  let ?p = "file_path a"
  obtain rc a1 os1 orc1 where c: "check_static a (io_os io) orc = (rc, a1, os1, orc1)" by (metis prod_cases4)
  note cc = check_static_ok[OF c ok]
  show ?thesis
  proof (cases "rc = 0")
    case False
    then have "static_file_action a t io orc = Some (-1, a1, t, io\<lparr>io_os := os1\<rparr>, orc1)" using c by (simp add: static_file_action_def)
    then show ?thesis using cc False by auto
  next
    case True
    obtain n os2 orc2 where w: "os_write os1 (static_fd a1) m orc1 = (n, os2, orc2)" by (metis prod_cases3)
    have ok1: "os_ok os1" and fd: "fds os1 (static_fd a1) = Some (static_ino a1)" using cc True by (auto simp: rule_fd_ok_def)
    note ww = os_write_ok[OF w ok1]
    show ?thesis
    proof (cases "n < 0")
      case n: True
      then have "static_file_action a t io orc = Some (-1, a1, t, io\<lparr>io_os := os2\<rparr>, orc2)"
        using c True b w by (simp add: static_file_action_def)
      moreover have "orc \<noteq> []" using cc ww n fd by auto
      ultimately show ?thesis using cc ww n by auto
    next
      case n: False
      obtain a2 orc3 where f: "fsync_step a1 orc2 = (a2, orc3)" by force
      have a2: "file_path a2 = file_path a1" "static_fd a2 = static_fd a1" "static_ino a2 = static_ino a1"
        using f by (auto simp: fsync_step_def split: if_splits)
      have "static_file_action a t io orc = Some (0, a2, t, io\<lparr>io_os := os2\<rparr>, orc3)"
        using c True b w n f by (simp add: static_file_action_def)
      moreover have "appended (io_os io) os2 ?p m" using n cc True by (intro write_appended[OF w _ ok1 fd]) auto
      moreover have "rule_fd_ok os2 a2" using fd ww a2 by (simp add: rule_fd_ok_def)
      ultimately show ?thesis using cc ww a2 by auto
    qed
  qed
qed

text \<open>
  C18. A rule with a static file writes to the file its path names at that moment, whatever happened to the file
  since the last message: it may have been renamed or removed by another program (\<open>logrotate\<close>), and is then
  made anew, the old inode being left as it is. On success exactly the message has been appended to that file,
  no other file has changed, and the descriptor is open on it; on failure at most an empty file is new. When no
  call fails and the message fits its buffer, the action succeeds.
\<close>

theorem static_file_single_appends:
  assumes r: "out_ready env (set ys) t" "rule_msg a ys" and ok: "os_ok (io_os io)" "rule_fd_ok (io_os io) a"
  shows "\<exists>rc a' t' io' orc'. zlog_rule_output_static_file_single env a t io orc = Some (rc, a', t', io', orc') \<and>
    os_ok (io_os io') \<and> io_rot io' = io_rot io \<and> file_path a' = file_path a \<and> msg_kept (env_sys env) t t' \<and>
    (rc = 0 \<and> rule_fd_ok (io_os io') a' \<and> appended (io_os io) (io_os io') (file_path a) (msg_of env t ys) \<or>
     rc = -1 \<and> untouched (io_os io) (io_os io') (file_path a)) \<and>
    (orc = [] \<and> msg_fits env t ys \<longrightarrow> rc = 0)"
proof (cases rule: with_msg_ok[OF r(1) order.refl r(2), of static_file_action io orc])
  case (1 t' orc1)
  then show ?thesis using ok by (auto simp: untouched_def zlog_rule_output_static_file_single_def)
next
  case (2 t' orc1)
  from static_file_action_ok[OF 2(2) ok, of orc1] 2(5,6)
  show ?thesis unfolding zlog_rule_output_static_file_single_def 2(1) by blast
qed

subsection \<open>A path with conversions\<close>

definition path_bufs_ok :: "'tm thread \<Rightarrow> bool" where
  "path_bufs_ok t \<longleftrightarrow> buf_inv (path_buf t) \<and> mem (path_buf t) \<noteq> None \<and> buf_inv (pre_path_buf t) \<and> mem (pre_path_buf t) \<noteq> None"

definition path_of :: "'tm env \<Rightarrow> 'tm thread \<Rightarrow> spec list \<Rightarrow> string" where
  "path_of env t ps = concat (map (seg_text (env_sys env) (env_levels env) (th_mdc t) (th_event t) (pre_path_buf t)) ps)"

definition path_fits :: "'tm env \<Rightarrow> 'tm thread \<Rightarrow> spec list \<Rightarrow> bool" where
  "path_fits env t ps \<longleftrightarrow> size_max (path_buf t) = 0 \<or> length (path_of env t ps) < size_max (path_buf t)"

definition rule_path :: "rule \<Rightarrow> spec list \<Rightarrow> bool" where
  "rule_path a ps \<longleftrightarrow> (\<exists>l. dynamic_specs a = Some l \<and> zc_arraylist_foreach l = map Some ps)"

lemma seal_cstr:
  assumes "buf_inv b" "a_text (buf_abs b) = Some c"
  obtains b' where "zlog_buf_seal b = Some b'" "zlog_buf_cstr b' = Some (takeWhile (\<lambda>x. x \<noteq> NUL) c)"
proof -
  obtain m where m: "mem b = Some m" "c = take (buf_tail b) m" using assms(2) unfolding a_text_cases by blast
  have t: "buf_tail b < length m" using assms(1) m(1) by (auto simp: buf_inv_def)
  let ?m = "take (buf_tail b) m @ NUL # drop (Suc (buf_tail b)) m"
  have "zlog_buf_seal b = Some (b\<lparr>mem := Some ?m\<rparr>)" using t m(1) by (simp add: zlog_buf_seal_def mem_put_def put_bytes_def)
  moreover have "takeWhile (\<lambda>x. x \<noteq> NUL) ?m = takeWhile (\<lambda>x. x \<noteq> NUL) c"
  proof (cases "NUL \<in> set c")
    case True
    then show ?thesis unfolding m(2) by (simp add: takeWhile_append1)
  next
    case False
    then have a: "\<forall>x \<in> set (take (buf_tail b) m). x \<noteq> NUL" by (auto simp: m(2))
    then have "takeWhile (\<lambda>x. x \<noteq> NUL) (take (buf_tail b) m) = take (buf_tail b) m" unfolding takeWhile_eq_all_conv by blast
    moreover have "takeWhile (\<lambda>x. x \<noteq> NUL) ?m = take (buf_tail b) m" by (rule takeWhile_append_stop[OF a]) simp
    ultimately show ?thesis unfolding m(2) by metis
  qed
  ultimately show ?thesis using that[of "b\<lparr>mem := Some ?m\<rparr>"] by (simp add: zlog_buf_cstr_def cstr_def)
qed

lemma with_path_ok:
  assumes r: "out_ready env ss t" "path_bufs_ok t" "set ps \<subseteq> ss" and f: "rule_path a ps"
  obtains t' orc1 where "with_path env g a t io orc = Some (-1, a, t', io, orc1)" "\<not> (orc = [] \<and> path_fits env t ps)"
  | t' orc1 where "with_path env g a t io orc = g (takeWhile (\<lambda>x. x \<noteq> NUL) (path_of env t ps)) a t' io orc1"
      "out_ready env ss t'" "\<And>ys. msg_of env t' ys = msg_of env t ys" "msg_buf t' = msg_buf t"
      "orc = [] \<and> path_fits env t ps \<longrightarrow> orc1 = []"
proof -
  let ?t = "t\<lparr>path_buf := zlog_buf_restart (path_buf t)\<rparr>" and ?sys = "env_sys env" and ?lv = "env_levels env"
  obtain l where l: "dynamic_specs a = Some l" "zc_arraylist_foreach l = map Some ps" using f unfolding rule_path_def by blast
  have p: "buf_inv (path_buf t)" "mem (path_buf t) \<noteq> None" "buf_inv (pre_path_buf ?t)" "mem (pre_path_buf ?t) \<noteq> None"
    using r(2) by (simp_all add: path_bufs_ok_def)
  have m: "buf_inv (path_buf ?t)" "mem (path_buf ?t) \<noteq> None" "a_text (buf_abs (path_buf ?t)) = Some []"
    "size_max (path_buf ?t) = size_max (path_buf t)" using p(1,2) restart_empty[of "path_buf t"] by auto
  have r': "gen_ready ?sys ?lv ss ?t" using r(1) by (simp add: gen_ready_def out_ready_def)
  from path.loop[OF r' r(3) m(1,2) p(3,4) m(3), of orc]
  obtain rc t1 orc1 where g: "gen_loop (zlog_spec_gen_path ?sys ?lv) (map Some ps) ?t orc = Some (rc, t1, orc1)"
    "rc = 0 \<or> rc = -1" "gen_ready ?sys ?lv ss t1" "buf_inv (path_buf t1)" "path_kept ?sys ?t t1"
    "rc = 0 \<longrightarrow> a_text (buf_abs (path_buf t1)) = Some (path_of env t ps)"
    "orc = [] \<and> path_fits env t ps \<longrightarrow> rc = 0 \<and> orc1 = []"
    using m(4) by (auto simp: path_of_def path_fits_def simp del: buf_abs_fields(4))
  show ?thesis
  proof (cases "rc = 0")
    case False
    then have "with_path env g a t io orc = Some (-1, a, t1, io, orc1)" using l g(1) by (simp add: with_path_def zlog_rule_gen_path_def)
    then show ?thesis using that(1) g(7) False by blast
  next
    case True
    obtain b where b: "zlog_buf_seal (path_buf t1) = Some b" "zlog_buf_cstr b = Some (takeWhile (\<lambda>x. x \<noteq> NUL) (path_of env t ps))"
      by (rule seal_cstr[OF g(4)]) (use g(6) True in auto)
    let ?t1 = "t1\<lparr>path_buf := b\<rparr>"
    have "with_path env g a t io orc = g (takeWhile (\<lambda>x. x \<noteq> NUL) (path_of env t ps)) a ?t1 io orc1"
      using l g(1) True b by (simp add: with_path_def zlog_rule_gen_path_def)
    moreover have k: "th_mdc t1 = th_mdc t" "same_event ?sys (th_event t) (th_event t1)" "pre_msg_buf t1 = pre_msg_buf t" "msg_buf t1 = msg_buf t"
      using g(5) by (simp_all add: path_kept_def)
    moreover have "out_ready env ss ?t1" using g(3) k(3,4) r(1) by (simp add: out_ready_def gen_ready_def msg_bufs_ok_def)
    moreover have "msg_of env ?t1 ys = msg_of env t ys" for ys
      using seg_text_same[OF k(2) HOL.refl HOL.refl] k(1,3) by (simp add: msg_of_def msg_text_def)
    ultimately show ?thesis using that(2)[of ?t1 orc1] g(7) by simp
  qed
qed

lemma file_single_ok:
  assumes b: "zlog_buf_bytes (msg_buf t) = Some m" and ok: "os_ok (io_os io)"
  shows "\<exists>rc a' os' orc'. file_single path a t io orc = Some (rc, a', t, io\<lparr>io_os := os'\<rparr>, orc') \<and> os_ok os' \<and> fds os' = fds (io_os io) \<and>
    same_test a a' \<and> (rc = 0 \<or> rc = -1) \<and> (rc = 0 \<longrightarrow> appended (io_os io) os' path m) \<and>
    (untouched (io_os io) os' path \<or> appended (io_os io) os' path m) \<and> (orc = [] \<longrightarrow> rc = 0 \<and> orc' = [])"
proof -
  obtain rc a' os' orc' where a: "append_file path m a (io_os io) orc = (rc, a', os', orc')" by (metis prod_cases4)
  from append_file_ok[OF a ok] show ?thesis using a b by (auto simp: file_single_def)
qed

text \<open>
  C28. A rule whose path has conversions writes to the file of the path as printed for this event (up to the first
  NUL): on success exactly the message has been appended to that file, made if need be, and no other file has
  changed; on failure the file is untouched, or newly made and empty, or holds the message (when only \<open>close\<close>
  failed). No descriptor is left open. When no call fails and path and message fit their buffers, the action succeeds.
\<close>

theorem dynamic_file_single_appends:
  assumes r: "out_ready env (set ps \<union> set ys) t" "path_bufs_ok t" "rule_path a ps" "rule_msg a ys" and ok: "os_ok (io_os io)"
    and p: "path = takeWhile (\<lambda>x. x \<noteq> NUL) (path_of env t ps)"
  shows "\<exists>rc a' t' os' orc'. zlog_rule_output_dynamic_file_single env a t io orc = Some (rc, a', t', io\<lparr>io_os := os'\<rparr>, orc') \<and>
    os_ok os' \<and> fds os' = fds (io_os io) \<and> (rc = 0 \<or> rc = -1) \<and> (rc = 0 \<longrightarrow> appended (io_os io) os' path (msg_of env t ys)) \<and>
    (untouched (io_os io) os' path \<or> appended (io_os io) os' path (msg_of env t ys)) \<and>
    (orc = [] \<and> path_fits env t ps \<and> msg_fits env t ys \<longrightarrow> rc = 0)"
proof (cases rule: with_path_ok[OF r(1,2) _ r(3), of "\<lambda>path. with_msg env (file_single path)" io orc])
  case 1
  then show ?case by blast
next
  case (2 t' orc1)
  have "io\<lparr>io_os := io_os io\<rparr> = io" by simp
  then show ?thesis using 2 ok
    by (intro exI[of _ "-1"] exI[of _ a] exI[of _ t'] exI[of _ "io_os io"] exI[of _ orc1])
       (auto simp: untouched_def zlog_rule_output_dynamic_file_single_def)
next
  case (3 t' orc1)
  have q: "zlog_rule_output_dynamic_file_single env a t io orc = with_msg env (file_single path) a t' io orc1"
    unfolding zlog_rule_output_dynamic_file_single_def p by (rule 3(1))
  show ?thesis
  proof (cases rule: with_msg_ok[OF 3(2) _ r(4), of "file_single path" io orc1])
    case 1
    then show ?case by blast
  next
    case (2 t2 orc2)
    have "io\<lparr>io_os := io_os io\<rparr> = io" by simp
    then show ?thesis using 2 ok 3 q
      by (intro exI[of _ "-1"] exI[of _ a] exI[of _ t2] exI[of _ "io_os io"] exI[of _ orc2])
         (auto simp: untouched_def msg_fits_def)
  next
    case (3 t2 orc2)
    from file_single_ok[OF 3(2) ok, of path a orc2] show ?thesis unfolding q 3(1) using 3 \<open>\<And>ys. msg_of env t' ys = msg_of env t ys\<close>
       \<open>orc = [] \<and> path_fits env t ps \<longrightarrow> orc1 = []\<close> by force
  qed
qed

section \<open>Examples\<close>

definition sample_path_specs :: "spec list" where
  "sample_path_specs = [(spec_zero ''a%c'')\<lparr>sp_len := 1, write_buf := W_str\<rparr>]"

lemma sample_out_ready: "out_ready sample_env (set sample_path_specs \<union> set sample_specs) sample_thread"
  "out_ready sample_env (set sample_specs) sample_thread" "path_bufs_ok sample_thread"
proof -
  let ?ss = "set sample_path_specs \<union> set sample_specs"
  have new: "zlog_event_new sample_sys 0 [] = (Some (the (fst (zlog_event_new sample_sys 0 []))), [])"
    by (simp add: zlog_event_new_def alloc_then_def calloc_ok_def)
  have e: "event_inv sample_sys ?ss sample_event" unfolding sample_event_def
    by (rule event_set_fmt_inv[OF event_new_inv[OF new]]) (auto simp: sample_specs_def sample_path_specs_def spec_zero_def is_time_def lens_ok_def)
  have "gen_ready sample_sys default_list ?ss sample_thread"
    using sample_gen_ready e
    by (auto simp: gen_ready_def caches_apart_def sample_thread_def sample_specs_def sample_path_specs_def spec_zero_def is_time_def spec_ready_def)
  moreover have "msg_bufs_ok sample_thread" using sample_buf by (simp add: msg_bufs_ok_def sample_thread_def)
  ultimately show "out_ready sample_env ?ss sample_thread" "out_ready sample_env (set sample_specs) sample_thread"
    using sample_gen_ready by (simp_all add: out_ready_def sample_env_def)
  show "path_bufs_ok sample_thread" using sample_buf by (simp add: path_bufs_ok_def sample_thread_def)
qed

lemma sample_msg: "msg_of sample_env sample_thread sample_specs = ''hello'' @ [CHR 0x0A]" "msg_fits sample_env sample_thread sample_specs"
  "path_of sample_env sample_thread sample_path_specs = ''a''" "path_fits sample_env sample_thread sample_path_specs"
proof -
  show m: "msg_of sample_env sample_thread sample_specs = ''hello'' @ [CHR 0x0A]"
    by (simp add: msg_of_def sample_env_def msg_text_def sample_specs_def seg_text_def spec_zero_def spec_text_def usrmsg_text_def sample_thread_def
        sample_event_def zlog_event_set_fmt_def)
  have b: "size_max sample_buf = 10" using sample_buf(3) by (simp add: buf_abs_def)
  show "msg_fits sample_env sample_thread sample_specs" using b m by (simp add: msg_fits_def sample_thread_def)
  show p: "path_of sample_env sample_thread sample_path_specs = ''a''"
    by (simp add: path_of_def sample_path_specs_def seg_text_def spec_zero_def spec_text_def)
  show "path_fits sample_env sample_thread sample_path_specs" using b p by (simp add: path_fits_def sample_thread_def)
qed

text \<open>The log file has been renamed to \<open>a.0\<close> and made anew by another program; the rule still has the old file open.\<close>

definition renamed_os :: os where
  "renamed_os = sample_os\<lparr>fds := [3 \<mapsto> 1]\<rparr>"

definition sample_rule :: rule where
  "sample_rule = rule_zero\<lparr>ru_format := Some sample_fmt, file_path := ''a'', static_fd := 3, static_ino := 1,
     dynamic_specs := Some \<lparr>al_array = map Some sample_path_specs, al_len = 1, al_size = 1, al_del = True\<rparr>\<rparr>"

lemma sample_rule_ok: "rule_msg sample_rule sample_specs" "rule_path sample_rule sample_path_specs" "os_ok renamed_os" "rule_fd_ok renamed_os sample_rule"
  by (auto simp: rule_msg_def rule_path_def sample_rule_def sample_fmt_def zc_arraylist_foreach_def sample_specs_def sample_path_specs_def
      os_ok_def renamed_os_def sample_os_def rule_fd_ok_def split: if_splits)

theorem static_file_single_appends_witness:
  "\<exists>a' t' io' orc'. zlog_rule_output_static_file_single sample_env sample_rule sample_thread \<lparr>io_os = renamed_os, io_rot = sample_rot\<rparr> [] =
      Some (0, a', t', io', orc') \<and> file_text (io_os io') ''a'' = Some (''new'' @ ''hello'' @ [CHR 0x0A])"
proof -
  let ?io = "\<lparr>io_os = renamed_os, io_rot = sample_rot\<rparr>"
  have ok: "os_ok (io_os ?io)" "rule_fd_ok (io_os ?io) sample_rule" using sample_rule_ok by simp_all
  have p: "file_path sample_rule = ''a''" "file_text renamed_os ''a'' = Some ''new''"
    by (simp_all add: sample_rule_def file_text_def renamed_os_def sample_os_def)
  from static_file_single_appends[OF sample_out_ready(2) sample_rule_ok(1) ok, of "[]"] sample_msg
  show ?thesis by (auto simp: p appended_def)
qed

theorem dynamic_file_single_appends_witness:
  "\<exists>a' t' os' orc'. zlog_rule_output_dynamic_file_single sample_env sample_rule sample_thread \<lparr>io_os = renamed_os, io_rot = sample_rot\<rparr> [] =
      Some (0, a', t', \<lparr>io_os = os', io_rot = sample_rot\<rparr>, orc') \<and> file_text os' ''a'' = Some (''new'' @ ''hello'' @ [CHR 0x0A])"
proof -
  let ?io = "\<lparr>io_os = renamed_os, io_rot = sample_rot\<rparr>"
  have ok: "os_ok (io_os ?io)" using sample_rule_ok by simp
  have p: "''a'' = takeWhile (\<lambda>x. x \<noteq> NUL) (path_of sample_env sample_thread sample_path_specs)" by (simp add: sample_msg(3))
  have q: "file_text renamed_os ''a'' = Some ''new''" by (simp add: file_text_def renamed_os_def sample_os_def)
  from dynamic_file_single_appends[OF sample_out_ready(1,3) sample_rule_ok(2,1) ok p, of "[]"] sample_msg
  show ?thesis by (auto simp: q appended_def)
qed

end
