(* ===== verification/Category.thy ===== *)
theory Category
  imports RuleOut
begin

text \<open>
  \<open>category.c\<close> and \<open>category_table.c\<close>: a category is a name with the list of the rules that fit it and the union of
  their level bitmaps. The rules belong to the configuration; a category points to them. A pointer to a rule is
  the number of the configuration and the place in its list of rules, so that a pointer into a configuration that
  was deleted is recognised. Categories are referred to by the user, so the table maps names to pointers
  into a store of categories.
\<close>

unbundle bit_operations_syntax

section \<open>Categories\<close>

type_synonym rule_ptr = "nat \<times> nat"

record category =
  ca_name :: string
  ca_bitmap :: "8 word list"
  ca_bitmap_backup :: "8 word list"
  fit_rules :: "rule_ptr arraylist option"
  fit_rules_backup :: "rule_ptr arraylist option"

definition zlog_cateogry_overlap_bitmap :: "category \<Rightarrow> rule \<Rightarrow> category" where
  "zlog_cateogry_overlap_bitmap c a_rule = c\<lparr>ca_bitmap := map2 (OR) (ca_bitmap c) (level_bitmap a_rule)\<rparr>"

definition add_fit :: "category \<Rightarrow> rule_ptr \<Rightarrow> rule \<Rightarrow> outcomes \<Rightarrow> (int \<times> category \<times> outcomes) option" where
  "add_fit c p a_rule orc = do {
     l \<leftarrow> fit_rules c;
     (rc, l1, _, orc1) \<leftarrow> zc_arraylist_add l (Some p) orc;
     let c1 = c\<lparr>fit_rules := Some l1\<rparr>;
     if rc \<noteq> 0 then Some (-1, c1, orc1) else Some (0, zlog_cateogry_overlap_bitmap c1 a_rule, orc1) }"

text \<open>The loop over the rules of the configuration number \<open>gen\<close>, from place \<open>i\<close> on: return code, category, number of
  fitting rules, the last wastebin rule.\<close>

fun obtain_loop :: "nat \<Rightarrow> rule option list \<Rightarrow> nat \<Rightarrow> category \<Rightarrow> nat \<Rightarrow> (rule_ptr \<times> rule) option \<Rightarrow> outcomes \<Rightarrow>
    (int \<times> category \<times> nat \<times> (rule_ptr \<times> rule) option \<times> outcomes) option" where
  "obtain_loop gen [] i c cnt w orc = Some (0, c, cnt, w, orc)"
| "obtain_loop gen (x # xs) i c cnt w orc = do {
     a_rule \<leftarrow> x;
     fit \<leftarrow> zlog_rule_match_category a_rule (ca_name c);
     (rc, c1, orc1) \<leftarrow> (if fit \<noteq> 0 then add_fit c (gen, i) a_rule orc else Some (0, c, orc));
     if rc \<noteq> 0 then Some (-1, c1, cnt, w, orc1)
     else obtain_loop gen xs (i + 1) c1 (if fit \<noteq> 0 then cnt + 1 else cnt)
            (if zlog_rule_is_wastebin a_rule \<noteq> 0 then Some ((gen, i), a_rule) else w) orc1 }"

definition zlog_category_obtain_rules :: "category \<Rightarrow> nat \<Rightarrow> rule arraylist \<Rightarrow> outcomes \<Rightarrow> (int \<times> category \<times> outcomes) option" where
  "zlog_category_obtain_rules c gen rules orc =
     (let c1 = c\<lparr>ca_bitmap := replicate 32 0\<rparr> in
      case zc_arraylist_new False orc of
        (None, orc1) \<Rightarrow> Some (-1, c1\<lparr>fit_rules := None\<rparr>, orc1)
      | (Some l, orc1) \<Rightarrow> do {
          (rc, c2, cnt, w, orc2) \<leftarrow> obtain_loop gen (zc_arraylist_foreach rules) 0 (c1\<lparr>fit_rules := Some l\<rparr>) 0 None orc1;
          if rc \<noteq> 0 then Some (-1, c2\<lparr>fit_rules := None\<rparr>, orc2)
          else if cnt = 0 then
            (case w of None \<Rightarrow> Some (0, c2, orc2)
             | Some (p, a_rule) \<Rightarrow> do {
                 (rc2, c3, orc3) \<leftarrow> add_fit c2 p a_rule orc2;
                 if rc2 \<noteq> 0 then Some (-1, c3\<lparr>fit_rules := None\<rparr>, orc3) else Some (0, c3, orc3) })
          else Some (0, c2, orc2) })"

definition zlog_category_new :: "string \<Rightarrow> nat \<Rightarrow> rule arraylist \<Rightarrow> outcomes \<Rightarrow> (category option \<times> outcomes) option" where
  "zlog_category_new name gen rules orc =
     (if MAXLEN_PATH < length name then Some (None, orc)
      else let (ok, orc1) = ask orc in
        if \<not> ok then Some (None, orc1)
        else do {
          (rc, c, orc2) \<leftarrow> zlog_category_obtain_rules \<lparr>ca_name = name, ca_bitmap = replicate 32 0, ca_bitmap_backup = replicate 32 0,
             fit_rules = None, fit_rules_backup = None\<rparr> gen rules orc1;
          Some (if rc \<noteq> 0 then None else Some c, orc2) })"

definition zlog_category_update_rules :: "category \<Rightarrow> nat \<Rightarrow> rule arraylist \<Rightarrow> outcomes \<Rightarrow> (int \<times> category \<times> outcomes) option" where
  "zlog_category_update_rules c gen rules orc = do {
     (rc, c1, orc1) \<leftarrow> zlog_category_obtain_rules
        (c\<lparr>fit_rules_backup := fit_rules c, fit_rules := None, ca_bitmap_backup := ca_bitmap c\<rparr>) gen rules orc;
     if rc \<noteq> 0 then Some (-1, c1\<lparr>fit_rules := None\<rparr>, orc1) else Some (0, c1, orc1) }"

definition zlog_category_commit_rules :: "category \<Rightarrow> category" where
  "zlog_category_commit_rules c =
     (if fit_rules_backup c = None then c
      else c\<lparr>fit_rules_backup := None, ca_bitmap_backup := replicate 32 0\<rparr>)"

definition zlog_category_rollback_rules :: "category \<Rightarrow> category" where
  "zlog_category_rollback_rules c =
     (if fit_rules_backup c = None then c
      else c\<lparr>fit_rules := fit_rules_backup c, fit_rules_backup := None,
             ca_bitmap := ca_bitmap_backup c, ca_bitmap_backup := replicate 32 0\<rparr>)"

text \<open>The rules of the configuration in force: its number and its list. A pointer into another configuration is dangling.\<close>

definition deref_rule :: "nat \<Rightarrow> rule arraylist \<Rightarrow> rule_ptr \<Rightarrow> rule option" where
  "deref_rule gen rules p =
     (if fst p \<noteq> gen then None else do { x \<leftarrow> zc_arraylist_get rules (int (snd p)); x })"

definition store_rule :: "rule arraylist \<Rightarrow> rule_ptr \<Rightarrow> rule \<Rightarrow> rule arraylist" where
  "store_rule rules p a_rule = rules\<lparr>al_array := (al_array rules)[snd p := Some a_rule]\<rparr>"

text \<open>All fitting rules are run; the return code is that of the last one.\<close>

fun output_loop :: "'tm env \<Rightarrow> nat \<Rightarrow> rule_ptr option list \<Rightarrow> int \<Rightarrow> rule arraylist \<Rightarrow> 'tm thread \<Rightarrow> io \<Rightarrow> outcomes \<Rightarrow>
    (int \<times> rule arraylist \<times> 'tm thread \<times> io \<times> outcomes) option" where
  "output_loop env gen [] rc rules t io orc = Some (rc, rules, t, io, orc)"
| "output_loop env gen (x # xs) rc rules t io orc = do {
     p \<leftarrow> x;
     a_rule \<leftarrow> deref_rule gen rules p;
     (rc1, a1, t1, io1, orc1) \<leftarrow> zlog_rule_output env a_rule t io orc;
     output_loop env gen xs rc1 (store_rule rules p a1) t1 io1 orc1 }"

definition zlog_category_output :: "'tm env \<Rightarrow> category \<Rightarrow> nat \<Rightarrow> rule arraylist \<Rightarrow> 'tm thread \<Rightarrow> io \<Rightarrow> outcomes \<Rightarrow>
    (int \<times> rule arraylist \<times> 'tm thread \<times> io \<times> outcomes) option" where
  "zlog_category_output env c gen rules t io orc = do {
     l \<leftarrow> fit_rules c;
     output_loop env gen (zc_arraylist_foreach l) 0 rules t io orc }"

text \<open>The macro on a category that is not NULL.\<close>

definition zlog_category_needless_level :: "category \<Rightarrow> int \<Rightarrow> bool option" where
  "zlog_category_needless_level c lv = map_option Not (level_bit (ca_bitmap c) lv)"

section \<open>The table\<close>

record category_table =
  ct_table :: "(string, nat) hashtable"
  ct_store :: "nat \<Rightarrow> category option"
  ct_next :: nat

definition zlog_category_del :: "(nat \<Rightarrow> category option) \<Rightarrow> nat \<Rightarrow> nat \<Rightarrow> category option" where
  "zlog_category_del st p = st(p := None)"

definition zlog_category_table_new :: "(nat \<Rightarrow> category option) \<Rightarrow> nat \<Rightarrow> outcomes \<Rightarrow> category_table option \<times> outcomes" where
  "zlog_category_table_new st nxt orc =
     (case zc_hashtable_new 20 zc_hashtable_str_hash zc_hashtable_str_equal False True orc of
        (None, orc1) \<Rightarrow> (None, orc1)
      | (Some t, orc1) \<Rightarrow> (Some \<lparr>ct_table = t, ct_store = st, ct_next = nxt\<rparr>, orc1))"

text \<open>The store that is left.\<close>

definition zlog_category_table_del :: "category_table \<Rightarrow> (nat \<Rightarrow> category option) option" where
  "zlog_category_table_del ct = do {
     (_, freed) \<leftarrow> zc_hashtable_del (ct_table ct);
     Some (foldl zlog_category_del (ct_store ct) (map e_value freed)) }"

text \<open>The categories in the order of \<open>zc_hashtable_foreach\<close>.\<close>

definition table_cats :: "category_table \<Rightarrow> nat list option" where
  "table_cats ct = do {
     as \<leftarrow> zc_hashtable_foreach (ct_table ct);
     those (map (\<lambda>a. map_option e_value (entries (ct_table ct) a)) as) }"

fun update_loop :: "nat \<Rightarrow> rule arraylist \<Rightarrow> nat list \<Rightarrow> (nat \<Rightarrow> category option) \<Rightarrow> outcomes \<Rightarrow>
    (int \<times> (nat \<Rightarrow> category option) \<times> outcomes) option" where
  "update_loop gen rules [] st orc = Some (0, st, orc)"
| "update_loop gen rules (p # ps) st orc = do {
     c \<leftarrow> st p;
     (rc, c1, orc1) \<leftarrow> zlog_category_update_rules c gen rules orc;
     if rc \<noteq> 0 then Some (-1, st(p \<mapsto> c1), orc1) else update_loop gen rules ps (st(p \<mapsto> c1)) orc1 }"

definition zlog_category_table_update_rules :: "category_table \<Rightarrow> nat \<Rightarrow> rule arraylist \<Rightarrow> outcomes \<Rightarrow>
    (int \<times> category_table \<times> outcomes) option" where
  "zlog_category_table_update_rules ct gen rules orc = do {
     ps \<leftarrow> table_cats ct;
     (rc, st, orc1) \<leftarrow> update_loop gen rules ps (ct_store ct) orc;
     Some (rc, ct\<lparr>ct_store := st\<rparr>, orc1) }"

fun each_cat :: "(category \<Rightarrow> category) \<Rightarrow> nat list \<Rightarrow> (nat \<Rightarrow> category option) \<Rightarrow> (nat \<Rightarrow> category option) option" where
  "each_cat f [] st = Some st"
| "each_cat f (p # ps) st = do { c \<leftarrow> st p; each_cat f ps (st(p \<mapsto> f c)) }"

definition zlog_category_table_commit_rules :: "category_table \<Rightarrow> category_table option" where
  "zlog_category_table_commit_rules ct = do {
     ps \<leftarrow> table_cats ct;
     st \<leftarrow> each_cat zlog_category_commit_rules ps (ct_store ct);
     Some (ct\<lparr>ct_store := st\<rparr>) }"

definition zlog_category_table_rollback_rules :: "category_table \<Rightarrow> category_table option" where
  "zlog_category_table_rollback_rules ct = do {
     ps \<leftarrow> table_cats ct;
     st \<leftarrow> each_cat zlog_category_rollback_rules ps (ct_store ct);
     Some (ct\<lparr>ct_store := st\<rparr>) }"

text \<open>The pointer of the category, \<open>None\<close> for NULL. A category that could not be put into the table is freed at once.\<close>

definition zlog_category_table_fetch_category :: "category_table \<Rightarrow> string \<Rightarrow> nat \<Rightarrow> rule arraylist \<Rightarrow> outcomes \<Rightarrow>
    (nat option \<times> category_table \<times> outcomes) option" where
  "zlog_category_table_fetch_category ct cname gen rules orc = do {
     r \<leftarrow> zc_hashtable_get (ct_table ct) cname;
     case r of Some p \<Rightarrow> Some (Some p, ct, orc)
     | None \<Rightarrow> do {
         (c, orc1) \<leftarrow> zlog_category_new cname gen rules orc;
         case c of None \<Rightarrow> Some (None, ct, orc1)
         | Some a_category \<Rightarrow> do {
             let p = ct_next ct;
             (rc, t, _, orc2) \<leftarrow> zc_hashtable_put (ct_table ct) (ca_name a_category) p orc1;
             if rc \<noteq> 0 then Some (None, ct\<lparr>ct_table := t\<rparr>, orc2)
             else Some (Some p, ct\<lparr>ct_table := t, ct_store := (ct_store ct)(p \<mapsto> a_category), ct_next := p + 1\<rparr>, orc2) } } }"

end
