(* ===== verification/CategoryRules.thy ===== *)
theory CategoryRules
  imports Category
begin

text \<open>
  Which rules a category has after \<open>zlog_category_obtain_rules\<close>, that its bitmap is the union of their levels, and that
  the test of the bitmap before an event is made, \<open>zlog_category_needless_level\<close>, skips only events no rule would write.
\<close>

section \<open>Which rules a category has\<close>

definition fits :: "string \<Rightarrow> rule \<Rightarrow> bool" where
  "fits name a \<longleftrightarrow> zlog_rule_match_category a name = Some 1"

text \<open>The rules that fit by their places; when there is none, the last wastebin rule.\<close>

definition fitting :: "string \<Rightarrow> rule list \<Rightarrow> (nat \<times> rule) list" where
  "fitting name rs =
     (let m = List.filter (fits name \<circ> snd) (enumerate 0 rs); w = List.filter (\<lambda>x. ru_category (snd x) = ''!'') (enumerate 0 rs) in
      if m \<noteq> [] then m else if w = [] then [] else [last w])"

definition rules_ok :: "rule arraylist \<Rightarrow> rule list \<Rightarrow> bool" where
  "rules_ok rules rs \<longleftrightarrow> al_inv rules \<and> zc_arraylist_foreach rules = map Some rs \<and> (\<forall>a \<in> set rs. rule_ok a \<and> ru_category a \<noteq> [])"

text \<open>A category whose rules are \<open>xs\<close> (of the configuration \<open>gen\<close>) and whose bitmap is the union of theirs.\<close>

definition has_rules :: "nat \<Rightarrow> category \<Rightarrow> (nat \<times> rule) list \<Rightarrow> bool" where
  "has_rules gen c xs \<longleftrightarrow> (\<exists>l. fit_rules c = Some l \<and> al_inv l \<and> zc_arraylist_foreach l = map (\<lambda>x. Some (gen, fst x)) xs) \<and>
     length (ca_bitmap c) = 32 \<and>
     (\<forall>v. 0 \<le> v \<and> v < 256 \<longrightarrow> level_bit (ca_bitmap c) v = Some (\<exists>x \<in> set xs. level_fits (compare_char (snd x)) (ru_level (snd x)) v))"

definition same_cat :: "category \<Rightarrow> category \<Rightarrow> bool" where
  "same_cat c c' \<longleftrightarrow> ca_name c' = ca_name c \<and> fit_rules_backup c' = fit_rules_backup c \<and> ca_bitmap_backup c' = ca_bitmap_backup c"

lemma same_cat_simps [simp]: "same_cat c c" "same_cat c (c'\<lparr>ca_bitmap := b\<rparr>) = same_cat c c'" "same_cat c (c'\<lparr>fit_rules := r\<rparr>) = same_cat c c'"
  "same_cat (c\<lparr>ca_bitmap := b\<rparr>) c' = same_cat c c'" "same_cat (c\<lparr>fit_rules := r\<rparr>) c' = same_cat c c'"
  by (simp_all add: same_cat_def)

lemma same_cat_trans: "same_cat a b \<Longrightarrow> same_cat b c \<Longrightarrow> same_cat a c"
  by (simp add: same_cat_def)

lemma level_bit_or:
  assumes "length x = 32" "length y = 32" "0 \<le> v" "v < 256" "level_bit x v = Some a" "level_bit y v = Some b"
  shows "level_bit (map2 (OR) x y) v = Some (a \<or> b)"
proof -
  obtain i j where v: "v = int (8 * i + j)" "i < 32" "j < 8" "v sdiv 8 = int i" "v smod 8 = int j" by (rule level_split[OF assms(3,4)])
  have "level_bit z v = Some (bit (z ! i) (7 - j))" if "length z = 32" for z
    by (rule level_bit_place[OF v(4,5)]) (use v that in simp_all)
  then show ?thesis using assms(1,2,5,6) v(2) by (simp add: bit_or_iff)
qed

lemma add_fit_ok:
  assumes h: "has_rules gen c xs" and a: "rule_ok a"
  obtains rc c' orc' where "add_fit c (gen, i) a orc = Some (rc, c', orc')" "rc = 0 \<or> rc = -1" "same_cat c c'"
    "rc = 0 \<longrightarrow> has_rules gen c' (xs @ [(i, a)])" "orc = [] \<longrightarrow> rc = 0 \<and> orc' = []"
proof -
  obtain l where l: "fit_rules c = Some l" "al_inv l" "zc_arraylist_foreach l = map (\<lambda>x. Some (gen, fst x)) xs"
    using h unfolding has_rules_def by blast
  obtain rc l' orc' where z: "zc_arraylist_add l (Some (gen, i)) orc = Some (rc, l', [], orc')" "al_inv l'"
    "rc \<noteq> 0 \<longrightarrow> rc = -1 \<and> l' = l" "rc = 0 \<longrightarrow> zc_arraylist_foreach l' = zc_arraylist_foreach l @ [Some (gen, i)]"
    by (rule zc_arraylist_add_spec[OF l(2)])
  have nil: "orc = [] \<longrightarrow> rc = 0 \<and> orc' = []"
    using z(1) by (auto simp: zc_arraylist_add_def zc_arraylist_set_def zc_arraylist_expand_inner_def Let_def bind_eq_Some_conv split: if_splits)
  let ?c = "c\<lparr>fit_rules := Some l'\<rparr>"
  have bits: "length (ca_bitmap c) = 32" "length (level_bitmap a) = 32"
    "\<And>v. 0 \<le> v \<Longrightarrow> v < 256 \<Longrightarrow> level_bit (ca_bitmap c) v = Some (\<exists>x \<in> set xs. level_fits (compare_char (snd x)) (ru_level (snd x)) v)"
    "\<And>v. 0 \<le> v \<Longrightarrow> v < 256 \<Longrightarrow> level_bit (level_bitmap a) v = Some (level_fits (compare_char a) (ru_level a) v)"
    using h a by (auto simp: has_rules_def rule_ok_def)
  show ?thesis
  proof (cases "rc = 0")
    case True
    have "add_fit c (gen, i) a orc = Some (0, zlog_cateogry_overlap_bitmap ?c a, orc')" using l(1) z(1) True by (simp add: add_fit_def)
    moreover have "has_rules gen (zlog_cateogry_overlap_bitmap ?c a) (xs @ [(i, a)])"
      using level_bit_or[OF bits(1,2)] bits z(2,4) True l(3)
      by (auto simp: has_rules_def zlog_cateogry_overlap_bitmap_def)
    ultimately show ?thesis using that nil True by (force simp: zlog_cateogry_overlap_bitmap_def)
  next
    case False
    then have "add_fit c (gen, i) a orc = Some (-1, ?c, orc')" using l(1) z(1) by (simp add: add_fit_def)
    then show ?thesis using that nil False by force
  qed
qed

lemma match_0_1: "zlog_rule_match_category a name = Some f \<Longrightarrow> f = (if fits name a then 1 else 0)"
  by (auto simp: fits_def zlog_rule_match_category_def Let_def split: if_splits)

lemma match_defined: "ru_category a \<noteq> [] \<Longrightarrow> \<exists>f. zlog_rule_match_category a name = Some f"
  by (auto simp: zlog_rule_match_category_def Let_def)

lemma obtain_loop_ok:
  "\<forall>a \<in> set rs. rule_ok a \<and> ru_category a \<noteq> [] \<Longrightarrow> has_rules gen c xs \<Longrightarrow>
   \<exists>rc c' n w' orc'. obtain_loop gen (map Some rs) i c cnt w orc = Some (rc, c', n, w', orc') \<and> (rc = 0 \<or> rc = -1) \<and> same_cat c c' \<and>
     (rc = 0 \<longrightarrow> has_rules gen c' (xs @ List.filter (fits (ca_name c) \<circ> snd) (enumerate i rs)) \<and>
        n = cnt + length (List.filter (fits (ca_name c) \<circ> snd) (enumerate i rs)) \<and>
        w' = (let ws = List.filter (\<lambda>x. ru_category (snd x) = ''!'') (enumerate i rs) in
              if ws = [] then w else Some ((gen, fst (last ws)), snd (last ws)))) \<and>
     (orc = [] \<longrightarrow> rc = 0 \<and> orc' = [])"
proof (induction rs arbitrary: c xs i cnt w orc)
  case Nil
  then show ?case by simp
next
  case (Cons a rs)
  let ?w = "if zlog_rule_is_wastebin a \<noteq> 0 then Some ((gen, i), a) else w"
  have a: "rule_ok a" "ru_category a \<noteq> []" and rs: "\<forall>a \<in> set rs. rule_ok a \<and> ru_category a \<noteq> []" using Cons.prems(1) by auto
  obtain f where f0: "zlog_rule_match_category a (ca_name c) = Some f" using match_defined[OF a(2)] by blast
  have f: "f = (if fits (ca_name c) a then 1 else 0)" by (rule match_0_1[OF f0])
  obtain rc1 c1 orc1 where s: "(if f \<noteq> 0 then add_fit c (gen, i) a orc else Some (0, c, orc)) = Some (rc1, c1, orc1)" "rc1 = 0 \<or> rc1 = -1"
    "same_cat c c1" "rc1 = 0 \<longrightarrow> has_rules gen c1 (xs @ (if fits (ca_name c) a then [(i, a)] else []))" "orc = [] \<longrightarrow> rc1 = 0 \<and> orc1 = []"
  proof (cases "fits (ca_name c) a")
    case True
    obtain rc1 c1 orc1 where "add_fit c (gen, i) a orc = Some (rc1, c1, orc1)" "rc1 = 0 \<or> rc1 = -1" "same_cat c c1"
      "rc1 = 0 \<longrightarrow> has_rules gen c1 (xs @ [(i, a)])" "orc = [] \<longrightarrow> rc1 = 0 \<and> orc1 = []"
      by (rule add_fit_ok[OF Cons.prems(2) a(1)])
    then show ?thesis using that f True by simp
  next
    case False
    then show ?thesis using that[of 0 c orc] f Cons.prems(2) by simp
  qed
  show ?case
  proof (cases "rc1 = 0")
    case False
    then show ?thesis using f0 s by simp
  next
    case True
    have nm: "ca_name c1 = ca_name c" using s(3) by (simp add: same_cat_def)
    let ?cnt = "if f \<noteq> 0 then cnt + 1 else cnt"
    from Cons.IH[OF rs s(4)[rule_format, OF True], of "i + 1" ?cnt ?w orc1]
    obtain rc c' n w' orc' where h: "obtain_loop gen (map Some rs) (i + 1) c1 ?cnt ?w orc1 = Some (rc, c', n, w', orc')" "rc = 0 \<or> rc = -1" "same_cat c1 c'"
      "rc = 0 \<longrightarrow> has_rules gen c' ((xs @ (if fits (ca_name c) a then [(i, a)] else [])) @ List.filter (fits (ca_name c) \<circ> snd) (enumerate (i + 1) rs)) \<and>
        n = ?cnt + length (List.filter (fits (ca_name c) \<circ> snd) (enumerate (i + 1) rs)) \<and>
        w' = (let ws = List.filter (\<lambda>x. ru_category (snd x) = ''!'') (enumerate (i + 1) rs) in
              if ws = [] then ?w else Some ((gen, fst (last ws)), snd (last ws)))"
      "orc1 = [] \<longrightarrow> rc = 0 \<and> orc' = []" unfolding nm by blast
    have "obtain_loop gen (map Some (a # rs)) i c cnt w orc = Some (rc, c', n, w', orc')" using f0 s(1) True h(1) by simp
    moreover have "same_cat c c'" by (rule same_cat_trans[OF s(3) h(3)])
    moreover have "orc = [] \<longrightarrow> rc = 0 \<and> orc' = []" using h(5) s(5) by simp
    moreover have "rc = 0 \<longrightarrow> has_rules gen c' (xs @ List.filter (fits (ca_name c) \<circ> snd) (enumerate i (a # rs)))"
      using h(4) by (simp add: comp_def split: if_splits)
    moreover have "rc = 0 \<longrightarrow> n = cnt + length (List.filter (fits (ca_name c) \<circ> snd) (enumerate i (a # rs)))"
      using h(4) f by (simp add: comp_def split: if_splits)
    moreover have "rc = 0 \<longrightarrow> w' = (let ws = List.filter (\<lambda>x. ru_category (snd x) = ''!'') (enumerate i (a # rs)) in
              if ws = [] then w else Some ((gen, fst (last ws)), snd (last ws)))"
      using h(4) by (simp add: zlog_rule_is_wastebin_def Let_def split: if_splits)
    ultimately show ?thesis using h(2) by blast
  qed
qed

lemma obtain_rules_ok:
  assumes "rules_ok rules rs"
  shows "\<exists>rc c' orc'. zlog_category_obtain_rules c gen rules orc = Some (rc, c', orc') \<and> (rc = 0 \<or> rc = -1) \<and> same_cat c c' \<and>
    (if rc = 0 then has_rules gen c' (fitting (ca_name c) rs) else fit_rules c' = None) \<and> (orc = [] \<longrightarrow> rc = 0 \<and> orc' = [])"
proof -
  let ?c1 = "c\<lparr>ca_bitmap := replicate 32 0\<rparr>"
  have rs: "zc_arraylist_foreach rules = map Some rs" "\<forall>a \<in> set rs. rule_ok a \<and> ru_category a \<noteq> []" using assms by (auto simp: rules_ok_def)
  obtain lo :: "rule_ptr arraylist option" and orc1 where l: "zc_arraylist_new False orc = (lo, orc1)" by fastforce
  have nil: "orc = [] \<longrightarrow> lo \<noteq> None \<and> orc1 = []" using l by (auto simp: zc_arraylist_new_def)
  show ?thesis
  proof (cases lo)
    case None
    then have "zlog_category_obtain_rules c gen rules orc = Some (-1, ?c1\<lparr>fit_rules := None\<rparr>, orc1)" "orc \<noteq> []"
      using l nil by (auto simp: zlog_category_obtain_rules_def Let_def)
    then show ?thesis by simp
  next
    case (Some l1)
    let ?c2 = "?c1\<lparr>fit_rules := Some l1\<rparr>"
    have "has_rules gen ?c2 []" using zc_arraylist_new_inv[OF l[unfolded Some]] level_bit_replicate(1) by (simp add: has_rules_def)
    from obtain_loop_ok[OF rs(2) this, of 0 0 None orc1]
    obtain rc c3 n w orc2 where o: "obtain_loop gen (map Some rs) 0 ?c2 0 None orc1 = Some (rc, c3, n, w, orc2)" "rc = 0 \<or> rc = -1" "same_cat ?c2 c3"
      "rc = 0 \<longrightarrow> has_rules gen c3 (List.filter (fits (ca_name c) \<circ> snd) (enumerate 0 rs)) \<and>
        n = length (List.filter (fits (ca_name c) \<circ> snd) (enumerate 0 rs)) \<and>
        w = (let ws = List.filter (\<lambda>x. ru_category (snd x) = ''!'') (enumerate 0 rs) in
              if ws = [] then None else Some ((gen, fst (last ws)), snd (last ws)))"
      "orc1 = [] \<longrightarrow> rc = 0 \<and> orc2 = []" by auto
    have sc: "same_cat c c3" using o(3) by simp
    let ?ws = "List.filter (\<lambda>x. ru_category (snd x) = ''!'') (enumerate 0 rs)"
    consider (fail) "rc = -1" | (some) "rc = 0" "n \<noteq> 0" | (none) "rc = 0" "n = 0" "?ws = []" | (bin) "rc = 0" "n = 0" "?ws \<noteq> []" using o(2) by blast
    then show ?thesis
    proof cases
      case fail
      then show ?thesis using l Some nil o(1,5) rs(1) sc by (simp add: zlog_category_obtain_rules_def)
    next
      case some
      then have "has_rules gen c3 (fitting (ca_name c) rs)" using o(4) by (simp add: fitting_def Let_def)
      then show ?thesis using l Some nil o(1,5) rs(1) some sc by (simp add: zlog_category_obtain_rules_def)
    next
      case none
      then have "has_rules gen c3 (fitting (ca_name c) rs)" "w = None" using o(4) by (simp_all add: fitting_def Let_def)
      then show ?thesis using l Some nil o(1,5) rs(1) none sc by (simp add: zlog_category_obtain_rules_def)
    next
      case bin
      have w: "w = Some ((gen, fst (last ?ws)), snd (last ?ws))" using o(4) bin by (simp add: Let_def)
      have fi: "fitting (ca_name c) rs = [last ?ws]" using o(4) bin by (simp add: fitting_def Let_def)
      have "last ?ws \<in> set (enumerate 0 rs)" using last_in_set[OF bin(3)] by simp
      then have "fst (last ?ws) < length rs" "rs ! fst (last ?ws) = snd (last ?ws)" by (simp_all add: in_set_enumerate_eq)
      then have "snd (last ?ws) \<in> set rs" by (metis nth_mem)
      then have a: "rule_ok (snd (last ?ws))" using rs(2) by blast
      have h: "has_rules gen c3 []" using o(4) bin by auto
      obtain rc2 c4 orc4 where z: "add_fit c3 (gen, fst (last ?ws)) (snd (last ?ws)) orc2 = Some (rc2, c4, orc4)" "rc2 = 0 \<or> rc2 = -1" "same_cat c3 c4"
        "rc2 = 0 \<longrightarrow> has_rules gen c4 ([] @ [(fst (last ?ws), snd (last ?ws))])" "orc2 = [] \<longrightarrow> rc2 = 0 \<and> orc4 = []"
        by (rule add_fit_ok[OF h a])
      have s: "same_cat c c4" by (rule same_cat_trans[OF sc z(3)])
      have e: "zlog_category_obtain_rules c gen rules orc = (if rc2 \<noteq> 0 then Some (-1, c4\<lparr>fit_rules := None\<rparr>, orc4) else Some (0, c4, orc4))"
        using l Some o(1) rs(1) bin w z(1) by (simp add: zlog_category_obtain_rules_def)
      show ?thesis
      proof (cases "rc2 = 0")
        case True
        then show ?thesis using e s z(4,5) o(5) nil fi by simp
      next
        case False
        then show ?thesis using e s z(5) o(5) nil by simp
      qed
    qed
  qed
qed

text \<open>No reload is under way for the category.\<close>

definition settled :: "category \<Rightarrow> bool" where
  "settled c \<longleftrightarrow> fit_rules c \<noteq> None \<and> fit_rules_backup c = None \<and> ca_bitmap_backup c = replicate 32 0"

lemma category_new_ok:
  assumes "rules_ok rules rs"
  shows "\<exists>c orc'. zlog_category_new name gen rules orc = Some (c, orc') \<and> (c = None \<longrightarrow> MAXLEN_PATH < length name \<or> orc \<noteq> []) \<and>
    (orc = [] \<longrightarrow> orc' = []) \<and> (\<forall>a. c = Some a \<longrightarrow> ca_name a = name \<and> settled a \<and> has_rules gen a (fitting name rs))"
proof (cases "MAXLEN_PATH < length name")
  case True
  then show ?thesis by (simp add: zlog_category_new_def)
next
  case False
  obtain ok orc1 where ask: "ask orc = (ok, orc1)" by fastforce
  let ?c = "\<lparr>ca_name = name, ca_bitmap = replicate 32 0, ca_bitmap_backup = replicate 32 0, fit_rules = None, fit_rules_backup = None\<rparr>"
  obtain rc a orc2 where o: "zlog_category_obtain_rules ?c gen rules orc1 = Some (rc, a, orc2)" "rc = 0 \<or> rc = -1" "same_cat ?c a"
    "if rc = 0 then has_rules gen a (fitting name rs) else fit_rules a = None" "orc1 = [] \<longrightarrow> rc = 0 \<and> orc2 = []"
    using obtain_rules_ok[OF assms, of ?c gen orc1] by auto
  have nil: "orc = [] \<longrightarrow> ok \<and> rc = 0 \<and> orc1 = [] \<and> orc2 = []" using ask o(5) by auto
  show ?thesis
  proof (cases "ok \<and> rc = 0")
    case True
    then have h: "has_rules gen a (fitting name rs)" using o(4) by simp
    have "settled a" using h o(3) by (auto simp: settled_def same_cat_def has_rules_def)
    moreover have "zlog_category_new name gen rules orc = Some (Some a, orc2)" "ca_name a = name"
      using False True ask o(1,3) by (simp_all add: zlog_category_new_def same_cat_def)
    ultimately show ?thesis using h nil by simp
  next
    case no: False
    then show ?thesis using False no nil ask o(1) by (cases ok) (auto simp: zlog_category_new_def)
  qed
qed

text \<open>What the macro answers, and that it answers for the rules.\<close>

lemma has_rules_needless:
  assumes "has_rules gen c xs" "0 \<le> v" "v < 256"
  shows "zlog_category_needless_level c v = Some (\<not> (\<exists>x \<in> set xs. level_fits (compare_char (snd x)) (ru_level (snd x)) v))"
  using assms by (simp add: has_rules_def zlog_category_needless_level_def)

lemma output_loop_skips:
  "(\<And>x. x \<in> set xs \<Longrightarrow> deref_rule gen rules (gen, fst x) = Some (snd x) \<and> \<not> level_fits (compare_char (snd x)) (ru_level (snd x)) v) \<Longrightarrow>
   ev_level (th_event t) = v \<Longrightarrow>
   output_loop env gen (map (\<lambda>x. Some (gen, fst x)) xs) 0 rules t io orc = Some (0, rules, t, io, orc)"
proof (induction xs)
  case (Cons x xs)
  have d: "deref_rule gen rules (gen, fst x) = Some (snd x)" and n: "\<not> level_fits (compare_char (snd x)) (ru_level (snd x)) v" using Cons.prems(1)[of x] by auto
  have "zlog_rule_output env (snd x) t io orc = Some (0, snd x, t, io, orc)" using n Cons.prems(2) by (auto simp: zlog_rule_output_def level_fits_def Let_def)
  moreover have "store_rule rules (gen, fst x) (snd x) = rules"
    using d by (auto simp: store_rule_def deref_rule_def zc_arraylist_get_def arr_get_def bind_eq_Some_conv list_update_same_conv split: if_splits)
  ultimately show ?case using Cons d by simp
qed simp

text \<open>A rule of level INFO and higher for category \<open>a\<close>, alone in a configuration.\<close>

definition info_rule :: rule where
  "info_rule = rule_zero\<lparr>ru_category := ''a'', compare_char := CHR ''.'', ru_level := 40,
     level_bitmap := replicate 5 0 @ replicate 27 255, ru_output := Some Stdout\<rparr>"

definition info_rules :: "rule arraylist" where
  "info_rules = \<lparr>al_array = [Some info_rule], al_len = 1, al_size = 1, al_del = True\<rparr>"

lemma info_rule_ok: "rule_ok info_rule"
proof -
  have "level_bit (replicate 5 0 @ replicate 27 255) v = Some (40 \<le> v)" if v: "0 \<le> v" "v < 256" for v
  proof -
    obtain i j where v: "v = int (8 * i + j)" "i < 32" "j < 8" "v sdiv 8 = int i" "v smod 8 = int j" by (rule level_split[OF v])
    have "level_bit (replicate 5 0 @ replicate 27 255) v = Some (bit ((replicate 5 0 @ replicate 27 (255::8 word)) ! i) (7 - j))"
      by (rule level_bit_place[OF v(4,5)]) (use v in simp_all)
    also have "bit ((replicate 5 0 @ replicate 27 (255::8 word)) ! i) (7 - j) = (40 \<le> v)"
      using v(1-3) by (cases "i < 5") (auto simp: nth_append bit_255)
    finally show ?thesis .
  qed
  then show ?thesis by (simp add: rule_ok_def info_rule_def level_fits_def)
qed

lemma info_rules_ok: "rules_ok info_rules [info_rule]"
  using info_rule_ok by (simp add: rules_ok_def info_rules_def al_inv_def zc_arraylist_foreach_def info_rule_def)

text \<open>
  C12. A new category has exactly the rules of the configuration that fit its name, in their order, and if none fits
  the last wastebin rule \<open>!\<close>, if there is one. The macro \<open>zlog_category_needless_level\<close> on its bitmap answers that a
  level is needless exactly when no rule of it wants the level. Failures come from a name that is too long or an
  allocation only.
\<close>

theorem zlog_category_new_rules:
  assumes "rules_ok rules rs"
  shows "\<exists>c orc'. zlog_category_new name gen rules orc = Some (c, orc') \<and>
    (c = None \<longrightarrow> MAXLEN_PATH < length name \<or> orc \<noteq> []) \<and>
    (\<forall>a. c = Some a \<longrightarrow> ca_name a = name \<and> length name \<le> MAXLEN_PATH \<and>
       (\<exists>l. fit_rules a = Some l \<and> zc_arraylist_foreach l = map (\<lambda>x. Some (gen, fst x)) (fitting name rs)) \<and>
       (\<forall>v. 0 \<le> v \<and> v < 256 \<longrightarrow> zlog_category_needless_level a v =
          Some (\<not> (\<exists>x \<in> set (fitting name rs). level_fits (compare_char (snd x)) (ru_level (snd x)) v))))"
proof -
  obtain c orc' where n: "zlog_category_new name gen rules orc = Some (c, orc')" "c = None \<longrightarrow> MAXLEN_PATH < length name \<or> orc \<noteq> []"
    "\<forall>a. c = Some a \<longrightarrow> ca_name a = name \<and> settled a \<and> has_rules gen a (fitting name rs)"
    using category_new_ok[OF assms, of name gen orc] by blast
  have "length name \<le> MAXLEN_PATH" if "c = Some a" for a using n(1) that by (auto simp: zlog_category_new_def split: if_splits)
  moreover have "\<exists>l. fit_rules a = Some l \<and> zc_arraylist_foreach l = map (\<lambda>x. Some (gen, fst x)) (fitting name rs)" if "c = Some a" for a
    using n(3) that unfolding has_rules_def by blast
  moreover have "has_rules gen a (fitting name rs)" "ca_name a = name" if "c = Some a" for a using n(3) that by auto
  ultimately show ?thesis using n(1,2) by (intro exI[of _ c] exI[of _ orc'] conjI allI impI) (simp_all add: has_rules_needless)
qed

theorem zlog_category_new_rules_witness:
  "\<exists>a orc'. zlog_category_new ''a'' 0 info_rules [] = Some (Some a, orc') \<and> zlog_category_needless_level a 20 = Some True \<and>
     zlog_category_needless_level a 40 = Some False"
proof -
  have f: "fitting ''a'' [info_rule] = [(0, info_rule)]"
    by (simp add: fitting_def fits_def zlog_rule_match_category_def info_rule_def strncmp_eq_def)
  have "\<not> MAXLEN_PATH < length ''a''" by (simp add: MAXLEN_PATH_def)
  from this zlog_category_new_rules[OF info_rules_ok, of "''a''" 0 "[]"] show ?thesis
    unfolding f by (auto simp: level_fits_def info_rule_def)
qed

text \<open>
  C27. Skipping is safe: when the macro says that the level of the event is needless for a category, running
  \<open>zlog_category_output\<close> would return 0 and change nothing, neither a rule nor the thread nor a file.
\<close>

theorem needless_level_skips:
  assumes rules: "rules_ok rules rs" and new: "zlog_category_new name gen rules orc = Some (Some c, orc')"
    and v: "0 \<le> ev_level (th_event t)" "ev_level (th_event t) < 256"
    and n: "zlog_category_needless_level c (ev_level (th_event t)) = Some True"
  shows "zlog_category_output env c gen rules t io orc2 = Some (0, rules, t, io, orc2)"
proof -
  have h: "has_rules gen c (fitting name rs)" using category_new_ok[OF rules, of name gen orc] new by auto
  then obtain l where l: "fit_rules c = Some l" "zc_arraylist_foreach l = map (\<lambda>x. Some (gen, fst x)) (fitting name rs)"
    unfolding has_rules_def by blast
  have d: "deref_rule gen rules (gen, fst x) = Some (snd x)" if x: "x \<in> set (fitting name rs)" for x
  proof -
    have "x \<in> set (enumerate 0 rs)" using x by (auto simp: fitting_def Let_def split: if_splits dest: last_in_set)
    then have i: "fst x < length rs" "rs ! fst x = snd x" by (auto simp: in_set_enumerate_eq)
    then have g: "zc_arraylist_foreach rules ! fst x = Some (snd x)" "fst x < length (zc_arraylist_foreach rules)"
      using rules by (simp_all add: rules_ok_def)
    then have "take (nat (al_len rules)) (al_array rules) ! fst x = Some (snd x)" by (simp add: zc_arraylist_foreach_def)
    with g(2) have "al_array rules ! fst x = Some (snd x)" "int (fst x) < al_len rules" "fst x < length (al_array rules)"
      using rules g(2) by (auto simp: rules_ok_def zc_arraylist_foreach_def)
    then show ?thesis by (simp add: deref_rule_def zc_arraylist_get_def arr_get_in)
  qed
  have "output_loop env gen (map (\<lambda>x. Some (gen, fst x)) (fitting name rs)) 0 rules t io orc2 = Some (0, rules, t, io, orc2)"
    by (rule output_loop_skips[OF _ refl]) (use d n has_rules_needless[OF h v] in auto)
  then show ?thesis using l by (simp add: zlog_category_output_def)
qed

theorem needless_level_skips_witness:
  "\<exists>c. zlog_category_new ''b'' 0 info_rules [] = Some (Some c, []) \<and>
     zlog_category_output sample_env c 0 info_rules sample_thread \<lparr>io_os = sample_os, io_rot = sample_rot\<rparr> [] =
       Some (0, info_rules, sample_thread, \<lparr>io_os = sample_os, io_rot = sample_rot\<rparr>, [])"
proof -
  have nf: "zlog_rule_match_category info_rule ''b'' = Some 0" "zlog_rule_is_wastebin info_rule = 0"
    by (simp_all add: zlog_rule_match_category_def info_rule_def zlog_rule_is_wastebin_def strncmp_eq_def)
  have fe: "zc_arraylist_foreach info_rules = [Some info_rule]" by (simp add: zc_arraylist_foreach_def info_rules_def)
  have nm: "\<not> MAXLEN_PATH < length ''b''" by (simp add: MAXLEN_PATH_def)
  obtain c where c: "zlog_category_new ''b'' 0 info_rules [] = Some (Some c, [])" "ca_bitmap c = replicate 32 0"
    using nf nm by (simp add: zlog_category_new_def zlog_category_obtain_rules_def zc_arraylist_new_def fe)
  have v: "0 \<le> ev_level (th_event sample_thread)" "ev_level (th_event sample_thread) < 256"
    by (simp_all add: sample_thread_def sample_event_def zlog_event_set_fmt_def)
  have "zlog_category_needless_level c (ev_level (th_event sample_thread)) = Some True"
    using level_bit_replicate(1)[OF v] c(2) by (simp add: zlog_category_needless_level_def)
  from needless_level_skips[OF info_rules_ok c(1) v this] c(1) show ?thesis by blast
qed

end
