(* ===== verification/CategoryTable.thy ===== *)
theory CategoryTable
  imports CategoryRules
begin

text \<open>
  The table of categories: the names and the pointers agree, every category is visited once, and the three steps of a
  reload (update, then commit or rollback) are a transaction.
\<close>

section \<open>The invariant of the table\<close>

definition cats_inv :: "category_table \<Rightarrow> bool" where
  "cats_inv ct \<longleftrightarrow> ht_inv (ct_table ct) \<and>
     (\<forall>k p. ht_map (ct_table ct) k = Some p \<longrightarrow> p < ct_next ct \<and> (\<exists>c. ct_store ct p = Some c \<and> ca_name c = k))"

lemma those_map_Some: "(\<And>x. x \<in> set xs \<Longrightarrow> f x = Some (g x)) \<Longrightarrow> those (map f xs) = Some (map g xs)"
  by (induction xs) auto

lemma table_cats_ok:
  assumes "cats_inv ct"
  obtains ps where "table_cats ct = Some ps" "distinct ps" "set ps = ran (ht_map (ct_table ct))" "\<forall>p \<in> set ps. ct_store ct p \<noteq> None"
proof -
  let ?t = "ct_table ct"
  have inv: "ht_inv ?t" using assms by (simp add: cats_inv_def)
  then obtain cs where ok: "ht_ok ?t cs" by (auto simp: ht_inv_def)
  obtain as where as: "zc_hashtable_foreach ?t = Some as" "distinct as" "set as = dom (entries ?t)" by (rule zc_hashtable_foreach_ok[OF inv])
  let ?v = "\<lambda>a. e_value (the (entries ?t a))"
  have live: "\<exists>n. entries ?t a = Some n" if "a \<in> set as" for a using that as(3) by auto
  have ps: "table_cats ct = Some (map ?v as)" unfolding table_cats_def as(1) using live by (fastforce intro!: those_map_Some)
  have name: "\<exists>c. ct_store ct (?v a) = Some c \<and> ca_name c = e_key (the (entries ?t a))" if a: "a \<in> set as" for a
  proof -
    obtain n where n: "entries ?t a = Some n" using live[OF a] by blast
    then have "ht_map ?t (e_key n) = Some (e_value n)" unfolding ht_map_Some[OF ok] by blast
    then show ?thesis using assms n by (simp add: cats_inv_def)
  qed
  have "inj_on ?v (set as)"
  proof (rule inj_onI)
    fix a b assume ab: "a \<in> set as" "b \<in> set as" "?v a = ?v b"
    obtain n m where nm: "entries ?t a = Some n" "entries ?t b = Some m" using live[OF ab(1)] live[OF ab(2)] by blast
    then have "e_key n = e_key m" using name[OF ab(1)] name[OF ab(2)] ab(3) by auto
    then show "a = b" by (rule ht_okD(9)[OF ok nm])
  qed
  then have "distinct (map ?v as)" using as(2) by (simp add: distinct_map)
  moreover have "set (map ?v as) = ran (ht_map ?t)"
  proof (intro set_eqI iffI)
    fix p assume "p \<in> set (map ?v as)"
    then obtain a where a: "a \<in> set as" "p = ?v a" by auto
    moreover obtain n where "entries ?t a = Some n" using live[OF a(1)] by blast
    ultimately have "entries ?t a = Some n" "p = e_value n" by simp_all
    then have "ht_map ?t (e_key n) = Some p" unfolding ht_map_Some[OF ok] by blast
    then show "p \<in> ran (ht_map ?t)" by (rule ranI)
  next
    fix p assume "p \<in> ran (ht_map ?t)"
    then obtain k where "ht_map ?t k = Some p" by (auto simp: ran_def)
    then obtain a n where "entries ?t a = Some n" "e_value n = p" unfolding ht_map_Some[OF ok] by blast
    then show "p \<in> set (map ?v as)" using as(3) by force
  qed
  moreover have "\<forall>p \<in> set (map ?v as). ct_store ct p \<noteq> None" using name by auto
  ultimately show ?thesis by (rule that[OF ps])
qed

text \<open>The same pointers are visited whatever the store holds.\<close>

lemma table_cats_store [simp]: "table_cats (ct\<lparr>ct_store := st\<rparr>) = table_cats ct"
  by (simp add: table_cats_def)

lemma cats_inv_store:
  assumes "cats_inv ct" "\<And>k p. ht_map (ct_table ct) k = Some p \<Longrightarrow> \<exists>c. st p = Some c \<and> ca_name c = k"
  shows "cats_inv (ct\<lparr>ct_store := st\<rparr>)"
  using assms by (simp add: cats_inv_def)

section \<open>The transaction\<close>

lemma update_rules_ok:
  assumes "rules_ok rules rs"
  shows "\<exists>rc c' orc'. zlog_category_update_rules c gen rules orc = Some (rc, c', orc') \<and> (rc = 0 \<or> rc = -1) \<and>
    ca_name c' = ca_name c \<and> fit_rules_backup c' = fit_rules c \<and> ca_bitmap_backup c' = ca_bitmap c \<and>
    (if rc = 0 then has_rules gen c' (fitting (ca_name c) rs) else fit_rules c' = None) \<and> (orc = [] \<longrightarrow> rc = 0 \<and> orc' = [])"
proof -
  let ?c = "c\<lparr>fit_rules_backup := fit_rules c, fit_rules := None, ca_bitmap_backup := ca_bitmap c\<rparr>"
  obtain rc a orc1 where o: "zlog_category_obtain_rules ?c gen rules orc = Some (rc, a, orc1)" "rc = 0 \<or> rc = -1" "same_cat ?c a"
    "if rc = 0 then has_rules gen a (fitting (ca_name c) rs) else fit_rules a = None" "orc = [] \<longrightarrow> rc = 0 \<and> orc1 = []"
    using obtain_rules_ok[OF assms, of ?c gen orc] by auto
  show ?thesis
  proof (cases "rc = 0")
    case True
    then show ?thesis using o by (simp add: zlog_category_update_rules_def same_cat_def)
  next
    case False
    then show ?thesis using o by (auto simp: zlog_category_update_rules_def same_cat_def)
  qed
qed

text \<open>What the loop leaves of a category \<open>c\<close>: not reached, or moved over with the old rules in the backup.\<close>

definition moved :: "category \<Rightarrow> category \<Rightarrow> bool" where
  "moved c c' \<longleftrightarrow> ca_name c' = ca_name c \<and> fit_rules_backup c' = fit_rules c \<and> ca_bitmap_backup c' = ca_bitmap c"

lemma update_loop_ok:
  "rules_ok rules rs \<Longrightarrow> distinct ps \<Longrightarrow> \<forall>p \<in> set ps. st p \<noteq> None \<Longrightarrow>
   \<exists>rc st' orc'. update_loop gen rules ps st orc = Some (rc, st', orc') \<and> (rc = 0 \<or> rc = -1) \<and> (orc = [] \<longrightarrow> rc = 0 \<and> orc' = []) \<and>
     (\<forall>p. p \<notin> set ps \<longrightarrow> st' p = st p) \<and>
     (\<forall>p c. p \<in> set ps \<and> st p = Some c \<longrightarrow> rc \<noteq> 0 \<and> st' p = Some c \<or>
        (\<exists>c'. st' p = Some c' \<and> moved c c' \<and> (rc = 0 \<longrightarrow> has_rules gen c' (fitting (ca_name c) rs))))"
proof (induction ps arbitrary: st orc)
  case Nil
  then show ?case by simp
next
  case (Cons p ps)
  obtain c where c: "st p = Some c" using Cons.prems(3) by auto
  obtain rc1 c1 orc1 where u: "zlog_category_update_rules c gen rules orc = Some (rc1, c1, orc1)" "rc1 = 0 \<or> rc1 = -1" "moved c c1"
    "if rc1 = 0 then has_rules gen c1 (fitting (ca_name c) rs) else fit_rules c1 = None" "orc = [] \<longrightarrow> rc1 = 0 \<and> orc1 = []"
    using update_rules_ok[OF Cons.prems(1), of c gen orc] unfolding moved_def by blast
  show ?case
  proof (cases "rc1 = 0")
    case False
    then show ?thesis using c u by auto
  next
    case True
    have d: "distinct ps" using Cons.prems(2) by simp
    have live: "\<forall>q \<in> set ps. (st(p \<mapsto> c1)) q \<noteq> None" using Cons.prems(3) by auto
    obtain rc st' orc' where ih: "update_loop gen rules ps (st(p \<mapsto> c1)) orc1 = Some (rc, st', orc')" "rc = 0 \<or> rc = -1" "orc1 = [] \<longrightarrow> rc = 0 \<and> orc' = []"
      "\<forall>q. q \<notin> set ps \<longrightarrow> st' q = (st(p \<mapsto> c1)) q"
      "\<forall>q c. q \<in> set ps \<and> (st(p \<mapsto> c1)) q = Some c \<longrightarrow> rc \<noteq> 0 \<and> st' q = Some c \<or>
        (\<exists>c'. st' q = Some c' \<and> moved c c' \<and> (rc = 0 \<longrightarrow> has_rules gen c' (fitting (ca_name c) rs)))"
      using Cons.IH[OF Cons.prems(1) d live, of orc1] by (elim exE conjE) (rule that)
    have p: "p \<notin> set ps" using Cons.prems(2) by simp
    have e: "update_loop gen rules (p # ps) st orc = Some (rc, st', orc')" using c u(1) True ih(1) by simp
    have q: "rc \<noteq> 0 \<and> st' q = Some d \<or> (\<exists>c'. st' q = Some c' \<and> moved d c' \<and> (rc = 0 \<longrightarrow> has_rules gen c' (fitting (ca_name d) rs)))"
      if "q \<in> set (p # ps)" "st q = Some d" for q d
    proof (cases "q = p")
      case True
      then show ?thesis using ih(4) p c that(2) u(3,4) \<open>rc1 = 0\<close> by auto
    next
      case False
      then show ?thesis using ih(5) that by simp
    qed
    have nil: "orc = [] \<longrightarrow> rc = 0 \<and> orc' = []" using ih(3) u(5) by simp
    have nq: "\<forall>q. q \<notin> set (p # ps) \<longrightarrow> st' q = st q" using ih(4) by simp
    show ?thesis by (intro exI conjI allI impI, rule e, rule ih(2), rule nil[rule_format, THEN conjunct1], assumption, rule nil[rule_format, THEN conjunct2], assumption, rule nq[rule_format], assumption) (elim conjE, rule q)
  qed
qed

lemma each_cat_ok:
  "distinct ps \<Longrightarrow> \<forall>p \<in> set ps. st p \<noteq> None \<Longrightarrow> each_cat f ps st = Some (\<lambda>p. if p \<in> set ps then map_option f (st p) else st p)"
proof (induction ps arbitrary: st)
  case (Cons p ps)
  obtain c where "st p = Some c" using Cons.prems(2) by auto
  moreover have "each_cat f ps (st(p \<mapsto> f c)) = Some (\<lambda>q. if q \<in> set ps then map_option f ((st(p \<mapsto> f c)) q) else (st(p \<mapsto> f c)) q)"
    using Cons.prems by (intro Cons.IH) auto
  ultimately show ?case using Cons.prems(1) by (auto simp: fun_eq_iff)
qed simp

lemma rollback_settled: "settled c \<Longrightarrow> zlog_category_rollback_rules c = c"
  "settled c \<Longrightarrow> moved c c' \<Longrightarrow> zlog_category_rollback_rules c' = c"
  by (auto simp: settled_def moved_def zlog_category_rollback_rules_def)

lemma commit_settled: "settled c \<Longrightarrow> moved c c' \<Longrightarrow> has_rules gen c' xs \<Longrightarrow>
    settled (zlog_category_commit_rules c') \<and> has_rules gen (zlog_category_commit_rules c') xs \<and> ca_name (zlog_category_commit_rules c') = ca_name c"
  by (auto simp: settled_def moved_def zlog_category_commit_rules_def has_rules_def)


text \<open>
  C9. A reload of the categories is a transaction. For every pattern of allocation failures
  \<open>zlog_category_table_update_rules\<close> returns, and whether it failed or not
  \<open>zlog_category_table_rollback_rules\<close> brings the table back to exactly what it was. If it succeeded (it does
  when no allocation fails), \<open>zlog_category_table_commit_rules\<close> leaves every category under its name with exactly
  the fitting rules of the new configuration and nothing of the old one.
\<close>

theorem category_table_transaction:
  assumes inv: "cats_inv ct" and settled: "\<forall>p \<in> ran (ht_map (ct_table ct)). \<exists>c. ct_store ct p = Some c \<and> settled c" and rules: "rules_ok rules rs"
  shows "\<exists>rc ct' orc'. zlog_category_table_update_rules ct gen rules orc = Some (rc, ct', orc') \<and> (rc = 0 \<or> rc = -1) \<and> (orc = [] \<longrightarrow> rc = 0) \<and>
    zlog_category_table_rollback_rules ct' = Some ct \<and>
    (rc = 0 \<longrightarrow> (\<exists>ct2. zlog_category_table_commit_rules ct' = Some ct2 \<and> cats_inv ct2 \<and> ct_table ct2 = ct_table ct \<and>
       (\<forall>k p. ht_map (ct_table ct) k = Some p \<longrightarrow>
          (\<exists>c. ct_store ct2 p = Some c \<and> settled c \<and> ca_name c = k \<and> has_rules gen c (fitting k rs)))))"
proof -
  obtain ps where ps: "table_cats ct = Some ps" "distinct ps" "set ps = ran (ht_map (ct_table ct))" "\<forall>p \<in> set ps. ct_store ct p \<noteq> None"
    by (rule table_cats_ok[OF inv])
  obtain rc st orc' where u: "update_loop gen rules ps (ct_store ct) orc = Some (rc, st, orc')" "rc = 0 \<or> rc = -1" "orc = [] \<longrightarrow> rc = 0 \<and> orc' = []"
    "\<forall>p. p \<notin> set ps \<longrightarrow> st p = ct_store ct p"
    "\<forall>p c. p \<in> set ps \<and> ct_store ct p = Some c \<longrightarrow> rc \<noteq> 0 \<and> st p = Some c \<or>
        (\<exists>c'. st p = Some c' \<and> moved c c' \<and> (rc = 0 \<longrightarrow> has_rules gen c' (fitting (ca_name c) rs)))"
    using update_loop_ok[OF rules ps(2,4), of gen orc] by (elim exE conjE) (rule that)
  have live: "\<forall>p \<in> set ps. st p \<noteq> None" using u(5) ps(4) by force
  have old: "\<exists>c. ct_store ct p = Some c \<and> settled c" if "p \<in> set ps" for p using settled that ps(3) by blast
  let ?ct = "ct\<lparr>ct_store := st\<rparr>"
  have up: "zlog_category_table_update_rules ct gen rules orc = Some (rc, ?ct, orc')" using ps(1) u(1) by (simp add: zlog_category_table_update_rules_def)
  have "(\<lambda>p. if p \<in> set ps then map_option zlog_category_rollback_rules (st p) else st p) = ct_store ct"
  proof
    fix p show "(if p \<in> set ps then map_option zlog_category_rollback_rules (st p) else st p) = ct_store ct p"
      using old[of p] u(4,5) rollback_settled by (cases "p \<in> set ps") fastforce+
  qed
  then have rb: "zlog_category_table_rollback_rules ?ct = Some ct"
    using each_cat_ok[OF ps(2) live, of zlog_category_rollback_rules] ps(1) by (simp add: zlog_category_table_rollback_rules_def)
  let ?st2 = "\<lambda>p. if p \<in> set ps then map_option zlog_category_commit_rules (st p) else st p"
  have cm: "zlog_category_table_commit_rules ?ct = Some (ct\<lparr>ct_store := ?st2\<rparr>)"
    using each_cat_ok[OF ps(2) live, of zlog_category_commit_rules] ps(1) by (simp add: zlog_category_table_commit_rules_def)
  have new: "\<exists>c. ?st2 p = Some c \<and> settled c \<and> ca_name c = k \<and> has_rules gen c (fitting k rs)"
    if rc: "rc = 0" and k: "ht_map (ct_table ct) k = Some p" for k p
  proof -
    have p: "p \<in> set ps" using k ps(3) by (auto intro: ranI)
    obtain c where c: "ct_store ct p = Some c" "settled c" using old[OF p] by blast
    have n: "ca_name c = k" using inv k c(1) unfolding cats_inv_def by force
    obtain c' where c': "st p = Some c'" "moved c c'" "has_rules gen c' (fitting k rs)" using u(5) p c(1) rc n by blast
    show ?thesis using commit_settled[OF c(2) c'(2,3)] c'(1) p n by simp
  qed
  have inv2: "cats_inv (ct\<lparr>ct_store := ?st2\<rparr>)" if "rc = 0" by (rule cats_inv_store[OF inv]) (use new[OF that] in blast)
  show ?thesis using up u(2,3) rb cm new inv2 by auto
qed

definition sample_category :: category where
  "sample_category = \<lparr>ca_name = ''a'', ca_bitmap = replicate 32 0, ca_bitmap_backup = replicate 32 0,
     fit_rules = Some \<lparr>al_array = [None], al_len = 0, al_size = 1, al_del = False\<rparr>, fit_rules_backup = None\<rparr>"

lemma sample_cats:
  obtains ct where "cats_inv ct" "ht_map (ct_table ct) = [''a'' \<mapsto> 0]" "ct_store ct = [0 \<mapsto> sample_category]"
proof -
  obtain rc t kf vf orc' where p: "zc_hashtable_put sample_table ''a'' 0 [] = Some (rc, t, (kf, vf), orc')"
    "ht_inv t" "rc = 0 \<longrightarrow> ht_map t = (ht_map sample_table)(''a'' \<mapsto> 0)"
    by (rule zc_hashtable_put_ok[OF sample_table(1)])
  have "rc = 0" using p(1) by (rule put_no_failure)
  then have t: "ht_map t = [''a'' \<mapsto> 0]" using p(3) sample_table(2) by simp
  show ?thesis by (rule that[of "\<lparr>ct_table = t, ct_store = [0 \<mapsto> sample_category], ct_next = 1\<rparr>"])
    (use p(2) t in \<open>auto simp: cats_inv_def sample_category_def split: if_splits\<close>)
qed

theorem category_table_transaction_witness:
  "\<exists>ct ct' ct2 c orc'. zlog_category_table_update_rules ct 7 info_rules [] = Some (0, ct', orc') \<and> zlog_category_table_commit_rules ct' = Some ct2 \<and>
     ct_store ct2 0 = Some c \<and> has_rules 7 c (fitting ''a'' [info_rule])"
proof -
  obtain ct where ct: "cats_inv ct" "ht_map (ct_table ct) = [''a'' \<mapsto> 0]" "ct_store ct = [0 \<mapsto> sample_category]" by (rule sample_cats)
  have "\<forall>p \<in> ran (ht_map (ct_table ct)). \<exists>c. ct_store ct p = Some c \<and> settled c"
    using ct(2,3) by (auto simp: sample_category_def settled_def)
  from category_table_transaction[OF ct(1) this info_rules_ok, of 7 "[]"] obtain rc ct' ct2 orc' where
      r: "zlog_category_table_update_rules ct 7 info_rules [] = Some (rc, ct', orc')" "rc = 0" "zlog_category_table_commit_rules ct' = Some ct2"
      "\<forall>k p. ht_map (ct_table ct) k = Some p \<longrightarrow> (\<exists>c. ct_store ct2 p = Some c \<and> settled c \<and> ca_name c = k \<and> has_rules 7 c (fitting k [info_rule]))" by auto
  have "ht_map (ct_table ct) ''a'' = Some 0" using ct(2) by simp
  with r(4) obtain c where "ct_store ct2 0 = Some c" "has_rules 7 c (fitting ''a'' [info_rule])" by blast
  then show ?thesis using r(1-3) by blast
qed


section \<open>Getting a category\<close>

lemma put_nil: "zc_hashtable_put t k v [] = Some (rc, t', g, orc') \<Longrightarrow> orc' = []"
  by (auto simp: zc_hashtable_put_def zc_hashtable_rehash_def Let_def bind_eq_Some_conv split: option.splits if_splits)

text \<open>
  \<open>zlog_category_table_fetch_category\<close> returns the category of that name, the old one if there is one; it keeps the
  invariant and the categories that were there, and gives NULL only for a name that is too long or when an allocation
  fails.
\<close>

lemma fetch_category_ok:
  assumes inv: "cats_inv ct" and rules: "rules_ok rules rs"
  obtains p ct' orc' where "zlog_category_table_fetch_category ct cname gen rules orc = Some (p, ct', orc')" "cats_inv ct'"
    "\<forall>k q. ht_map (ct_table ct) k = Some q \<longrightarrow> ht_map (ct_table ct') k = Some q \<and> ct_store ct' q = ct_store ct q"
    "case p of None \<Rightarrow> (MAXLEN_PATH < length cname \<or> orc \<noteq> []) \<and> ht_map (ct_table ct') = ht_map (ct_table ct)
     | Some q \<Rightarrow> ht_map (ct_table ct') = (ht_map (ct_table ct))(cname \<mapsto> q) \<and>
         (ht_map (ct_table ct) cname = None \<longrightarrow> (\<exists>c. ct_store ct' q = Some c \<and> settled c \<and> has_rules gen c (fitting cname rs)))"
    "orc = [] \<longrightarrow> orc' = []"
proof -
  note result = that
  let ?m = "ht_map (ct_table ct)"
  have ht: "ht_inv (ct_table ct)" using inv by (simp add: cats_inv_def)
  show ?thesis
  proof (cases "?m cname")
    case (Some q)
    have e: "zlog_category_table_fetch_category ct cname gen rules orc = Some (Some q, ct, orc)"
      using zc_hashtable_get_ok[OF ht, of cname] Some by (simp add: zlog_category_table_fetch_category_def)
    show ?thesis by (rule result[OF e inv]) (use Some in auto)
  next
    case None
    obtain co orc1 where n: "zlog_category_new cname gen rules orc = Some (co, orc1)"
      "co = None \<longrightarrow> MAXLEN_PATH < length cname \<or> orc \<noteq> []" "orc = [] \<longrightarrow> orc1 = []"
      "\<forall>a. co = Some a \<longrightarrow> ca_name a = cname \<and> settled a \<and> has_rules gen a (fitting cname rs)"
      using category_new_ok[OF rules, of cname gen orc] by blast
    have g: "zc_hashtable_get (ct_table ct) cname = Some None" using zc_hashtable_get_ok[OF ht] None by simp
    show ?thesis
    proof (cases co)
      case no: None
      have e: "zlog_category_table_fetch_category ct cname gen rules orc = Some (None, ct, orc1)"
        using g n(1) no by (simp add: zlog_category_table_fetch_category_def)
      show ?thesis by (rule result[OF e inv]) (use n(2,3) no in auto)
    next
      case (Some a)
      have a: "ca_name a = cname" "settled a" "has_rules gen a (fitting cname rs)" using n(4) Some by auto
      obtain rc t kf vf orc2 where p: "zc_hashtable_put (ct_table ct) cname (ct_next ct) orc1 = Some (rc, t, (kf, vf), orc2)" "ht_inv t"
        "rc = 0 \<longrightarrow> ht_map t = ?m(cname \<mapsto> ct_next ct)" "rc \<noteq> 0 \<longrightarrow> rc = -1 \<and> ht_map t = ?m \<and> vf = [] \<and> kf = []"
        by (rule zc_hashtable_put_ok[OF ht])
      show ?thesis
      proof (cases "rc = 0")
        case False
        have e: "zlog_category_table_fetch_category ct cname gen rules orc = Some (None, ct\<lparr>ct_table := t\<rparr>, orc2)"
          using g n(1) Some p(1) a(1) False by (simp add: zlog_category_table_fetch_category_def Let_def)
        have i: "cats_inv (ct\<lparr>ct_table := t\<rparr>)" using inv p False by (simp add: cats_inv_def)
        have o: "orc \<noteq> []" using p(1) False n(3) put_no_failure by fastforce
        show ?thesis by (rule result[OF e i]) (use p(4) False o in auto)
      next
        case True
        let ?ct = "ct\<lparr>ct_table := t, ct_store := (ct_store ct)(ct_next ct \<mapsto> a), ct_next := ct_next ct + 1\<rparr>"
        have e: "zlog_category_table_fetch_category ct cname gen rules orc = Some (Some (ct_next ct), ?ct, orc2)"
          using g n(1) Some p(1) a(1) True by (simp add: zlog_category_table_fetch_category_def Let_def)
        have m: "ht_map t = ?m(cname \<mapsto> ct_next ct)" using p(3) True by simp
        have old: "q < ct_next ct" if "?m k = Some q" for k q using inv that by (simp add: cats_inv_def)
        have i: "cats_inv ?ct" using inv p(2) m a(1) unfolding cats_inv_def by (auto simp: less_Suc_eq)
        have o: "orc = [] \<longrightarrow> orc2 = []" using p(1) n(3) by (auto dest: put_nil)
        show ?thesis by (rule result[OF e i]) (use m a old None o in \<open>auto dest!: old\<close>)
      qed
    qed
  qed
qed

end
