(* ===== verification/Conf.thy ===== *)
theory Conf
  imports RuleOut
begin

text \<open>
  \<open>conf.c\<close>: the configuration, read from a file, from a text in memory, or the built-in default. The time of the
  file, which is only printed by the profile, is left out. The environment is \<open>getenv\<close>, \<open>lmax\<close> the \<open>LONG_MAX\<close> of
  the target. The lists are made before anything is read, so they are no options.
\<close>

section \<open>The configuration\<close>

definition ZLOG_CONF_DEFAULT_FORMAT :: string where
  \<open>ZLOG_CONF_DEFAULT_FORMAT = ''default = "%D %V [%p:%F:%L] %m%n"''\<close>

definition ZLOG_CONF_DEFAULT_RULE :: string where
  "ZLOG_CONF_DEFAULT_RULE = ''*.*        >stdout''"

definition ZLOG_CONF_DEFAULT_BUF_SIZE_MIN :: nat where "ZLOG_CONF_DEFAULT_BUF_SIZE_MIN = 1024"
definition ZLOG_CONF_DEFAULT_BUF_SIZE_MAX :: nat where "ZLOG_CONF_DEFAULT_BUF_SIZE_MAX = 2 * 1024 * 1024"
definition ZLOG_CONF_DEFAULT_FILE_PERMS :: nat where "ZLOG_CONF_DEFAULT_FILE_PERMS = 384"

definition ZLOG_CONF_BACKUP_ROTATE_LOCK_FILE :: string where
  "ZLOG_CONF_BACKUP_ROTATE_LOCK_FILE = ''/tmp/zlog.lock''"

record conf =
  cf_file :: string
  cfg_ptr :: string
  strict_init :: bool
  buf_size_min :: nat
  buf_size_max :: nat
  rotate_lock_file :: string
  cf_rotater :: "rotater option"
  default_format_line :: string
  default_format :: "format option"
  cf_file_perms :: nat
  cf_fsync_period :: nat
  reload_conf_period :: nat
  cf_levels :: "level arraylist"
  cf_formats :: "format arraylist"
  cf_rules :: "rule arraylist"
  time_cache_count :: int

text \<open>What deleting shows to the system: the lock file and the files of the rules are closed.\<close>

fun rules_del :: "rule list \<Rightarrow> os \<Rightarrow> outcomes \<Rightarrow> os \<times> outcomes" where
  "rules_del [] os orc = (os, orc)"
| "rules_del (a # as) os orc = (let (os1, orc1) = zlog_rule_del a os orc in rules_del as os1 orc1)"

definition zlog_conf_del :: "conf \<Rightarrow> os \<Rightarrow> outcomes \<Rightarrow> os \<times> outcomes" where
  "zlog_conf_del a_conf os orc =
     (let (os1, orc1) = (case cf_rotater a_conf of None \<Rightarrow> (os, orc) | Some r \<Rightarrow> zlog_rotater_del r os orc) in
      rules_del (zc_arraylist_del (cf_rules a_conf)) os1 orc1)"

section \<open>One line\<close>

text \<open>\<open>%o\<close> into an \<open>unsigned int\<close>: \<open>None\<close> for a number that does not fit, otherwise the number, or the old value when
  there is no digit.\<close>

definition scan_oct :: "string \<Rightarrow> nat \<Rightarrow> nat option" where
  "scan_oct s old =
     (let s1 = dropWhile isspace s; neg = (s1 \<noteq> [] \<and> hd s1 = CHR ''-'');
          s2 = (if s1 \<noteq> [] \<and> (hd s1 = CHR ''-'' \<or> hd s1 = CHR ''+'') then tl s1 else s1);
          ds = takeWhile (\<lambda>c. 48 \<le> code c \<and> code c \<le> 55) s2; v = foldl (\<lambda>a c. a * 8 + (code c - 48)) 0 ds in
      if ds = [] then Some old else if 2 ^ 32 \<le> v \<or> neg \<and> 0 < v then None else Some v)"

text \<open>A section: the lines of the sections must come in order; with the rules the rotater and the default format are made.\<close>

definition section_number :: "string \<Rightarrow> int option" where
  "section_number name =
     (if name = ''global'' then Some 1 else if name = ''levels'' then Some 2
      else if name = ''formats'' then Some 3 else if name = ''rules'' then Some 4 else None)"

definition start_rules :: "int \<Rightarrow> (string \<Rightarrow> string option) \<Rightarrow> conf \<Rightarrow> os \<Rightarrow> outcomes \<Rightarrow> (int \<times> conf \<times> os \<times> outcomes) option" where
  "start_rules lmax getenv a_conf os orc =
     (let c1 = (if reload_conf_period a_conf \<noteq> 0 \<and> reload_conf_period a_conf \<le> cf_fsync_period a_conf
                then a_conf\<lparr>cf_fsync_period := 0\<rparr> else a_conf) in
      case zlog_rotater_new (rotate_lock_file c1) os orc of
        (None, os1, orc1) \<Rightarrow> Some (-1, c1, os1, orc1)
      | (Some r, os1, orc1) \<Rightarrow> do {
          let c2 = c1\<lparr>cf_rotater := Some r\<rparr>;
          (f, cnt, orc2) \<leftarrow> zlog_format_new lmax getenv (default_format_line c2) (time_cache_count c2) orc1;
          let c3 = c2\<lparr>default_format := f, time_cache_count := cnt\<rparr>;
          Some (if f = None then -1 else 0, c3, os1, orc2) })"

definition parse_section :: "int \<Rightarrow> (string \<Rightarrow> string option) \<Rightarrow> conf \<Rightarrow> string \<Rightarrow> int \<Rightarrow> os \<Rightarrow> outcomes \<Rightarrow>
    (int \<times> conf \<times> int \<times> os \<times> outcomes) option" where
  "parse_section lmax getenv a_conf line sec os orc =
     (let (_, its) = sscanf line [SLit (CHR ''[''), SWs, SSet (\<lambda>c. c \<notin> {CHR '']'', CHR '' '', CHR 0x09})];
          name = str_item its 0 [] in
      case section_number name of
        None \<Rightarrow> Some (-1, a_conf, sec, os, orc)
      | Some n \<Rightarrow>
          if n \<le> sec then Some (-1, a_conf, n, os, orc)
          else if n = 4 then do {
            (rc, c1, os1, orc1) \<leftarrow> start_rules lmax getenv a_conf os orc;
            Some (rc, c1, n, os1, orc1) }
          else Some (0, a_conf, n, os, orc))"

definition byte_size :: "int \<Rightarrow> string \<Rightarrow> nat option" where
  "byte_size lmax v = map_option (nat \<circ> snd) (zc_parse_byte_size lmax v)"

definition parse_global :: "int \<Rightarrow> (string \<Rightarrow> string option) \<Rightarrow> conf \<Rightarrow> string \<Rightarrow> (int \<times> conf) option" where
  "parse_global lmax getenv a_conf line =
     (let (nscan, its) = sscanf line [SWs, SSet (\<lambda>c. c \<noteq> CHR ''=''), SLit (CHR ''=''), SWs, SWord, SWs];
          name = str_item its 0 []; v = str_item its 1 [] in
      if nscan \<noteq> 2 then Some (-1, a_conf)
      else
        let (_, its) = sscanf name [SWord, SPos, SWord, SWord];
            word_1 = str_item its 0 []; nread = pos_item its 1 0; word_2 = str_item its 2 []; word_3 = str_item its 3 [] in
        if word_1 = ''strict'' \<and> word_2 = ''init'' then
          Some (0, a_conf\<lparr>strict_init := \<not> (stricmp_eq v ''false'' \<and> getenv ''ZLOG_STRICT_INIT'' = None)\<rparr>)
        else if word_1 = ''buffer'' \<and> word_2 = ''min'' then do {
          n \<leftarrow> byte_size lmax v; Some (0, a_conf\<lparr>buf_size_min := n\<rparr>) }
        else if word_1 = ''buffer'' \<and> word_2 = ''max'' then do {
          n \<leftarrow> byte_size lmax v; Some (0, a_conf\<lparr>buf_size_max := n\<rparr>) }
        else if word_1 = ''file'' \<and> word_2 = ''perms'' then do {
          n \<leftarrow> scan_oct v (cf_file_perms a_conf); Some (0, a_conf\<lparr>cf_file_perms := n\<rparr>) }
        else if word_1 = ''rotate'' \<and> word_2 = ''lock'' \<and> word_3 = ''file'' then
          Some (0, a_conf\<lparr>rotate_lock_file := (if v = ''self'' then cf_file a_conf else v)\<rparr>)
        else if word_1 = ''default'' \<and> word_2 = ''format'' then
          Some (0, a_conf\<lparr>default_format_line := drop nread line\<rparr>)
        else if word_1 = ''reload'' \<and> word_2 = ''conf'' \<and> word_3 = ''period'' then do {
          n \<leftarrow> byte_size lmax v; Some (0, a_conf\<lparr>reload_conf_period := n\<rparr>) }
        else if word_1 = ''fsync'' \<and> word_2 = ''period'' then do {
          n \<leftarrow> byte_size lmax v; Some (0, a_conf\<lparr>cf_fsync_period := n\<rparr>) }
        else Some (if strict_init a_conf then -1 else 0, a_conf))"

definition parse_level :: "conf \<Rightarrow> string \<Rightarrow> outcomes \<Rightarrow> (int \<times> conf \<times> outcomes) option" where
  "parse_level a_conf line orc = do {
     (rc, ls, _, orc1) \<leftarrow> zlog_level_list_set (cf_levels a_conf) line orc;
     Some (if rc \<noteq> 0 \<and> strict_init a_conf then -1 else 0, a_conf\<lparr>cf_levels := ls\<rparr>, orc1) }"

definition parse_format :: "int \<Rightarrow> (string \<Rightarrow> string option) \<Rightarrow> conf \<Rightarrow> string \<Rightarrow> outcomes \<Rightarrow> (int \<times> conf \<times> outcomes) option" where
  "parse_format lmax getenv a_conf line orc = do {
     (f, cnt, orc1) \<leftarrow> zlog_format_new lmax getenv line (time_cache_count a_conf) orc;
     let c1 = a_conf\<lparr>time_cache_count := cnt\<rparr>;
     case f of None \<Rightarrow> Some (if strict_init a_conf then -1 else 0, c1, orc1)
     | Some a_format \<Rightarrow> do {
         (rc, l, _, orc2) \<leftarrow> zc_arraylist_add (cf_formats c1) (Some a_format) orc1;
         Some (if rc \<noteq> 0 then -1 else 0, c1\<lparr>cf_formats := l\<rparr>, orc2) } }"

text \<open>A rule that could not be added is deleted.\<close>

definition add_rule :: "conf \<Rightarrow> rule \<Rightarrow> os \<Rightarrow> outcomes \<Rightarrow> (int \<times> conf \<times> os \<times> outcomes) option" where
  "add_rule a_conf a_rule os orc = do {
     (rc, l, _, orc1) \<leftarrow> zc_arraylist_add (cf_rules a_conf) (Some a_rule) orc;
     let c1 = a_conf\<lparr>cf_rules := l\<rparr>;
     if rc \<noteq> 0 then let (os1, orc2) = zlog_rule_del a_rule os orc1 in Some (-1, c1, os1, orc2)
     else Some (0, c1, os, orc1) }"

text \<open>\<open>zlog_rule_new\<close> returns NULL when there is no default format (its \<open>zc_assert\<close>).\<close>

definition parse_rule :: "int \<Rightarrow> (string \<Rightarrow> string option) \<Rightarrow> conf \<Rightarrow> string \<Rightarrow> os \<Rightarrow> outcomes \<Rightarrow> (int \<times> conf \<times> os \<times> outcomes) option" where
  "parse_rule lmax getenv a_conf line os orc =
     (case default_format a_conf of
        None \<Rightarrow> Some (if strict_init a_conf then -1 else 0, a_conf, os, orc)
      | Some df \<Rightarrow> do {
          (r, cnt, os1, orc1) \<leftarrow> zlog_rule_new lmax getenv line (cf_levels a_conf) df (cf_formats a_conf)
             (cf_file_perms a_conf) (cf_fsync_period a_conf) (time_cache_count a_conf) os orc;
          let c1 = a_conf\<lparr>time_cache_count := cnt\<rparr>;
          case r of None \<Rightarrow> Some (if strict_init a_conf then -1 else 0, c1, os1, orc1)
          | Some a_rule \<Rightarrow> add_rule c1 a_rule os1 orc1 })"

definition zlog_conf_parse_line :: "int \<Rightarrow> (string \<Rightarrow> string option) \<Rightarrow> conf \<Rightarrow> string \<Rightarrow> int \<Rightarrow> os \<Rightarrow> outcomes \<Rightarrow>
    (int \<times> conf \<times> int \<times> os \<times> outcomes) option" where
  "zlog_conf_parse_line lmax getenv a_conf line sec os orc =
     (if MAXLEN_CFG_LINE < length line then Some (-1, a_conf, sec, os, orc)
      else if char_at line 0 = CHR ''['' then parse_section lmax getenv a_conf line sec os orc
      else if sec = 1 then do { (rc, c) \<leftarrow> parse_global lmax getenv a_conf line; Some (rc, c, sec, os, orc) }
      else if sec = 2 then do { (rc, c, orc1) \<leftarrow> parse_level a_conf line orc; Some (rc, c, sec, os, orc1) }
      else if sec = 3 then do { (rc, c, orc1) \<leftarrow> parse_format lmax getenv a_conf line orc; Some (rc, c, sec, os, orc1) }
      else if sec = 4 then do { (rc, c, os1, orc1) \<leftarrow> parse_rule lmax getenv a_conf line os orc; Some (rc, c, sec, os1, orc1) }
      else Some (-1, a_conf, sec, os, orc))"

section \<open>The text\<close>

text \<open>\<open>fgets\<close> into \<open>n\<close> bytes: up to the end of the line, or what fits.\<close>

definition fgets :: "nat \<Rightarrow> string \<Rightarrow> string \<times> string" where
  "fgets n s =
     (let w = length (takeWhile (\<lambda>c. c \<noteq> CHR 0x0A) s); u = take (min (w + 1) (n - 1)) s in (u, drop (length u) s))"

text \<open>
  A line of the file, \<open>u\<close>, read behind the part \<open>held\<close> of a line that ended in a backslash: blank lines and comments
  leave \<open>held\<close> for the next line, a backslash at the end keeps the text before it, otherwise the line is complete. When the
  buffer is nearly full the line is taken with its backslash.
\<close>

datatype piece = Skip | Keep string | Line string

definition strip_end :: "string \<Rightarrow> string" where
  "strip_end s = rev (dropWhile isspace (rev s))"

definition take_line :: "string \<Rightarrow> string \<Rightarrow> piece" where
  "take_line held u =
     (let pline = takeWhile (\<lambda>c. c \<noteq> NUL) u;
          chopped = (if pline \<noteq> [] \<and> last pline = CHR 0x0A then butlast pline else pline);
          p = dropWhile isspace chopped; s = strip_end p in
      if pline = [] \<or> p = [] \<or> hd p = CHR ''#'' then Skip
      else if last s = CHR 0x5C \<and> int (length held) + int (length s) - 1 \<le> int MAXLEN_CFG_LINE - 30
        then Keep (strip_end (held @ butlast s))
      else Line (held @ s))"

text \<open>A comment starts at \<open>#\<close> outside quotation marks.\<close>

fun cut_comment :: "bool \<Rightarrow> string \<Rightarrow> string" where
  "cut_comment q [] = []"
| "cut_comment q (c # s) =
     (if c = CHR 0x22 then c # cut_comment (\<not> q) s
      else if c = CHR ''#'' \<and> \<not> q then [] else c # cut_comment q s)"

text \<open>The loop over the lines. \<open>fgets\<close> always has room: the branch for the empty text is not reached.\<close>

function file_loop :: "int \<Rightarrow> (string \<Rightarrow> string option) \<Rightarrow> string \<Rightarrow> string \<Rightarrow> conf \<Rightarrow> int \<Rightarrow> os \<Rightarrow> outcomes \<Rightarrow>
    (int \<times> conf \<times> os \<times> outcomes) option" where
  "file_loop lmax getenv s held a_conf sec os orc =
     (if s = [] then Some (0, a_conf, os, orc)
      else let (u, rest) = fgets (MAXLEN_CFG_LINE + 1 - length held) s in
        if u = [] then None
        else case take_line held u of
          Skip \<Rightarrow> file_loop lmax getenv rest held a_conf sec os orc
        | Keep k \<Rightarrow> file_loop lmax getenv rest k a_conf sec os orc
        | Line l \<Rightarrow>
            (case zlog_conf_parse_line lmax getenv a_conf (cut_comment False l) sec os orc of
               None \<Rightarrow> None
             | Some (rc, c1, sec1, os1, orc1) \<Rightarrow>
                 if rc < 0 then Some (rc, c1, os1, orc1) else file_loop lmax getenv rest [] c1 sec1 os1 orc1))"
  by pat_completeness auto
termination
  by (relation "measure (\<lambda>(lmax, getenv, s, held, a_conf, sec, os, orc). length s)") (auto simp: fgets_def Let_def)

definition zlog_conf_build_with_file :: "int \<Rightarrow> (string \<Rightarrow> string option) \<Rightarrow> conf \<Rightarrow> os \<Rightarrow> outcomes \<Rightarrow>
    (int \<times> conf \<times> os \<times> outcomes) option" where
  "zlog_conf_build_with_file lmax getenv a_conf os orc =
     (case os_stat os (cf_file a_conf) orc of
        (Stat _ _, orc1) \<Rightarrow>
          let (ok, orc2) = ask orc1 in
          if \<not> ok then Some (-1, a_conf, os, orc2)
          else do {
            s \<leftarrow> file_text os (cf_file a_conf);
            file_loop lmax getenv s [] a_conf 0 os orc2 }
      | (_, orc1) \<Rightarrow> Some (-1, a_conf, os, orc1))"

text \<open>The lines \<open>strtok\<close> finds: the longest runs of other characters.\<close>

fun strtok_lines :: "string \<Rightarrow> string \<Rightarrow> string list" where
  "strtok_lines acc [] = (if acc = [] then [] else [acc])"
| "strtok_lines acc (c # s) =
     (if c = CHR 0x0A then (if acc = [] then strtok_lines [] s else acc # strtok_lines [] s)
      else strtok_lines (acc @ [c]) s)"

fun memory_loop :: "int \<Rightarrow> (string \<Rightarrow> string option) \<Rightarrow> string list \<Rightarrow> conf \<Rightarrow> int \<Rightarrow> os \<Rightarrow> outcomes \<Rightarrow>
    (int \<times> conf \<times> os \<times> outcomes) option" where
  "memory_loop lmax getenv [] a_conf sec os orc = Some (0, a_conf, os, orc)"
| "memory_loop lmax getenv (pline # ls) a_conf sec os orc = do {
     (rc, c1, sec1, os1, orc1) \<leftarrow> zlog_conf_parse_line lmax getenv a_conf pline sec os orc;
     if rc < 0 then Some (rc, c1, os1, orc1) else memory_loop lmax getenv ls c1 sec1 os1 orc1 }"

definition zlog_conf_build_with_in_memory :: "int \<Rightarrow> (string \<Rightarrow> string option) \<Rightarrow> conf \<Rightarrow> os \<Rightarrow> outcomes \<Rightarrow>
    (int \<times> conf \<times> os \<times> outcomes) option" where
  "zlog_conf_build_with_in_memory lmax getenv a_conf os orc =
     memory_loop lmax getenv (strtok_lines [] (cfg_ptr a_conf)) a_conf 0 os orc"

definition zlog_conf_build_without_file :: "int \<Rightarrow> (string \<Rightarrow> string option) \<Rightarrow> conf \<Rightarrow> os \<Rightarrow> outcomes \<Rightarrow>
    (int \<times> conf \<times> os \<times> outcomes) option" where
  "zlog_conf_build_without_file lmax getenv a_conf os orc = do {
     (f, cnt, orc1) \<leftarrow> zlog_format_new lmax getenv (default_format_line a_conf) (time_cache_count a_conf) orc;
     let c1 = a_conf\<lparr>default_format := f, time_cache_count := cnt\<rparr>;
     case f of None \<Rightarrow> Some (-1, c1, os, orc1)
     | Some df \<Rightarrow>
         (case zlog_rotater_new (rotate_lock_file c1) os orc1 of
            (None, os1, orc2) \<Rightarrow> Some (-1, c1, os1, orc2)
          | (Some rot, os1, orc2) \<Rightarrow> do {
              let c2 = c1\<lparr>cf_rotater := Some rot\<rparr>;
              (r, cnt2, os2, orc3) \<leftarrow> zlog_rule_new lmax getenv ZLOG_CONF_DEFAULT_RULE (cf_levels c2) df (cf_formats c2)
                 (cf_file_perms c2) (cf_fsync_period c2) (time_cache_count c2) os1 orc2;
              let c3 = c2\<lparr>time_cache_count := cnt2\<rparr>;
              case r of None \<Rightarrow> Some (-1, c3, os2, orc3)
              | Some default_rule \<Rightarrow> add_rule c3 default_rule os2 orc3 }) }"

section \<open>A new configuration\<close>

datatype cfg_source = NO_CFG | FILE_CFG string | IN_MEMORY_CFG string

definition config_source :: "(string \<Rightarrow> string option) \<Rightarrow> string option \<Rightarrow> cfg_source" where
  "config_source getenv config =
     (let given = (case config of None \<Rightarrow> [] | Some s \<Rightarrow> s) in
      if given \<noteq> [] \<and> hd given \<noteq> CHR ''['' then FILE_CFG given
      else case getenv ''ZLOG_CONF_PATH'' of
        Some path \<Rightarrow> FILE_CFG path
      | None \<Rightarrow> if given \<noteq> [] then IN_MEMORY_CFG given else NO_CFG)"

definition conf_start :: "cfg_source \<Rightarrow> level arraylist \<Rightarrow> format arraylist \<Rightarrow> rule arraylist \<Rightarrow> conf" where
  "conf_start src ls fs rs =
     (let path = (case src of FILE_CFG p \<Rightarrow> p | _ \<Rightarrow> []) in
      \<lparr>cf_file = path, cfg_ptr = (case src of IN_MEMORY_CFG t \<Rightarrow> t | _ \<Rightarrow> []), strict_init = True,
       buf_size_min = ZLOG_CONF_DEFAULT_BUF_SIZE_MIN, buf_size_max = ZLOG_CONF_DEFAULT_BUF_SIZE_MAX,
       rotate_lock_file = (case src of FILE_CFG p \<Rightarrow> p | _ \<Rightarrow> ZLOG_CONF_BACKUP_ROTATE_LOCK_FILE),
       cf_rotater = None, default_format_line = ZLOG_CONF_DEFAULT_FORMAT, default_format = None,
       cf_file_perms = ZLOG_CONF_DEFAULT_FILE_PERMS, cf_fsync_period = 0, reload_conf_period = 0,
       cf_levels = ls, cf_formats = fs, cf_rules = rs, time_cache_count = 0\<rparr>)"

definition conf_build :: "cfg_source \<Rightarrow> int \<Rightarrow> (string \<Rightarrow> string option) \<Rightarrow> conf \<Rightarrow> os \<Rightarrow> outcomes \<Rightarrow> (int \<times> conf \<times> os \<times> outcomes) option" where
  "conf_build src = (case src of
       FILE_CFG _ \<Rightarrow> zlog_conf_build_with_file
     | IN_MEMORY_CFG _ \<Rightarrow> zlog_conf_build_with_in_memory
     | NO_CFG \<Rightarrow> zlog_conf_build_without_file)"

definition zlog_conf_new :: "int \<Rightarrow> (string \<Rightarrow> string option) \<Rightarrow> string option \<Rightarrow> os \<Rightarrow> outcomes \<Rightarrow> (conf option \<times> os \<times> outcomes) option" where
  "zlog_conf_new lmax getenv config os orc =
     (let (ok, orc1) = ask orc; src = config_source getenv config in
      if \<not> ok then Some (None, os, orc1)
      else if MAXLEN_PATH < (case src of FILE_CFG p \<Rightarrow> length p | IN_MEMORY_CFG t \<Rightarrow> length t | NO_CFG \<Rightarrow> 0) then Some (None, os, orc1)
      else do {
        (ls, orc2) \<leftarrow> zlog_level_list_new orc1;
        case ls of None \<Rightarrow> Some (None, os, orc2)
        | Some levels \<Rightarrow>
            (case zc_arraylist_new True orc2 of
               (None, orc3) \<Rightarrow> Some (None, os, orc3)
             | (Some formats, orc3) \<Rightarrow>
                 (case zc_arraylist_new True orc3 of
                    (None, orc4) \<Rightarrow> Some (None, os, orc4)
                  | (Some rules, orc4) \<Rightarrow> do {
                      (rc, c, os1, orc5) \<leftarrow> conf_build src lmax getenv (conf_start src levels formats rules) os orc4;
                      if rc \<noteq> 0 then let (os2, orc6) = zlog_conf_del c os1 orc5 in Some (None, os2, orc6)
                      else Some (Some c, os1, orc5) })) })"

end
