(* ===== verification/ConfOk.thy ===== *)
theory ConfOk
  imports Conf CategoryRules
begin

text \<open>
  Every configuration that is accepted is well formed, and reading a file is parsing the lines it says.
\<close>

section \<open>Well-formed configurations\<close>

text \<open>The lists are well formed, and rules have a rotater and a default format to use.\<close>

definition conf_ok :: "conf \<Rightarrow> bool" where
  "conf_ok c \<longleftrightarrow> ll_inv (cf_levels c) \<and> al_inv (cf_formats c) \<and>
     (\<exists>rs. rules_ok (cf_rules c) rs \<and> (rs \<noteq> [] \<longrightarrow> cf_rotater c \<noteq> None \<and> default_format c \<noteq> None))"

text \<open>While the lines are read: there are rules only behind the line that starts them, and then the rest is there.\<close>

definition sec_ok :: "int \<Rightarrow> conf \<Rightarrow> bool" where
  "sec_ok sec c \<longleftrightarrow> conf_ok c \<and>
     (if sec = 4 then cf_rotater c \<noteq> None \<and> default_format c \<noteq> None else zc_arraylist_foreach (cf_rules c) = [])"

text \<open>A result whose configuration has the property, or is at least well formed when the result is an error.\<close>

definition gives :: "(conf \<Rightarrow> bool) \<Rightarrow> (int \<times> conf \<times> 'x) option \<Rightarrow> bool" where
  "gives P r \<longleftrightarrow> (\<forall>i c x. r = Some (i, c, x) \<longrightarrow> conf_ok c \<and> (i \<ge> 0 \<longrightarrow> P c))"

lemma gives_simps [simp]: "gives P None" "gives P (Some (i, c, x)) \<longleftrightarrow> conf_ok c \<and> (i \<ge> 0 \<longrightarrow> P c)"
  "gives P (if b then r1 else r2) \<longleftrightarrow> (b \<longrightarrow> gives P r1) \<and> (\<not> b \<longrightarrow> gives P r2)"
  "gives P (Option.bind m f) \<longleftrightarrow> (\<forall>y. m = Some y \<longrightarrow> gives P (f y))"
  by (auto simp: gives_def bind_eq_Some_conv)

lemma givesD: "gives P r \<Longrightarrow> r = Some (i, c, x) \<Longrightarrow> conf_ok c \<and> (i \<ge> 0 \<longrightarrow> P c)"
  by (simp add: gives_def)

text \<open>The fields that have no part in it.\<close>

lemma conf_ok_simps [simp]: "conf_ok (c\<lparr>strict_init := a1\<rparr>) = conf_ok c" "conf_ok (c\<lparr>buf_size_min := a2\<rparr>) = conf_ok c"
  "conf_ok (c\<lparr>buf_size_max := a2\<rparr>) = conf_ok c" "conf_ok (c\<lparr>rotate_lock_file := a3\<rparr>) = conf_ok c"
  "conf_ok (c\<lparr>default_format_line := a3\<rparr>) = conf_ok c" "conf_ok (c\<lparr>cf_file_perms := a2\<rparr>) = conf_ok c"
  "conf_ok (c\<lparr>cf_fsync_period := a2\<rparr>) = conf_ok c" "conf_ok (c\<lparr>reload_conf_period := a2\<rparr>) = conf_ok c"
  "conf_ok (c\<lparr>time_cache_count := a4\<rparr>) = conf_ok c"
  by (simp_all add: conf_ok_def)

lemma sec_ok_simps [simp]: "sec_ok s (c\<lparr>strict_init := a1\<rparr>) = sec_ok s c" "sec_ok s (c\<lparr>buf_size_min := a2\<rparr>) = sec_ok s c"
  "sec_ok s (c\<lparr>buf_size_max := a2\<rparr>) = sec_ok s c" "sec_ok s (c\<lparr>rotate_lock_file := a3\<rparr>) = sec_ok s c"
  "sec_ok s (c\<lparr>default_format_line := a3\<rparr>) = sec_ok s c" "sec_ok s (c\<lparr>cf_file_perms := a2\<rparr>) = sec_ok s c"
  "sec_ok s (c\<lparr>cf_fsync_period := a2\<rparr>) = sec_ok s c" "sec_ok s (c\<lparr>reload_conf_period := a2\<rparr>) = sec_ok s c"
  "sec_ok s (c\<lparr>time_cache_count := a4\<rparr>) = sec_ok s c"
  by (simp_all add: sec_ok_def)

lemma sec_okD: "sec_ok s c \<Longrightarrow> conf_ok c" "sec_ok 4 c \<Longrightarrow> cf_rotater c \<noteq> None" "sec_ok 4 c \<Longrightarrow> default_format c \<noteq> None"
  by (auto simp: sec_ok_def)

lemma conf_ok_lists: "conf_ok c \<Longrightarrow> ll_inv l \<Longrightarrow> conf_ok (c\<lparr>cf_levels := l\<rparr>)" "conf_ok c \<Longrightarrow> al_inv f \<Longrightarrow> conf_ok (c\<lparr>cf_formats := f\<rparr>)"
  by (auto simp: conf_ok_def)

lemma sec_ok_lists: "sec_ok s c \<Longrightarrow> ll_inv l \<Longrightarrow> sec_ok s (c\<lparr>cf_levels := l\<rparr>)" "sec_ok s c \<Longrightarrow> al_inv f \<Longrightarrow> sec_ok s (c\<lparr>cf_formats := f\<rparr>)"
  by (auto simp: sec_ok_def conf_ok_lists)

lemma conf_ok_set: "conf_ok c \<Longrightarrow> conf_ok (c\<lparr>cf_rotater := Some r\<rparr>)" "conf_ok c \<Longrightarrow> conf_ok (c\<lparr>default_format := Some f\<rparr>)"
  "conf_ok c \<Longrightarrow> zc_arraylist_foreach (cf_rules c) = [] \<Longrightarrow> conf_ok (c\<lparr>default_format := g\<rparr>)"
  by (auto simp: conf_ok_def rules_ok_def)

section \<open>Every line keeps it\<close>

lemma add_rule_ok:
  assumes c: "conf_ok c" and a: "rule_ok a" "ru_category a \<noteq> []" and r: "cf_rotater c \<noteq> None" "default_format c \<noteq> None"
  shows "gives (sec_ok 4) (add_rule c a os orc)"
proof -
  obtain rs where rs: "rules_ok (cf_rules c) rs" using c by (auto simp: conf_ok_def)
  then have inv: "al_inv (cf_rules c)" by (simp add: rules_ok_def)
  obtain rc l orc1 where z: "zc_arraylist_add (cf_rules c) (Some a) orc = Some (rc, l, [], orc1)" "al_inv l" "rc \<noteq> 0 \<longrightarrow> rc = -1 \<and> l = cf_rules c"
    "rc = 0 \<longrightarrow> zc_arraylist_foreach l = zc_arraylist_foreach (cf_rules c) @ [Some a]"
    by (rule zc_arraylist_add_spec[OF inv])
  have ok: "conf_ok (c\<lparr>cf_rules := l\<rparr>)"
  proof (cases "rc = 0")
    case True
    then have "rules_ok l (rs @ [a])" using z rs a by (auto simp: rules_ok_def)
    then show ?thesis using c r by (auto simp: conf_ok_def)
  next
    case False
    then show ?thesis using z(3) c by (simp add: conf_ok_def)
  qed
  then show ?thesis using z(1) r by (simp add: add_rule_def Let_def sec_ok_def split: prod.split)
qed

lemma parse_rule_ok:
  assumes c: "sec_ok 4 c"
  shows "gives (sec_ok 4) (parse_rule lmax getenv c line os orc)"
proof -
  have ok: "conf_ok c" "ll_inv (cf_levels c)" using sec_okD(1)[OF c] by (simp_all add: conf_ok_def)
  have "gives (sec_ok 4) (add_rule (c\<lparr>time_cache_count := cnt\<rparr>) a os1 orc1)"
    if "zlog_rule_new lmax getenv line (cf_levels c) df (cf_formats c) p f t os orc = Some (Some a, cnt, os1, orc1)"
    for df p f t a cnt os1 orc1
    using zlog_rule_new_ok[OF ok(2) that] ok(1) sec_okD(2,3)[OF c] by (intro add_rule_ok) simp_all
  then show ?thesis using c ok(1) by (auto simp: parse_rule_def Let_def split: option.split)
qed

lemma parse_level_ok: "sec_ok s c \<Longrightarrow> gives (sec_ok s) (parse_level c line orc)"
proof -
  assume c: "sec_ok s c"
  then have ll: "ll_inv (cf_levels c)" using sec_okD(1) by (auto simp: conf_ok_def)
  have "ll_inv ls" if s: "zlog_level_list_set (cf_levels c) line orc = Some (rc, ls, fr, orc')" for rc ls fr orc'
  proof -
    obtain a orc1 where a: "zlog_level_new line orc = Some (a, orc1)" using s by (auto simp: zlog_level_list_set_def bind_eq_Some_conv)
    show ?thesis by (rule level_set_inv[OF ll a]) (use s in simp)
  qed
  then show ?thesis using c by (auto simp: parse_level_def intro: conf_ok_lists sec_ok_lists sec_okD)
qed

lemma parse_format_ok: "sec_ok s c \<Longrightarrow> gives (sec_ok s) (parse_format lmax getenv c line orc)"
proof -
  assume c: "sec_ok s c"
  then have inv: "al_inv (cf_formats c)" using sec_okD(1) by (auto simp: conf_ok_def)
  have "al_inv l" if z: "zc_arraylist_add (cf_formats c) f orc = Some (rc, l, fr, orc')" for f orc rc l fr orc'
    by (rule zc_arraylist_add_spec[OF inv, of f orc]) (use z in simp)
  then show ?thesis using c sec_okD(1)[OF c] by (auto simp: parse_format_def Let_def intro: conf_ok_lists sec_ok_lists split: option.split)
qed

lemma parse_global_ok: "parse_global lmax getenv c line = Some (rc, c') \<Longrightarrow> conf_ok c' = conf_ok c \<and> sec_ok s c' = sec_ok s c"
  by (auto simp: parse_global_def Let_def bind_eq_Some_conv split: prod.splits if_splits)

lemma start_rules_ok:
  assumes c: "conf_ok c" "zc_arraylist_foreach (cf_rules c) = []"
  shows "gives (sec_ok 4) (start_rules lmax getenv c os orc)"
proof -
  have "conf_ok (c\<lparr>cf_rotater := Some r, default_format := g\<rparr>)" for r g
    by (rule conf_ok_set(3)) (use c conf_ok_set(1) in simp_all)
  then show ?thesis using c by (auto simp: start_rules_def Let_def sec_ok_def conf_ok_def split: prod.split option.split)
qed

lemma parse_section_ok:
  assumes c: "sec_ok sec c" and p: "parse_section lmax getenv c line sec os orc = Some (rc, c', sec', os', orc')"
  shows "conf_ok c' \<and> (0 \<le> rc \<longrightarrow> sec_ok sec' c')"
proof -
  have ok: "conf_ok c" by (rule sec_okD(1)[OF c])
  obtain name where "(case section_number name of None \<Rightarrow> Some (-1, c, sec, os, orc)
      | Some n \<Rightarrow> if n \<le> sec then Some (-1, c, n, os, orc)
          else if n = 4 then do { (rc, c1, os1, orc1) \<leftarrow> start_rules lmax getenv c os orc; Some (rc, c1, n, os1, orc1) }
          else Some (0, c, n, os, orc)) = Some (rc, c', sec', os', orc')"
    using p by (auto simp: parse_section_def Let_def split: prod.splits)
  then consider "rc = -1" "c' = c" | "rc = 0" "c' = c" "sec < sec'" "sec' \<noteq> 4" "sec' \<le> 4"
    | "start_rules lmax getenv c os orc = Some (rc, c', os', orc')" "sec' = 4" "sec < 4"
    by (auto simp: section_number_def bind_eq_Some_conv split: option.splits if_splits)
  then show ?thesis
  proof cases
    case 1
    then show ?thesis using ok by simp
  next
    case 2
    then show ?thesis using c ok by (auto simp: sec_ok_def)
  next
    case 3
    then have "zc_arraylist_foreach (cf_rules c) = []" using c by (simp add: sec_ok_def)
    from givesD[OF start_rules_ok[OF ok this] 3(1)] 3 show ?thesis by simp
  qed
qed

lemma parse_line_ok:
  assumes c: "sec_ok sec c" and p: "zlog_conf_parse_line lmax getenv c line sec os orc = Some (rc, c', sec', os', orc')"
  shows "conf_ok c' \<and> (0 \<le> rc \<longrightarrow> sec_ok sec' c')"
proof -
  have ok: "conf_ok c" by (rule sec_okD(1)[OF c])
  consider "rc = -1" "c' = c" | "parse_section lmax getenv c line sec os orc = Some (rc, c', sec', os', orc')"
    | "parse_global lmax getenv c line = Some (rc, c')" "sec' = sec" | orc1 where "parse_level c line orc = Some (rc, c', orc1)" "sec' = sec"
    | orc1 where "parse_format lmax getenv c line orc = Some (rc, c', orc1)" "sec' = sec"
    | x where "parse_rule lmax getenv c line os orc = Some (rc, c', x)" "sec' = sec" "sec = 4"
    using p by (auto simp: zlog_conf_parse_line_def bind_eq_Some_conv split: if_splits)
  then show ?thesis
  proof cases
    case 1
    then show ?thesis using ok by simp
  next
    case 2
    then show ?thesis by (rule parse_section_ok[OF c])
  next
    case 3
    then show ?thesis using parse_global_ok[OF 3(1)] c ok by simp
  next
    case (4 orc1)
    then show ?thesis using givesD[OF parse_level_ok[OF c]] by blast
  next
    case (5 orc1)
    then show ?thesis using givesD[OF parse_format_ok[OF c]] by blast
  next
    case (6 x)
    then show ?thesis using givesD[OF parse_rule_ok] c by blast
  qed
qed

lemma memory_loop_ok: "sec_ok sec c \<Longrightarrow> memory_loop lmax getenv ls c sec os orc = Some (rc, c', os', orc') \<Longrightarrow> conf_ok c'"
proof (induction ls arbitrary: c sec os orc)
  case Nil
  then show ?case using sec_okD(1) by auto
next
  case (Cons l ls)
  obtain rc1 c1 sec1 os1 orc1 where p: "zlog_conf_parse_line lmax getenv c l sec os orc = Some (rc1, c1, sec1, os1, orc1)"
    using Cons.prems(2) by (auto simp: bind_eq_Some_conv)
  show ?case using parse_line_ok[OF Cons.prems(1) p] Cons.prems(2) Cons.IH p by (auto split: if_splits)
qed

declare file_loop.simps [simp del]

lemma file_loop_ok: "sec_ok sec c \<Longrightarrow> file_loop lmax getenv s held c sec os orc = Some (rc, c', os', orc') \<Longrightarrow> conf_ok c'"
proof (induction lmax getenv s held c sec os orc rule: file_loop.induct)
  case (1 lmax getenv s held c sec os orc)
  show ?case
  proof (cases "s = []")
    case True
    then show ?thesis using 1(4) 1(5)[unfolded file_loop.simps[of _ _ s]] sec_okD(1) by auto
  next
    case s: False
    obtain u t where f: "fgets (MAXLEN_CFG_LINE + 1 - length held) s = (u, t)" by fastforce
    show ?thesis
    proof (cases "u = []")
      case True
      then show ?thesis using 1(5) s f by (simp add: file_loop.simps[of _ _ s])
    next
      case u: False
      note eq = 1(5)[unfolded file_loop.simps[of _ _ s]]
      show ?thesis
      proof (cases "take_line held u")
        case Skip
        then show ?thesis using 1(1)[OF s f[symmetric] refl u Skip 1(4)] eq s f u by simp
      next
        case (Keep k)
        then show ?thesis using 1(2)[OF s f[symmetric] refl u Keep 1(4)] eq s f u by simp
      next
        case (Line l)
        obtain rc1 c1 sec1 os1 orc1 where p: "zlog_conf_parse_line lmax getenv c (cut_comment False l) sec os orc = Some (rc1, c1, sec1, os1, orc1)"
          using eq s f u Line by (auto split: option.splits)
        note ok = parse_line_ok[OF 1(4) p]
        show ?thesis
        proof (cases "rc1 < 0")
          case True
          then show ?thesis using eq s f u Line p ok by simp
        next
          case False
          then show ?thesis using 1(3)[OF s f[symmetric] refl u Line p _ _ _ _ False] eq s f u Line p ok by simp
        qed
      qed
    qed
  qed
qed

lemma level_list_new_inv: "zlog_level_list_new orc = Some (Some ls, orc') \<Longrightarrow> ll_inv ls"
  by (rule level_list_new_spec[of orc]) auto

lemma build_without_file_ok:
  assumes c: "sec_ok 0 c" and b: "zlog_conf_build_without_file lmax getenv c os orc = Some (rc, c', os', orc')"
  shows "conf_ok c'"
proof -
  have ok: "conf_ok c" "zc_arraylist_foreach (cf_rules c) = []" "ll_inv (cf_levels c)" using c by (auto simp: sec_ok_def conf_ok_def)
  have f: "conf_ok (c\<lparr>default_format := f, time_cache_count := n\<rparr>)" for f n using conf_ok_set(3)[OF ok(1,2)] by simp
  have r: "conf_ok (c\<lparr>default_format := Some f, time_cache_count := n, cf_rotater := Some r, time_cache_count := m\<rparr>)" for f n r m
    unfolding conf_ok_simps by (rule conf_ok_set(1)[OF f])
  have add: "gives (sec_ok 4) (add_rule (c\<lparr>default_format := Some f, time_cache_count := n, cf_rotater := Some r, time_cache_count := m\<rparr>) a os1 orc1)"
    if "zlog_rule_new lmax getenv ZLOG_CONF_DEFAULT_RULE (cf_levels c) df (cf_formats c) p fs t os0 orc0 = Some (Some a, m, os1, orc1)"
    for df p fs t os0 orc0 a m os1 orc1 f n r
  proof (rule add_rule_ok)
    show "rule_ok a" by (rule zlog_rule_new_ok(1)[OF ok(3) that])
    show "ru_category a \<noteq> []" by (rule zlog_rule_new_ok(2)[OF ok(3) that])
  qed (use r in simp_all)
  note eq = b[unfolded zlog_conf_build_without_file_def Let_def]
  obtain fo n orc1 where fo: "zlog_format_new lmax getenv (default_format_line c) (time_cache_count c) orc = Some (fo, n, orc1)"
    using eq by (auto simp: bind_eq_Some_conv)
  show ?thesis
  proof (cases fo)
    case None
    then show ?thesis using eq fo f by auto
  next
    case (Some df)
    obtain rot os1 orc2 where rot: "zlog_rotater_new (rotate_lock_file c) os orc1 = (rot, os1, orc2)" by (metis prod_cases3)
    show ?thesis
    proof (cases rot)
      case None
      then show ?thesis using eq fo Some rot f by auto
    next
      case rot2: (Some ro)
      obtain a m os2 orc3 where a: "zlog_rule_new lmax getenv ZLOG_CONF_DEFAULT_RULE (cf_levels c) df (cf_formats c)
          (cf_file_perms c) (cf_fsync_period c) n os1 orc2 = Some (a, m, os2, orc3)"
        using eq fo Some rot rot2 by (auto simp: bind_eq_Some_conv)
      show ?thesis
      proof (cases a)
        case None
        then show ?thesis using eq fo Some rot rot2 a r by auto
      next
        case (Some d)
        have "add_rule (c\<lparr>default_format := Some df, time_cache_count := n, cf_rotater := Some ro, time_cache_count := m\<rparr>) d os2 orc3 = Some (rc, c', os', orc')"
          using eq fo \<open>fo = Some df\<close> rot rot2 a Some by simp
        then show ?thesis using givesD[OF add[OF a[unfolded Some]]] by blast
      qed
    qed
  qed
qed

lemma conf_new_ok:
  assumes "zlog_conf_new lmax getenv config os orc = Some (Some c, os', orc')"
  shows "conf_ok c"
proof -
  let ?src = "config_source getenv config"
  obtain ok orc1 where a: "ask orc = (ok, orc1)" by fastforce
  note eq = assms[unfolded zlog_conf_new_def Let_def a prod.case]
  obtain lo orc2 where l0: "zlog_level_list_new orc1 = Some (lo, orc2)" using eq by (cases "zlog_level_list_new orc1") (auto split: if_splits)
  obtain fo :: "format arraylist option" and orc3 where f0: "zc_arraylist_new True orc2 = (fo, orc3)" by fastforce
  obtain ro :: "rule arraylist option" and orc4 where r0: "zc_arraylist_new True orc3 = (ro, orc4)" by fastforce
  obtain ls fs rs where some: "lo = Some ls" "fo = Some fs" "ro = Some rs"
    using eq l0 f0 r0 by (cases lo; cases fo; cases ro) (auto split: if_splits)
  note l = l0[unfolded some] and n = f0[unfolded some] r0[unfolded some]
  have b: "conf_build ?src lmax getenv (conf_start ?src ls fs rs) os orc4 = Some (0, c, os', orc')"
    using eq l n by (auto simp: bind_eq_Some_conv split: if_splits prod.splits)
  have start: "sec_ok 0 (conf_start ?src ls fs rs)"
    using level_list_new_inv[OF l] zc_arraylist_new_inv[OF n(1)] zc_arraylist_new_inv[OF n(2)]
    by (auto simp: sec_ok_def conf_ok_def conf_start_def Let_def rules_ok_def)
  show ?thesis
  proof (cases ?src)
    case NO_CFG
    then show ?thesis using build_without_file_ok[OF start] b by (simp add: conf_build_def)
  next
    case (FILE_CFG p)
    then show ?thesis using b file_loop_ok[OF start] sec_okD(1)[OF start]
      by (auto simp: conf_build_def zlog_conf_build_with_file_def Let_def bind_eq_Some_conv split: prod.splits stat_result.splits if_splits)
  next
    case (IN_MEMORY_CFG t)
    then show ?thesis using b memory_loop_ok[OF start] by (simp add: conf_build_def zlog_conf_build_with_in_memory_def)
  qed
qed

text \<open>
  C15. Every configuration that \<open>zlog_conf_new\<close> accepts, from whatever file, text or default and for every pattern of
  failures, is well formed: the levels have their list of 256 slots with the default level, the formats are a list, every
  rule has a category, a valid comparison and the bitmap of that comparison, and where there are rules there are a
  rotater and a default format.
\<close>

theorem zlog_conf_new_ok:
  assumes "zlog_conf_new lmax getenv config os orc = Some (Some c, os', orc')"
  shows "conf_ok c"
  by (rule conf_new_ok[OF assms])

lemma set_no_failure: "zc_arraylist_set l i d [] = Some (rc, l', fr, orc') \<Longrightarrow> 0 \<le> i \<Longrightarrow> rc = 0 \<and> orc' = []"
  by (auto simp: zc_arraylist_set_def zc_arraylist_expand_inner_def Let_def bind_eq_Some_conv split: if_splits)

lemma set_lines_nil:
  "map (\<lambda>line. zlog_level_new line []) lines = map (\<lambda>a. Some (Some a, [])) as \<Longrightarrow> \<forall>a \<in> set as. 0 \<le> int_level a \<Longrightarrow>
   set_lines ls lines [] = Some (rc, ls', orc') \<Longrightarrow> rc = 0 \<and> orc' = []"
proof (induction lines arbitrary: ls as)
  case (Cons line lines)
  obtain a as' where as: "as = a # as'" using Cons.prems(1) by (cases as) auto
  have n: "zlog_level_new line [] = Some (Some a, [])" using Cons.prems(1) as by simp
  obtain rc1 l1 fr orc1 where z: "zc_arraylist_set ls (int_level a) (Some a) [] = Some (rc1, l1, fr, orc1)"
    using Cons.prems(3) n by (auto simp: zlog_level_list_set_def bind_eq_Some_conv)
  have "rc1 = 0 \<and> orc1 = []" by (rule set_no_failure[OF z]) (use Cons.prems(2) as in simp)
  then show ?case using Cons.IH[of as' l1] Cons.prems as n z by (simp add: zlog_level_list_set_def)
qed simp

lemma level_list_new_nil: "\<exists>ls. zlog_level_list_new [] = Some (Some ls, [])"
proof -
  let ?ls = "\<lparr>al_array = replicate 32 None, al_len = 0, al_size = 32, al_del = True\<rparr> :: level arraylist"
  have n: "zc_arraylist_new True [] = (Some ?ls, [])" by (simp add: zc_arraylist_new_def ARRAY_LIST_DEFAULT_SIZE_def)
  obtain r orc' where r: "zlog_level_list_new [] = Some (r, orc')" by (rule level_list_new_spec[of "[]"])
  then obtain rc ls' orc1 where s: "set_lines ?ls default_lines [] = Some (rc, ls', orc1)"
    using n by (auto simp: zlog_level_list_new_def zlog_level_list_set_default_def bind_eq_Some_conv)
  have "rc = 0 \<and> orc1 = []" by (rule set_lines_nil[OF default_parse _ s]) (simp add: default_levels_def)
  then show ?thesis using s n by (simp add: zlog_level_list_new_def zlog_level_list_set_default_def)
qed

lemma memory_global:
  "zlog_conf_parse_line lmax getenv c ''[global]'' 0 os orc = Some (0, c, 1, os, orc)"
proof -
  have "sscanf ''[global]'' [SLit (CHR ''[''), SWs, SSet (\<lambda>c. c \<notin> {CHR '']'', CHR '' '', CHR 0x09})] = (1, [IStr ''global''])"
    by (simp add: clib)
  moreover have "\<not> MAXLEN_CFG_LINE < length ''[global]''" by (simp add: MAXLEN_CFG_LINE_def)
  ultimately show ?thesis
    by (simp add: zlog_conf_parse_line_def parse_section_def char_at_def section_number_def str_item_def)
qed

lemma sample_conf_new: "\<exists>c. zlog_conf_new 2147483647 (\<lambda>_. None) (Some ''[global]'') sample_os [] = Some (Some c, sample_os, [])"
proof -
  have src: "config_source (\<lambda>_. None) (Some ''[global]'') = IN_MEMORY_CFG ''[global]''" by (simp add: config_source_def)
  obtain ls where ls: "zlog_level_list_new [] = Some (Some ls, [])" using level_list_new_nil by blast
  show ?thesis
    unfolding zlog_conf_new_def src
    by (simp add: ls zc_arraylist_new_def ARRAY_LIST_DEFAULT_SIZE_def MAXLEN_PATH_def conf_build_def zlog_conf_build_with_in_memory_def memory_global)
       (simp add: conf_start_def memory_global)
qed

theorem zlog_conf_new_ok_witness:
  "\<exists>c. zlog_conf_new 2147483647 (\<lambda>_. None) (Some ''[global]'') sample_os [] = Some (Some c, sample_os, []) \<and> conf_ok c"
  using sample_conf_new zlog_conf_new_ok by blast

section \<open>Reading a file\<close>

text \<open>
  What a file with the lines \<open>ls\<close> says, behind the part \<open>h\<close> of a line that is continued: blank lines and comments say
  nothing, a line that ends in a backslash goes on in the next one, and the text behind a \<open>#\<close> is cut off.
\<close>

definition trimmed :: "string \<Rightarrow> string" where
  "trimmed l = strip_end (dropWhile isspace l)"

fun logical_lines :: "string \<Rightarrow> string list \<Rightarrow> string list" where
  "logical_lines h [] = []"
| "logical_lines h (l # ls) =
     (let t = trimmed l in
      if t = [] \<or> hd t = CHR ''#'' then logical_lines h ls
      else if last t = CHR 0x5C then logical_lines (strip_end (h @ butlast t)) ls
      else cut_comment False (h @ t) # logical_lines [] ls)"

text \<open>The pieces of a line fit into the buffer with the 30 bytes the code keeps free.\<close>

fun pieces_fit :: "string \<Rightarrow> string list \<Rightarrow> bool" where
  "pieces_fit h [] = True"
| "pieces_fit h (l # ls) =
     (length h + length l + 30 \<le> MAXLEN_CFG_LINE \<and>
      (let t = trimmed l in
       pieces_fit (if t = [] \<or> hd t = CHR ''#'' then h else if last t = CHR 0x5C then strip_end (h @ butlast t) else []) ls))"

definition unlines :: "string list \<Rightarrow> string" where
  "unlines ls = concat (map (\<lambda>l. l @ [CHR 0x0A]) ls)"

lemma strip_end_length: "length (strip_end s) \<le> length s"
  by (metis length_dropWhile_le length_rev strip_end_def)

lemma strip_end_nonempty: "p \<noteq> [] \<Longrightarrow> \<not> isspace (hd p) \<Longrightarrow> strip_end p \<noteq> [] \<and> hd (strip_end p) = hd p"
proof -
  assume p: "p \<noteq> []" "\<not> isspace (hd p)"
  then obtain c q where q: "p = c # q" by (cases p) auto
  have "\<exists>xs. dropWhile isspace (rev q @ [c]) = xs @ [c]"
    using p q by (cases "\<forall>x \<in> set (rev q). isspace x") (auto simp: dropWhile_append3 dropWhile_append2 dropWhile_append1)
  then obtain xs where "dropWhile isspace (rev q @ [c]) = xs @ [c]" ..
  then show ?thesis using q by (simp add: strip_end_def)
qed

lemma trimmed_parts:
  "trimmed l = [] \<longleftrightarrow> dropWhile isspace l = []" "trimmed l \<noteq> [] \<Longrightarrow> hd (trimmed l) = hd (dropWhile isspace l)"
  "length (trimmed l) \<le> length l"
proof -
  have n: "dropWhile isspace l \<noteq> [] \<Longrightarrow> \<not> isspace (hd (dropWhile isspace l))" by (rule hd_dropWhile)
  show e: "trimmed l = [] \<longleftrightarrow> dropWhile isspace l = []"
    using strip_end_nonempty[OF _ n] by (cases "dropWhile isspace l = []") (simp_all add: trimmed_def strip_end_def del: dropWhile_eq_Nil_conv)
  show "trimmed l \<noteq> [] \<Longrightarrow> hd (trimmed l) = hd (dropWhile isspace l)"
    using strip_end_nonempty[OF _ n] e by (simp add: trimmed_def)
  show "length (trimmed l) \<le> length l"
    using strip_end_length[of "dropWhile isspace l"] length_dropWhile_le[of isspace l] by (simp add: trimmed_def)
qed

lemma take_line_line:
  assumes "CHR 0x0A \<notin> set l" "NUL \<notin> set l" "length h + length l + 30 \<le> MAXLEN_CFG_LINE"
  shows "take_line h (l @ [CHR 0x0A]) =
    (let t = trimmed l in
     if t = [] \<or> hd t = CHR ''#'' then Skip
     else if last t = CHR 0x5C then Keep (strip_end (h @ butlast t)) else Line (h @ t))"
proof -
  have "takeWhile (\<lambda>c. c \<noteq> NUL) (l @ [CHR 0x0A]) = l @ [CHR 0x0A]" using assms(2) by (intro takeWhile_eq_all_conv[THEN iffD2]) auto
  then have e: "take_line h (l @ [CHR 0x0A]) =
     (if dropWhile isspace l = [] \<or> hd (dropWhile isspace l) = CHR ''#'' then Skip
      else if last (trimmed l) = CHR 0x5C \<and> int (length h) + int (length (trimmed l)) - 1 \<le> int MAXLEN_CFG_LINE - 30
        then Keep (strip_end (h @ butlast (trimmed l))) else Line (h @ trimmed l))"
    by (simp only: take_line_def Let_def trimmed_def) simp
  have "int (length h) + int (length (trimmed l)) - 1 \<le> int MAXLEN_CFG_LINE - 30" using assms(3) trimmed_parts(3)[of l] by linarith
  then show ?thesis using trimmed_parts(1,2)[of l] unfolding e Let_def by (cases "trimmed l = []") (simp_all del: dropWhile_eq_Nil_conv)
qed

lemma fgets_line:
  assumes "CHR 0x0A \<notin> set l" "length h + length l + 30 \<le> MAXLEN_CFG_LINE"
  shows "fgets (MAXLEN_CFG_LINE + 1 - length h) (l @ CHR 0x0A # rest) = (l @ [CHR 0x0A], rest)"
proof -
  have "takeWhile (\<lambda>c. c \<noteq> CHR 0x0A) (l @ CHR 0x0A # rest) = l" using assms(1) by (intro takeWhile_append_stop) auto
  then show ?thesis using assms(2) by (simp add: fgets_def)
qed

lemma file_loop_lines:
  "\<forall>l \<in> set ls. CHR 0x0A \<notin> set l \<and> NUL \<notin> set l \<Longrightarrow> pieces_fit h ls \<Longrightarrow>
   file_loop lmax getenv (unlines ls) h c sec os orc = memory_loop lmax getenv (logical_lines h ls) c sec os orc"
proof (induction ls arbitrary: h c sec os orc)
  case Nil
  then show ?case by (simp add: unlines_def file_loop.simps)
next
  case (Cons l ls)
  have l: "CHR 0x0A \<notin> set l" "NUL \<notin> set l" and fit: "length h + length l + 30 \<le> MAXLEN_CFG_LINE" using Cons.prems by auto
  let ?t = "trimmed l"
  have u: "unlines (l # ls) = l @ CHR 0x0A # unlines ls" by (simp add: unlines_def)
  note fg = fgets_line[OF l(1) fit, of "unlines ls"]
  note tl = take_line_line[OF l fit]
  consider "?t = [] \<or> hd ?t = CHR ''#''" | "?t \<noteq> []" "hd ?t \<noteq> CHR ''#''" "last ?t = CHR 0x5C"
    | "?t \<noteq> []" "hd ?t \<noteq> CHR ''#''" "last ?t \<noteq> CHR 0x5C" by blast
  then show ?case
  proof cases
    case 1
    then have "file_loop lmax getenv (unlines (l # ls)) h c sec os orc = file_loop lmax getenv (unlines ls) h c sec os orc"
      using fg tl by (subst file_loop.simps) (auto simp: u Let_def)
    then show ?thesis using Cons 1 by (auto simp: Let_def)
  next
    case 2
    then have "file_loop lmax getenv (unlines (l # ls)) h c sec os orc = file_loop lmax getenv (unlines ls) (strip_end (h @ butlast ?t)) c sec os orc"
      using fg tl by (subst file_loop.simps) (simp add: u Let_def)
    then show ?thesis using Cons 2 by (simp add: Let_def)
  next
    case 3
    then have e: "file_loop lmax getenv (unlines (l # ls)) h c sec os orc =
        (case zlog_conf_parse_line lmax getenv c (cut_comment False (h @ ?t)) sec os orc of None \<Rightarrow> None
         | Some (rc, c1, sec1, os1, orc1) \<Rightarrow> if rc < 0 then Some (rc, c1, os1, orc1) else file_loop lmax getenv (unlines ls) [] c1 sec1 os1 orc1)"
      using fg tl by (subst file_loop.simps) (simp add: u Let_def)
    have "pieces_fit [] ls" using Cons.prems(2) 3 by (simp add: Let_def)
    then have "file_loop lmax getenv (unlines ls) [] c1 sec1 os1 orc1 = memory_loop lmax getenv (logical_lines [] ls) c1 sec1 os1 orc1" for c1 sec1 os1 orc1
      using Cons.IH Cons.prems(1) by simp
    then show ?thesis using e 3
      by (cases "zlog_conf_parse_line lmax getenv c (cut_comment False (h @ ?t)) sec os orc") (auto simp: Let_def)
  qed
qed

text \<open>
  C21. Reading a file line by line, with its buffer, the pointer into it and the continuations, is the same as parsing
  one after the other the lines the file says: without blank lines and comments, trimmed, with the continued lines
  joined and the text behind \<open>#\<close> cut off, as long as the pieces of a line fit into the buffer.
\<close>

theorem build_with_file_lines:
  assumes "\<forall>l \<in> set ls. CHR 0x0A \<notin> set l \<and> NUL \<notin> set l" "pieces_fit [] ls" "file_text os (cf_file c) = Some (unlines ls)"
  shows "zlog_conf_build_with_file lmax getenv c os (True # True # orc) = memory_loop lmax getenv (logical_lines [] ls) c 0 os orc"
proof -
  obtain i where "names os (cf_file c) = Some i" using assms(3) by (auto simp: file_text_def)
  then show ?thesis using assms(3) file_loop_lines[OF assms(1,2)] by (simp add: zlog_conf_build_with_file_def os_stat_def)
qed

definition sample_lines :: "string list" where
  "sample_lines = [''# zlog'', ''[glo'' @ [CHR 0x5C], ''  bal] # all'']"

definition sample_conf_os :: os where
  "sample_conf_os = sample_os\<lparr>names := [''c'' \<mapsto> 0], inodes := (\<lambda>_. unlines sample_lines)\<rparr>"

theorem build_with_file_lines_witness:
  "zlog_conf_build_with_file 2147483647 (\<lambda>_. None) (conf_start (FILE_CFG ''c'') default_list no_formats info_rules) sample_conf_os [True, True] =
   memory_loop 2147483647 (\<lambda>_. None) [''[global] ''] (conf_start (FILE_CFG ''c'') default_list no_formats info_rules) 0 sample_conf_os []"
proof -
  have t: "trimmed ''# zlog'' = ''# zlog''" "trimmed (''[glo'' @ [CHR 0x5C]) = ''[glo'' @ [CHR 0x5C]" "trimmed ''  bal] # all'' = ''bal] # all''"
    "strip_end ''[glo'' = ''[glo''"
    by (simp_all add: trimmed_def strip_end_def clib)
  have "logical_lines [] sample_lines = [''[global] '']" by (simp add: sample_lines_def t del: append.simps) (simp add: t)
  moreover have "pieces_fit [] sample_lines" by (simp add: sample_lines_def t MAXLEN_CFG_LINE_def del: append.simps) (simp add: t)
  moreover have "\<forall>l \<in> set sample_lines. CHR 0x0A \<notin> set l \<and> NUL \<notin> set l" by (simp add: sample_lines_def)
  moreover have "file_text sample_conf_os (cf_file (conf_start (FILE_CFG ''c'') default_list no_formats info_rules)) = Some (unlines sample_lines)"
    by (simp add: file_text_def sample_conf_os_def conf_start_def)
  ultimately show ?thesis using build_with_file_lines[of sample_lines] by metis
qed

end
