(* ===== verification/Zlog.thy ===== *)
theory Zlog
  imports Conf CategoryTable ZRecord
begin

text \<open>
  \<open>zlog.c\<close>: the global state of the library and the functions of its interface, each one an atomic step (they hold the
  lock \<open>zlog_env_lock\<close>; only the test of a category's bitmap is made before it is taken). The data of the
  threads are a map from the number of the thread. A configuration has a number, the one its rules are pointed to with;
  a category is a pointer into the store of the table. The field \<open>env_levels\<close> of the environment is not used here: the
  levels are those of the configuration in force.
\<close>

record 'tm zlog =
  ze_conf :: "(nat \<times> conf) option"
  ze_categories :: "category_table option"
  ze_records :: "(string, zlog_record) hashtable option"
  ze_default :: "nat option"
  reload_conf_count :: nat
  is_init :: bool
  env_version :: int
  ze_threads :: "nat \<Rightarrow> 'tm thread option"
  ze_os :: os
  next_conf :: nat
  free_store :: "nat \<Rightarrow> category option"
  next_cat :: nat

text \<open>The state when the process starts. \<open>free_store\<close> and \<open>next_cat\<close> are the store of the categories while there is no table.\<close>

definition zlog_start :: "os \<Rightarrow> 'tm zlog" where
  "zlog_start os = \<lparr>ze_conf = None, ze_categories = None, ze_records = None, ze_default = None, reload_conf_count = 0,
     is_init = False, env_version = 0, ze_threads = Map.empty, ze_os = os, next_conf = 0, free_store = Map.empty, next_cat = 0\<rparr>"

definition cat_at :: "'tm zlog \<Rightarrow> nat \<Rightarrow> category option" where
  "cat_at z p = (case ze_categories z of None \<Rightarrow> free_store z p | Some ct \<Rightarrow> ct_store ct p)"

text \<open>The lock: both calls can fail, which gives the result of a failure; the second one after the work is done.\<close>

definition locked :: "'r \<Rightarrow> ('tm zlog \<Rightarrow> outcomes \<Rightarrow> ('r \<times> 'tm zlog \<times> outcomes) option) \<Rightarrow> 'tm zlog \<Rightarrow> outcomes \<Rightarrow>
    ('r \<times> 'tm zlog \<times> outcomes) option" where
  "locked fail body z orc =
     (let (ok, orc1) = ask orc in
      if \<not> ok then Some (fail, z, orc1)
      else do {
        (r, z1, orc2) \<leftarrow> body z orc1;
        let (ok2, orc3) = ask orc2 in Some (if ok2 then r else fail, z1, orc3) })"

section \<open>Starting and stopping\<close>

definition fini_categories :: "'tm zlog \<Rightarrow> 'tm zlog option" where
  "fini_categories z =
     (case ze_categories z of None \<Rightarrow> Some (z\<lparr>ze_default := None\<rparr>)
      | Some ct \<Rightarrow> do {
          st \<leftarrow> zlog_category_table_del ct;
          Some (z\<lparr>ze_categories := None, ze_default := None, free_store := st, next_cat := ct_next ct\<rparr>) })"

definition fini_records :: "'tm zlog \<Rightarrow> 'tm zlog option" where
  "fini_records z =
     (case ze_records z of None \<Rightarrow> Some z
      | Some t \<Rightarrow> do { _ \<leftarrow> zlog_record_table_del t; Some (z\<lparr>ze_records := None\<rparr>) })"

definition fini_conf :: "'tm zlog \<Rightarrow> outcomes \<Rightarrow> 'tm zlog \<times> outcomes" where
  "fini_conf z orc =
     (case ze_conf z of None \<Rightarrow> (z, orc)
      | Some (_, c) \<Rightarrow> let (os1, orc1) = zlog_conf_del c (ze_os z) orc in (z\<lparr>ze_conf := None, ze_os := os1\<rparr>, orc1))"

definition zlog_fini_inner :: "'tm zlog \<Rightarrow> outcomes \<Rightarrow> ('tm zlog \<times> outcomes) option" where
  "zlog_fini_inner z orc = do {
     z1 \<leftarrow> fini_categories z;
     z2 \<leftarrow> fini_records z1;
     Some (fini_conf z2 orc) }"

text \<open>The key and the exit handler are made once in the process.\<close>

definition init_process :: "'tm zlog \<Rightarrow> outcomes \<Rightarrow> bool \<times> 'tm zlog \<times> outcomes" where
  "init_process z orc =
     (if env_version z \<noteq> 0 then (True, z, orc)
      else let (ok, orc1) = ask orc in
        if \<not> ok then (False, z, orc1)
        else let (ok2, orc2) = ask orc1 in
          if \<not> ok2 then (False, z, orc2) else (True, z\<lparr>env_version := 1\<rparr>, orc2))"

definition init_fail :: "'tm zlog \<Rightarrow> outcomes \<Rightarrow> (int \<times> 'tm zlog \<times> outcomes) option" where
  "init_fail z orc = do { (z1, orc1) \<leftarrow> zlog_fini_inner z orc; Some (-1, z1, orc1) }"

text \<open>A table that is still there, after a \<open>dzlog_init\<close> that found no default category, is lost and not freed.\<close>

definition drop_table :: "'tm zlog \<Rightarrow> 'tm zlog" where
  "drop_table z = (case ze_categories z of None \<Rightarrow> z
     | Some ct \<Rightarrow> z\<lparr>ze_categories := None, free_store := ct_store ct, next_cat := ct_next ct\<rparr>)"

definition init_tables :: "'tm zlog \<Rightarrow> outcomes \<Rightarrow> (int \<times> 'tm zlog \<times> outcomes) option" where
  "init_tables z0 orc =
     (let z = drop_table z0 in
      case zlog_category_table_new (free_store z) (next_cat z) orc of
        (None, orc1) \<Rightarrow> init_fail z orc1
      | (Some ct, orc1) \<Rightarrow>
          let z1 = z\<lparr>ze_categories := Some ct\<rparr> in
          (case zlog_record_table_new orc1 of
             (None, orc2) \<Rightarrow> init_fail (z1\<lparr>ze_records := None\<rparr>) orc2
           | (Some t, orc2) \<Rightarrow> Some (0, z1\<lparr>ze_records := Some t\<rparr>, orc2)))"

definition zlog_init_inner :: "'tm env \<Rightarrow> string option \<Rightarrow> 'tm zlog \<Rightarrow> outcomes \<Rightarrow> (int \<times> 'tm zlog \<times> outcomes) option" where
  "zlog_init_inner env config z orc =
     (let (ok, z1, orc1) = init_process z orc in
      if \<not> ok then init_fail z1 orc1
      else do {
        (c, os1, orc2) \<leftarrow> zlog_conf_new (env_lmax env) (env_getenv env) config (ze_os z1) orc1;
        let z2 = z1\<lparr>ze_os := os1, next_conf := next_conf z1 + 1\<rparr>;
        case c of None \<Rightarrow> init_fail (z2\<lparr>ze_conf := None\<rparr>) orc2
        | Some conf \<Rightarrow> init_tables (z2\<lparr>ze_conf := Some (next_conf z1, conf)\<rparr>) orc2 })"

definition init_done :: "'tm zlog \<Rightarrow> 'tm zlog" where
  "init_done z = z\<lparr>is_init := True, env_version := env_version z + 1\<rparr>"

definition zlog_init :: "'tm env \<Rightarrow> string option \<Rightarrow> 'tm zlog \<Rightarrow> outcomes \<Rightarrow> (int \<times> 'tm zlog \<times> outcomes) option" where
  "zlog_init env config = locked (-1) (\<lambda>z orc.
     if is_init z then Some (-1, z, orc)
     else do {
       (rc, z1, orc1) \<leftarrow> zlog_init_inner env config z orc;
       Some (if rc \<noteq> 0 then (-1, z1, orc1) else (0, init_done z1, orc1)) })"

text \<open>\<open>zlog_category_table_fetch_category\<close> on the global tables.\<close>

definition fetch_category :: "string \<Rightarrow> 'tm zlog \<Rightarrow> outcomes \<Rightarrow> (nat option \<times> 'tm zlog \<times> outcomes) option" where
  "fetch_category cname z orc = do {
     ct \<leftarrow> ze_categories z;
     (gen, conf) \<leftarrow> ze_conf z;
     (p, ct1, orc1) \<leftarrow> zlog_category_table_fetch_category ct cname gen (cf_rules conf) orc;
     Some (p, z\<lparr>ze_categories := Some ct1\<rparr>, orc1) }"

definition dzlog_init :: "'tm env \<Rightarrow> string option \<Rightarrow> string \<Rightarrow> 'tm zlog \<Rightarrow> outcomes \<Rightarrow> (int \<times> 'tm zlog \<times> outcomes) option" where
  "dzlog_init env config cname = locked (-1) (\<lambda>z orc.
     if is_init z then Some (-1, z, orc)
     else do {
       (rc, z1, orc1) \<leftarrow> zlog_init_inner env config z orc;
       if rc \<noteq> 0 then Some (-1, z1, orc1)
       else do {
         (p, z2, orc2) \<leftarrow> fetch_category cname z1 orc1;
         Some (if p = None then (-1, z2\<lparr>ze_default := None\<rparr>, orc2) else (0, init_done (z2\<lparr>ze_default := p\<rparr>), orc2)) } })"

definition zlog_fini :: "'tm zlog \<Rightarrow> outcomes \<Rightarrow> (unit \<times> 'tm zlog \<times> outcomes) option" where
  "zlog_fini = locked () (\<lambda>z orc.
     if \<not> is_init z then Some ((), z, orc)
     else do { (z1, orc1) \<leftarrow> zlog_fini_inner z orc; Some ((), z1\<lparr>is_init := False\<rparr>, orc1) })"

section \<open>Reloading\<close>

text \<open>The argument: NULL, the mark \<open>(char*)-1\<close>, or a configuration.\<close>

datatype reload_config = Last_file | When_due | New_config string

fun set_records :: "(string, zlog_record) hashtable \<Rightarrow> rule option list \<Rightarrow> rule option list option" where
  "set_records records [] = Some []"
| "set_records records (x # xs) = do {
     a \<leftarrow> x; b \<leftarrow> zlog_rule_set_record a records; ys \<leftarrow> set_records records xs; Some (Some b # ys) }"

definition rules_set_record :: "(string, zlog_record) hashtable \<Rightarrow> rule arraylist \<Rightarrow> rule arraylist option" where
  "rules_set_record records rules = do {
     xs \<leftarrow> set_records records (zc_arraylist_foreach rules);
     Some (rules\<lparr>al_array := xs @ drop (length xs) (al_array rules)\<rparr>) }"

text \<open>The categories change over to the new configuration. When that fails \<open>c_up\<close> is 0: nothing is rolled back.\<close>

definition switch_conf :: "nat \<Rightarrow> conf \<Rightarrow> os \<Rightarrow> 'tm zlog \<Rightarrow> outcomes \<Rightarrow> (int \<times> 'tm zlog \<times> outcomes) option" where
  "switch_conf gen new_conf os1 z orc = do {
     (_, old) \<leftarrow> ze_conf z;
     ct \<leftarrow> ze_categories z;
     (rc, ct1, orc1) \<leftarrow> zlog_category_table_update_rules ct gen (cf_rules new_conf) orc;
     if rc \<noteq> 0 then
       let (os2, orc2) = zlog_conf_del new_conf os1 orc1 in
       Some (-1, z\<lparr>ze_categories := Some ct1, ze_os := os2\<rparr>, orc2)
     else do {
       ct2 \<leftarrow> zlog_category_table_commit_rules ct1;
       let (os2, orc2) = zlog_conf_del old os1 orc1 in
       Some (0, z\<lparr>ze_conf := Some (gen, new_conf), ze_categories := Some ct2, env_version := env_version z + 1, ze_os := os2\<rparr>, orc2) } }"

definition reload_with :: "'tm env \<Rightarrow> string \<Rightarrow> 'tm zlog \<Rightarrow> outcomes \<Rightarrow> (int \<times> 'tm zlog \<times> outcomes) option" where
  "reload_with env config z0 orc = do {
     let z = z0\<lparr>reload_conf_count := 0, next_conf := next_conf z0 + 1\<rparr>;
     records \<leftarrow> ze_records z;
     (c, os1, orc1) \<leftarrow> zlog_conf_new (env_lmax env) (env_getenv env) (Some config) (ze_os z) orc;
     case c of None \<Rightarrow> Some (-1, z\<lparr>ze_os := os1\<rparr>, orc1)
     | Some conf \<Rightarrow> do {
         rules \<leftarrow> rules_set_record records (cf_rules conf);
         switch_conf (next_conf z0) (conf\<lparr>cf_rules := rules\<rparr>) os1 z orc1 } }"

definition zlog_reload :: "'tm env \<Rightarrow> reload_config \<Rightarrow> 'tm zlog \<Rightarrow> outcomes \<Rightarrow> (int \<times> 'tm zlog \<times> outcomes) option" where
  "zlog_reload env config = locked (-1) (\<lambda>z orc.
     if \<not> is_init z then Some (0, z, orc)
     else do {
       (_, conf) \<leftarrow> ze_conf z;
       case config of
         New_config s \<Rightarrow> reload_with env s z orc
       | Last_file \<Rightarrow> reload_with env (cf_file conf) z orc
       | When_due \<Rightarrow>
           if reload_conf_period conf < reload_conf_count z then reload_with env (cf_file conf) z orc
           else Some (0, z, orc) })"

section \<open>Categories\<close>

definition zlog_get_category :: "string \<Rightarrow> 'tm zlog \<Rightarrow> outcomes \<Rightarrow> (nat option \<times> 'tm zlog \<times> outcomes) option" where
  "zlog_get_category cname = locked None (\<lambda>z orc.
     if \<not> is_init z then Some (None, z, orc) else fetch_category cname z orc)"

definition dzlog_set_category :: "string \<Rightarrow> 'tm zlog \<Rightarrow> outcomes \<Rightarrow> (int \<times> 'tm zlog \<times> outcomes) option" where
  "dzlog_set_category cname = locked (-1) (\<lambda>z orc.
     if \<not> is_init z then Some (-1, z, orc)
     else do {
       (p, z1, orc1) \<leftarrow> fetch_category cname z orc;
       Some (if p = None then -1 else 0, z1\<lparr>ze_default := p\<rparr>, orc1) })"

text \<open>The bitmap of a category is set by hand, without the lock.\<close>

definition put_cat :: "'tm zlog \<Rightarrow> nat \<Rightarrow> category \<Rightarrow> 'tm zlog" where
  "put_cat z p c = (case ze_categories z of None \<Rightarrow> z\<lparr>free_store := (free_store z)(p \<mapsto> c)\<rparr>
     | Some ct \<Rightarrow> z\<lparr>ze_categories := Some (ct\<lparr>ct_store := (ct_store ct)(p \<mapsto> c)\<rparr>)\<rparr>)"

definition zlog_level_switch :: "nat \<Rightarrow> int \<Rightarrow> 'tm zlog \<Rightarrow> (int \<times> 'tm zlog) option" where
  "zlog_level_switch p level z = do {
     c \<leftarrow> cat_at z p;
     bm \<leftarrow> bitmap_from level;
     Some (0, put_cat z p (c\<lparr>ca_bitmap := bm\<rparr>)) }"

text \<open>\<open>zlog_category_needless_level\<close> on a pointer that may be NULL.\<close>

definition needless :: "'tm zlog \<Rightarrow> nat option \<Rightarrow> int \<Rightarrow> bool option" where
  "needless z cat level = (case cat of None \<Rightarrow> Some False | Some p \<Rightarrow> do { c \<leftarrow> cat_at z p; zlog_category_needless_level c level })"

definition zlog_level_enabled :: "'tm zlog \<Rightarrow> nat option \<Rightarrow> int \<Rightarrow> bool option" where
  "zlog_level_enabled z cat level = (if cat = None then Some False else map_option Not (needless z cat level))"

section \<open>The data of a thread\<close>

definition rebuild_thread :: "'tm sys \<Rightarrow> conf \<Rightarrow> int \<Rightarrow> 'tm thread \<Rightarrow> outcomes \<Rightarrow> int \<times> 'tm thread \<times> outcomes" where
  "rebuild_thread sys conf version t orc =
     (if init_version t = version then (0, t, orc)
      else let (rd, t1, orc1) = zlog_thread_rebuild_msg_buf t (buf_size_min conf) (buf_size_max conf) orc in
        if rd \<noteq> 0 then (-1, t1, orc1)
        else let (rd2, t2, orc2) = zlog_thread_rebuild_event sys t1 (time_cache_count conf) orc1 in
          if rd2 \<noteq> 0 then (-1, t2, orc2) else (0, t2\<lparr>init_version := version\<rparr>, orc2))"

text \<open>\<open>None\<close> in the result: the jump to the label of the failure.\<close>

definition zlog_fetch_thread :: "'tm env \<Rightarrow> nat \<Rightarrow> 'tm zlog \<Rightarrow> outcomes \<Rightarrow> ('tm thread option \<times> 'tm zlog \<times> outcomes) option" where
  "zlog_fetch_thread env tid z orc = do {
     (_, conf) \<leftarrow> ze_conf z;
     let (t, orc1) = (case ze_threads z tid of
         Some t \<Rightarrow> (Some t, orc)
       | None \<Rightarrow> alloc_then (zlog_thread_new (env_sys env) (env_version z) (buf_size_min conf) (buf_size_max conf) (time_cache_count conf) orc)
                   (\<lambda>t orc. let (ok, orc1) = ask orc in (if ok then Some t else None, orc1)));
     case t of None \<Rightarrow> Some (None, z, orc1)
     | Some t1 \<Rightarrow>
         let (rd, t2, orc2) = rebuild_thread (env_sys env) conf (env_version z) t1 orc1;
             z1 = z\<lparr>ze_threads := (ze_threads z)(tid \<mapsto> t2)\<rparr> in
         Some (if rd \<noteq> 0 then None else Some t2, z1, orc2) }"

definition put_thread :: "nat \<Rightarrow> 'tm thread \<Rightarrow> 'tm zlog \<Rightarrow> 'tm zlog" where
  "put_thread tid t z = z\<lparr>ze_threads := (ze_threads z)(tid \<mapsto> t)\<rparr>"

definition zlog_put_mdc :: "'tm env \<Rightarrow> nat \<Rightarrow> string \<Rightarrow> string \<Rightarrow> 'tm zlog \<Rightarrow> outcomes \<Rightarrow> (int \<times> 'tm zlog \<times> outcomes) option" where
  "zlog_put_mdc env tid key v = locked (-1) (\<lambda>z orc.
     if \<not> is_init z then Some (-1, z, orc)
     else do {
       (t, z1, orc1) \<leftarrow> zlog_fetch_thread env tid z orc;
       case t of None \<Rightarrow> Some (-1, z1, orc1)
       | Some t1 \<Rightarrow> do {
           (rc, m, orc2) \<leftarrow> zlog_mdc_put (th_mdc t1) key v orc1;
           Some (if rc \<noteq> 0 then -1 else 0, put_thread tid (t1\<lparr>th_mdc := m\<rparr>) z1, orc2) } })"

definition zlog_get_mdc :: "nat \<Rightarrow> string \<Rightarrow> 'tm zlog \<Rightarrow> outcomes \<Rightarrow> (string option \<times> 'tm zlog \<times> outcomes) option" where
  "zlog_get_mdc tid key = locked None (\<lambda>z orc.
     if \<not> is_init z then Some (None, z, orc)
     else case ze_threads z tid of None \<Rightarrow> Some (None, z, orc)
     | Some t \<Rightarrow> do { v \<leftarrow> zlog_mdc_get (th_mdc t) key; Some (v, z, orc) })"

definition zlog_remove_mdc :: "nat \<Rightarrow> string \<Rightarrow> 'tm zlog \<Rightarrow> outcomes \<Rightarrow> (unit \<times> 'tm zlog \<times> outcomes) option" where
  "zlog_remove_mdc tid key = locked () (\<lambda>z orc.
     if \<not> is_init z then Some ((), z, orc)
     else case ze_threads z tid of None \<Rightarrow> Some ((), z, orc)
     | Some t \<Rightarrow> do { m \<leftarrow> zlog_mdc_remove (th_mdc t) key; Some ((), put_thread tid (t\<lparr>th_mdc := m\<rparr>) z, orc) })"

definition zlog_clean_mdc :: "nat \<Rightarrow> 'tm zlog \<Rightarrow> outcomes \<Rightarrow> (unit \<times> 'tm zlog \<times> outcomes) option" where
  "zlog_clean_mdc tid = locked () (\<lambda>z orc.
     if \<not> is_init z then Some ((), z, orc)
     else case ze_threads z tid of None \<Rightarrow> Some ((), z, orc)
     | Some t \<Rightarrow> do { m \<leftarrow> zlog_mdc_clean (th_mdc t); Some ((), put_thread tid (t\<lparr>th_mdc := m\<rparr>) z, orc) })"

section \<open>Logging\<close>

text \<open>The arguments of a call: place, level, and the message (a format with its arguments, or bytes).\<close>

datatype payload = Fmt "string option option" | Hex "8 word list option" nat

record log_call =
  lc_file :: "string option"
  lc_filelen :: nat
  lc_func :: "string option"
  lc_funclen :: nat
  lc_line :: int
  lc_level :: int

definition set_event :: "log_call \<Rightarrow> payload \<Rightarrow> category \<Rightarrow> 'tm event \<Rightarrow> 'tm event" where
  "set_event lc pl c e =
     (case pl of
        Fmt s \<Rightarrow> zlog_event_set_fmt e (ca_name c) (length (ca_name c)) (lc_file lc) (lc_filelen lc) (lc_func lc) (lc_funclen lc)
                   (lc_line lc) (lc_level lc) s
      | Hex bs n \<Rightarrow> zlog_event_set_hex e (ca_name c) (length (ca_name c)) (lc_file lc) (lc_filelen lc) (lc_func lc) (lc_funclen lc)
                   (lc_line lc) (lc_level lc) bs n)"

text \<open>There are rules only in a configuration that has a rotater, so the second case is never used by an action.\<close>

definition conf_rotater :: "conf \<Rightarrow> rotater" where
  "conf_rotater conf = (case cf_rotater conf of Some r \<Rightarrow> r
     | None \<Rightarrow> \<lparr>lock_mutex = False, lock_file = [], lock_fd = 0, base_path = None, archive_path = None, glob_path = [],
                num_start_len = 0, num_end_len = 0, num_width = 0, mv_type = MV_NONE, max_count = 0, files = None\<rparr>)"

definition output_to :: "'tm env \<Rightarrow> nat \<Rightarrow> nat \<Rightarrow> log_call \<Rightarrow> payload \<Rightarrow> 'tm thread \<Rightarrow> 'tm zlog \<Rightarrow> outcomes \<Rightarrow> (int \<times> 'tm zlog \<times> outcomes) option" where
  "output_to env tid p lc pl t z orc = do {
     c \<leftarrow> cat_at z p;
     (gen, conf) \<leftarrow> ze_conf z;
     (rc, rules, t1, io1, orc1) \<leftarrow> zlog_category_output (env\<lparr>env_levels := cf_levels conf\<rparr>) c gen (cf_rules conf)
        (t\<lparr>th_event := set_event lc pl c (th_event t)\<rparr>) \<lparr>io_os = ze_os z, io_rot = conf_rotater conf\<rparr> orc;
     Some (rc, put_thread tid t1 (z\<lparr>ze_os := io_os io1,
       ze_conf := Some (gen, conf\<lparr>cf_rules := rules, cf_rotater := map_option (\<lambda>_. io_rot io1) (cf_rotater conf)\<rparr>)\<rparr>), orc1) }"

text \<open>The counter is only counted when a period is set and the output succeeded.\<close>

definition count_reload :: "'tm env \<Rightarrow> 'tm zlog \<Rightarrow> outcomes \<Rightarrow> ('tm zlog \<times> outcomes) option" where
  "count_reload env z orc = do {
     (_, conf) \<leftarrow> ze_conf z;
     if reload_conf_period conf = 0 then Some (z, orc)
     else do {
       let z1 = z\<lparr>reload_conf_count := reload_conf_count z + 1\<rparr>;
       if reload_conf_count z1 \<le> reload_conf_period conf then Some (z1, orc)
       else do { (_, z2, orc1) \<leftarrow> zlog_reload env When_due z1 orc; Some (z2, orc1) } } }"

definition log_to :: "'tm env \<Rightarrow> nat \<Rightarrow> nat option \<Rightarrow> log_call \<Rightarrow> payload \<Rightarrow> 'tm zlog \<Rightarrow> outcomes \<Rightarrow> ('tm zlog \<times> outcomes) option" where
  "log_to env tid cat lc pl z orc = do {
     (t, z1, orc1) \<leftarrow> zlog_fetch_thread env tid z orc;
     case t of None \<Rightarrow> Some (z1, orc1)
     | Some t1 \<Rightarrow> do {
         p \<leftarrow> cat;
         (rc, z2, orc2) \<leftarrow> output_to env tid p lc pl t1 z1 orc1;
         if rc \<noteq> 0 then Some (z2, orc2) else count_reload env z2 orc2 } }"

text \<open>To a category given by the caller: the level first, without the lock. The three functions differ in the message only.\<close>

definition log_given :: "'tm env \<Rightarrow> nat \<Rightarrow> nat option \<Rightarrow> log_call \<Rightarrow> payload \<Rightarrow> 'tm zlog \<Rightarrow> outcomes \<Rightarrow> ('tm zlog \<times> outcomes) option" where
  "log_given env tid cat lc pl z orc = do {
     b \<leftarrow> needless z cat (lc_level lc);
     if b then Some (z, orc)
     else if \<not> is_init z then Some (z, orc)
     else log_to env tid cat lc pl z orc }"

definition vzlog :: "'tm env \<Rightarrow> nat \<Rightarrow> nat option \<Rightarrow> log_call \<Rightarrow> string option option \<Rightarrow> 'tm zlog \<Rightarrow> outcomes \<Rightarrow> ('tm zlog \<times> outcomes) option" where
  "vzlog env tid cat lc args = log_given env tid cat lc (Fmt args)"

definition hzlog :: "'tm env \<Rightarrow> nat \<Rightarrow> nat option \<Rightarrow> log_call \<Rightarrow> 8 word list option \<Rightarrow> nat \<Rightarrow> 'tm zlog \<Rightarrow> outcomes \<Rightarrow> ('tm zlog \<times> outcomes) option" where
  "hzlog env tid cat lc bytes n = log_given env tid cat lc (Hex bytes n)"

definition zlog_log :: "'tm env \<Rightarrow> nat \<Rightarrow> nat option \<Rightarrow> log_call \<Rightarrow> string option option \<Rightarrow> 'tm zlog \<Rightarrow> outcomes \<Rightarrow> ('tm zlog \<times> outcomes) option" where
  "zlog_log env tid cat lc args = log_given env tid cat lc (Fmt args)"

text \<open>To the default category, which may be missing. \<open>dzlog\<close> looks at its level only when the library is initialised.\<close>

definition log_default :: "'tm env \<Rightarrow> nat \<Rightarrow> log_call \<Rightarrow> payload \<Rightarrow> 'tm zlog \<Rightarrow> outcomes \<Rightarrow> ('tm zlog \<times> outcomes) option" where
  "log_default env tid lc pl z orc = do {
     b \<leftarrow> needless z (ze_default z) (lc_level lc);
     if b then Some (z, orc)
     else if \<not> is_init z \<or> ze_default z = None then Some (z, orc)
     else log_to env tid (ze_default z) lc pl z orc }"

definition vdzlog :: "'tm env \<Rightarrow> nat \<Rightarrow> log_call \<Rightarrow> string option option \<Rightarrow> 'tm zlog \<Rightarrow> outcomes \<Rightarrow> ('tm zlog \<times> outcomes) option" where
  "vdzlog env tid lc args = log_default env tid lc (Fmt args)"

definition hdzlog :: "'tm env \<Rightarrow> nat \<Rightarrow> log_call \<Rightarrow> 8 word list option \<Rightarrow> nat \<Rightarrow> 'tm zlog \<Rightarrow> outcomes \<Rightarrow> ('tm zlog \<times> outcomes) option" where
  "hdzlog env tid lc bytes n = log_default env tid lc (Hex bytes n)"

definition dzlog :: "'tm env \<Rightarrow> nat \<Rightarrow> log_call \<Rightarrow> string option option \<Rightarrow> 'tm zlog \<Rightarrow> outcomes \<Rightarrow> ('tm zlog \<times> outcomes) option" where
  "dzlog env tid lc args z orc =
     (if \<not> is_init z \<or> ze_default z = None then Some (z, orc)
      else do {
        b \<leftarrow> needless z (ze_default z) (lc_level lc);
        if b then Some (z, orc) else log_to env tid (ze_default z) lc (Fmt args) z orc })"

section \<open>Records\<close>

definition zlog_set_record :: "string \<Rightarrow> nat \<Rightarrow> 'tm zlog \<Rightarrow> outcomes \<Rightarrow> (int \<times> 'tm zlog \<times> outcomes) option" where
  "zlog_set_record rname f = locked (-1) (\<lambda>z orc.
     if \<not> is_init z then Some (0, z, orc)
     else case zlog_record_new rname f orc of
       (None, orc1) \<Rightarrow> Some (-1, z, orc1)
     | (Some a_record, orc1) \<Rightarrow> do {
         records \<leftarrow> ze_records z;
         (rc, records1, _, orc2) \<leftarrow> zc_hashtable_put records (rec_name a_record) a_record orc1;
         let z1 = z\<lparr>ze_records := Some records1\<rparr>;
         if rc \<noteq> 0 then Some (rc, z1, orc2)
         else do {
           (gen, conf) \<leftarrow> ze_conf z1;
           rules \<leftarrow> rules_set_record records1 (cf_rules conf);
           Some (0, z1\<lparr>ze_conf := Some (gen, conf\<lparr>cf_rules := rules\<rparr>)\<rparr>, orc2) } })"

end
