(* ===== verification/RuleKeep.thy ===== *)
theory RuleKeep
  imports RuleNew
begin

text \<open>Running a rule changes its counters and descriptors only: category, comparison, level and bitmap stay.\<close>

section \<open>The actions keep the test of a rule\<close>

definition keeping :: "'tm action \<Rightarrow> bool" where
  "keeping f \<longleftrightarrow> (\<forall>a t io orc. keeps a (f a t io orc))"

lemma keepingI: "(\<And>a t io orc. keeps a (f a t io orc)) \<Longrightarrow> keeping f"
  by (simp add: keeping_def)

lemma keepingD: "keeping f \<Longrightarrow> keeps a (f a t io orc)"
  by (simp add: keeping_def)

lemma fsync_step_keeps: "same_test a (fst (fsync_step a orc))"
  by (simp add: fsync_step_def)

lemma check_static_keeps: "check_static a os orc = (rc, b, x) \<Longrightarrow> same_test a b"
  by (auto simp: check_static_def reload_static_def Let_def split: prod.splits stat_result.splits option.splits if_splits)

lemma append_file_keeps: "append_file path bytes a os orc = (rc, b, x) \<Longrightarrow> same_test a b"
  using fsync_step_keeps[of a] by (auto simp: append_file_def Let_def split: prod.splits if_splits) (metis fst_conv)+

lemma with_msg_keeping: "keeping f \<Longrightarrow> keeping (with_msg env f)"
  by (auto simp: keeping_def with_msg_def split: prod.split)

lemma with_path_keeping: "(\<And>p. keeping (f p)) \<Longrightarrow> keeping (with_path env f)"
  by (auto simp: keeping_def with_path_def split: prod.split option.split)

lemma static_file_action_keeping: "keeping static_file_action"
proof (rule keepingI)
  fix a :: rule and t :: "'a thread" and io :: io and orc
  obtain rc a1 os1 orc1 where c: "check_static a (io_os io) orc = (rc, a1, os1, orc1)" by (metis prod_cases4)
  then have s: "same_test a a1" by (rule check_static_keeps)
  have "same_test a (fst (fsync_step a1 o2))" for o2 by (rule same_test_trans[OF s fsync_step_keeps])
  then show "keeps a (static_file_action a t io orc)" using s
    by (auto simp: static_file_action_def c Let_def split: prod.split) (metis fst_conv)
qed

lemma file_single_keeping: "keeping (file_single path)"
  by (rule keepingI) (auto simp: file_single_def Let_def append_file_keeps split: prod.split)

lemma rotate_file_keeping: "keeping (rotate_file env path n)"
  by (rule keepingI) (auto simp: rotate_file_def Let_def split: prod.split stat_result.split)

lemma file_rotate_keeping: "keeping (file_rotate env path)"
proof (rule keepingI)
  fix a :: rule and t :: "'a thread" and io :: io and orc
  have "keeps a (rotate_file env path n b t1 io1 orc1)" if "file_single path a t io orc = Some (rc, b, t1, io1, orc2)" for rc b t1 io1 orc1 orc2 n
    by (rule keeps_trans[OF keepingD[OF rotate_file_keeping]]) (rule keepsD[OF keepingD[OF file_single_keeping] that])
  moreover have "same_test a b" if "file_single path a t io orc = Some (rc, b, x)" for rc b x
    by (rule keepsD[OF keepingD[OF file_single_keeping] that])
  ultimately show "keeps a (file_rotate env path a t io orc)" by (auto simp: file_rotate_def split: prod.split)
qed

lemma write_fd_keeping: "keeping (write_fd fd)"
  by (rule keepingI) (auto simp: write_fd_def Let_def split: prod.split)

lemma call_record_keeping: "keeping (call_record f path)"
  by (rule keepingI) (auto simp: call_record_def Let_def split: prod.split)

lemmas keepings = with_msg_keeping with_path_keeping static_file_action_keeping file_single_keeping file_rotate_keeping
  write_fd_keeping call_record_keeping

lemma keeping_of_rule: "(\<And>a. keeping (f a)) \<Longrightarrow> keeping (\<lambda>a. f a a)"
  by (simp add: keeping_def)

lemma run_output_keeping: "keeping (run_output env f)"
proof (cases f)
  case Static_file_single
  then show ?thesis by (auto simp: zlog_rule_output_static_file_single_def[abs_def] intro: keepings)
next
  case Static_file_rotate
  then show ?thesis
    by (auto simp: zlog_rule_output_static_file_rotate_def[abs_def] intro!: with_msg_keeping keeping_of_rule[of "\<lambda>a. file_rotate env (file_path a)"] keepings)
next
  case Dynamic_file_single
  then show ?thesis by (auto simp: zlog_rule_output_dynamic_file_single_def[abs_def] intro: keepings)
next
  case Dynamic_file_rotate
  then show ?thesis by (auto simp: zlog_rule_output_dynamic_file_rotate_def[abs_def] intro: keepings)
next
  case Pipe_out
  then show ?thesis
    by (auto simp: zlog_rule_output_pipe_def[abs_def] intro!: with_msg_keeping keeping_of_rule[of "\<lambda>a. write_fd (case pipe a of None \<Rightarrow> 0 | Some fd \<Rightarrow> fd)"] keepings)
next
  case Syslog
  then show ?thesis
    by (simp add: zlog_rule_output_syslog_def[abs_def]) (rule with_msg_keeping, rule keepingI, simp add: Let_def)
next
  case Static_record
  have "keeps a (zlog_rule_output_static_record env a t io orc)" for a t io orc
    using keepingD[OF with_msg_keeping[OF call_record_keeping]] by (auto simp: zlog_rule_output_static_record_def split: option.split)
  then show ?thesis using Static_record by (auto intro: keepingI)
next
  case Dynamic_record
  have "keeps a (zlog_rule_output_dynamic_record env a t io orc)" for a t io orc
    using keepingD[OF with_path_keeping[OF with_msg_keeping[OF call_record_keeping]]] by (auto simp: zlog_rule_output_dynamic_record_def split: option.split)
  then show ?thesis using Dynamic_record by (auto intro: keepingI)
next
  case Stdout
  then show ?thesis by (auto simp: zlog_rule_output_stdout_def[abs_def] intro: keepings)
next
  case Stderr
  then show ?thesis by (auto simp: zlog_rule_output_stderr_def[abs_def] intro: keepings)
qed

lemma zlog_rule_output_keeps: "keeps a (zlog_rule_output env a t io orc)"
  by (auto simp: zlog_rule_output_def Let_def intro: keepingD[OF run_output_keeping])

end
