(* ===== verification/ZlogOk.thy ===== *)
theory ZlogOk
  imports Zlog ConfOk RuleKeep
begin

text \<open>
  The states a process can be in: an invariant of the global state (configuration, tables and default category fit
  together whenever the library is initialised) that every call of the interface keeps, whatever fails.
\<close>

section \<open>Rules in a configuration\<close>

lemma rules_ok_at:
  assumes "rules_ok rules rs" "deref_rule gen rules p = Some a"
  shows "snd p < length rs" "rs ! snd p = a"
proof -
  have p: "int (snd p) < al_len rules" "snd p < length (al_array rules)" "al_array rules ! snd p = Some a"
    using assms(2) by (auto simp: deref_rule_def zc_arraylist_get_def arr_get_def bind_eq_Some_conv split: if_splits)
  have m: "take (nat (al_len rules)) (al_array rules) = map Some rs" using assms(1) by (simp add: rules_ok_def zc_arraylist_foreach_def)
  have "snd p < length (take (nat (al_len rules)) (al_array rules))" using p by simp
  then show l: "snd p < length rs" unfolding m by simp
  have "take (nat (al_len rules)) (al_array rules) ! snd p = Some a" using p by simp
  then show "rs ! snd p = a" unfolding m using l by simp
qed

lemma rules_ok_store:
  assumes ok: "rules_ok rules rs" and d: "deref_rule gen rules p = Some a" and s: "same_test a b"
  shows "rules_ok (store_rule rules p b) (rs[snd p := b])"
proof -
  note at = rules_ok_at[OF ok d]
  have a: "rule_ok a" "ru_category a \<noteq> []" using ok at by (auto simp: rules_ok_def)
  have b: "rule_ok b" "ru_category b \<noteq> []" using same_test_ok[OF s a(1)] a(2) s by (simp_all add: same_test_def)
  have m: "take (nat (al_len rules)) (al_array rules) = map Some rs" and inv: "al_inv rules" using ok by (auto simp: rules_ok_def zc_arraylist_foreach_def)
  have "take (nat (al_len rules)) ((al_array rules)[snd p := Some b]) = map Some (rs[snd p := b])"
    by (simp add: take_update_swap m map_update)
  moreover have "al_inv (store_rule rules p b)"
  proof -
    have "int (snd p) < al_len rules" using d by (auto simp: deref_rule_def zc_arraylist_get_def bind_eq_Some_conv split: if_splits)
    then show ?thesis using inv by (auto simp: al_inv_def store_rule_def nth_list_update)
  qed
  moreover have "\<forall>x \<in> set (rs[snd p := b]). rule_ok x \<and> ru_category x \<noteq> []"
    using ok b set_update_subset_insert[of rs "snd p" b] by (auto simp: rules_ok_def)
  ultimately show ?thesis by (simp add: rules_ok_def zc_arraylist_foreach_def store_rule_def)
qed


text \<open>As many rules as before, all of them well formed.\<close>

definition rules_like :: "rule arraylist \<Rightarrow> rule arraylist \<Rightarrow> bool" where
  "rules_like r r' \<longleftrightarrow> (\<forall>rs. rules_ok r rs \<longrightarrow> (\<exists>rs'. rules_ok r' rs' \<and> length rs' = length rs))"

lemma rules_like_refl [simp]: "rules_like r r"
  by (auto simp: rules_like_def)

lemma rules_like_trans: "rules_like r s \<Longrightarrow> rules_like s t \<Longrightarrow> rules_like r t"
  unfolding rules_like_def by (metis (no_types, lifting))

lemma rules_like_ok: "rules_like r r' \<Longrightarrow> rules_ok r rs \<Longrightarrow> \<exists>rs'. rules_ok r' rs'"
  by (auto simp: rules_like_def)

lemma conf_ok_rules: "conf_ok c \<Longrightarrow> rules_like (cf_rules c) r \<Longrightarrow> conf_ok (c\<lparr>cf_rules := r\<rparr>)"
  unfolding conf_ok_def rules_like_def by simp (metis length_0_conv)

lemma conf_ok_map_rotater: "conf_ok c \<Longrightarrow> conf_ok (c\<lparr>cf_rotater := map_option f (cf_rotater c)\<rparr>)"
  by (auto simp: conf_ok_def)

lemma output_loop_rules:
  "output_loop env gen xs rc0 rules t io orc = Some (rc, rules', t', io', orc') \<Longrightarrow> rules_like rules rules'"
proof (induction xs arbitrary: rc0 rules t io orc)
  case (Cons x xs)
  obtain p a rc1 b t1 io1 orc1 where p: "deref_rule gen rules p = Some a" "zlog_rule_output env a t io orc = Some (rc1, b, t1, io1, orc1)"
    "output_loop env gen xs rc1 (store_rule rules p b) t1 io1 orc1 = Some (rc, rules', t', io', orc')"
    using Cons.prems by (auto simp: bind_eq_Some_conv)
  have "same_test a b" by (rule keepsD[OF zlog_rule_output_keeps p(2)])
  then have "rules_like rules (store_rule rules p b)" unfolding rules_like_def using rules_ok_store[OF _ p(1)] by (metis length_list_update)
  then show ?case using Cons.IH[OF p(3)] by (rule rules_like_trans)
qed simp

lemma set_record_test: "zlog_rule_set_record a records = Some b \<Longrightarrow> same_test a b"
  by (auto simp: zlog_rule_set_record_def bind_eq_Some_conv split: if_splits option.splits)

lemma set_records_ok:
  "set_records records xs = Some ys \<Longrightarrow> xs = map Some rs \<Longrightarrow> \<exists>rs'. ys = map Some rs' \<and> list_all2 same_test rs rs'"
proof (induction xs arbitrary: ys rs)
  case (Cons x xs)
  obtain a rs0 where rs: "rs = a # rs0" "x = Some a" "xs = map Some rs0" using Cons.prems(2) by auto
  obtain b ys0 where b: "zlog_rule_set_record a records = Some b" "set_records records xs = Some ys0" "ys = Some b # ys0"
    using Cons.prems(1) rs(2) by (auto simp: bind_eq_Some_conv)
  obtain rs' where "ys0 = map Some rs'" "list_all2 same_test rs0 rs'" using Cons.IH[OF b(2) rs(3)] by blast
  then show ?case using rs(1) b(3) set_record_test[OF b(1)] by (intro exI[of _ "b # rs'"]) simp
qed simp

lemma rules_set_record_like: "rules_set_record records rules = Some rules' \<Longrightarrow> rules_like rules rules'"
proof (unfold rules_like_def, intro allI impI)
  fix rs assume r: "rules_set_record records rules = Some rules'" and ok: "rules_ok rules rs"
  have fe: "zc_arraylist_foreach rules = map Some rs" and inv: "al_inv rules" using ok by (simp_all add: rules_ok_def)
  obtain xs where xs: "set_records records (zc_arraylist_foreach rules) = Some xs" "rules' = rules\<lparr>al_array := xs @ drop (length xs) (al_array rules)\<rparr>"
    using r by (auto simp: rules_set_record_def bind_eq_Some_conv)
  obtain rs' where rs': "xs = map Some rs'" "list_all2 same_test rs rs'" using set_records_ok[OF xs(1) fe] by blast
  have len: "length rs' = length rs" using rs'(2) by (simp add: list_all2_lengthD)
  have n: "length xs = nat (al_len rules)" "nat (al_len rules) \<le> length (al_array rules)"
    using len rs'(1) fe inv length_foreach[OF inv] by (simp, simp add: al_inv_def, linarith)
  have "al_array rules' = xs @ drop (nat (al_len rules)) (al_array rules)" using xs(2) n(1) by simp
  also have "drop (nat (al_len rules)) (al_array rules) = replicate (nat (al_size rules - al_len rules)) None" by (rule al_inv_rest[OF inv])
  finally have "al_array rules' = xs @ replicate (nat (al_size rules' - al_len rules')) None" using xs(2) by simp
  then have "al_inv rules' \<and> zc_arraylist_foreach rules' = xs" by (rule al_inv_intro) (use xs(2) n inv in \<open>auto simp: al_inv_def\<close>)
  moreover have "rule_ok b \<and> ru_category b \<noteq> []" if "b \<in> set rs'" for b
  proof -
    obtain i where i: "i < length rs'" "rs' ! i = b" using \<open>b \<in> set rs'\<close> by (auto simp: in_set_conv_nth)
    have s: "same_test (rs ! i) b" using list_all2_nthD2[OF rs'(2) i(1)] i(2) by simp
    have a: "rs ! i \<in> set rs" using i(1) len by simp
    show ?thesis using ok a same_test_ok[OF s] s by (auto simp: rules_ok_def same_test_def)
  qed
  ultimately show "\<exists>rs'. rules_ok rules' rs' \<and> length rs' = length rs" using rs'(1) len by (auto simp: rules_ok_def)
qed

section \<open>The tables of categories\<close>

lemma update_cats_inv:
  assumes inv: "cats_inv ct" and rules: "rules_ok rules rs"
    and u: "zlog_category_table_update_rules ct gen rules orc = Some (rc, ct1, orc1)"
  shows "cats_inv ct1" "ct_table ct1 = ct_table ct"
proof -
  obtain ps where ps: "table_cats ct = Some ps" "distinct ps" "\<forall>p \<in> set ps. ct_store ct p \<noteq> None" by (rule table_cats_ok[OF inv])
  obtain st where st: "update_loop gen rules ps (ct_store ct) orc = Some (rc, st, orc1)" "ct1 = ct\<lparr>ct_store := st\<rparr>"
    using u ps(1) by (auto simp: zlog_category_table_update_rules_def bind_eq_Some_conv)
  have l: "\<forall>p. p \<notin> set ps \<longrightarrow> st p = ct_store ct p" "\<forall>p c. p \<in> set ps \<and> ct_store ct p = Some c \<longrightarrow> rc \<noteq> 0 \<and> st p = Some c \<or>
        (\<exists>c'. st p = Some c' \<and> moved c c' \<and> (rc = 0 \<longrightarrow> has_rules gen c' (fitting (ca_name c) rs)))"
    using update_loop_ok[OF rules ps(2,3), of gen orc] st(1) by auto
  show "ct_table ct1 = ct_table ct" using st(2) by simp
  show "cats_inv ct1" unfolding st(2)
  proof (rule cats_inv_store[OF inv])
    fix k p assume "ht_map (ct_table ct) k = Some p"
    then obtain c where c: "ct_store ct p = Some c" "ca_name c = k" using inv unfolding cats_inv_def by blast
    show "\<exists>c. st p = Some c \<and> ca_name c = k"
    proof (cases "p \<in> set ps")
      case True
      then show ?thesis using l(2) c by (auto simp: moved_def)
    next
      case False
      then show ?thesis using l(1) c by simp
    qed
  qed
qed

lemma commit_cats_inv:
  assumes inv: "cats_inv ct" and c: "zlog_category_table_commit_rules ct = Some ct1"
  shows "cats_inv ct1" "ct_table ct1 = ct_table ct"
proof -
  obtain ps where ps: "table_cats ct = Some ps" "distinct ps" "\<forall>p \<in> set ps. ct_store ct p \<noteq> None" by (rule table_cats_ok[OF inv])
  let ?st = "\<lambda>p. if p \<in> set ps then map_option zlog_category_commit_rules (ct_store ct p) else ct_store ct p"
  have e: "ct1 = ct\<lparr>ct_store := ?st\<rparr>" using c ps(1) each_cat_ok[OF ps(2,3), of zlog_category_commit_rules] by (simp add: zlog_category_table_commit_rules_def)
  show "ct_table ct1 = ct_table ct" using e by simp
  show "cats_inv ct1" unfolding e
  proof (rule cats_inv_store[OF inv])
    fix k p assume "ht_map (ct_table ct) k = Some p"
    then obtain c where "ct_store ct p = Some c" "ca_name c = k" using inv unfolding cats_inv_def by blast
    then show "\<exists>c. ?st p = Some c \<and> ca_name c = k" by (auto simp: zlog_category_commit_rules_def)
  qed
qed


section \<open>The invariant of the global state\<close>

definition z_ok :: "'tm zlog \<Rightarrow> bool" where
  "z_ok z \<longleftrightarrow> (\<forall>g c. ze_conf z = Some (g, c) \<longrightarrow> conf_ok c) \<and>
     (\<forall>ct. ze_categories z = Some ct \<longrightarrow> cats_inv ct \<and> (\<forall>p. ze_default z = Some p \<longrightarrow> p \<in> ran (ht_map (ct_table ct)))) \<and>
     (\<forall>t. ze_records z = Some t \<longrightarrow> ht_inv t) \<and>
     (if is_init z then ze_conf z \<noteq> None \<and> ze_categories z \<noteq> None \<and> ze_records z \<noteq> None else ze_default z = None)"

definition yields_ok :: "('r \<times> 'tm zlog \<times> 'o) option \<Rightarrow> bool" where
  "yields_ok r \<longleftrightarrow> (\<forall>x z y. r = Some (x, z, y) \<longrightarrow> z_ok z)"

lemma yields_simps [simp]: "yields_ok None" "yields_ok (Some (x, z, y)) = z_ok z"
  "yields_ok (if b then r1 else r2) \<longleftrightarrow> (b \<longrightarrow> yields_ok r1) \<and> (\<not> b \<longrightarrow> yields_ok r2)"
  "yields_ok (Option.bind m f) \<longleftrightarrow> (\<forall>y. m = Some y \<longrightarrow> yields_ok (f y))"
  by (auto simp: yields_ok_def bind_eq_Some_conv)

lemma yields_okD: "yields_ok r \<Longrightarrow> r = Some (x, z, y) \<Longrightarrow> z_ok z"
  by (simp add: yields_ok_def)

lemma locked_ok:
  assumes "z_ok z" "\<And>orc. yields_ok (body z orc)"
  shows "yields_ok (locked fail body z orc)"
proof -
  have "z_ok z1" if "body z o1 = Some (r, z1, o2)" for r z1 o1 o2 by (rule yields_okD[OF assms(2) that])
  then show ?thesis using assms(1) by (simp add: locked_def Let_def split: prod.split)
qed

text \<open>What has no part in it.\<close>

lemma z_ok_simps [simp]: "z_ok (z\<lparr>ze_os := a1\<rparr>) = z_ok z" "z_ok (z\<lparr>reload_conf_count := a2\<rparr>) = z_ok z"
  "z_ok (z\<lparr>env_version := a3\<rparr>) = z_ok z" "z_ok (z\<lparr>ze_threads := a4\<rparr>) = z_ok z" "z_ok (z\<lparr>next_conf := a2\<rparr>) = z_ok z"
  "z_ok (z\<lparr>free_store := a5\<rparr>) = z_ok z" "z_ok (z\<lparr>next_cat := a2\<rparr>) = z_ok z"
  by (simp_all add: z_ok_def)

lemma z_ok_put_thread [simp]: "z_ok (put_thread tid t z) = z_ok z"
  by (simp add: put_thread_def)

lemma z_okD:
  assumes "z_ok z"
  shows "ze_conf z = Some (g, c) \<Longrightarrow> conf_ok c" "ze_categories z = Some ct \<Longrightarrow> cats_inv ct" "ze_records z = Some t \<Longrightarrow> ht_inv t"
  using assms by (auto simp: z_ok_def)

lemma z_ok_conf: "z_ok z \<Longrightarrow> conf_ok c \<Longrightarrow> z_ok (z\<lparr>ze_conf := Some (g, c)\<rparr>)"
  by (simp add: z_ok_def)

lemma z_ok_cats:
  assumes "z_ok z" "ze_categories z = Some ct0" "cats_inv ct" "\<And>k p. ht_map (ct_table ct0) k = Some p \<Longrightarrow> ht_map (ct_table ct) k = Some p"
  shows "z_ok (z\<lparr>ze_categories := Some ct\<rparr>)"
proof -
  have "ran (ht_map (ct_table ct0)) \<subseteq> ran (ht_map (ct_table ct))" using assms(4) by (auto simp: ran_def)
  then show ?thesis using assms(1-3) by (auto simp: z_ok_def)
qed

lemma z_ok_default: "z_ok z \<Longrightarrow> is_init z \<Longrightarrow> (\<And>ct q. ze_categories z = Some ct \<Longrightarrow> p = Some q \<Longrightarrow> q \<in> ran (ht_map (ct_table ct))) \<Longrightarrow>
    z_ok (z\<lparr>ze_default := p\<rparr>)"
  by (simp add: z_ok_def)

subsection \<open>Starting and stopping\<close>

definition bare :: "'tm zlog \<Rightarrow> bool" where
  "bare z \<longleftrightarrow> ze_conf z = None \<and> ze_categories z = None \<and> ze_records z = None \<and> ze_default z = None"

lemma bare_ok: "bare z \<Longrightarrow> z_ok (z\<lparr>is_init := False\<rparr>)" "bare z \<Longrightarrow> \<not> is_init z \<Longrightarrow> z_ok z"
  by (auto simp: bare_def z_ok_def)

lemma fini_categories_none: "fini_categories z = Some z1 \<Longrightarrow> ze_categories z1 = None \<and> ze_default z1 = None \<and> is_init z1 = is_init z"
  by (cases "ze_categories z") (auto simp: fini_categories_def bind_eq_Some_conv)

lemma fini_records_none: "fini_records z = Some z1 \<Longrightarrow> ze_records z1 = None \<and> ze_categories z1 = ze_categories z \<and>
    ze_default z1 = ze_default z \<and> is_init z1 = is_init z"
  by (cases "ze_records z") (auto simp: fini_records_def bind_eq_Some_conv)

lemma fini_conf_none: "fini_conf z orc = (z1, orc1) \<Longrightarrow> ze_conf z1 = None \<and> ze_records z1 = ze_records z \<and> ze_categories z1 = ze_categories z \<and>
    ze_default z1 = ze_default z \<and> is_init z1 = is_init z"
  by (cases "ze_conf z") (auto simp: fini_conf_def Let_def split: prod.splits)

lemma fini_inner_bare: "zlog_fini_inner z orc = Some (z1, orc1) \<Longrightarrow> bare z1 \<and> is_init z1 = is_init z"
  using fini_categories_none fini_records_none fini_conf_none by (fastforce simp: zlog_fini_inner_def bare_def bind_eq_Some_conv)

lemma init_fail_bare: "init_fail z orc = Some (rc, z1, orc1) \<Longrightarrow> rc = -1 \<and> bare z1 \<and> is_init z1 = is_init z"
  using fini_inner_bare by (auto simp: init_fail_def bind_eq_Some_conv)

text \<open>All there, and not yet marked as initialised.\<close>

definition built :: "'tm zlog \<Rightarrow> bool" where
  "built z \<longleftrightarrow> (\<exists>g c ct t. ze_conf z = Some (g, c) \<and> conf_ok c \<and> ze_categories z = Some ct \<and> cats_inv ct \<and>
     ze_records z = Some t \<and> ht_inv t \<and> ze_default z = None)"

lemma table_new_ok: "zlog_category_table_new st n orc = (Some ct, orc') \<Longrightarrow> cats_inv ct"
proof -
  assume "zlog_category_table_new st n orc = (Some ct, orc')"
  then obtain t where t: "zc_hashtable_new 20 zc_hashtable_str_hash zc_hashtable_str_equal False True orc = (Some t, orc')"
    and ct: "ct = \<lparr>ct_table = t, ct_store = st, ct_next = n\<rparr>"
    by (auto simp: zlog_category_table_new_def split: prod.splits option.splits)
  show ?thesis using zc_hashtable_new_ok(1,2)[OF t _ str_equal_eq] by (simp add: cats_inv_def ct)
qed

lemma init_tables_ok:
  assumes "init_tables z orc = Some (rc, z1, orc1)" "ze_conf z = Some (g, c)" "conf_ok c" "ze_default z = None" "\<not> is_init z"
  shows "if rc = 0 then built z1 \<and> \<not> is_init z1 else bare z1 \<and> \<not> is_init z1"
proof -
  let ?z = "drop_table z"
  have d: "ze_conf ?z = ze_conf z" "ze_default ?z = ze_default z" "is_init ?z = is_init z" "ze_records ?z = ze_records z"
    by (simp_all add: drop_table_def split: option.split)
  obtain cto o1 where ct: "zlog_category_table_new (free_store ?z) (next_cat ?z) orc = (cto, o1)" by fastforce
  show ?thesis
  proof (cases cto)
    case None
    then have "init_fail ?z o1 = Some (rc, z1, orc1)" using assms(1) ct by (simp add: init_tables_def Let_def)
    then show ?thesis using init_fail_bare d assms(5) by fastforce
  next
    case (Some a)
    have inv: "cats_inv a" by (rule table_new_ok[OF ct[unfolded Some]])
    obtain ro o2 where r: "zlog_record_table_new o1 = (ro, o2)" by fastforce
    show ?thesis
    proof (cases ro)
      case None
      then have "init_fail (?z\<lparr>ze_categories := Some a, ze_records := None\<rparr>) o2 = Some (rc, z1, orc1)"
        using assms(1) ct Some r by (simp add: init_tables_def Let_def)
      then show ?thesis using init_fail_bare d assms(5) by fastforce
    next
      case ro: (Some t)
      have "ht_inv t" using zc_hashtable_new_ok(1)[OF r[unfolded ro zlog_record_table_new_def] _ str_equal_eq] by simp
      moreover have "rc = 0" "z1 = ?z\<lparr>ze_categories := Some a, ze_records := Some t\<rparr>"
        using assms(1) ct Some r ro by (simp_all add: init_tables_def Let_def)
      ultimately show ?thesis using inv d assms(2-5) by (simp add: built_def)
    qed
  qed
qed

lemma init_inner_ok:
  assumes "zlog_init_inner env config z orc = Some (rc, z1, orc1)" "z_ok z" "\<not> is_init z"
  shows "if rc = 0 then built z1 \<and> \<not> is_init z1 else bare z1 \<and> \<not> is_init z1"
proof -
  obtain ok z0 o1 where p: "init_process z orc = (ok, z0, o1)" by (metis prod_cases3)
  have z0: "is_init z0 = is_init z" "ze_default z0 = ze_default z"
    using p by (auto simp: init_process_def Let_def split: if_splits prod.splits)
  have def: "ze_default z0 = None" using assms(2,3) z0 by (simp add: z_ok_def)
  show ?thesis
  proof (cases ok)
    case False
    then have "init_fail z0 o1 = Some (rc, z1, orc1)" using assms(1) p by (simp add: zlog_init_inner_def)
    then show ?thesis using init_fail_bare z0 assms(3) by fastforce
  next
    case True
    obtain co os1 o2 where c: "zlog_conf_new (env_lmax env) (env_getenv env) config (ze_os z0) o1 = Some (co, os1, o2)"
      using assms(1) p True by (auto simp: zlog_init_inner_def bind_eq_Some_conv)
    show ?thesis
    proof (cases co)
      case None
      then have "init_fail (z0\<lparr>ze_os := os1, next_conf := next_conf z0 + 1, ze_conf := None\<rparr>) o2 = Some (rc, z1, orc1)"
        using assms(1) p True c by (simp add: zlog_init_inner_def Let_def)
      then show ?thesis using init_fail_bare z0 assms(3) by fastforce
    next
      case (Some cf)
      have "conf_ok cf" by (rule conf_new_ok[OF c[unfolded Some]])
      moreover have "init_tables (z0\<lparr>ze_os := os1, next_conf := next_conf z0 + 1, ze_conf := Some (next_conf z0, cf)\<rparr>) o2 = Some (rc, z1, orc1)"
        using assms(1) p True c Some by (simp add: zlog_init_inner_def Let_def)
      ultimately show ?thesis using init_tables_ok[where z = "z0\<lparr>ze_os := os1, next_conf := next_conf z0 + 1, ze_conf := Some (next_conf z0, cf)\<rparr>"]
        def z0 assms(3) by simp
    qed
  qed
qed


lemma built_done: "built z \<Longrightarrow> z_ok (init_done z)"
  by (auto simp: built_def z_ok_def init_done_def)

lemma zlog_init_ok: "z_ok z \<Longrightarrow> yields_ok (zlog_init env config z orc)"
  unfolding zlog_init_def
proof (rule locked_ok)
  fix orc assume z: "z_ok z"
  have "z_ok (if rc \<noteq> 0 then z1 else init_done z1)" if "zlog_init_inner env config z orc = Some (rc, z1, orc1)" "\<not> is_init z" for rc z1 orc1
    using init_inner_ok[OF that(1) z that(2)] built_done bare_ok(2) by (auto split: if_splits)
  then show "yields_ok (if is_init z then Some (-1, z, orc)
     else do { (rc, z1, orc1) \<leftarrow> zlog_init_inner env config z orc; Some (if rc \<noteq> 0 then (-1, z1, orc1) else (0, init_done z1, orc1)) })"
    using z by (auto split: if_splits)
qed

lemma fetch_ok:
  assumes cats: "ze_categories z = Some ct" "cats_inv ct" and conf: "ze_conf z = Some (g, c)" "conf_ok c"
  obtains p ct1 orc1 where "fetch_category cname z orc = Some (p, z\<lparr>ze_categories := Some ct1\<rparr>, orc1)" "cats_inv ct1"
    "\<And>k q. ht_map (ct_table ct) k = Some q \<Longrightarrow> ht_map (ct_table ct1) k = Some q"
    "\<And>q. p = Some q \<Longrightarrow> ht_map (ct_table ct1) cname = Some q" "p = None \<Longrightarrow> MAXLEN_PATH < length cname \<or> orc \<noteq> []"
    "orc = [] \<Longrightarrow> orc1 = []"
proof -
  obtain rs where rs: "rules_ok (cf_rules c) rs" using conf(2) by (auto simp: conf_ok_def)
  note result = that
  show ?thesis
  proof (cases rule: fetch_category_ok[OF cats(2) rs, of cname g orc])
    case (1 p ct1 orc1)
    show ?thesis
      by (rule result[of p ct1 orc1]) (use 1 cats(1) conf(1) in \<open>auto simp: fetch_category_def split: option.splits\<close>)
  qed
qed

lemma dzlog_init_ok: "z_ok z \<Longrightarrow> yields_ok (dzlog_init env config cname z orc)"
  unfolding dzlog_init_def
proof (rule locked_ok)
  fix orc assume z: "z_ok z"
  have "yields_ok (if rc \<noteq> 0 then Some (-1, z1, orc1)
       else do { (p, z2, orc2) \<leftarrow> fetch_category cname z1 orc1;
         Some (if p = None then (-1, z2\<lparr>ze_default := None\<rparr>, orc2) else (0, init_done (z2\<lparr>ze_default := p\<rparr>), orc2)) })"
    if i: "zlog_init_inner env config z orc = Some (rc, z1, orc1)" "\<not> is_init z" for rc z1 orc1
  proof (cases "rc = 0")
    case False
    then show ?thesis using init_inner_ok[OF i(1) z i(2)] by (simp add: bare_ok(2))
  next
    case True
    then have b: "built z1" "\<not> is_init z1" using init_inner_ok[OF i(1) z i(2)] by simp_all
    then obtain g c ct t where bt: "ze_conf z1 = Some (g, c)" "conf_ok c" "ze_categories z1 = Some ct" "cats_inv ct"
      "ze_records z1 = Some t" "ht_inv t" "ze_default z1 = None" by (auto simp: built_def)
    show ?thesis
    proof (cases rule: fetch_ok[OF bt(3,4,1,2), of cname orc1])
      case (1 p ct1 orc2)
      have "z_ok (z1\<lparr>ze_categories := Some ct1, ze_default := None\<rparr>)" using bt b(2) 1(2) by (simp add: z_ok_def)
      moreover have "z_ok (init_done (z1\<lparr>ze_categories := Some ct1, ze_default := p\<rparr>))" if "p \<noteq> None"
        using bt 1(2,4) that by (auto simp: z_ok_def init_done_def intro: ranI)
      ultimately show ?thesis using True 1(1) by simp
    qed
  qed
  then show "yields_ok (if is_init z then Some (-1, z, orc)
     else do { (rc, z1, orc1) \<leftarrow> zlog_init_inner env config z orc;
       if rc \<noteq> 0 then Some (-1, z1, orc1)
       else do { (p, z2, orc2) \<leftarrow> fetch_category cname z1 orc1;
         Some (if p = None then (-1, z2\<lparr>ze_default := None\<rparr>, orc2) else (0, init_done (z2\<lparr>ze_default := p\<rparr>), orc2)) } })"
    using z by (auto split: prod.split)
qed

lemma zlog_fini_ok: "z_ok z \<Longrightarrow> yields_ok (zlog_fini z orc)"
  unfolding zlog_fini_def
proof (rule locked_ok)
  fix orc assume z: "z_ok z"
  show "yields_ok (if \<not> is_init z then Some ((), z, orc)
     else do { (z1, orc1) \<leftarrow> zlog_fini_inner z orc; Some ((), z1\<lparr>is_init := False\<rparr>, orc1) })"
    using z by (auto dest!: fini_inner_bare intro: bare_ok(1))
qed

subsection \<open>Categories and reloading\<close>

lemma init_parts:
  assumes "z_ok z" "is_init z"
  obtains g c ct t where "ze_conf z = Some (g, c)" "conf_ok c" "ze_categories z = Some ct" "cats_inv ct" "ze_records z = Some t" "ht_inv t"
  using assms by (auto simp: z_ok_def)

lemma zlog_get_category_ok: "z_ok z \<Longrightarrow> yields_ok (zlog_get_category cname z orc)"
  unfolding zlog_get_category_def
proof (rule locked_ok)
  fix orc assume z: "z_ok z"
  have "yields_ok (fetch_category cname z orc)" if "is_init z"
  proof (cases rule: init_parts[OF z that])
    case (1 g c ct t)
    show ?thesis
    proof (cases rule: fetch_ok[OF 1(3,4,1,2), of cname orc])
      case (1 p ct1 orc1)
      then show ?thesis using z_ok_cats[OF z \<open>ze_categories z = Some ct\<close>] by simp
    qed
  qed
  then show "yields_ok (if \<not> is_init z then Some (None, z, orc) else fetch_category cname z orc)" using z by simp
qed

lemma dzlog_set_category_ok: "z_ok z \<Longrightarrow> yields_ok (dzlog_set_category cname z orc)"
  unfolding dzlog_set_category_def
proof (rule locked_ok)
  fix orc assume z: "z_ok z"
  have "z_ok (z1\<lparr>ze_default := p\<rparr>)" if f: "fetch_category cname z orc = Some (p, z1, orc1)" "is_init z" for p z1 orc1
  proof (cases rule: init_parts[OF z that(2)])
    case (1 g c ct t)
    show ?thesis
    proof (cases rule: fetch_ok[OF 1(3,4,1,2), of cname orc])
      case (1 p1 ct1 orc2)
      then have e: "p1 = p" "z1 = z\<lparr>ze_categories := Some ct1\<rparr>" using f(1) by simp_all
      have "z_ok z1" unfolding e by (rule z_ok_cats[OF z \<open>ze_categories z = Some ct\<close> 1(2,3)])
      then show ?thesis by (rule z_ok_default) (use e 1(4) that(2) in \<open>auto intro: ranI\<close>)
    qed
  qed
  then show "yields_ok (if \<not> is_init z then Some (-1, z, orc)
     else do { (p, z1, orc1) \<leftarrow> fetch_category cname z orc; Some (if p = None then -1 else 0, z1\<lparr>ze_default := p\<rparr>, orc1) })"
    using z by (auto split: prod.split)
qed

lemma switch_conf_ok:
  assumes z: "z_ok z" and c: "conf_ok c"
  shows "yields_ok (switch_conf gen c os1 z orc)"
proof -
  obtain rs where rs: "rules_ok (cf_rules c) rs" using c by (auto simp: conf_ok_def)
  have step: "z_ok (z\<lparr>ze_categories := Some ct1\<rparr>)"
    "zlog_category_table_commit_rules ct1 = Some ct2 \<Longrightarrow> z_ok (z\<lparr>ze_conf := Some (gen, c), ze_categories := Some ct2\<rparr>)"
    if ct: "ze_categories z = Some ct" and u: "zlog_category_table_update_rules ct gen (cf_rules c) o1 = Some (rc, ct1, o2)"
    for ct o1 rc ct1 o2 ct2
  proof -
    note u1 = update_cats_inv[OF z_okD(2)[OF z ct] rs u]
    show "z_ok (z\<lparr>ze_categories := Some ct1\<rparr>)" using z_ok_cats[OF z ct u1(1)] u1(2) by simp
    assume cm: "zlog_category_table_commit_rules ct1 = Some ct2"
    note u2 = commit_cats_inv[OF u1(1) cm]
    have "z_ok (z\<lparr>ze_categories := Some ct2\<rparr>)" using z_ok_cats[OF z ct u2(1)] u1(2) u2(2) by simp
    then show "z_ok (z\<lparr>ze_conf := Some (gen, c), ze_categories := Some ct2\<rparr>)" using c by (simp add: z_ok_def split: if_splits)
  qed
  show ?thesis using z by (auto simp: switch_conf_def Let_def split: prod.split intro: step)
qed

lemma reload_with_ok: "z_ok z \<Longrightarrow> yields_ok (reload_with env config z orc)"
proof -
  assume z: "z_ok z"
  have new: "conf_ok (conf\<lparr>cf_rules := rules\<rparr>)"
    if "zlog_conf_new lmax getenv cfg os0 o0 = Some (Some conf, os1, o1)" "rules_set_record t (cf_rules conf) = Some rules"
    for lmax getenv cfg os0 o0 conf os1 o1 t rules
    by (rule conf_ok_rules[OF conf_new_ok[OF that(1)] rules_set_record_like[OF that(2)]])
  show ?thesis using z by (auto simp: reload_with_def Let_def split: prod.split option.split intro!: switch_conf_ok intro: new)
qed

lemma zlog_reload_ok: "z_ok z \<Longrightarrow> yields_ok (zlog_reload env config z orc)"
  unfolding zlog_reload_def
proof (rule locked_ok)
  fix orc assume z: "z_ok z"
  show "yields_ok (if \<not> is_init z then Some (0, z, orc)
     else do {
       (_, conf) \<leftarrow> ze_conf z;
       case config of
         New_config s \<Rightarrow> reload_with env s z orc
       | Last_file \<Rightarrow> reload_with env (cf_file conf) z orc
       | When_due \<Rightarrow>
           if reload_conf_period conf < reload_conf_count z then reload_with env (cf_file conf) z orc
           else Some (0, z, orc) })"
    using z reload_with_ok[OF z] by (auto split: reload_config.split)
qed

lemma zlog_level_switch_ok: "z_ok z \<Longrightarrow> zlog_level_switch p level z = Some (rc, z1) \<Longrightarrow> z_ok z1"
proof -
  assume z: "z_ok z" and s: "zlog_level_switch p level z = Some (rc, z1)"
  then obtain c bm where c: "cat_at z p = Some c" "z1 = put_cat z p (c\<lparr>ca_bitmap := bm\<rparr>)" by (auto simp: zlog_level_switch_def bind_eq_Some_conv)
  show ?thesis
  proof (cases "ze_categories z")
    case None
    then show ?thesis using z c(2) by (simp add: put_cat_def)
  next
    case (Some ct)
    have inv: "cats_inv ct" by (rule z_okD(2)[OF z Some])
    have "cats_inv (ct\<lparr>ct_store := (ct_store ct)(p \<mapsto> c\<lparr>ca_bitmap := bm\<rparr>)\<rparr>)"
    proof (rule cats_inv_store[OF inv])
      fix k q assume "ht_map (ct_table ct) k = Some q"
      then obtain d where "ct_store ct q = Some d" "ca_name d = k" using inv unfolding cats_inv_def by blast
      then show "\<exists>c'. ((ct_store ct)(p \<mapsto> c\<lparr>ca_bitmap := bm\<rparr>)) q = Some c' \<and> ca_name c' = k"
        using c(1) Some by (cases "q = p") (auto simp: cat_at_def)
    qed
    then show ?thesis using z_ok_cats[OF z Some] c(2) Some by (simp add: put_cat_def)
  qed
qed

subsection \<open>Threads, logging and records\<close>

lemma fetch_thread_ok: "z_ok z \<Longrightarrow> yields_ok (zlog_fetch_thread env tid z orc)"
  by (simp add: zlog_fetch_thread_def Let_def split: prod.split option.split)

lemma zlog_put_mdc_ok: "z_ok z \<Longrightarrow> yields_ok (zlog_put_mdc env tid key v z orc)"
  unfolding zlog_put_mdc_def
  by (rule locked_ok) (auto simp: yields_okD[OF fetch_thread_ok] split: option.split prod.split)

lemma zlog_get_mdc_ok: "z_ok z \<Longrightarrow> yields_ok (zlog_get_mdc tid key z orc)"
  unfolding zlog_get_mdc_def by (rule locked_ok) (auto split: option.split)

lemma zlog_remove_mdc_ok: "z_ok z \<Longrightarrow> yields_ok (zlog_remove_mdc tid key z orc)"
  unfolding zlog_remove_mdc_def by (rule locked_ok) (auto split: option.split)

lemma zlog_clean_mdc_ok: "z_ok z \<Longrightarrow> yields_ok (zlog_clean_mdc tid z orc)"
  unfolding zlog_clean_mdc_def by (rule locked_ok) (auto split: option.split)

lemma output_to_ok: "z_ok z \<Longrightarrow> yields_ok (output_to env tid p lc pl t z orc)"
proof -
  assume z: "z_ok z"
  have "z_ok (z\<lparr>ze_os := os1, ze_conf := Some (gen, conf\<lparr>cf_rules := rules, cf_rotater := map_option f (cf_rotater conf)\<rparr>)\<rparr>)"
    if c: "ze_conf z = Some (gen, conf)" and o: "zlog_category_output e cat gen (cf_rules conf) t0 io orc = Some (rc, rules, t1, io1, orc1)"
    for os1 gen conf rules f e cat t0 io orc rc t1 io1 orc1
  proof -
    have "rules_like (cf_rules conf) rules" using o by (auto simp: zlog_category_output_def bind_eq_Some_conv intro: output_loop_rules)
    then have "conf_ok (conf\<lparr>cf_rules := rules\<rparr>)" by (rule conf_ok_rules[OF z_okD(1)[OF z c]])
    from conf_ok_map_rotater[OF this, of f] have "conf_ok (conf\<lparr>cf_rules := rules, cf_rotater := map_option f (cf_rotater conf)\<rparr>)" by simp
    from z_ok_conf[OF _ this, of "z\<lparr>ze_os := os1\<rparr>"] z show ?thesis by simp
  qed
  note h = this
  show ?thesis by (auto simp: output_to_def split: prod.split intro: h)
qed

text \<open>The functions that return nothing.\<close>

definition ends_ok :: "('tm zlog \<times> 'o) option \<Rightarrow> bool" where
  "ends_ok r \<longleftrightarrow> (\<forall>z y. r = Some (z, y) \<longrightarrow> z_ok z)"

lemma ends_simps [simp]: "ends_ok None" "ends_ok (Some (z, y)) = z_ok z"
  "ends_ok (if b then r1 else r2) \<longleftrightarrow> (b \<longrightarrow> ends_ok r1) \<and> (\<not> b \<longrightarrow> ends_ok r2)"
  "ends_ok (Option.bind m f) \<longleftrightarrow> (\<forall>y. m = Some y \<longrightarrow> ends_ok (f y))"
  by (auto simp: ends_ok_def bind_eq_Some_conv)

lemma count_reload_ok: "z_ok z \<Longrightarrow> ends_ok (count_reload env z orc)"
proof -
  assume z: "z_ok z"
  have "z_ok z2" if "zlog_reload env When_due (z\<lparr>reload_conf_count := reload_conf_count z + 1\<rparr>) o1 = Some (r, z2, o2)" for o1 r z2 o2
    by (rule yields_okD[OF zlog_reload_ok that]) (use z in simp)
  then show ?thesis using z by (auto simp: count_reload_def Let_def split: prod.split)
qed

lemma log_to_ok: "z_ok z \<Longrightarrow> ends_ok (log_to env tid cat lc pl z orc)"
proof -
  assume z: "z_ok z"
  have f: "z_ok z1" if "zlog_fetch_thread env tid z orc = Some (t, z1, o1)" for t z1 o1 by (rule yields_okD[OF fetch_thread_ok[OF z] that])
  have o: "z_ok z2" if "z_ok z1" "output_to env tid p lc pl t z1 o1 = Some (rc, z2, o2)" for p t z1 o1 rc z2 o2
    by (rule yields_okD[OF output_to_ok[OF that(1)] that(2)])
  show ?thesis unfolding log_to_def by (auto split: prod.split option.split intro: f o count_reload_ok)
qed

lemma log_given_ok: "z_ok z \<Longrightarrow> ends_ok (log_given env tid cat lc pl z orc)"
  by (simp add: log_given_def log_to_ok)

lemma log_default_ok: "z_ok z \<Longrightarrow> ends_ok (log_default env tid lc pl z orc)"
  by (simp add: log_default_def log_to_ok)

lemma dzlog_ok: "z_ok z \<Longrightarrow> ends_ok (dzlog env tid lc args z orc)"
  by (simp add: dzlog_def log_to_ok)

lemma zlog_set_record_ok: "z_ok z \<Longrightarrow> yields_ok (zlog_set_record rname f z orc)"
  unfolding zlog_set_record_def
proof (rule locked_ok)
  fix orc assume z: "z_ok z"
  have put: "z_ok (z\<lparr>ze_records := Some r1\<rparr>)" if "ze_records z = Some r" "zc_hashtable_put r k v o1 = Some (rc, r1, g, o2)" for r k v o1 rc r1 g o2
  proof -
    have "ht_inv r1" by (rule zc_hashtable_put_ok[OF z_okD(3)[OF z that(1)], of k v o1]) (use that(2) in simp)
    then show ?thesis using z by (simp add: z_ok_def split: if_splits)
  qed
  have "z_ok (z\<lparr>ze_records := Some r1, ze_conf := Some (gen, conf\<lparr>cf_rules := rules\<rparr>)\<rparr>)"
    if p: "z_ok (z\<lparr>ze_records := Some r1\<rparr>)" and c: "ze_conf z = Some (gen, conf)" and s: "rules_set_record r1 (cf_rules conf) = Some rules"
    for r1 gen conf rules
    using z_ok_conf[OF p conf_ok_rules[OF z_okD(1)[OF z c] rules_set_record_like[OF s]]] by simp
  then show "yields_ok (if \<not> is_init z then Some (0, z, orc)
     else case zlog_record_new rname f orc of
       (None, orc1) \<Rightarrow> Some (-1, z, orc1)
     | (Some a_record, orc1) \<Rightarrow> do {
         records \<leftarrow> ze_records z;
         (rc, records1, _, orc2) \<leftarrow> zc_hashtable_put records (rec_name a_record) a_record orc1;
         let z1 = z\<lparr>ze_records := Some records1\<rparr>;
         if rc \<noteq> 0 then Some (rc, z1, orc2)
         else do {
           (gen, conf) \<leftarrow> ze_conf z1;
           rules \<leftarrow> rules_set_record records1 (cf_rules conf);
           Some (0, z1\<lparr>ze_conf := Some (gen, conf\<lparr>cf_rules := rules\<rparr>)\<rparr>, orc2) } })"
    using z put by (auto simp: Let_def split: prod.split option.split)
qed


section \<open>Reachable states\<close>

text \<open>A call of the interface, with the number of the calling thread.\<close>

datatype zcall = Zlog_init "string option" | Dzlog_init "string option" string | Zlog_reload reload_config | Zlog_fini
  | Zlog_get_category string | Dzlog_set_category string | Zlog_put_mdc string string | Zlog_get_mdc string
  | Zlog_remove_mdc string | Zlog_clean_mdc | Zlog_level_switch nat int | Vzlog "nat option" log_call "string option option"
  | Hzlog "nat option" log_call "8 word list option" nat | Zlog "nat option" log_call "string option option"
  | Vdzlog log_call "string option option" | Hdzlog log_call "8 word list option" nat | Dzlog log_call "string option option"
  | Zlog_set_record string nat

definition forget :: "('r \<times> 'tm zlog \<times> outcomes) option \<Rightarrow> ('tm zlog \<times> outcomes) option" where
  "forget r = map_option snd r"

fun zcall_step :: "'tm env \<Rightarrow> nat \<Rightarrow> zcall \<Rightarrow> 'tm zlog \<Rightarrow> outcomes \<Rightarrow> ('tm zlog \<times> outcomes) option" where
  "zcall_step env tid (Zlog_init config) z orc = forget (zlog_init env config z orc)"
| "zcall_step env tid (Dzlog_init config cname) z orc = forget (dzlog_init env config cname z orc)"
| "zcall_step env tid (Zlog_reload config) z orc = forget (zlog_reload env config z orc)"
| "zcall_step env tid Zlog_fini z orc = forget (zlog_fini z orc)"
| "zcall_step env tid (Zlog_get_category cname) z orc = forget (zlog_get_category cname z orc)"
| "zcall_step env tid (Dzlog_set_category cname) z orc = forget (dzlog_set_category cname z orc)"
| "zcall_step env tid (Zlog_put_mdc key v) z orc = forget (zlog_put_mdc env tid key v z orc)"
| "zcall_step env tid (Zlog_get_mdc key) z orc = forget (zlog_get_mdc tid key z orc)"
| "zcall_step env tid (Zlog_remove_mdc key) z orc = forget (zlog_remove_mdc tid key z orc)"
| "zcall_step env tid Zlog_clean_mdc z orc = forget (zlog_clean_mdc tid z orc)"
| "zcall_step env tid (Zlog_level_switch p level) z orc = do { (_, z1) \<leftarrow> zlog_level_switch p level z; Some (z1, orc) }"
| "zcall_step env tid (Vzlog cat lc args) z orc = vzlog env tid cat lc args z orc"
| "zcall_step env tid (Hzlog cat lc bytes n) z orc = hzlog env tid cat lc bytes n z orc"
| "zcall_step env tid (Zlog cat lc args) z orc = zlog_log env tid cat lc args z orc"
| "zcall_step env tid (Vdzlog lc args) z orc = vdzlog env tid lc args z orc"
| "zcall_step env tid (Hdzlog lc bytes n) z orc = hdzlog env tid lc bytes n z orc"
| "zcall_step env tid (Dzlog lc args) z orc = dzlog env tid lc args z orc"
| "zcall_step env tid (Zlog_set_record rname f) z orc = forget (zlog_set_record rname f z orc)"

text \<open>
  The states a process can be in: calls in any order from any thread, with any clock, environment and pattern of failures,
  between which the system (the files, above all) changes as it likes.
\<close>

inductive zlog_reach :: "'tm zlog \<Rightarrow> bool" where
  start: "zlog_reach (zlog_start os)"
| call: "zlog_reach z \<Longrightarrow> zcall_step env tid c z orc = Some (z', orc') \<Longrightarrow> zlog_reach z'"
| system: "zlog_reach z \<Longrightarrow> zlog_reach (z\<lparr>ze_os := os\<rparr>)"

lemma forget_ok: "yields_ok r \<Longrightarrow> forget r = Some (z, orc) \<Longrightarrow> z_ok z"
  by (auto simp: forget_def yields_ok_def)

lemma zcall_step_ok: "z_ok z \<Longrightarrow> zcall_step env tid c z orc = Some (z', orc') \<Longrightarrow> z_ok z'"
proof -
  assume z: "z_ok z" and s: "zcall_step env tid c z orc = Some (z', orc')"
  have e: "ends_ok r \<Longrightarrow> r = Some (z', orc') \<Longrightarrow> z_ok z'" for r by (simp add: ends_ok_def)
  note logs = e[OF log_given_ok[OF z]] e[OF log_default_ok[OF z]] e[OF dzlog_ok[OF z]]
  show ?thesis
  proof (cases c)
    case Zlog_level_switch
    then show ?thesis using s zlog_level_switch_ok[OF z] by (auto simp: bind_eq_Some_conv)
  qed (use s in \<open>auto simp: vzlog_def hzlog_def zlog_log_def vdzlog_def hdzlog_def intro: logs
      forget_ok[OF zlog_init_ok[OF z]] forget_ok[OF dzlog_init_ok[OF z]] forget_ok[OF zlog_reload_ok[OF z]] forget_ok[OF zlog_fini_ok[OF z]]
      forget_ok[OF zlog_get_category_ok[OF z]] forget_ok[OF dzlog_set_category_ok[OF z]] forget_ok[OF zlog_put_mdc_ok[OF z]]
      forget_ok[OF zlog_get_mdc_ok[OF z]] forget_ok[OF zlog_remove_mdc_ok[OF z]] forget_ok[OF zlog_clean_mdc_ok[OF z]]
      forget_ok[OF zlog_set_record_ok[OF z]]\<close>)
qed

lemma reach_ok: "zlog_reach z \<Longrightarrow> z_ok z"
proof (induction rule: zlog_reach.induct)
  case (start os)
  then show ?case by (simp add: zlog_start_def z_ok_def)
next
  case (call z env tid c orc z' orc')
  then show ?case using zcall_step_ok by blast
next
  case (system z os)
  then show ?case by simp
qed

end
