(* ===== verification/CInt.thy ===== *)
theory CInt
  imports ZPrelude "HOL-Library.Signed_Division"
begin

text \<open>
  The integers of the controller: conversions to \<open>short\<close>, \<open>unsigned short\<close>, \<open>int\<close> and \<open>unsigned int\<close> keep the low bits, as
  the compilers of the targets do; signed arithmetic that leaves its type is undefined and gives None; \<open>/\<close> and \<open>%\<close> round
  towards zero. Sums of a few \<open>short\<close> values, which C computes in \<open>int\<close>, cannot leave it and are plain integers.
\<close>

definition to_short :: "int \<Rightarrow> int" where
  "to_short x = sint (word_of_int x :: 16 word)"

definition to_ushort :: "int \<Rightarrow> int" where
  "to_ushort x = uint (word_of_int x :: 16 word)"

definition to_int :: "int \<Rightarrow> int" where
  "to_int x = sint (word_of_int x :: 32 word)"

definition to_uint :: "int \<Rightarrow> int" where
  "to_uint x = uint (word_of_int x :: 32 word)"

text \<open>\<open>fits lim x\<close>: the result of signed arithmetic in a type whose largest value is \<open>lim\<close>.\<close>

definition fits :: "int \<Rightarrow> int \<Rightarrow> int option" where
  "fits lim x = (if - lim - 1 \<le> x \<and> x \<le> lim then Some x else None)"

definition INT_MAX :: int where
  "INT_MAX = 2147483647"

lemma fits_in: "- lim - 1 \<le> x \<Longrightarrow> x \<le> lim \<Longrightarrow> fits lim x = Some x"
  by (simp add: fits_def)

lemma to_short_in: "- 32768 \<le> x \<Longrightarrow> x < 32768 \<Longrightarrow> to_short x = x"
  by (simp add: to_short_def sint_sbintrunc' signed_take_bit_int_eq_self)

lemma to_ushort_in: "0 \<le> x \<Longrightarrow> x < 65536 \<Longrightarrow> to_ushort x = x"
  by (simp add: to_ushort_def uint_word_of_int)

lemma to_int_in: "- 2147483648 \<le> x \<Longrightarrow> x < 2147483648 \<Longrightarrow> to_int x = x"
  by (simp add: to_int_def sint_sbintrunc' signed_take_bit_int_eq_self)

lemma to_uint_in: "0 \<le> x \<Longrightarrow> x < 4294967296 \<Longrightarrow> to_uint x = x"
  by (simp add: to_uint_def uint_word_of_int)

lemma to_short_numerals [simp]: "to_short 0 = 0" "to_short 1 = 1"
  by (simp_all add: to_short_def)

lemma to_ushort_numerals [simp]: "to_ushort 0 = 0" "to_ushort 1 = 1"
  by (simp_all add: to_ushort_def)

lemma to_short_range: "- 32768 \<le> to_short x" "to_short x < 32768"
  using sint_range_size[of "word_of_int x :: 16 word"] by (simp_all add: to_short_def word_size)

lemma to_ushort_range: "0 \<le> to_ushort x" "to_ushort x < 65536"
  using uint_lt2p[of "word_of_int x :: 16 word"] by (simp_all add: to_ushort_def)

lemma sdiv_pos: "0 \<le> a \<Longrightarrow> 0 \<le> b \<Longrightarrow> a sdiv b = a div b" for a b :: int
  by (auto simp: signed_divide_int_def sgn_if)

lemma smod_pos: "0 \<le> a \<Longrightarrow> 0 \<le> b \<Longrightarrow> a smod b = a mod b" for a b :: int
  by (cases "a = 0") (simp_all add: signed_modulo_int_def sdiv_pos minus_div_mult_eq_mod)

lemma sdiv_minus: "(- a) sdiv b = - (a sdiv b)" for a b :: int
  by (simp add: signed_divide_int_def)

lemma sdiv_minus_right: "a sdiv (- b) = - (a sdiv b)" for a b :: int
  by (simp add: signed_divide_int_def)

lemma sdiv_bounds:
  fixes a :: int
  assumes "lo * n \<le> a" "a \<le> hi * n" "0 < n"
  shows "lo \<le> a sdiv n" "a sdiv n \<le> hi"
proof -
  have up: "b sdiv n \<le> h" if "b \<le> h * n" for b h :: int
  proof (cases "0 \<le> b")
    case True
    then show ?thesis using that assms(3) zdiv_mono1[of b "h * n" n] by (simp add: sdiv_pos)
  next
    case False
    have "(- h) * n \<le> - b" using that by simp
    then have "- h \<le> (- b) div n" using assms(3) zdiv_mono1[of "(- h) * n" "- b" n] by (simp only: nonzero_mult_div_cancel_right)
    moreover have "b sdiv n = - ((- b) div n)" using False assms(3) sdiv_minus[of "- b" n] sdiv_pos[of "- b" n] by simp
    ultimately show ?thesis by linarith
  qed
  show "a sdiv n \<le> hi" using up[of a hi] assms(2) by simp
  show "lo \<le> a sdiv n" using up[of "- a" "- lo"] assms(1) by (simp add: sdiv_minus)
qed

end
