(* ===== verification/Jlib.thy ===== *)
theory Jlib
  imports CInt
begin

text \<open>
  \<open>src/src/jlib.cpp\<close>: the CRC and the check sum of the frames of the serial devices, the byte orders of the shared memory,
  the split of a time and the moving average of the controllers. The functions that wait, set timers or print the time
  only call the system and are left out, as is \<open>get_sync_time\<close>, which nothing calls.
\<close>

unbundle bit_operations_syntax

section \<open>The CRC\<close>

text \<open>\<open>unsigned int\<close> has 32 bits; the bytes are read one by one, and the count is an \<open>unsigned char\<close>.\<close>

fun crc_bits :: "nat \<Rightarrow> 32 word \<Rightarrow> 32 word" where
  "crc_bits 0 crc_value = crc_value"
| "crc_bits (Suc i) crc_value =
     crc_bits i (if crc_value AND 1 \<noteq> 0 then drop_bit 1 crc_value XOR 0xa001 else drop_bit 1 crc_value)"

fun crc_loop :: "8 word list \<Rightarrow> nat \<Rightarrow> 32 word \<Rightarrow> 32 word option" where
  "crc_loop data_value 0 crc_value = Some crc_value"
| "crc_loop [] (Suc n) crc_value = None"
| "crc_loop (b # data_value) (Suc n) crc_value = crc_loop data_value n (crc_bits 8 (crc_value XOR ucast b))"

definition crc_chk_value :: "8 word list \<Rightarrow> 8 word \<Rightarrow> 32 word option" where
  "crc_chk_value data_value len = crc_loop data_value (unat len) 0xFFFF"

section \<open>The check sum\<close>

fun sum_loop :: "8 word list \<Rightarrow> nat \<Rightarrow> 16 word \<Rightarrow> 16 word option" where
  "sum_loop data 0 s = Some s"
| "sum_loop [] (Suc n) s = None"
| "sum_loop (b # data) (Suc n) s = sum_loop data n (s + ucast b)"

text \<open>\<open>tmp + 1\<close> is an \<open>int\<close>, so that it does not wrap before the remainder is taken.\<close>

definition co2_check :: "8 word list \<Rightarrow> int \<Rightarrow> 16 word option" where
  "co2_check data len = do {
     s \<leftarrow> sum_loop data (nat len) 0;
     Some (word_of_int ((uint (NOT s) + 1) mod 256)) }"

section \<open>The byte orders\<close>

text \<open>Two bytes of the buffer are exchanged by three assignments \<open>^=\<close>.\<close>

definition xor_into :: "nat \<Rightarrow> nat \<Rightarrow> 8 word list \<Rightarrow> 8 word list option" where
  "xor_into i j xs = do { a \<leftarrow> arr_get xs (int i); b \<leftarrow> arr_get xs (int j); arr_set xs (int i) (a XOR b) }"

definition xor_swap :: "nat \<Rightarrow> nat \<Rightarrow> 8 word list \<Rightarrow> 8 word list option" where
  "xor_swap i j xs = do { x1 \<leftarrow> xor_into i j xs; x2 \<leftarrow> xor_into j i x1; xor_into i j x2 }"

text \<open>\<open>while (len--)\<close>: the swaps \<open>ps\<close> within each group of \<open>w\<close> bytes, in their order.\<close>

fun swaps :: "(nat \<times> nat) list \<Rightarrow> nat \<Rightarrow> 8 word list \<Rightarrow> 8 word list option" where
  "swaps [] count xs = Some xs"
| "swaps ((i, j) # ps) count xs = do { x1 \<leftarrow> xor_swap (count + i) (count + j) xs; swaps ps count x1 }"

fun swap_loop :: "nat \<Rightarrow> (nat \<times> nat) list \<Rightarrow> nat \<Rightarrow> nat \<Rightarrow> 8 word list \<Rightarrow> 8 word list option" where
  "swap_loop w ps 0 count xs = Some xs"
| "swap_loop w ps (Suc n) count xs = do { x1 \<leftarrow> swaps ps count xs; swap_loop w ps n (count + w) x1 }"

text \<open>The result NULL (\<open>False\<close>) or the buffer (\<open>True\<close>), and the buffer.\<close>

definition exchange :: "nat \<Rightarrow> (nat \<times> nat) list \<Rightarrow> 8 word list \<Rightarrow> int \<Rightarrow> (bool \<times> 8 word list) option" where
  "exchange w ps buf len =
     (if len mod int w \<noteq> 0 \<or> len \<le> 0 then Some (False, buf)
      else map_option (Pair True) (swap_loop w ps (nat (len div int w)) 0 buf))"

definition ba :: "8 word list \<Rightarrow> int \<Rightarrow> (bool \<times> 8 word list) option" where
  "ba = exchange 2 [(0, 1)]"

definition abdc :: "8 word list \<Rightarrow> int \<Rightarrow> (bool \<times> 8 word list) option" where
  "abdc = exchange 4 [(2, 3)]"

definition bacd :: "8 word list \<Rightarrow> int \<Rightarrow> (bool \<times> 8 word list) option" where
  "bacd = exchange 4 [(0, 1)]"

definition badc :: "8 word list \<Rightarrow> int \<Rightarrow> (bool \<times> 8 word list) option" where
  "badc = exchange 4 [(0, 1), (2, 3)]"

definition cdab :: "8 word list \<Rightarrow> int \<Rightarrow> (bool \<times> 8 word list) option" where
  "cdab = exchange 4 [(0, 2), (1, 3)]"

definition cdba :: "8 word list \<Rightarrow> int \<Rightarrow> (bool \<times> 8 word list) option" where
  "cdba = exchange 4 [(0, 2), (1, 3), (2, 3)]"

definition dcab :: "8 word list \<Rightarrow> int \<Rightarrow> (bool \<times> 8 word list) option" where
  "dcab = exchange 4 [(0, 3), (1, 2), (2, 3)]"

definition dcba :: "8 word list \<Rightarrow> int \<Rightarrow> (bool \<times> 8 word list) option" where
  "dcba = exchange 4 [(0, 3), (1, 2)]"

section \<open>Names, times and averages\<close>

text \<open>\<open>strrchr\<close>: what follows the last slash, or the whole path.\<close>

definition parse_file_path :: "string \<Rightarrow> string" where
  "parse_file_path path = (if CHR ''/'' \<in> set path then rev (takeWhile (\<lambda>c. c \<noteq> CHR ''/'') (rev path)) else path)"

record Time =
  days :: int
  hours :: int
  minutes :: int

text \<open>The quotients and remainders of C; \<open>days\<close> is an \<open>int\<close>, the time a \<open>time_t\<close>.\<close>

definition timer :: "int \<Rightarrow> Time" where
  "timer timestamp =
     \<lparr>days = to_int (timestamp sdiv (24 * 3600)),
      hours = (timestamp smod (24 * 3600)) sdiv 3600,
      minutes = (timestamp smod (24 * 3600)) smod 3600 sdiv 60\<rparr>"

text \<open>The loop that shifts the window runs \<open>i\<close> down from \<open>num - 1\<close>; the sum is an \<open>int\<close>, the average a \<open>short\<close>.\<close>

fun shift_window :: "nat \<Rightarrow> int list \<Rightarrow> int list option" where
  "shift_window 0 p = Some p"
| "shift_window (Suc i) p = do { x \<leftarrow> arr_get p (int i); p1 \<leftarrow> arr_set p (int i + 1) x; shift_window i p1 }"

fun sum_window :: "int list \<Rightarrow> nat \<Rightarrow> nat \<Rightarrow> int \<Rightarrow> int option" where
  "sum_window p i 0 s = Some s"
| "sum_window p i (Suc n) s = do {
     x \<leftarrow> arr_get p (int i);
     s1 \<leftarrow> fits INT_MAX (s + x);
     sum_window p (i + 1) n s1 }"

definition pid_filter :: "int \<Rightarrow> int list \<Rightarrow> 8 word \<Rightarrow> (int \<times> int list) option" where
  "pid_filter pid p num = do {
     p1 \<leftarrow> shift_window (unat (num - 1)) p;
     p2 \<leftarrow> arr_set p1 0 pid;
     s \<leftarrow> sum_window p2 0 (unat num) 0;
     if num = 0 then None else Some (to_short (s sdiv uint num), p2) }"


section \<open>The CRC of a frame\<close>

definition crc_step :: "32 word \<Rightarrow> 32 word" where
  "crc_step c = (if c AND 1 \<noteq> 0 then drop_bit 1 c XOR 0xa001 else drop_bit 1 c)"

definition crc_of :: "8 word list \<Rightarrow> 32 word \<Rightarrow> 32 word" where
  "crc_of = fold (\<lambda>b c. crc_bits 8 (c XOR ucast b))"

lemma crc_of_simps [simp]: "crc_of [] c = c" "crc_of (b # bs) c = crc_of bs (crc_bits 8 (c XOR ucast b))"
  "crc_of (xs @ ys) c = crc_of ys (crc_of xs c)"
  by (simp_all add: crc_of_def)

lemma crc_loop_of: "crc_loop (xs @ ys) (length xs) c = Some (crc_of xs c)"
  by (induction xs arbitrary: c) auto

lemma crc_chk_value_of: "unat n = length xs \<Longrightarrow> crc_chk_value xs n = Some (crc_of xs 0xFFFF)"
  using crc_loop_of[of xs "[]"] by (simp add: crc_chk_value_def)

lemma crc_chk_value_len: "length xs = n \<Longrightarrow> n < 256 \<Longrightarrow> crc_chk_value xs (of_nat n) = Some (crc_of xs 0xFFFF)"
  by (rule crc_chk_value_of) (simp add: unat_of_nat take_bit_eq_mod)

lemma and_1_iff: "(c AND 1 \<noteq> 0) = bit c 0" for c :: "32 word"
  by (simp add: and_one_eq bit_0 odd_iff_mod_2_eq_one)

lemma crc_bits_Suc: "crc_bits (Suc n) c = crc_bits n (crc_step c)"
  by (simp add: crc_step_def)

definition below16 :: "32 word \<Rightarrow> bool" where
  "below16 c \<longleftrightarrow> (\<forall>i \<ge> 16. \<not> bit c i)"

lemma bit_a001: "bit (0xa001 :: int) i \<longleftrightarrow> i = 0 \<or> i = 13 \<or> i = 15"
proof -
  have "(0xa001 :: int) = set_bit 0 (set_bit 13 (set_bit 15 0))" by simp
  then show ?thesis by (simp only: bit_set_bit_iff) auto
qed

lemma bit_crc_step: "bit (crc_step c) i \<longleftrightarrow> (bit c (Suc i) \<noteq> (bit c 0 \<and> (i = 0 \<or> i = 13 \<or> i = 15)))"
  by (auto simp: crc_step_def and_1_iff bit_drop_bit_eq bit_xor_iff bit_a001 dest: bit_imp_le_length)

lemma crc_step_below16: "below16 c \<Longrightarrow> below16 (crc_step c)"
  by (auto simp: below16_def bit_crc_step)

lemma crc_step_inj: "crc_step c = crc_step d \<Longrightarrow> below16 c \<Longrightarrow> below16 d \<Longrightarrow> c = d"
proof -
  assume e: "crc_step c = crc_step d" and b: "below16 c" "below16 d"
  have s: "bit (crc_step c) i = bit (crc_step d) i" for i using e by simp
  have o: "bit c 0 = bit d 0" using s[of 15] b by (simp add: bit_crc_step below16_def)
  have "bit c (Suc i) = bit d (Suc i)" for i using s[of i] o by (auto simp: bit_crc_step)
  then show "c = d" using o by (intro bit_word_eqI) (metis not0_implies_Suc)
qed

lemma crc_bits_below16: "below16 c \<Longrightarrow> below16 (crc_bits n c)"
  by (induction n arbitrary: c) (auto simp: crc_bits_Suc crc_step_below16 simp del: crc_bits.simps(2))

lemma crc_bits_inj: "crc_bits n c = crc_bits n d \<Longrightarrow> below16 c \<Longrightarrow> below16 d \<Longrightarrow> c = d"
proof (induction n arbitrary: c d)
  case (Suc n)
  then have "crc_step c = crc_step d" using crc_step_below16 by (metis crc_bits_Suc)
  then show ?case using crc_step_inj Suc.prems(2,3) by blast
qed simp

lemma below16_xor: "below16 c \<Longrightarrow> below16 (c XOR ucast (b :: 8 word))"
  by (auto simp: below16_def bit_xor_iff bit_ucast_iff dest: bit_imp_le_length)

lemma crc_of_below16: "below16 c \<Longrightarrow> below16 (crc_of bs c)"
  by (induction bs arbitrary: c) (auto simp: crc_bits_below16 below16_xor)

lemma crc_of_inj: "crc_of bs c = crc_of bs d \<Longrightarrow> below16 c \<Longrightarrow> below16 d \<Longrightarrow> c = d"
proof (induction bs arbitrary: c d)
  case (Cons b bs)
  have "crc_bits 8 (c XOR ucast b) = crc_bits 8 (d XOR ucast b)"
    using Cons by (simp add: crc_bits_below16 below16_xor)
  then have "c XOR ucast b = d XOR ucast b" using crc_bits_inj below16_xor Cons.prems(2,3) by blast
  then have "(c XOR ucast b) XOR ucast b = (d XOR ucast b) XOR ucast b" by simp
  then show ?case by (simp only: xor.assoc xor_self_eq xor.right_neutral)
qed simp

lemma below16_start: "below16 0xFFFF"
proof -
  have "bit (0xFFFF :: int) i \<longleftrightarrow> i < 16" for i
  proof -
    have "(0xFFFF :: int) = mask 16" by (simp add: mask_eq_exp_minus_1)
    then show ?thesis by (simp only: bit_mask_iff) simp
  qed
  then show ?thesis by (simp add: below16_def)
qed

lemma crc_bits_low_zero: "(\<forall>i < n. \<not> bit c i) \<Longrightarrow> crc_bits n c = drop_bit n c"
proof (induction n arbitrary: c)
  case (Suc n)
  have "crc_step c = drop_bit 1 c" using Suc.prems by (simp add: crc_step_def and_1_iff)
  then show ?case using Suc.IH[of "drop_bit 1 c"] Suc.prems by (simp add: crc_bits_Suc bit_drop_bit_eq del: crc_bits.simps(2))
qed simp

lemma below16_high: "below16 c \<Longrightarrow> bit c (8 + n) \<Longrightarrow> n < 8"
  unfolding below16_def by (rule ccontr) (auto dest: spec[of _ "8 + n"])

lemma crc_of_own_bytes: "below16 c \<Longrightarrow> crc_of [ucast c, ucast (drop_bit 8 c)] c = 0"
proof -
  assume b: "below16 c"
  let ?c = "drop_bit 8 c"
  have "c XOR ucast (ucast c :: 8 word) = push_bit 8 ?c"
    by (rule bit_word_eqI) (auto simp: bit_xor_iff bit_ucast_iff bit_push_bit_iff bit_drop_bit_eq)
  then have "crc_bits 8 (c XOR ucast (ucast c :: 8 word)) = drop_bit 8 (push_bit 8 ?c)"
    by (subst crc_bits_low_zero) (auto simp: bit_push_bit_iff)
  also have "\<dots> = ?c" using b
    by (intro bit_word_eqI) (auto simp: bit_push_bit_iff bit_drop_bit_eq below16_def dest: bit_imp_le_length)
  finally have s: "crc_bits 8 (c XOR ucast (ucast c :: 8 word)) = ?c" .
  have "?c XOR ucast (ucast ?c :: 8 word) = 0" using b
    by (intro bit_word_eqI) (auto simp: bit_xor_iff bit_ucast_iff bit_drop_bit_eq dest: below16_high)
  moreover have "crc_bits 8 0 = 0" using crc_bits_low_zero[of 8 0] by simp
  ultimately show ?thesis by (simp only: crc_of_simps s)
qed

lemma below16_less: "below16 c \<Longrightarrow> c < 2 ^ 16"
proof -
  assume "below16 c"
  then have "take_bit 16 c = c" by (intro bit_word_eqI) (auto simp: bit_take_bit_iff below16_def not_le[symmetric])
  then have "unat c = take_bit 16 (unat c)" by (metis unsigned_take_bit_eq)
  then have "unat c < 2 ^ 16" by (metis take_bit_nat_less_exp)
  then show ?thesis by (simp add: word_less_nat_alt)
qed

text \<open>
  C32. The CRC of a message of up to 253 bytes is defined and fits 16 bits; the frame that carries it behind the message,
  low byte first, has CRC 0.
\<close>

theorem crc_chk_value_residue:
  assumes "length xs \<le> 253"
  shows "\<exists>c. crc_chk_value xs (of_nat (length xs)) = Some c \<and> c < 2 ^ 16 \<and>
    crc_chk_value (xs @ [ucast c, ucast (drop_bit 8 c)]) (of_nat (length xs + 2)) = Some 0"
proof -
  let ?c = "crc_of xs 0xFFFF"
  have b16: "below16 ?c" by (rule crc_of_below16[OF below16_start])
  have "crc_of (xs @ [ucast ?c, ucast (drop_bit 8 ?c)]) 0xFFFF = 0"
    using crc_of_own_bytes[OF b16] by (simp only: crc_of_simps(3))
  moreover have "crc_chk_value (xs @ [ucast ?c, ucast (drop_bit 8 ?c)]) (of_nat (length xs + 2)) =
      Some (crc_of (xs @ [ucast ?c, ucast (drop_bit 8 ?c)]) 0xFFFF)"
    using assms by (intro crc_chk_value_len) simp_all
  moreover have "crc_chk_value xs (of_nat (length xs)) = Some ?c" using assms by (intro crc_chk_value_len) simp_all
  ultimately show ?thesis using below16_less[OF b16] by metis
qed

text \<open>
  C23. Every error within one byte is found: two frames of the same length that differ in exactly one byte have
  different CRCs.
\<close>

theorem crc_detects_byte_error:
  assumes "length xs + length ys < 255" "a \<noteq> b"
  shows "crc_chk_value (xs @ a # ys) (of_nat (length xs + 1 + length ys)) \<noteq>
    crc_chk_value (xs @ b # ys) (of_nat (length xs + 1 + length ys))"
proof
  let ?c = "crc_of xs 0xFFFF"
  let ?f = "\<lambda>b. ?c XOR ucast (b :: 8 word)"
  assume "crc_chk_value (xs @ a # ys) (of_nat (length xs + 1 + length ys)) =
    crc_chk_value (xs @ b # ys) (of_nat (length xs + 1 + length ys))"
  moreover have "crc_chk_value (xs @ x # ys) (of_nat (length xs + 1 + length ys)) = Some (crc_of ys (crc_bits 8 (?f x)))" for x
    using assms(1) crc_chk_value_len[of "xs @ x # ys" "length xs + 1 + length ys"] by (simp del: crc_bits.simps of_nat_add)
  ultimately have e: "crc_of ys (crc_bits 8 (?f a)) = crc_of ys (crc_bits 8 (?f b))" by simp
  have b16: "below16 (?f b)" for b by (rule below16_xor[OF crc_of_below16[OF below16_start]])
  have "?f a = ?f b" using crc_bits_inj[OF crc_of_inj[OF e]] b16 crc_bits_below16 by blast
  then have "?c XOR ?f a = ?c XOR ?f b" by simp
  then have "ucast a = (ucast b :: 32 word)" by (simp only: xor.assoc[symmetric] xor_self_eq xor.left_neutral)
  moreover have "ucast (ucast x :: 32 word) = x" for x :: "8 word" by (rule bit_word_eqI) (auto simp: bit_ucast_iff)
  ultimately show False using assms(2) by metis
qed


section \<open>The check sum of a frame\<close>

lemma sum_loop_ok: "n \<le> length data \<Longrightarrow>
   \<exists>s. sum_loop data n s0 = Some s \<and> uint s = (uint s0 + sum_list (map uint (take n data))) mod 2 ^ 16"
proof (induction data n s0 rule: sum_loop.induct)
  case (3 b data n s)
  from 3 obtain s1 where "sum_loop data n (s + ucast b) = Some s1"
    "uint s1 = (uint (s + ucast b) + sum_list (map uint (take n data))) mod 2 ^ 16" by auto
  moreover have "uint (s + ucast b) = (uint s + uint b) mod 2 ^ 16"
    by (simp add: uint_word_ariths unsigned_ucast_eq take_bit_eq_mod mod_add_right_eq)
  ultimately show ?case by (simp add: mod_add_left_eq mod_add_right_eq ac_simps)
next
  case (1 data s)
  show ?case using uint_lt2p[of s] by simp
qed simp

lemma sum_and_check: "(x + (65536 - x mod 65536) mod 256) mod 256 = (0 :: int)"
proof -
  have "x + (65536 - x mod 65536) = 256 * (256 * (x div 65536 + 1))" by (simp add: minus_mult_div_eq_mod[symmetric] algebra_simps)
  then have "(x + (65536 - x mod 65536)) mod 256 = 0" by (metis mod_mult_self1_is_0)
  then show ?thesis by (simp only: mod_add_right_eq)
qed

text \<open>
  The check sum is one byte, and it makes the sum of the bytes of a frame that ends in it a multiple of 256; frames
  that are not as long as their count are not read beyond their end.
\<close>

theorem co2_check_sum:
  assumes "0 \<le> len" "len \<le> int (length data)"
  shows "\<exists>c. co2_check data len = Some c \<and> uint c < 256 \<and> (sum_list (map uint (take (nat len) data)) + uint c) mod 256 = 0"
proof -
  have "nat len \<le> length data" using assms by simp
  from sum_loop_ok[OF this, of 0] obtain s where s: "sum_loop data (nat len) 0 = Some s"
    "uint s = sum_list (map uint (take (nat len) data)) mod 2 ^ 16" by auto
  have b: "0 \<le> uint s" "uint s < 65536" using uint_lt2p[of s] by simp_all
  have n: "uint (NOT s) = 65535 - uint s"
  proof -
    have "(- uint s - 1) mod 65536 = 65535 - uint s" using b by (intro int_mod_pos_eq[of _ _ "-1"]) linarith+
    then show ?thesis by (simp add: unsigned_not_eq take_bit_eq_mod not_int_def)
  qed
  let ?c = "(65536 - uint s) mod 256"
  have "uint (word_of_int ?c :: 16 word) = ?c" by (simp add: uint_word_of_int mod_pos_pos_trivial)
  moreover have "(sum_list (map uint (take (nat len) data)) + ?c) mod 256 = 0" using s(2) sum_and_check by simp
  ultimately show ?thesis using s(1) n by (simp add: co2_check_def)
qed


section \<open>What the byte orders do\<close>

lemma xor_swap_swap: "i \<noteq> j \<Longrightarrow> i < length xs \<Longrightarrow> j < length xs \<Longrightarrow> xor_swap i j xs = Some (xs[i := xs ! j, j := xs ! i])"
proof -
  assume a: "i \<noteq> j" "i < length xs" "j < length xs"
  have x: "(a XOR b) XOR b = a" "a XOR (b XOR a) = b" "b XOR (a XOR b) = a" for a b :: "8 word"
    by (simp_all add: xor.assoc) (metis xor.assoc xor.commute xor_self_eq xor.right_neutral)+
  show ?thesis using a
    by (simp add: xor_swap_def xor_into_def ub_simps nth_list_update x list_update_swap)
qed

lemma swaps_within:
  "\<forall>(i, j) \<in> set ps. i \<noteq> j \<and> i < length g \<and> j < length g \<Longrightarrow>
   swaps ps (length pre) (pre @ g @ rest) = map_option (\<lambda>g. pre @ g @ rest) (swaps ps 0 g)"
proof (induction ps arbitrary: g)
  case (Cons p ps)
  obtain i j where p: "p = (i, j)" by fastforce
  then have "i \<noteq> j" "i < length g" "j < length g" using Cons.prems by auto
  then show ?case using p Cons
    by (simp add: xor_swap_swap list_update_append nth_append)
qed simp

text \<open>What one group becomes is written as the list of the places its bytes come from.\<close>

definition pick :: "nat list \<Rightarrow> 8 word list \<Rightarrow> 8 word list" where
  "pick is g = map (\<lambda>i. g ! i) is"

lemma pick_fun: "pick is = (\<lambda>g. map ((!) g) is)"
  by (rule ext) (simp add: pick_def)

locale byte_order =
  fixes w :: nat and ps :: "(nat \<times> nat) list" and order :: "nat list"
  assumes places: "0 < w" "\<forall>(i, j) \<in> set ps. i \<noteq> j \<and> i < w \<and> j < w" "length order = w"
    and group: "length g = w \<Longrightarrow> swaps ps 0 g = Some (pick order g)"
begin

lemma swap_loop_groups:
  "\<forall>g \<in> set gs. length g = w \<Longrightarrow>
   swap_loop w ps (length gs) (length pre) (pre @ concat gs @ rest) = Some (pre @ concat (map (pick order) gs) @ rest)"
proof (induction gs arbitrary: pre)
  case (Cons g gs)
  have "swaps ps (length pre) (pre @ g @ concat gs @ rest) = Some (pre @ pick order g @ concat gs @ rest)"
    using swaps_within[of ps g pre "concat gs @ rest"] places group[of g] Cons.prems by simp
  moreover have "length (pre @ pick order g) = length pre + w" using places by (simp add: pick_def)
  ultimately show ?case using Cons.IH[of "pre @ pick order g"] Cons.prems by simp
qed simp

lemma exchange_groups:
  "\<forall>g \<in> set gs. length g = w \<Longrightarrow> gs \<noteq> [] \<Longrightarrow>
   exchange w ps (concat gs @ rest) (int w * int (length gs)) = Some (True, concat (map (pick order) gs) @ rest)"
  using swap_loop_groups[of gs "[]" rest] places by (simp add: exchange_def zero_less_mult_iff not_le)

end

lemma list4: "length g = 4 \<Longrightarrow> \<exists>a b c d. g = [a, b, c, d]"
  by (auto simp: numeral_eq_Suc length_Suc_conv)

lemma list2: "length g = 2 \<Longrightarrow> \<exists>a b. g = [a, b]"
  by (auto simp: numeral_eq_Suc length_Suc_conv)

interpretation ba_order: byte_order 2 "[(0, 1)]" "[1, 0]"
  by unfold_locales (auto simp: xor_swap_swap pick_def dest!: list2)

interpretation abdc_order: byte_order 4 "[(2, 3)]" "[0, 1, 3, 2]"
  by unfold_locales (auto simp: xor_swap_swap pick_def dest!: list4)

interpretation bacd_order: byte_order 4 "[(0, 1)]" "[1, 0, 2, 3]"
  by unfold_locales (auto simp: xor_swap_swap pick_def dest!: list4)

interpretation badc_order: byte_order 4 "[(0, 1), (2, 3)]" "[1, 0, 3, 2]"
  by unfold_locales (auto simp: xor_swap_swap pick_def dest!: list4)

interpretation cdab_order: byte_order 4 "[(0, 2), (1, 3)]" "[2, 3, 0, 1]"
  by unfold_locales (auto simp: xor_swap_swap pick_def dest!: list4)

interpretation cdba_order: byte_order 4 "[(0, 2), (1, 3), (2, 3)]" "[2, 3, 1, 0]"
  by unfold_locales (auto simp: xor_swap_swap pick_def dest!: list4)

interpretation dcab_order: byte_order 4 "[(0, 3), (1, 2), (2, 3)]" "[3, 2, 0, 1]"
  by unfold_locales (auto simp: xor_swap_swap pick_def dest!: list4)

interpretation dcba_order: byte_order 4 "[(0, 3), (1, 2)]" "[3, 2, 1, 0]"
  by unfold_locales (auto simp: xor_swap_swap pick_def dest!: list4)


text \<open>
  Each of the nine functions puts the bytes of every group of 4 (of 2 for \<open>ba\<close>) into the order its name says, leaves what
  lies behind the groups alone, and refuses any other length without a change.
\<close>

theorem byte_orders:
  fixes rest :: "8 word list"
  assumes "\<forall>g \<in> set gs. length g = 4" "\<forall>g \<in> set hs. length g = 2" "gs \<noteq> []" "hs \<noteq> []"
  defines "n \<equiv> 4 * int (length gs)" and "to \<equiv> \<lambda>is. Some (True, concat (map (\<lambda>g. map ((!) g) is) gs) @ rest)"
  shows "ba (concat hs @ rest) (2 * int (length hs)) = Some (True, concat (map rev hs) @ rest) \<and>
    abdc (concat gs @ rest) n = to [0, 1, 3, 2] \<and> bacd (concat gs @ rest) n = to [1, 0, 2, 3] \<and>
    badc (concat gs @ rest) n = to [1, 0, 3, 2] \<and> cdab (concat gs @ rest) n = to [2, 3, 0, 1] \<and>
    cdba (concat gs @ rest) n = to [2, 3, 1, 0] \<and> dcab (concat gs @ rest) n = to [3, 2, 0, 1] \<and>
    dcba (concat gs @ rest) n = Some (True, concat (map rev gs) @ rest) \<and>
    (\<forall>f \<in> {abdc, bacd, badc, cdab, cdba, dcab, dcba}. \<forall>buf len. len mod 4 \<noteq> 0 \<or> len \<le> 0 \<longrightarrow> f buf len = Some (False, buf))"
proof -
  have r: "map rev hs = map (pick [1, 0]) hs" "map rev gs = map (pick [3, 2, 1, 0]) gs"
    using assms(1,2) by (auto simp: pick_def dest!: list2 list4 bspec)
  note go = n_def to_def r pick_fun abdc_def bacd_def badc_def cdab_def cdba_def dcab_def dcba_def ba_def
  have "ba (concat hs @ rest) (2 * int (length hs)) = Some (True, concat (map rev hs) @ rest)"
    using ba_order.exchange_groups[OF assms(2,4), of rest] by (simp add: go)
  moreover have "abdc (concat gs @ rest) n = to [0, 1, 3, 2]" using abdc_order.exchange_groups[OF assms(1,3), of rest] by (simp add: go)
  moreover have "bacd (concat gs @ rest) n = to [1, 0, 2, 3]" using bacd_order.exchange_groups[OF assms(1,3), of rest] by (simp add: go)
  moreover have "badc (concat gs @ rest) n = to [1, 0, 3, 2]" using badc_order.exchange_groups[OF assms(1,3), of rest] by (simp add: go)
  moreover have "cdab (concat gs @ rest) n = to [2, 3, 0, 1]" using cdab_order.exchange_groups[OF assms(1,3), of rest] by (simp add: go)
  moreover have "cdba (concat gs @ rest) n = to [2, 3, 1, 0]" using cdba_order.exchange_groups[OF assms(1,3), of rest] by (simp add: go)
  moreover have "dcab (concat gs @ rest) n = to [3, 2, 0, 1]" using dcab_order.exchange_groups[OF assms(1,3), of rest] by (simp add: go)
  moreover have "dcba (concat gs @ rest) n = Some (True, concat (map rev gs) @ rest)"
    using dcba_order.exchange_groups[OF assms(1,3), of rest] by (simp add: go)
  moreover have "f buf len = Some (False, buf)"
    if "f \<in> {abdc, bacd, badc, cdab, cdba, dcab, dcba}" "len mod 4 \<noteq> 0 \<or> len \<le> 0" for f buf len
    using that by (auto simp: go exchange_def)
  ultimately show ?thesis by blast
qed

lemma groups_of: "length buf = w * n \<Longrightarrow> \<exists>gs. buf = concat gs \<and> length gs = n \<and> (\<forall>g \<in> set gs. length g = w)"
proof (induction n arbitrary: buf)
  case (Suc n)
  from Suc.IH[of "drop w buf"] Suc.prems obtain gs where "drop w buf = concat gs" "length gs = n" "\<forall>g \<in> set gs. length g = w" by auto
  moreover from this have "buf = take w buf @ concat gs" by (metis append_take_drop_id)
  ultimately show ?case using Suc.prems by (intro exI[of _ "take w buf # gs"]) auto
qed simp


lemma exchange_inverse:
  assumes o: "byte_order w ps order" "byte_order w qs order'" and inv: "\<And>g. length g = w \<Longrightarrow> pick order' (pick order g) = g"
    and len: "len mod int w = 0" "0 < len" "len \<le> int (length buf)"
  shows "\<exists>b. exchange w ps buf len = Some (True, b) \<and> exchange w qs b len = Some (True, buf)"
proof -
  have w: "0 < w" "length order = w" using byte_order.places[OF o(1)] by simp_all
  obtain n where n: "len = int w * int n" using len w
    by (metis dvd_def mod_eq_0_iff_dvd zero_less_mult_pos of_nat_0_less_iff nonneg_int_cases less_imp_le)
  then have "w * n \<le> length buf" using len(3) by (metis of_nat_mult of_nat_le_iff)
  then have "length (take (w * n) buf) = w * n" by simp
  from groups_of[OF this] obtain gs where gs: "take (w * n) buf = concat gs" "length gs = n" "\<forall>g \<in> set gs. length g = w" by blast
  have b: "buf = concat gs @ drop (w * n) buf" using gs(1) append_take_drop_id by metis
  have ne: "gs \<noteq> []" using gs(2) n len(2) w by auto
  let ?gs = "map (pick order) gs"
  have "\<forall>g \<in> set ?gs. length g = w" using w by (simp add: pick_def)
  from byte_order.exchange_groups[OF o(2) this, of "drop (w * n) buf"] ne
  have 2: "exchange w qs (concat ?gs @ drop (w * n) buf) len = Some (True, concat (map (pick order') ?gs) @ drop (w * n) buf)"
    using gs(2) n by simp
  have "map (pick order') ?gs = gs" using gs(3) inv by (simp add: map_idI)
  then show ?thesis using 2 byte_order.exchange_groups[OF o(1) gs(3) ne, of "drop (w * n) buf"] b gs(2) n by (metis (no_types))
qed

text \<open>
  C31. What a device sends can be brought back: on every buffer and every length that fits it, \<open>abdc\<close>, \<open>bacd\<close>, \<open>badc\<close>,
  \<open>cdab\<close>, \<open>dcba\<close> and \<open>ba\<close> undo themselves, and \<open>cdba\<close> and \<open>dcab\<close> undo each other.
\<close>

theorem byte_orders_inverse:
  assumes "0 < len" "len \<le> int (length buf)"
  shows "(len mod 2 = 0 \<longrightarrow> (\<exists>b. ba buf len = Some (True, b) \<and> ba b len = Some (True, buf))) \<and>
    (len mod 4 = 0 \<longrightarrow> (\<forall>(f, g) \<in> {(abdc, abdc), (bacd, bacd), (badc, badc), (cdab, cdab), (dcba, dcba), (cdba, dcab), (dcab, cdba)}.
       \<exists>b. f buf len = Some (True, b) \<and> g b len = Some (True, buf)))"
proof -
  have "\<exists>b. ba buf len = Some (True, b) \<and> ba b len = Some (True, buf)" if "len mod 2 = 0"
    unfolding ba_def using that assms
    by (intro exchange_inverse[OF ba_order.byte_order_axioms ba_order.byte_order_axioms]) (auto simp: pick_def dest!: list2)
  moreover have "\<exists>b. abdc buf len = Some (True, b) \<and> abdc b len = Some (True, buf)" if "len mod 4 = 0"
    unfolding abdc_def using that assms
    by (intro exchange_inverse[OF abdc_order.byte_order_axioms abdc_order.byte_order_axioms]) (auto simp: pick_def dest!: list4)
  moreover have "\<exists>b. bacd buf len = Some (True, b) \<and> bacd b len = Some (True, buf)" if "len mod 4 = 0"
    unfolding bacd_def using that assms
    by (intro exchange_inverse[OF bacd_order.byte_order_axioms bacd_order.byte_order_axioms]) (auto simp: pick_def dest!: list4)
  moreover have "\<exists>b. badc buf len = Some (True, b) \<and> badc b len = Some (True, buf)" if "len mod 4 = 0"
    unfolding badc_def using that assms
    by (intro exchange_inverse[OF badc_order.byte_order_axioms badc_order.byte_order_axioms]) (auto simp: pick_def dest!: list4)
  moreover have "\<exists>b. cdab buf len = Some (True, b) \<and> cdab b len = Some (True, buf)" if "len mod 4 = 0"
    unfolding cdab_def using that assms
    by (intro exchange_inverse[OF cdab_order.byte_order_axioms cdab_order.byte_order_axioms]) (auto simp: pick_def dest!: list4)
  moreover have "\<exists>b. dcba buf len = Some (True, b) \<and> dcba b len = Some (True, buf)" if "len mod 4 = 0"
    unfolding dcba_def using that assms
    by (intro exchange_inverse[OF dcba_order.byte_order_axioms dcba_order.byte_order_axioms]) (auto simp: pick_def dest!: list4)
  moreover have "\<exists>b. cdba buf len = Some (True, b) \<and> dcab b len = Some (True, buf)" if "len mod 4 = 0"
    unfolding cdba_def dcab_def using that assms
    by (intro exchange_inverse[OF cdba_order.byte_order_axioms dcab_order.byte_order_axioms]) (auto simp: pick_def dest!: list4)
  moreover have "\<exists>b. dcab buf len = Some (True, b) \<and> cdba b len = Some (True, buf)" if "len mod 4 = 0"
    unfolding cdba_def dcab_def using that assms
    by (intro exchange_inverse[OF dcab_order.byte_order_axioms cdba_order.byte_order_axioms]) (auto simp: pick_def dest!: list4)
  ultimately show ?thesis by simp
qed


section \<open>The split of a time\<close>

lemma time_parts:
  fixes ts d a h b m r :: int
  assumes "ts = d * 86400 + a" "a = h * 3600 + b" "b = m * 60 + r" "0 \<le> a" "0 \<le> b" "0 \<le> r" "r < 60" "a < 86400" "b < 3600"
  shows "d * 86400 + h * 3600 + m * 60 \<le> ts \<and> ts < d * 86400 + h * 3600 + m * 60 + 60 \<and> h \<in> {0..<24} \<and> m \<in> {0..<60}"
  using assms by simp

text \<open>
  A time up to 2^31 days is split into days, hours below 24 and minutes below 60 that make it up to the minute.
\<close>

theorem timer_split:
  assumes "0 \<le> ts" "ts < 2 ^ 31 * 86400"
  shows "days (timer ts) * 86400 + hours (timer ts) * 3600 + minutes (timer ts) * 60 \<le> ts \<and>
    ts < days (timer ts) * 86400 + hours (timer ts) * 3600 + minutes (timer ts) * 60 + 60 \<and>
    hours (timer ts) \<in> {0..<24} \<and> minutes (timer ts) \<in> {0..<60}"
proof -
  have q: "0 \<le> ts div 86400" "ts div 86400 < 2 ^ 31" using assms by (simp_all add: div_int_pos_iff)
  then have "to_int (ts div 86400) = ts div 86400" by (intro to_int_in) simp_all
  then have t: "timer ts = \<lparr>days = ts div 86400, hours = ts mod 86400 div 3600, minutes = ts mod 86400 mod 3600 div 60\<rparr>"
    using assms(1) by (simp add: timer_def sdiv_pos smod_pos)
  have split: "ts = ts div 86400 * 86400 + ts mod 86400" "ts mod 86400 = ts mod 86400 div 3600 * 3600 + ts mod 86400 mod 3600"
    "ts mod 86400 mod 3600 = ts mod 86400 mod 3600 div 60 * 60 + ts mod 86400 mod 3600 mod 60"
    by (simp_all only: div_mult_mod_eq)
  have lim: "0 \<le> ts mod 86400" "0 \<le> ts mod 86400 mod 3600" "0 \<le> ts mod 86400 mod 3600 mod 60" "ts mod 86400 mod 3600 mod 60 < 60"
    "ts mod 86400 < 86400" "ts mod 86400 mod 3600 < 3600"
    by (simp_all only: pos_mod_sign pos_mod_bound zero_less_numeral)
  show ?thesis unfolding t Time.simps by (rule time_parts[OF split lim])
qed

section \<open>The moving average\<close>

lemma shift_window_ok: "n < length p \<Longrightarrow> shift_window n p = Some (p ! 0 # take n p @ drop (n + 1) p)"
proof (induction n arbitrary: p)
  case 0
  then show ?case by (cases p) auto
next
  case (Suc n)
  let ?p = "p[Suc n := p ! n]"
  have "shift_window n ?p = Some (?p ! 0 # take n ?p @ drop (n + 1) ?p)" by (rule Suc.IH) (use Suc.prems in simp)
  moreover have "drop (n + 1) ?p = p ! n # drop (Suc n + 1) p"
    using Suc.prems by (simp add: drop_update_swap Cons_nth_drop_Suc[symmetric])
  ultimately show ?case using Suc.prems
    by (simp add: ub_simps take_Suc_conv_app_nth nat_add_distrib)
qed

lemma sum_window_ok:
  "\<forall>x \<in> set p. \<bar>x\<bar> \<le> 2 ^ 16 \<Longrightarrow> i + n \<le> length p \<Longrightarrow> \<bar>s\<bar> + int n * 2 ^ 16 < 2 ^ 31 \<Longrightarrow>
   sum_window p i n s = Some (s + sum_list (take n (drop i p)))"
proof (induction p i n s rule: sum_window.induct)
  case (2 p i n s)
  have i: "i < length p" using 2 by simp
  have x: "\<bar>p ! i\<bar> \<le> 2 ^ 16" using 2(2) i by simp
  have r: "fits INT_MAX (s + p ! i) = Some (s + p ! i)" "\<bar>s + p ! i\<bar> + int n * 2 ^ 16 < 2 ^ 31"
  proof -
    have "\<bar>s + p ! i\<bar> + int n * 2 ^ 16 < 2 ^ 31" using abs_triangle_ineq[of s "p ! i"] x 2(4) by (simp add: algebra_simps)
    moreover have "0 \<le> int n * 2 ^ 16" by simp
    ultimately have "\<bar>s + p ! i\<bar> < 2 ^ 31" "\<bar>s + p ! i\<bar> + int n * 2 ^ 16 < 2 ^ 31" by linarith+
    then show "fits INT_MAX (s + p ! i) = Some (s + p ! i)" "\<bar>s + p ! i\<bar> + int n * 2 ^ 16 < 2 ^ 31"
      by (simp_all add: fits_def INT_MAX_def abs_less_iff)
  qed
  have "drop i p = p ! i # drop (Suc i) p" using i by (simp add: Cons_nth_drop_Suc)
  moreover have "sum_window p (i + 1) n (s + p ! i) = Some (s + p ! i + sum_list (take n (drop (i + 1) p)))"
    by (rule 2(1)[of "p ! i" "s + p ! i"]) (use 2(2,3) i r in \<open>simp_all add: ub_simps\<close>)
  ultimately show ?case using i r(1) by (simp add: ub_simps)
qed simp


lemma pid_filter_run:
  assumes "0 < num" "unat num \<le> length p" "\<forall>x \<in> set (pid # p). lo \<le> x \<and> x \<le> hi" "- 32768 \<le> lo" "hi \<le> 32767"
  shows "\<exists>ave p1. pid_filter pid p num = Some (ave, p1) \<and> p1 = pid # take (unat num - 1) p @ drop (unat num) p \<and>
    ave = sum_list (take (unat num) p1) sdiv uint num \<and> lo \<le> ave \<and> ave \<le> hi"
proof -
  let ?n = "unat num"
  let ?p1 = "pid # take (?n - 1) p @ drop ?n p"
  let ?w = "take ?n ?p1"
  have n: "0 < ?n" "?n < 256" "unat (num - 1) = ?n - 1" "uint num = int ?n"
  proof -
    have "num \<noteq> 0" using assms(1) by (simp add: word_gt_0)
    then show "0 < ?n" "unat (num - 1) = ?n - 1" by (simp_all add: unat_gt_0 unat_minus_one)
    show "?n < 256" using unsigned_less[of num, where 'a=nat] by simp
    show "uint num = int ?n" by simp
  qed
  have s: "shift_window (?n - 1) p = Some (p ! 0 # take (?n - 1) p @ drop ?n p)"
    using shift_window_ok[of "?n - 1" p] n assms(2) by simp
  have st: "set ?p1 \<subseteq> set (pid # p)" using set_take_subset[of "?n - 1" p] set_drop_subset[of ?n p] by auto
  have len: "?n \<le> length ?p1" using assms(2) n by simp
  have wl: "length ?w = ?n" using len by simp
  have ws: "\<forall>x \<in> set ?w. lo \<le> x \<and> x \<le> hi" using st assms(3) set_take_subset[of ?n ?p1] by blast
  have "\<bar>x\<bar> \<le> 2 ^ 16" if "x \<in> set ?p1" for x using subsetD[OF st that] assms(3-5) by fastforce
  then have a: "\<forall>x \<in> set ?p1. \<bar>x\<bar> \<le> 2 ^ 16" by blast
  have c: "\<bar>0\<bar> + int ?n * 2 ^ 16 < 2 ^ 31" using uint_lt2p[of num] by simp
  have "0 + ?n \<le> length ?p1" using len by simp
  from sum_window_ok[OF a this c] have sum: "sum_window ?p1 0 ?n 0 = Some (sum_list ?w)" by (simp only: drop_0 add_0)
  have lo: "lo * int (length xs) \<le> sum_list xs" "sum_list xs \<le> hi * int (length xs)" if "\<forall>x \<in> set xs. lo \<le> x \<and> x \<le> hi" for xs
    using that by (induction xs) (auto simp: algebra_simps)
  have b: "lo \<le> sum_list ?w sdiv int ?n" "sum_list ?w sdiv int ?n \<le> hi"
  proof -
    have pos: "0 < int ?n" using n(1) by (simp only: of_nat_0_less_iff)
    note l = lo[OF ws, unfolded wl]
    show "lo \<le> sum_list ?w sdiv int ?n" "sum_list ?w sdiv int ?n \<le> hi" by (rule sdiv_bounds[OF l pos])+
  qed
  have "to_short (sum_list ?w sdiv int ?n) = sum_list ?w sdiv int ?n" using b assms(4,5) by (intro to_short_in) linarith+
  then have r: "to_short (sum_list ?w sdiv uint num) = sum_list ?w sdiv uint num" by (simp only: n(4))
  have "arr_set (p ! 0 # take (?n - 1) p @ drop ?n p) 0 pid = Some ?p1" by (simp add: arr_set_def)
  moreover have "num \<noteq> 0" using assms(1) by (simp add: word_gt_0)
  ultimately have "pid_filter pid p num = Some (sum_list ?w sdiv uint num, ?p1)"
    by (simp only: pid_filter_def n(3) s sum bind.bind_lunit r if_False)
  then show ?thesis using b by (simp only: n(4)) blast
qed

text \<open>
  C35. The moving average puts the new value in front of the window, drops the oldest, and returns the mean of the window,
  rounded towards zero, which lies between its least and its greatest value; nothing overflows while the values are those
  of a \<open>short\<close>.
\<close>

theorem pid_filter_mean:
  assumes "0 < num" "unat num \<le> length p" "\<forall>x \<in> set (pid # p). lo \<le> x \<and> x \<le> hi" "- 32768 \<le> lo" "hi \<le> 32767"
  shows "\<exists>ave p1. pid_filter pid p num = Some (ave, p1) \<and> p1 = pid # take (unat num - 1) p @ drop (unat num) p \<and>
    ave = sum_list (take (unat num) p1) sdiv uint num \<and> lo \<le> ave \<and> ave \<le> hi"
  by (rule pid_filter_run[OF assms])

section \<open>File names\<close>

text \<open>
  The name is what follows the last slash of the path; a path without a slash is its own name.
\<close>

theorem parse_file_path_last:
  "CHR ''/'' \<notin> set (parse_file_path path) \<and> (path = parse_file_path path \<or> (\<exists>dir. path = dir @ ''/'' @ parse_file_path path))"
proof (cases "CHR ''/'' \<in> set path")
  case True
  then obtain a b where p: "path = a @ CHR ''/'' # b" "CHR ''/'' \<notin> set b" by (meson split_list_last)
  have "takeWhile (\<lambda>c. c \<noteq> CHR ''/'') (rev b @ CHR ''/'' # rev a) = rev b" using p(2) by (subst takeWhile_append2) auto
  then have "parse_file_path path = b" using p(1) by (simp add: parse_file_path_def)
  then show ?thesis using p by auto
qed (simp add: parse_file_path_def)

section \<open>Examples\<close>

theorem crc_chk_value_residue_witness:
  "\<exists>c. crc_chk_value [1, 3, 0] 3 = Some c \<and> crc_chk_value [1, 3, 0, ucast c, ucast (drop_bit 8 c)] 5 = Some 0"
  using crc_chk_value_residue[of "[1, 3, 0]"] by auto

theorem crc_detects_byte_error_witness: "crc_chk_value [1, 3, 0] 3 \<noteq> crc_chk_value [1, 4, 0] 3"
  using crc_detects_byte_error[of "[1]" "[0]" 3 4] by simp

theorem co2_check_sum_witness: "\<exists>c. co2_check [0xff, 1, 0x86] 3 = Some c \<and> (390 + uint c) mod 256 = 0"
  using co2_check_sum[of 3 "[0xff, 1, 0x86]"] by auto

theorem byte_orders_witness:
  "dcba [1, 2, 3, 4, 9] 4 = Some (True, [4, 3, 2, 1, 9]) \<and> ba [1, 2, 9] 2 = Some (True, [2, 1, 9])"
  using byte_orders[of "[[1, 2, 3, 4]]" "[[1, 2]]" "[9]"] by simp

theorem byte_orders_inverse_witness:
  "\<exists>b. cdba [1, 2, 3, 4] 4 = Some (True, b) \<and> dcab b 4 = Some (True, [1, 2, 3, 4])"
  using byte_orders_inverse[of 4 "[1, 2, 3, 4]"] by simp

theorem timer_split_witness: "days (timer 90061) * 86400 + hours (timer 90061) * 3600 + minutes (timer 90061) * 60 \<le> 90061"
  using timer_split[of 90061] by simp

theorem pid_filter_mean_witness: "\<exists>p1. pid_filter 40 [10, 20, 30] 3 = Some (23, p1) \<and> p1 = [40, 10, 20]"
  using pid_filter_mean[of 3 "[10, 20, 30]" 40 10 40] by (simp add: sdiv_pos)

end
