(* ===== verification/Define.thy ===== *)
theory Define
  imports Main
begin

text \<open>
  The addresses of the cells of the shared memory that the modelled functions use, from \<open>src/src/define.h\<close>, as
  abbreviations, so that different cells are told apart by their numbers. \<open>ON\<close> and \<open>OFF\<close> are written 1 and 0.
\<close>

abbreviation (input) DETECT_DAMPER_FULLY_OPEN :: nat where "DETECT_DAMPER_FULLY_OPEN \<equiv> 2"
abbreviation (input) DETECT_DAMPER_FULLY_CLOSE :: nat where "DETECT_DAMPER_FULLY_CLOSE \<equiv> 3"
abbreviation (input) DETECT_AUX_HIGH_TEMP :: nat where "DETECT_AUX_HIGH_TEMP \<equiv> 5"
abbreviation (input) DETECT_FAN_STOP :: nat where "DETECT_FAN_STOP \<equiv> 6"
abbreviation (input) DETECT_FAN :: nat where "DETECT_FAN \<equiv> 17"
abbreviation (input) DETECT_FLIP_EGG :: nat where "DETECT_FLIP_EGG \<equiv> 19"
abbreviation (input) CONTROL_RUN_LIGHTS :: nat where "CONTROL_RUN_LIGHTS \<equiv> 24"
abbreviation (input) CONTROL_WARN_LIGHT :: nat where "CONTROL_WARN_LIGHT \<equiv> 25"
abbreviation (input) CONTROL_MAIN_HEAT :: nat where "CONTROL_MAIN_HEAT \<equiv> 26"
abbreviation (input) CONTROL_ELECTRIC_BELL :: nat where "CONTROL_ELECTRIC_BELL \<equiv> 32"
abbreviation (input) CONTROL_AUX_HEAT :: nat where "CONTROL_AUX_HEAT \<equiv> 33"
abbreviation (input) CONTROL_FAN :: nat where "CONTROL_FAN \<equiv> 35"
abbreviation (input) CONTROL_COOL2_1 :: nat where "CONTROL_COOL2_1 \<equiv> 36"
abbreviation (input) CONTROL_COOL2_2 :: nat where "CONTROL_COOL2_2 \<equiv> 37"
abbreviation (input) CONTROL_COOL2_3 :: nat where "CONTROL_COOL2_3 \<equiv> 38"
abbreviation (input) CONTROL_COOL2_4 :: nat where "CONTROL_COOL2_4 \<equiv> 39"
abbreviation (input) CONTROL_COLD_HOT_WATER :: nat where "CONTROL_COLD_HOT_WATER \<equiv> 40"
abbreviation (input) CONTROL_BLOWER :: nat where "CONTROL_BLOWER \<equiv> 41"
abbreviation (input) CONTROL_DAMPER_OPEN :: nat where "CONTROL_DAMPER_OPEN \<equiv> 42"
abbreviation (input) CONTROL_DAMPER_CLOSE :: nat where "CONTROL_DAMPER_CLOSE \<equiv> 43"
abbreviation (input) CONTROL_COOL :: nat where "CONTROL_COOL \<equiv> 44"
abbreviation (input) CONTROL_SPRAY :: nat where "CONTROL_SPRAY \<equiv> 45"
abbreviation (input) FILP_EGG_ON :: nat where "FILP_EGG_ON \<equiv> 46"
abbreviation (input) FILP_EGG_OFF :: nat where "FILP_EGG_OFF \<equiv> 47"
abbreviation (input) NANOPI_GPIO_PG_11 :: nat where "NANOPI_GPIO_PG_11 \<equiv> 54"
abbreviation (input) STATUS_DAMPER_CHECK :: nat where "STATUS_DAMPER_CHECK \<equiv> 65"
abbreviation (input) ALARM_PT100_TOTAL :: nat where "ALARM_PT100_TOTAL \<equiv> 75"
abbreviation (input) EGG_FLIPP_INGINTERVAL :: nat where "EGG_FLIPP_INGINTERVAL \<equiv> 78"
abbreviation (input) DAMPER_MAX_LEN :: nat where "DAMPER_MAX_LEN \<equiv> 80"
abbreviation (input) DAMPER_MIN_LEN :: nat where "DAMPER_MIN_LEN \<equiv> 81"
abbreviation (input) SENSOR_MUTATION_STATUS :: nat where "SENSOR_MUTATION_STATUS \<equiv> 83"
abbreviation (input) REFLUX_TEMPERATURE :: nat where "REFLUX_TEMPERATURE \<equiv> 84"
abbreviation (input) DAMPER_TIME_OPEN :: nat where "DAMPER_TIME_OPEN \<equiv> 87"
abbreviation (input) DAMPER_TIME_CLOSE :: nat where "DAMPER_TIME_CLOSE \<equiv> 88"
abbreviation (input) P_CO2_STATUS :: nat where "P_CO2_STATUS \<equiv> 89"
abbreviation (input) P_EGG_TIME :: nat where "P_EGG_TIME \<equiv> 92"
abbreviation (input) P_AO_TP_MAIN :: nat where "P_AO_TP_MAIN \<equiv> 100"
abbreviation (input) P_AO_HM :: nat where "P_AO_HM \<equiv> 101"
abbreviation (input) P_AO_CO :: nat where "P_AO_CO \<equiv> 102"
abbreviation (input) P_AO_AD :: nat where "P_AO_AD \<equiv> 103"
abbreviation (input) P_AO_TP_RF1 :: nat where "P_AO_TP_RF1 \<equiv> 104"
abbreviation (input) P_AO_TP_RF2 :: nat where "P_AO_TP_RF2 \<equiv> 105"
abbreviation (input) P_AO_TP_RF3 :: nat where "P_AO_TP_RF3 \<equiv> 106"
abbreviation (input) P_AO_TP_RF4 :: nat where "P_AO_TP_RF4 \<equiv> 107"
abbreviation (input) P_RTEMP_AH :: nat where "P_RTEMP_AH \<equiv> 116"
abbreviation (input) P_RTEMP_AL :: nat where "P_RTEMP_AL \<equiv> 117"
abbreviation (input) P_RTEMP_ALO :: nat where "P_RTEMP_ALO \<equiv> 118"
abbreviation (input) P_RTEMP_ZQC :: nat where "P_RTEMP_ZQC \<equiv> 129"
abbreviation (input) P_RTEMP_ZQS :: nat where "P_RTEMP_ZQS \<equiv> 130"
abbreviation (input) P_RTEMP_GZS :: nat where "P_RTEMP_GZS \<equiv> 131"
abbreviation (input) P_RTEMP_HYS :: nat where "P_RTEMP_HYS \<equiv> 132"
abbreviation (input) P_TEMP_AH :: nat where "P_TEMP_AH \<equiv> 133"
abbreviation (input) P_TEMP_AL :: nat where "P_TEMP_AL \<equiv> 134"
abbreviation (input) P_TEMP_ALO :: nat where "P_TEMP_ALO \<equiv> 135"
abbreviation (input) P_TEMP_TO :: nat where "P_TEMP_TO \<equiv> 138"
abbreviation (input) P_TEMP_P :: nat where "P_TEMP_P \<equiv> 139"
abbreviation (input) P_TEMP_I :: nat where "P_TEMP_I \<equiv> 140"
abbreviation (input) P_TEMP_D :: nat where "P_TEMP_D \<equiv> 141"
abbreviation (input) P_TEMP_OHI :: nat where "P_TEMP_OHI \<equiv> 142"
abbreviation (input) P_TEMP_OLO :: nat where "P_TEMP_OLO \<equiv> 143"
abbreviation (input) P_HUM_AH :: nat where "P_HUM_AH \<equiv> 145"
abbreviation (input) P_HUM_AL :: nat where "P_HUM_AL \<equiv> 146"
abbreviation (input) P_HUM_ALO :: nat where "P_HUM_ALO \<equiv> 147"
abbreviation (input) P_HUM_TO :: nat where "P_HUM_TO \<equiv> 150"
abbreviation (input) P_HUM_P :: nat where "P_HUM_P \<equiv> 151"
abbreviation (input) P_HUM_I :: nat where "P_HUM_I \<equiv> 152"
abbreviation (input) P_HUM_D :: nat where "P_HUM_D \<equiv> 153"
abbreviation (input) P_HUM_OHI :: nat where "P_HUM_OHI \<equiv> 154"
abbreviation (input) P_HUM_OLO :: nat where "P_HUM_OLO \<equiv> 155"
abbreviation (input) P_HUM_SPR :: nat where "P_HUM_SPR \<equiv> 157"
abbreviation (input) P_HUM_SPO :: nat where "P_HUM_SPO \<equiv> 158"
abbreviation (input) P_HUM_DBO :: nat where "P_HUM_DBO \<equiv> 159"
abbreviation (input) P_HYS :: nat where "P_HYS \<equiv> 160"
abbreviation (input) P_AUH :: nat where "P_AUH \<equiv> 161"
abbreviation (input) P_OPE :: nat where "P_OPE \<equiv> 162"
abbreviation (input) P_COL :: nat where "P_COL \<equiv> 164"
abbreviation (input) P_BLO :: nat where "P_BLO \<equiv> 165"
abbreviation (input) P_HHI :: nat where "P_HHI \<equiv> 166"
abbreviation (input) P_HLO :: nat where "P_HLO \<equiv> 167"
abbreviation (input) P_TOP :: nat where "P_TOP \<equiv> 169"
abbreviation (input) P_TCL :: nat where "P_TCL \<equiv> 170"
abbreviation (input) P_TCO :: nat where "P_TCO \<equiv> 171"
abbreviation (input) P_TBL :: nat where "P_TBL \<equiv> 172"
abbreviation (input) P_HH0 :: nat where "P_HH0 \<equiv> 173"
abbreviation (input) P_HH1 :: nat where "P_HH1 \<equiv> 174"
abbreviation (input) P_HH3 :: nat where "P_HH3 \<equiv> 176"
abbreviation (input) P_HH5 :: nat where "P_HH5 \<equiv> 178"
abbreviation (input) P_HH7 :: nat where "P_HH7 \<equiv> 180"
abbreviation (input) P_HH8 :: nat where "P_HH8 \<equiv> 181"
abbreviation (input) P_HH10 :: nat where "P_HH10 \<equiv> 183"
abbreviation (input) P_HH11 :: nat where "P_HH11 \<equiv> 184"
abbreviation (input) P_CO2_HYS :: nat where "P_CO2_HYS \<equiv> 185"
abbreviation (input) P_CO2_AH :: nat where "P_CO2_AH \<equiv> 186"
abbreviation (input) P_CO2_ZQC :: nat where "P_CO2_ZQC \<equiv> 187"
abbreviation (input) P_CO2_GZS :: nat where "P_CO2_GZS \<equiv> 188"
abbreviation (input) P_EGG_FLIPPING_TIME :: nat where "P_EGG_FLIPPING_TIME \<equiv> 190"
abbreviation (input) P_EGG_FLIPPING_DIRECTION :: nat where "P_EGG_FLIPPING_DIRECTION \<equiv> 191"
abbreviation (input) P_EGG_FLIPPING_EXECUTION_STATUS :: nat where "P_EGG_FLIPPING_EXECUTION_STATUS \<equiv> 192"
abbreviation (input) EGG_FLIPPING_TRIGGER_STATUS :: nat where "EGG_FLIPPING_TRIGGER_STATUS \<equiv> 193"
abbreviation (input) EGG_FLIPPING_ACCUMULATION_STATE :: nat where "EGG_FLIPPING_ACCUMULATION_STATE \<equiv> 194"
abbreviation (input) R_AI_TP_MAIN :: nat where "R_AI_TP_MAIN \<equiv> 200"
abbreviation (input) R_AI_HM :: nat where "R_AI_HM \<equiv> 201"
abbreviation (input) R_AI_CO :: nat where "R_AI_CO \<equiv> 202"
abbreviation (input) R_AI_AD :: nat where "R_AI_AD \<equiv> 203"
abbreviation (input) R_AI_TP_RF1 :: nat where "R_AI_TP_RF1 \<equiv> 204"
abbreviation (input) R_AI_TP_RF2 :: nat where "R_AI_TP_RF2 \<equiv> 205"
abbreviation (input) R_AI_TP_RF3 :: nat where "R_AI_TP_RF3 \<equiv> 206"
abbreviation (input) R_AI_TP_RF4 :: nat where "R_AI_TP_RF4 \<equiv> 207"
abbreviation (input) R_AI_TP_EGG :: nat where "R_AI_TP_EGG \<equiv> 208"
abbreviation (input) R_BTN_TP_MAIN :: nat where "R_BTN_TP_MAIN \<equiv> 220"
abbreviation (input) R_BTN_DR_ON :: nat where "R_BTN_DR_ON \<equiv> 222"
abbreviation (input) R_BTN_DR_OFF :: nat where "R_BTN_DR_OFF \<equiv> 223"
abbreviation (input) S_SYNC_MOTOR_UPPER_LIMIT_FREQ :: nat where "S_SYNC_MOTOR_UPPER_LIMIT_FREQ \<equiv> 238"
abbreviation (input) S_SYNC_MOTOR_LOWER_LIMIT_FREQ :: nat where "S_SYNC_MOTOR_LOWER_LIMIT_FREQ \<equiv> 239"
abbreviation (input) S_SYNC_MOTOR_CONTROLRUN_FREQ :: nat where "S_SYNC_MOTOR_CONTROLRUN_FREQ \<equiv> 241"
abbreviation (input) R_SYNC_MOTOR_CONTROL_PARA :: nat where "R_SYNC_MOTOR_CONTROL_PARA \<equiv> 242"
abbreviation (input) SYSTEM_INIT :: nat where "SYSTEM_INIT \<equiv> 250"
abbreviation (input) R_STOP_RECV :: nat where "R_STOP_RECV \<equiv> 253"
abbreviation (input) R_RUN_DAY :: nat where "R_RUN_DAY \<equiv> 274"
abbreviation (input) R_RUN_SECOND_HIGH :: nat where "R_RUN_SECOND_HIGH \<equiv> 276"
abbreviation (input) R_RUN_SECOND_STATUS :: nat where "R_RUN_SECOND_STATUS \<equiv> 278"
abbreviation (input) R_RUN_SYSTEM_SECOND_STATUS :: nat where "R_RUN_SYSTEM_SECOND_STATUS \<equiv> 279"
abbreviation (input) R_RUN_SYSTEM_SECOND_HIGH :: nat where "R_RUN_SYSTEM_SECOND_HIGH \<equiv> 280"
abbreviation (input) S_SYNC_MOTOR_BASICS :: nat where "S_SYNC_MOTOR_BASICS \<equiv> 292"
abbreviation (input) S_SYNC_MOTOR_STAGE :: nat where "S_SYNC_MOTOR_STAGE \<equiv> 293"
abbreviation (input) ALARM_SUPPRESSION_TIME :: nat where "ALARM_SUPPRESSION_TIME \<equiv> 415"
abbreviation (input) HIGH_HUMIDITY_ALARM_DELAY_STATUS :: nat where "HIGH_HUMIDITY_ALARM_DELAY_STATUS \<equiv> 416"
abbreviation (input) HIGH_HUMIDITY_ALARM_DELAY_TIME :: nat where "HIGH_HUMIDITY_ALARM_DELAY_TIME \<equiv> 417"
abbreviation (input) CALIBRATION_RUN_TIME :: nat where "CALIBRATION_RUN_TIME \<equiv> 421"
abbreviation (input) EGG_FLIPPING_SIGNAL_RINGING_STATUS :: nat where "EGG_FLIPPING_SIGNAL_RINGING_STATUS \<equiv> 430"
abbreviation (input) NO_EGG_FLIPPING_SIGNAL_RINGING_STATUS :: nat where "NO_EGG_FLIPPING_SIGNAL_RINGING_STATUS \<equiv> 431"
abbreviation (input) EGG_FLIPPING_SIGNAL_ALARM_TIME :: nat where "EGG_FLIPPING_SIGNAL_ALARM_TIME \<equiv> 432"
abbreviation (input) NO_EGG_FLIPPING_SIGNAL_ALARM_TIME :: nat where "NO_EGG_FLIPPING_SIGNAL_ALARM_TIME \<equiv> 433"
abbreviation (input) CARBON_DIOXIDE_WARNING_LIGHT :: nat where "CARBON_DIOXIDE_WARNING_LIGHT \<equiv> 440"
abbreviation (input) CARBON_DIOXIDE_OPERATING_TIME :: nat where "CARBON_DIOXIDE_OPERATING_TIME \<equiv> 441"
abbreviation (input) CARBON_DIOXIDE_STOP_TIME :: nat where "CARBON_DIOXIDE_STOP_TIME \<equiv> 442"
abbreviation (input) CARBON_DIOXIDE_INIT :: nat where "CARBON_DIOXIDE_INIT \<equiv> 443"
abbreviation (input) FAN_ALARM_TIME :: nat where "FAN_ALARM_TIME \<equiv> 450"
abbreviation (input) AIR_DOOR_OPEN_RUNNING_TIME :: nat where "AIR_DOOR_OPEN_RUNNING_TIME \<equiv> 460"
abbreviation (input) AIR_DOOR_CLOSING_RUNNING_TIME :: nat where "AIR_DOOR_CLOSING_RUNNING_TIME \<equiv> 461"
abbreviation (input) AIR_DOOR_OPEN_RUNNING_STATUS :: nat where "AIR_DOOR_OPEN_RUNNING_STATUS \<equiv> 462"
abbreviation (input) AIR_DOOR_CLOSING_RUNNING_STATUS :: nat where "AIR_DOOR_CLOSING_RUNNING_STATUS \<equiv> 463"
abbreviation (input) SENSOR_1_ABNORMAL_ALARM :: nat where "SENSOR_1_ABNORMAL_ALARM \<equiv> 510"
abbreviation (input) SENSOR_2_ABNORMAL_ALARM :: nat where "SENSOR_2_ABNORMAL_ALARM \<equiv> 511"
abbreviation (input) SENSOR_3_ABNORMAL_ALARM :: nat where "SENSOR_3_ABNORMAL_ALARM \<equiv> 512"
abbreviation (input) SENSOR_4_ABNORMAL_ALARM :: nat where "SENSOR_4_ABNORMAL_ALARM \<equiv> 513"
abbreviation (input) SENSOR_5_ABNORMAL_ALARM :: nat where "SENSOR_5_ABNORMAL_ALARM \<equiv> 514"
abbreviation (input) SENSOR_6_ABNORMAL_ALARM :: nat where "SENSOR_6_ABNORMAL_ALARM \<equiv> 515"
abbreviation (input) SENSOR_CO2_ALARM :: nat where "SENSOR_CO2_ALARM \<equiv> 516"
abbreviation (input) TEST_MAIN_HEAT_MODE :: nat where "TEST_MAIN_HEAT_MODE \<equiv> 520"
abbreviation (input) TEST_AUX_HEAT_MODE :: nat where "TEST_AUX_HEAT_MODE \<equiv> 521"
abbreviation (input) TEST_DAMPER_OPEN_MODE :: nat where "TEST_DAMPER_OPEN_MODE \<equiv> 522"
abbreviation (input) TEST_DAMPER_CLOSE_MODE :: nat where "TEST_DAMPER_CLOSE_MODE \<equiv> 523"
abbreviation (input) TEST_SPRAY_MODE :: nat where "TEST_SPRAY_MODE \<equiv> 524"
abbreviation (input) TEST_FILP_EGG_MODE :: nat where "TEST_FILP_EGG_MODE \<equiv> 525"
abbreviation (input) TEST_COOL_MODE :: nat where "TEST_COOL_MODE \<equiv> 526"
abbreviation (input) TEST_COOL2_1_MODE :: nat where "TEST_COOL2_1_MODE \<equiv> 527"
abbreviation (input) TEST_COOL2_2_MODE :: nat where "TEST_COOL2_2_MODE \<equiv> 528"
abbreviation (input) TEST_COOL2_3_MODE :: nat where "TEST_COOL2_3_MODE \<equiv> 529"
abbreviation (input) TEST_COOL2_4_MODE :: nat where "TEST_COOL2_4_MODE \<equiv> 529"
abbreviation (input) TEST_BLOWER_MODE :: nat where "TEST_BLOWER_MODE \<equiv> 530"
abbreviation (input) TEST_CONTROL_MODE :: nat where "TEST_CONTROL_MODE \<equiv> 531"
abbreviation (input) TEST_BTN_TIME :: nat where "TEST_BTN_TIME \<equiv> 532"
abbreviation (input) REFLUX_TEMP_1_DELAY_TIME :: nat where "REFLUX_TEMP_1_DELAY_TIME \<equiv> 540"
abbreviation (input) REFLUX_TEMP_2_DELAY_TIME :: nat where "REFLUX_TEMP_2_DELAY_TIME \<equiv> 541"
abbreviation (input) REFLUX_TEMP_3_DELAY_TIME :: nat where "REFLUX_TEMP_3_DELAY_TIME \<equiv> 542"
abbreviation (input) REFLUX_TEMP_4_DELAY_TIME :: nat where "REFLUX_TEMP_4_DELAY_TIME \<equiv> 543"
abbreviation (input) REFLUX_TEMP_1_WORK_TIME :: nat where "REFLUX_TEMP_1_WORK_TIME \<equiv> 544"
abbreviation (input) REFLUX_TEMP_2_WORK_TIME :: nat where "REFLUX_TEMP_2_WORK_TIME \<equiv> 545"
abbreviation (input) REFLUX_TEMP_3_WORK_TIME :: nat where "REFLUX_TEMP_3_WORK_TIME \<equiv> 546"
abbreviation (input) REFLUX_TEMP_4_WORK_TIME :: nat where "REFLUX_TEMP_4_WORK_TIME \<equiv> 547"
abbreviation (input) RETURN_TEMP_1_STOP_TIME :: nat where "RETURN_TEMP_1_STOP_TIME \<equiv> 548"
abbreviation (input) RETURN_TEMP_2_STOP_TIME :: nat where "RETURN_TEMP_2_STOP_TIME \<equiv> 549"
abbreviation (input) RETURN_TEMP_3_STOP_TIME :: nat where "RETURN_TEMP_3_STOP_TIME \<equiv> 550"
abbreviation (input) RETURN_TEMP_4_STOP_TIME :: nat where "RETURN_TEMP_4_STOP_TIME \<equiv> 551"
abbreviation (input) RETURN_TEMP_1_WORK_CYCLE :: nat where "RETURN_TEMP_1_WORK_CYCLE \<equiv> 552"
abbreviation (input) RETURN_TEMP_2_WORK_CYCLE :: nat where "RETURN_TEMP_2_WORK_CYCLE \<equiv> 553"
abbreviation (input) RETURN_TEMP_3_WORK_CYCLE :: nat where "RETURN_TEMP_3_WORK_CYCLE \<equiv> 554"
abbreviation (input) RETURN_TEMP_4_WORK_CYCLE :: nat where "RETURN_TEMP_4_WORK_CYCLE \<equiv> 555"
abbreviation (input) RETURN_TEMP_1_HOT_WATER_OPERAT_INIT :: nat where "RETURN_TEMP_1_HOT_WATER_OPERAT_INIT \<equiv> 556"
abbreviation (input) RETURN_TEMP_2_HOT_WATER_OPERAT_INIT :: nat where "RETURN_TEMP_2_HOT_WATER_OPERAT_INIT \<equiv> 557"
abbreviation (input) RETURN_TEMP_3_HOT_WATER_OPERAT_INIT :: nat where "RETURN_TEMP_3_HOT_WATER_OPERAT_INIT \<equiv> 558"
abbreviation (input) RETURN_TEMP_4_HOT_WATER_OPERAT_INIT :: nat where "RETURN_TEMP_4_HOT_WATER_OPERAT_INIT \<equiv> 559"
abbreviation (input) REFLOW_TEMP_1_COLD_WATER_OPERAT_INIT :: nat where "REFLOW_TEMP_1_COLD_WATER_OPERAT_INIT \<equiv> 560"
abbreviation (input) REFLOW_TEMP_2_COLD_WATER_OPERAT_INIT :: nat where "REFLOW_TEMP_2_COLD_WATER_OPERAT_INIT \<equiv> 561"
abbreviation (input) REFLOW_TEMP_3_COLD_WATER_OPERAT_INIT :: nat where "REFLOW_TEMP_3_COLD_WATER_OPERAT_INIT \<equiv> 562"
abbreviation (input) REFLOW_TEMP_4_COLD_WATER_OPERAT_INIT :: nat where "REFLOW_TEMP_4_COLD_WATER_OPERAT_INIT \<equiv> 563"
abbreviation (input) HIGH_TEMP_ALARM_VALUE :: nat where "HIGH_TEMP_ALARM_VALUE \<equiv> 570"
abbreviation (input) LOW_TEMP_ALARM_VALUE :: nat where "LOW_TEMP_ALARM_VALUE \<equiv> 571"
abbreviation (input) HIGH_HUMI_ALARM_VALUE :: nat where "HIGH_HUMI_ALARM_VALUE \<equiv> 572"
abbreviation (input) LOW_HUMI_ALARM_VALUE :: nat where "LOW_HUMI_ALARM_VALUE \<equiv> 573"
abbreviation (input) HIGH_TEMP_ALARM_VALUE_FOR_REFLUX_TEMP_1 :: nat where "HIGH_TEMP_ALARM_VALUE_FOR_REFLUX_TEMP_1 \<equiv> 574"
abbreviation (input) LOW_TEMP_ALARM_VALUE_FOR_REFLUX_TEMP_1 :: nat where "LOW_TEMP_ALARM_VALUE_FOR_REFLUX_TEMP_1 \<equiv> 575"
abbreviation (input) HIGH_TEMP_ALARM_VALUE_FOR_REFLUX_TEMP_2 :: nat where "HIGH_TEMP_ALARM_VALUE_FOR_REFLUX_TEMP_2 \<equiv> 576"
abbreviation (input) LOW_TEMP_ALARM_VALUE_FOR_REFLUX_TEMP_2 :: nat where "LOW_TEMP_ALARM_VALUE_FOR_REFLUX_TEMP_2 \<equiv> 577"
abbreviation (input) HIGH_TEMP_ALARM_VALUE_FOR_REFLUX_TEMP_3 :: nat where "HIGH_TEMP_ALARM_VALUE_FOR_REFLUX_TEMP_3 \<equiv> 578"
abbreviation (input) LOW_TEMP_ALARM_VALUE_FOR_REFLUX_TEMP_3 :: nat where "LOW_TEMP_ALARM_VALUE_FOR_REFLUX_TEMP_3 \<equiv> 579"
abbreviation (input) HIGH_TEMP_ALARM_VALUE_FOR_REFLUX_TEMP_4 :: nat where "HIGH_TEMP_ALARM_VALUE_FOR_REFLUX_TEMP_4 \<equiv> 580"
abbreviation (input) LOW_TEMP_ALARM_VALUE_FOR_REFLUX_TEMP_4 :: nat where "LOW_TEMP_ALARM_VALUE_FOR_REFLUX_TEMP_4 \<equiv> 581"
abbreviation (input) HIGH_TEMP_ALARM_STATUS :: nat where "HIGH_TEMP_ALARM_STATUS \<equiv> 582"
abbreviation (input) LOW_TEMP_ALARM_STATUS :: nat where "LOW_TEMP_ALARM_STATUS \<equiv> 583"
abbreviation (input) HIGH_HUMI_ALARM_STATUS :: nat where "HIGH_HUMI_ALARM_STATUS \<equiv> 584"
abbreviation (input) LOW_HUMI_ALARM_STATUS :: nat where "LOW_HUMI_ALARM_STATUS \<equiv> 585"
abbreviation (input) RETURN_TEMPE_HIGH_TEMP_ALARM_STATUS_1 :: nat where "RETURN_TEMPE_HIGH_TEMP_ALARM_STATUS_1 \<equiv> 586"
abbreviation (input) RETURN_TEMP_LOW_TEMP_ALARM_STATUS_1 :: nat where "RETURN_TEMP_LOW_TEMP_ALARM_STATUS_1 \<equiv> 587"
abbreviation (input) RETURN_TEMPE_HIGH_TEMP_ALARM_STATUS_2 :: nat where "RETURN_TEMPE_HIGH_TEMP_ALARM_STATUS_2 \<equiv> 588"
abbreviation (input) RETURN_TEMP_LOW_TEMP_ALARM_STATUS_2 :: nat where "RETURN_TEMP_LOW_TEMP_ALARM_STATUS_2 \<equiv> 589"
abbreviation (input) RETURN_TEMPE_HIGH_TEMP_ALARM_STATUS_3 :: nat where "RETURN_TEMPE_HIGH_TEMP_ALARM_STATUS_3 \<equiv> 590"
abbreviation (input) RETURN_TEMP_LOW_TEMP_ALARM_STATUS_3 :: nat where "RETURN_TEMP_LOW_TEMP_ALARM_STATUS_3 \<equiv> 591"
abbreviation (input) RETURN_TEMPE_HIGH_TEMP_ALARM_STATUS_4 :: nat where "RETURN_TEMPE_HIGH_TEMP_ALARM_STATUS_4 \<equiv> 592"
abbreviation (input) RETURN_TEMP_LOW_TEMP_ALARM_STATUS_4 :: nat where "RETURN_TEMP_LOW_TEMP_ALARM_STATUS_4 \<equiv> 593"
abbreviation (input) RETURN_TEMP_HIGH_TEMP_ALARM_TIME :: nat where "RETURN_TEMP_HIGH_TEMP_ALARM_TIME \<equiv> 594"
abbreviation (input) RETURN_TEMP_LOW_TEMP_ALARM_TIME :: nat where "RETURN_TEMP_LOW_TEMP_ALARM_TIME \<equiv> 595"
abbreviation (input) RETURN_TEMP_HIGH_TEMP_ALARM_STATUS :: nat where "RETURN_TEMP_HIGH_TEMP_ALARM_STATUS \<equiv> 596"
abbreviation (input) RETURN_TEMP_LOW_TEMP_ALARM_STATUS :: nat where "RETURN_TEMP_LOW_TEMP_ALARM_STATUS \<equiv> 597"
abbreviation (input) RETURN_TEMP_TOTAL_TEMP_ALARM_STATUS :: nat where "RETURN_TEMP_TOTAL_TEMP_ALARM_STATUS \<equiv> 598"
abbreviation (input) OUT_ST_FAN_STATUS :: nat where "OUT_ST_FAN_STATUS \<equiv> 600"
abbreviation (input) OUT_ST_TP_MAIN_STATUS :: nat where "OUT_ST_TP_MAIN_STATUS \<equiv> 601"
abbreviation (input) OUT_ST_TP_AID_STATUS :: nat where "OUT_ST_TP_AID_STATUS \<equiv> 602"
abbreviation (input) OUT_ST_HM_STATUS :: nat where "OUT_ST_HM_STATUS \<equiv> 603"
abbreviation (input) OUT_ST_EGG_STATUS :: nat where "OUT_ST_EGG_STATUS \<equiv> 604"
abbreviation (input) OUT_ST_AD_OPEN_STATUS :: nat where "OUT_ST_AD_OPEN_STATUS \<equiv> 605"
abbreviation (input) OUT_ST_AD_CLOSE_STATUS :: nat where "OUT_ST_AD_CLOSE_STATUS \<equiv> 606"
abbreviation (input) OUT_ST_WT_CL_STATUS :: nat where "OUT_ST_WT_CL_STATUS \<equiv> 607"
abbreviation (input) OUT_ST_TP_RF1_STATUS :: nat where "OUT_ST_TP_RF1_STATUS \<equiv> 608"
abbreviation (input) OUT_ST_TP_RF2_STATUS :: nat where "OUT_ST_TP_RF2_STATUS \<equiv> 609"
abbreviation (input) OUT_ST_TP_RF3_STATUS :: nat where "OUT_ST_TP_RF3_STATUS \<equiv> 610"
abbreviation (input) OUT_ST_TP_RF4_STATUS :: nat where "OUT_ST_TP_RF4_STATUS \<equiv> 611"
abbreviation (input) OUT_ST_TP_HIGH_ALARM :: nat where "OUT_ST_TP_HIGH_ALARM \<equiv> 620"
abbreviation (input) OUT_ST_TP_LOW_ALARM :: nat where "OUT_ST_TP_LOW_ALARM \<equiv> 621"
abbreviation (input) OUT_ST_HM_HIGH_ALARM :: nat where "OUT_ST_HM_HIGH_ALARM \<equiv> 622"
abbreviation (input) OUT_ST_HM_LOW_ALARM :: nat where "OUT_ST_HM_LOW_ALARM \<equiv> 623"
abbreviation (input) OUT_ST_FAN_ALARM :: nat where "OUT_ST_FAN_ALARM \<equiv> 624"
abbreviation (input) OUT_ST_REF_TEMP_ALARM :: nat where "OUT_ST_REF_TEMP_ALARM \<equiv> 625"
abbreviation (input) OUT_ST_SENSOR_ABNORMAL_ALARM :: nat where "OUT_ST_SENSOR_ABNORMAL_ALARM \<equiv> 626"
abbreviation (input) OUT_ST_EGG_ALARM :: nat where "OUT_ST_EGG_ALARM \<equiv> 627"
abbreviation (input) OUT_ST_CO2_ALARM :: nat where "OUT_ST_CO2_ALARM \<equiv> 628"
abbreviation (input) FILTER_PID_TEMP_ARR :: nat where "FILTER_PID_TEMP_ARR \<equiv> 700"
abbreviation (input) FILTER_PID_HUMI_ARR :: nat where "FILTER_PID_HUMI_ARR \<equiv> 800"
abbreviation (input) PID_TEMP_MODE_STATUS :: nat where "PID_TEMP_MODE_STATUS \<equiv> 900"
abbreviation (input) PID_TEMP_SUM :: nat where "PID_TEMP_SUM \<equiv> 902"
abbreviation (input) PID_TEMP_VALUE :: nat where "PID_TEMP_VALUE \<equiv> 904"
abbreviation (input) PID_TEMP_OLD_FILTER_VALUE :: nat where "PID_TEMP_OLD_FILTER_VALUE \<equiv> 906"
abbreviation (input) PID_TEMP_NEW_FILTER_VALUE :: nat where "PID_TEMP_NEW_FILTER_VALUE \<equiv> 908"
abbreviation (input) PID_TEMP_MAIN_HEATER :: nat where "PID_TEMP_MAIN_HEATER \<equiv> 910"
abbreviation (input) PID_PERIOD_COUNT_MAIN_HEATER :: nat where "PID_PERIOD_COUNT_MAIN_HEATER \<equiv> 912"
abbreviation (input) PID_ON_COUNT_MAIN_HEATER :: nat where "PID_ON_COUNT_MAIN_HEATER \<equiv> 914"
abbreviation (input) PID_ON_COUNT_COOL :: nat where "PID_ON_COUNT_COOL \<equiv> 916"
abbreviation (input) PID_ON_COUNT_BLOWER :: nat where "PID_ON_COUNT_BLOWER \<equiv> 918"
abbreviation (input) PID_ON_COUNT_DB_OPEN :: nat where "PID_ON_COUNT_DB_OPEN \<equiv> 920"
abbreviation (input) PID_ON_COUNT_DB_CLOSE :: nat where "PID_ON_COUNT_DB_CLOSE \<equiv> 922"
abbreviation (input) PID_TEMP_COOL :: nat where "PID_TEMP_COOL \<equiv> 924"
abbreviation (input) PID_TEMP_BLOWER :: nat where "PID_TEMP_BLOWER \<equiv> 926"
abbreviation (input) PID_TEMP_DB_OPEN :: nat where "PID_TEMP_DB_OPEN \<equiv> 928"
abbreviation (input) PID_TEMP_DB_CLOSE :: nat where "PID_TEMP_DB_CLOSE \<equiv> 930"
abbreviation (input) PID_HUMI_SUM :: nat where "PID_HUMI_SUM \<equiv> 934"
abbreviation (input) PID_HUMI_VALUE :: nat where "PID_HUMI_VALUE \<equiv> 936"
abbreviation (input) PID_HUMI_OLD_HUMIDIFICATION :: nat where "PID_HUMI_OLD_HUMIDIFICATION \<equiv> 938"
abbreviation (input) PID_HUMI_NEW_HUMIDIFICATION :: nat where "PID_HUMI_NEW_HUMIDIFICATION \<equiv> 940"
abbreviation (input) PID_PERIOD_COUNT_HUMI :: nat where "PID_PERIOD_COUNT_HUMI \<equiv> 942"
abbreviation (input) PID_ON_COUNT_HUMI :: nat where "PID_ON_COUNT_HUMI \<equiv> 944"
abbreviation (input) PID_AD_VALUE :: nat where "PID_AD_VALUE \<equiv> 945"
abbreviation (input) PID_AD_OPEN_STATUS :: nat where "PID_AD_OPEN_STATUS \<equiv> 946"
abbreviation (input) CONTROL_DB_OPEN_CALIBRATION_STATUS :: nat where "CONTROL_DB_OPEN_CALIBRATION_STATUS \<equiv> 948"
abbreviation (input) CONTROL_DB_CLISE_CALIBRATION_STATUS :: nat where "CONTROL_DB_CLISE_CALIBRATION_STATUS \<equiv> 949"
abbreviation (input) CONTROL_DB_CLOSE_TO_OPEN_TIME_STATUS :: nat where "CONTROL_DB_CLOSE_TO_OPEN_TIME_STATUS \<equiv> 952"
abbreviation (input) CONTROL_DB_OPEN_TO_CLOSE_TIME_STATUS :: nat where "CONTROL_DB_OPEN_TO_CLOSE_TIME_STATUS \<equiv> 953"
abbreviation (input) S_PRE_TP_MAIN :: nat where "S_PRE_TP_MAIN \<equiv> 1"
abbreviation (input) S_PRE_HM :: nat where "S_PRE_HM \<equiv> 2"
abbreviation (input) S_PRE_CO :: nat where "S_PRE_CO \<equiv> 3"
abbreviation (input) S_PRE_AD :: nat where "S_PRE_AD \<equiv> 4"
abbreviation (input) S_PRE_TP_RF1 :: nat where "S_PRE_TP_RF1 \<equiv> 5"
abbreviation (input) S_PRE_TP_RF2 :: nat where "S_PRE_TP_RF2 \<equiv> 6"
abbreviation (input) S_PRE_TP_RF3 :: nat where "S_PRE_TP_RF3 \<equiv> 7"
abbreviation (input) S_PRE_TP_RF4 :: nat where "S_PRE_TP_RF4 \<equiv> 8"
abbreviation (input) P_PRE_TP_MAIN :: nat where "P_PRE_TP_MAIN \<equiv> 1001"
abbreviation (input) P_PRE_HM :: nat where "P_PRE_HM \<equiv> 1101"
abbreviation (input) P_PRE_CO :: nat where "P_PRE_CO \<equiv> 1201"
abbreviation (input) P_PRE_AD :: nat where "P_PRE_AD \<equiv> 1301"
abbreviation (input) P_PRE_TP_RF1 :: nat where "P_PRE_TP_RF1 \<equiv> 1401"
abbreviation (input) P_PRE_TP_RF2 :: nat where "P_PRE_TP_RF2 \<equiv> 1501"
abbreviation (input) P_PRE_TP_RF3 :: nat where "P_PRE_TP_RF3 \<equiv> 1601"
abbreviation (input) P_PRE_TP_RF4 :: nat where "P_PRE_TP_RF4 \<equiv> 1701"
abbreviation (input) P_PRE_TP_RF1_DAY :: nat where "P_PRE_TP_RF1_DAY \<equiv> 1400"
abbreviation (input) P_PRE_TP_RF2_DAY :: nat where "P_PRE_TP_RF2_DAY \<equiv> 1500"
abbreviation (input) P_PRE_TP_RF3_DAY :: nat where "P_PRE_TP_RF3_DAY \<equiv> 1600"
abbreviation (input) P_PRE_TP_RF4_DAY :: nat where "P_PRE_TP_RF4_DAY \<equiv> 1700"
abbreviation (input) P_SET_TP_MAIN_DAY :: nat where "P_SET_TP_MAIN_DAY \<equiv> 1002"
abbreviation (input) P_SET_TP_MAIN_VAL :: nat where "P_SET_TP_MAIN_VAL \<equiv> 1003"
abbreviation (input) P_SET_HM_DAY :: nat where "P_SET_HM_DAY \<equiv> 1102"
abbreviation (input) P_SET_HM_VAL :: nat where "P_SET_HM_VAL \<equiv> 1103"
abbreviation (input) P_SET_CO_DAY :: nat where "P_SET_CO_DAY \<equiv> 1202"
abbreviation (input) P_SET_CO_VAL :: nat where "P_SET_CO_VAL \<equiv> 1203"
abbreviation (input) P_SET_AD_DAY :: nat where "P_SET_AD_DAY \<equiv> 1302"
abbreviation (input) P_SET_AD_VAL :: nat where "P_SET_AD_VAL \<equiv> 1303"
abbreviation (input) P_SET_TP_RF1_DAY :: nat where "P_SET_TP_RF1_DAY \<equiv> 1402"
abbreviation (input) P_SET_TP_RF1_VAL :: nat where "P_SET_TP_RF1_VAL \<equiv> 1403"
abbreviation (input) P_SET_TP_RF2_DAY :: nat where "P_SET_TP_RF2_DAY \<equiv> 1502"
abbreviation (input) P_SET_TP_RF2_VAL :: nat where "P_SET_TP_RF2_VAL \<equiv> 1503"
abbreviation (input) P_SET_TP_RF3_DAY :: nat where "P_SET_TP_RF3_DAY \<equiv> 1602"
abbreviation (input) P_SET_TP_RF3_VAL :: nat where "P_SET_TP_RF3_VAL \<equiv> 1603"
abbreviation (input) P_SET_TP_RF4_DAY :: nat where "P_SET_TP_RF4_DAY \<equiv> 1702"
abbreviation (input) P_SET_TP_RF4_VAL :: nat where "P_SET_TP_RF4_VAL \<equiv> 1703"

end
