(* ===== verification/Board.thy ===== *)
theory Board
  imports Jlib Define
begin

text \<open>
  The state of the controller: the shared memory, read and written by \<open>src/src/jshmem.cpp\<close> and the accessors at the
  beginning of \<open>src/src/jincubator.cpp\<close>, and the static variables of the functions.

  The shared memory is an array of 16-bit cells. The cells hold their values with the bytes exchanged, 32-bit values take
  two cells and have their four bytes in reverse order; the target is little endian, so \<open>memcpy\<close> sees the low byte of a
  cell first. The indices of the code are constants of \<open>define.h\<close> below the size that the INI file gives the memory.
  Other processes change the input cells between the steps modelled here; within a step they stay.
\<close>

section \<open>The state\<close>

record pid_static =
  vn_1 :: int
  wn_1 :: int
  yn_1 :: int

record switch =
  nn :: int
  retf :: int

record ctl =
  shm_out :: "nat \<Rightarrow> 16 word"
  shm_old :: "nat \<Rightarrow> 16 word"
  g_fan_status :: int
  db_stoke :: int
  st_temp :: pid_static
  st_humi :: pid_static
  st_cool :: switch
  st_blower :: switch
  st_open :: switch
  st_close :: switch
  minute_count :: int

text \<open>The static variables as they are initialised, and memory as the system hands it out.\<close>

definition power_on :: ctl where
  "power_on = \<lparr>shm_out = (\<lambda>_. 0), shm_old = (\<lambda>_. 0), g_fan_status = 0, db_stoke = 10000,
     st_temp = \<lparr>vn_1 = 0, wn_1 = 0, yn_1 = 0\<rparr>, st_humi = \<lparr>vn_1 = 0, wn_1 = 0, yn_1 = 0\<rparr>,
     st_cool = \<lparr>nn = 0, retf = 0\<rparr>, st_blower = \<lparr>nn = 0, retf = 0\<rparr>, st_open = \<lparr>nn = 0, retf = 0\<rparr>, st_close = \<lparr>nn = 0, retf = 0\<rparr>,
     minute_count = 0\<rparr>"

section \<open>Values and cells\<close>

definition cell_bytes :: "16 word \<Rightarrow> 8 word list" where
  "cell_bytes w = [ucast w, ucast (drop_bit 8 w)]"

definition bytes_cell :: "8 word list \<Rightarrow> 16 word" where
  "bytes_cell bs = ucast (bs ! 0) OR push_bit 8 (ucast (bs ! 1))"

text \<open>\<open>ba(&data, sizeof(unsigned short))\<close>, whose length is never refused.\<close>

definition swap_cell :: "16 word \<Rightarrow> 16 word" where
  "swap_cell w = (case ba (cell_bytes w) 2 of Some (_, bs) \<Rightarrow> bytes_cell bs | None \<Rightarrow> w)"

definition shm2ushort :: "16 word \<Rightarrow> int" where
  "shm2ushort w = uint (swap_cell w)"

definition shm2short :: "16 word \<Rightarrow> int" where
  "shm2short w = sint (swap_cell w)"

text \<open>
  The tenth and the tenfold. The quotient of a \<open>short\<close> and 10.0 is truncated by the conversion; a product outside \<open>short\<close>
  cannot be converted from \<open>double\<close>, which is undefined.
\<close>

definition shm2shortpid :: "16 word \<Rightarrow> int" where
  "shm2shortpid w = to_short (shm2ushort w) sdiv 10"

definition pidshm2short :: "16 word \<Rightarrow> int option" where
  "pidshm2short w = fits 32767 (to_short (shm2ushort w) * 10)"

definition ushort2shm :: "int \<Rightarrow> 16 word" where
  "ushort2shm us_data = swap_cell (word_of_int us_data)"

definition short2shm :: "int \<Rightarrow> 16 word" where
  "short2shm us_data = swap_cell (word_of_int us_data)"

text \<open>The two cells of a 32-bit value, and \<open>dcba\<close> on its bytes.\<close>

definition swap_int :: "8 word list \<Rightarrow> 8 word list" where
  "swap_int bs = (case dcba bs 4 of Some (_, bs') \<Rightarrow> bs' | None \<Rightarrow> bs)"

definition int_bytes :: "32 word \<Rightarrow> 8 word list" where
  "int_bytes w = map (\<lambda>i. ucast (drop_bit (8 * i) w)) [0, 1, 2, 3]"

definition bytes_int :: "8 word list \<Rightarrow> 32 word" where
  "bytes_int bs = ucast (bs ! 0) OR push_bit 8 (ucast (bs ! 1)) OR push_bit 16 (ucast (bs ! 2)) OR push_bit 24 (ucast (bs ! 3))"

definition read_int :: "(nat \<Rightarrow> 16 word) \<Rightarrow> nat \<Rightarrow> 32 word" where
  "read_int m i = bytes_int (swap_int (cell_bytes (m i) @ cell_bytes (m (i + 1))))"

definition write_int :: "(nat \<Rightarrow> 16 word) \<Rightarrow> nat \<Rightarrow> 32 word \<Rightarrow> nat \<Rightarrow> 16 word" where
  "write_int m i w = (let bs = swap_int (int_bytes w) in m(i := bytes_cell (take 2 bs), i + 1 := bytes_cell (drop 2 bs)))"

section \<open>The accessors\<close>

definition get_val :: "ctl \<Rightarrow> nat \<Rightarrow> int" where
  "get_val s index = shm2short (shm_out s index)"

definition get_uval :: "ctl \<Rightarrow> nat \<Rightarrow> int" where
  "get_uval s index = shm2ushort (shm_out s index)"

definition get_x10_val :: "ctl \<Rightarrow> nat \<Rightarrow> int option" where
  "get_x10_val s index = pidshm2short (shm_out s index)"

definition get_e10_val :: "ctl \<Rightarrow> nat \<Rightarrow> int" where
  "get_e10_val s index = shm2shortpid (shm_out s index)"

definition get_int :: "ctl \<Rightarrow> nat \<Rightarrow> int" where
  "get_int s index = sint (read_int (shm_out s) index)"

definition get_time :: "ctl \<Rightarrow> nat \<Rightarrow> int" where
  "get_time s addr = uint (read_int (shm_out s) addr)"

definition set_val :: "nat \<Rightarrow> int \<Rightarrow> ctl \<Rightarrow> ctl" where
  "set_val index data s = s\<lparr>shm_out := (shm_out s)(index := short2shm data)\<rparr>"

definition set_uval :: "nat \<Rightarrow> int \<Rightarrow> ctl \<Rightarrow> ctl" where
  "set_uval index data s = s\<lparr>shm_out := (shm_out s)(index := ushort2shm data)\<rparr>"

definition set_int :: "nat \<Rightarrow> int \<Rightarrow> ctl \<Rightarrow> ctl" where
  "set_int index data s = s\<lparr>shm_out := write_int (shm_out s) index (word_of_int data)\<rparr>"

definition set_time :: "nat \<Rightarrow> int \<Rightarrow> ctl \<Rightarrow> ctl" where
  "set_time addr time s = s\<lparr>shm_out := write_int (shm_out s) addr (word_of_int time)\<rparr>"

section \<open>Reading what was written\<close>

lemma swap_cell_bytes: "swap_cell w = bytes_cell [ucast (drop_bit 8 w), ucast w]"
  using ba_order.exchange_groups[of "[cell_bytes w]" "[]"]
  by (simp add: swap_cell_def ba_def cell_bytes_def pick_def)

lemma bytes_cell_of: "bytes_cell [lo, hi] = ucast lo OR push_bit 8 (ucast hi)"
  by (simp add: bytes_cell_def)

lemma cell_bytes_cell [simp]: "cell_bytes (bytes_cell [lo, hi]) = [lo, hi]"
  by (auto simp: cell_bytes_def bytes_cell_of bit_eq_iff bit_simps dest: bit_imp_le_length)

lemma bytes_cell_bytes [simp]: "bytes_cell (cell_bytes w) = w"
  by (auto simp: cell_bytes_def bytes_cell_of bit_eq_iff bit_simps)

lemma swap_cell_swap_cell [simp]: "swap_cell (swap_cell w) = w"
proof -
  obtain lo hi where w: "cell_bytes w = [lo, hi]" by (simp add: cell_bytes_def)
  have "cell_bytes (swap_cell w) = [hi, lo]" using w cell_bytes_cell by (simp add: swap_cell_bytes cell_bytes_def)
  then show ?thesis using w bytes_cell_bytes[of w] by (simp add: swap_cell_bytes[of "swap_cell w"] cell_bytes_def)
qed

lemma swap_int_list: "swap_int [a, b, c, d] = [d, c, b, a]"
  using dcba_order.exchange_groups[of "[[a, b, c, d]]" "[]"] by (simp add: swap_int_def dcba_def pick_def)

lemma bytes_int_bytes: "bytes_int (int_bytes w) = w"
proof (rule bit_word_eqI)
  fix n
  assume "n < LENGTH(32)"
  then consider "n < 8" | "8 \<le> n" "n < 16" | "16 \<le> n" "n < 24" | "24 \<le> n" "n < 32" by fastforce
  then show "bit (bytes_int (int_bytes w)) n = bit w n"
    by cases (auto simp: int_bytes_def bytes_int_def bit_simps)
qed

lemma read_write_int [simp]: "read_int (write_int m i w) i = w"
proof -
  obtain a b c d where w: "int_bytes w = [a, b, c, d]" by (simp add: int_bytes_def)
  then show ?thesis using bytes_int_bytes[of w] by (simp add: read_int_def write_int_def Let_def swap_int_list)
qed

lemma write_int_other: "j \<noteq> i \<Longrightarrow> j \<noteq> Suc i \<Longrightarrow> write_int m i w j = m j"
  by (simp add: write_int_def Let_def)

lemma write_int_twice: "write_int (write_int m i w) i w' = write_int m i w'"
  by (simp add: write_int_def Let_def fun_upd_twist)

lemma read_int_other:
  "j \<noteq> i \<Longrightarrow> j \<noteq> Suc i \<Longrightarrow> Suc j \<noteq> i \<Longrightarrow> read_int (write_int m i w) j = read_int m j"
  by (simp add: read_int_def write_int_other)

lemma read_int_upd: "j \<noteq> i \<Longrightarrow> Suc j \<noteq> i \<Longrightarrow> read_int (m(i := x)) j = read_int m j"
  by (simp add: read_int_def)

named_theorems cells \<open>reading a cell after a write\<close>

lemma get_set [cells]:
  "get_val (set_val i x s) j = (if j = i then to_short x else get_val s j)"
  "get_val (set_uval i x s) j = (if j = i then to_short x else get_val s j)"
  "get_uval (set_val i x s) j = (if j = i then to_ushort x else get_uval s j)"
  "get_uval (set_uval i x s) j = (if j = i then to_ushort x else get_uval s j)"
  by (simp_all add: get_val_def get_uval_def set_val_def set_uval_def shm2short_def shm2ushort_def short2shm_def ushort2shm_def
      to_short_def to_ushort_def)

lemma get_set_tenth [cells]:
  "j \<noteq> i \<Longrightarrow> get_x10_val (set_val i x s) j = get_x10_val s j" "j \<noteq> i \<Longrightarrow> get_x10_val (set_uval i x s) j = get_x10_val s j"
  "j \<noteq> i \<Longrightarrow> get_e10_val (set_val i x s) j = get_e10_val s j" "j \<noteq> i \<Longrightarrow> get_e10_val (set_uval i x s) j = get_e10_val s j"
  by (simp_all add: get_x10_val_def get_e10_val_def set_val_def set_uval_def)

lemma get_set_int [cells]:
  "get_int (set_int i x s) i = to_int x" "get_time (set_time i x s) i = to_uint x"
  "get_int (set_time i x s) i = to_int x" "get_time (set_int i x s) i = to_uint x"
  by (simp_all add: get_int_def get_time_def set_int_def set_time_def to_int_def to_uint_def)

lemma get_set_int_other [cells]:
  "j \<noteq> i \<Longrightarrow> j \<noteq> Suc i \<Longrightarrow> Suc j \<noteq> i \<Longrightarrow> get_int (set_int i x s) j = get_int s j"
  "j \<noteq> i \<Longrightarrow> j \<noteq> Suc i \<Longrightarrow> Suc j \<noteq> i \<Longrightarrow> get_time (set_int i x s) j = get_time s j"
  "j \<noteq> i \<Longrightarrow> j \<noteq> Suc i \<Longrightarrow> Suc j \<noteq> i \<Longrightarrow> get_int (set_time i x s) j = get_int s j"
  "j \<noteq> i \<Longrightarrow> j \<noteq> Suc i \<Longrightarrow> Suc j \<noteq> i \<Longrightarrow> get_time (set_time i x s) j = get_time s j"
  by (simp_all add: get_int_def get_time_def set_int_def set_time_def read_int_other)

lemma get_int_set_cell [cells]:
  "j \<noteq> i \<Longrightarrow> Suc j \<noteq> i \<Longrightarrow> get_int (set_val i x s) j = get_int s j" "j \<noteq> i \<Longrightarrow> Suc j \<noteq> i \<Longrightarrow> get_int (set_uval i x s) j = get_int s j"
  "j \<noteq> i \<Longrightarrow> Suc j \<noteq> i \<Longrightarrow> get_time (set_val i x s) j = get_time s j" "j \<noteq> i \<Longrightarrow> Suc j \<noteq> i \<Longrightarrow> get_time (set_uval i x s) j = get_time s j"
  by (simp_all add: get_int_def get_time_def set_val_def set_uval_def read_int_upd)

lemma get_cell_set_int [cells]:
  "j \<noteq> i \<Longrightarrow> j \<noteq> Suc i \<Longrightarrow> get_val (set_int i x s) j = get_val s j" "j \<noteq> i \<Longrightarrow> j \<noteq> Suc i \<Longrightarrow> get_uval (set_int i x s) j = get_uval s j"
  "j \<noteq> i \<Longrightarrow> j \<noteq> Suc i \<Longrightarrow> get_x10_val (set_int i x s) j = get_x10_val s j" "j \<noteq> i \<Longrightarrow> j \<noteq> Suc i \<Longrightarrow> get_e10_val (set_int i x s) j = get_e10_val s j"
  "j \<noteq> i \<Longrightarrow> j \<noteq> Suc i \<Longrightarrow> get_val (set_time i x s) j = get_val s j" "j \<noteq> i \<Longrightarrow> j \<noteq> Suc i \<Longrightarrow> get_uval (set_time i x s) j = get_uval s j"
  "j \<noteq> i \<Longrightarrow> j \<noteq> Suc i \<Longrightarrow> get_x10_val (set_time i x s) j = get_x10_val s j" "j \<noteq> i \<Longrightarrow> j \<noteq> Suc i \<Longrightarrow> get_e10_val (set_time i x s) j = get_e10_val s j"
  by (simp_all add: get_val_def get_uval_def get_x10_val_def get_e10_val_def set_int_def set_time_def write_int_other)

lemma set_fields [cells]:
  "g_fan_status (set_val i x s) = g_fan_status s" "g_fan_status (set_uval i x s) = g_fan_status s"
  "g_fan_status (set_int i x s) = g_fan_status s" "g_fan_status (set_time i x s) = g_fan_status s"
  by (simp_all add: set_val_def set_uval_def set_int_def set_time_def)

lemma power_on_cells [simp]:
  "get_val power_on i = 0" "get_uval power_on i = 0" "get_x10_val power_on i = Some 0" "get_e10_val power_on i = 0"
  "get_int power_on i = 0" "get_time power_on i = 0"
proof -
  have z: "swap_cell 0 = 0" by (simp add: swap_cell_bytes bytes_cell_of)
  have "read_int (\<lambda>_. 0) i = 0" by (simp add: read_int_def cell_bytes_def swap_int_list bytes_int_def)
  then show "get_val power_on i = 0" "get_uval power_on i = 0" "get_x10_val power_on i = Some 0" "get_e10_val power_on i = 0"
    "get_int power_on i = 0" "get_time power_on i = 0"
    by (simp_all add: power_on_def get_val_def get_uval_def get_x10_val_def get_e10_val_def get_int_def get_time_def
        shm2short_def shm2ushort_def pidshm2short_def shm2shortpid_def fits_def z)
qed

lemma get_ranges: "- 32768 \<le> get_val s i" "get_val s i < 32768" "0 \<le> get_uval s i" "get_uval s i < 65536"
  using sint_range_size[of "swap_cell (shm_out s i)"] uint_lt2p[of "swap_cell (shm_out s i)"]
  by (simp_all add: get_val_def get_uval_def shm2short_def shm2ushort_def word_size)

text \<open>\<open>get_val\<close> and \<open>get_uval\<close> agree on truth, and the tenfold is ten times the value.\<close>

lemma get_uval_0 [simp]: "get_uval s i = 0 \<longleftrightarrow> get_val s i = 0"
  by (metis get_uval_def get_val_def shm2short_def shm2ushort_def signed_0 signed_eq_0_iff uint_0_iff)

lemma to_short_uval [simp]: "to_short (get_uval s i) = get_val s i"
  by (simp add: get_uval_def get_val_def shm2ushort_def shm2short_def to_short_def)

lemma to_ushort_val [simp]: "to_ushort (get_val s i) = get_uval s i"
  by (simp add: get_uval_def get_val_def shm2ushort_def shm2short_def to_ushort_def)

lemma get_x10_val_Some: "get_x10_val s i = Some v \<Longrightarrow> v = get_val s i * 10 \<and> \<bar>v\<bar> \<le> 32768"
  by (auto simp: get_x10_val_def pidshm2short_def get_val_def shm2short_def shm2ushort_def fits_def to_short_def split: if_splits)

lemma get_x10_val_in: "\<bar>get_val s i\<bar> \<le> 3276 \<Longrightarrow> get_x10_val s i = Some (get_val s i * 10)"
  by (auto simp: get_x10_val_def pidshm2short_def get_val_def shm2short_def shm2ushort_def fits_def to_short_def)

lemma get_e10_val_val: "get_e10_val s i = get_val s i sdiv 10"
  by (simp add: get_e10_val_def shm2shortpid_def get_val_def shm2short_def shm2ushort_def to_short_def)

text \<open>
  C36. What is stored is what is read: 16-bit values come back as they were converted, 32-bit values whole, and nothing else
  changes; the bytes of the values, whichever of the four functions stores them, lie in the memory in the opposite order of the
  machine.
\<close>

theorem cells_round_trip:
  "get_val (set_val i x s) i = to_short x \<and> get_uval (set_uval i x s) i = to_ushort x \<and>
   get_int (set_int i x s) i = to_int x \<and> get_time (set_time i x s) i = to_uint x \<and>
   (\<forall>j. j \<noteq> i \<longrightarrow> shm_out (set_val i x s) j = shm_out s j \<and> shm_out (set_uval i x s) j = shm_out s j) \<and>
   (\<forall>j. j \<notin> {i, i + 1} \<longrightarrow> shm_out (set_int i x s) j = shm_out s j \<and> shm_out (set_time i x s) j = shm_out s j) \<and>
   cell_bytes (shm_out (set_val i x s) i) = rev (cell_bytes (word_of_int x)) \<and>
   cell_bytes (shm_out (set_uval i x s) i) = rev (cell_bytes (word_of_int x)) \<and>
   cell_bytes (shm_out (set_int i x s) i) @ cell_bytes (shm_out (set_int i x s) (i + 1)) = rev (int_bytes (word_of_int x)) \<and>
   cell_bytes (shm_out (set_time i x s) i) @ cell_bytes (shm_out (set_time i x s) (i + 1)) = rev (int_bytes (word_of_int x))"
proof -
  obtain a b c d where w: "int_bytes (word_of_int x) = [a, b, c, d]" by (simp add: int_bytes_def)
  have "cell_bytes (swap_cell w) = rev (cell_bytes w)" for w
    by (simp add: swap_cell_bytes) (simp add: cell_bytes_def)
  moreover have "get_val (set_val i x s) i = to_short x" "get_uval (set_uval i x s) i = to_ushort x"
    "get_int (set_int i x s) i = to_int x" "get_time (set_time i x s) i = to_uint x"
    by (simp_all add: cells)
  moreover have "cell_bytes (shm_out (set_int i x s) i) @ cell_bytes (shm_out (set_int i x s) (i + 1)) = rev (int_bytes (word_of_int x))"
    "cell_bytes (shm_out (set_time i x s) i) @ cell_bytes (shm_out (set_time i x s) (i + 1)) = rev (int_bytes (word_of_int x))"
    by (simp_all add: set_int_def set_time_def write_int_def Let_def w swap_int_list)
  moreover have "shm_out (set_int i x s) j = shm_out s j \<and> shm_out (set_time i x s) j = shm_out s j" if "j \<notin> {i, i + 1}" for j
    using that by (simp add: set_int_def set_time_def write_int_other)
  ultimately show ?thesis by (simp add: set_val_def set_uval_def short2shm_def ushort2shm_def)
qed

theorem cells_round_trip_witness:
  "get_val (set_val 100 (-5) power_on) 100 = to_short (-5) \<and> shm_out (set_int 902 7 power_on) 904 = shm_out power_on 904"
  using cells_round_trip[of 100 "-5" power_on] cells_round_trip[of 902 7 power_on] by simp

end
