(* ===== verification/Actuators.thy ===== *)
theory Actuators
  imports Board
begin

text \<open>
  The outputs of the controller, \<open>control_*\<close> of \<open>src/src/jincubator.cpp\<close>: each writes its cell unless a test mode, an alarm
  or the stop of the fan motor forbids it; the words that collect the mode switches; and the status lamps. The calls of
  the log are left out.
\<close>

section \<open>The outputs\<close>

definition fan_stopped :: "ctl \<Rightarrow> bool" where
  "fan_stopped s \<longleftrightarrow> g_fan_status s = 1 \<and> get_val s R_SYNC_MOTOR_CONTROL_PARA \<noteq> 1 \<and> get_val s R_SYNC_MOTOR_CONTROL_PARA \<noteq> 2"

definition control_main_heat :: "int \<Rightarrow> ctl \<Rightarrow> ctl" where
  "control_main_heat status s =
     (if get_val s TEST_MAIN_HEAT_MODE \<noteq> 0 then s
      else if get_val s SENSOR_1_ABNORMAL_ALARM \<noteq> 0 then set_val CONTROL_MAIN_HEAT 0 s
      else if get_val s OUT_ST_TP_HIGH_ALARM \<noteq> 0 then set_val CONTROL_MAIN_HEAT 0 s
      else if fan_stopped s then set_val CONTROL_MAIN_HEAT 0 s
      else set_val CONTROL_MAIN_HEAT status s)"

definition control_aux_heat :: "int \<Rightarrow> ctl \<Rightarrow> ctl" where
  "control_aux_heat status s =
     (if get_val s TEST_AUX_HEAT_MODE \<noteq> 0 then s
      else if get_val s OUT_ST_TP_HIGH_ALARM \<noteq> 0 then set_val CONTROL_AUX_HEAT 0 s
      else if fan_stopped s then set_val CONTROL_AUX_HEAT 0 s
      else set_val CONTROL_AUX_HEAT status s)"

definition control_fan :: "int \<Rightarrow> ctl \<Rightarrow> ctl" where
  "control_fan status s = set_val CONTROL_FAN status s"

definition control_cool2_1 :: "int \<Rightarrow> ctl \<Rightarrow> ctl" where
  "control_cool2_1 status s =
     (if get_val s TEST_COOL2_1_MODE \<noteq> 0 then s
      else if get_val s SENSOR_3_ABNORMAL_ALARM \<noteq> 0 then s
      else if fan_stopped s then set_val CONTROL_COOL2_1 0 s
      else set_val CONTROL_COOL2_1 status s)"

definition control_cool2_2 :: "int \<Rightarrow> ctl \<Rightarrow> ctl" where
  "control_cool2_2 status s =
     (if get_val s TEST_COOL2_2_MODE \<noteq> 0 then s
      else if get_val s SENSOR_4_ABNORMAL_ALARM \<noteq> 0 then s
      else if fan_stopped s then set_val CONTROL_COOL2_2 0 s
      else set_val CONTROL_COOL2_2 status s)"

definition control_cool2_3 :: "int \<Rightarrow> ctl \<Rightarrow> ctl" where
  "control_cool2_3 status s =
     (if get_val s TEST_COOL2_3_MODE \<noteq> 0 then s
      else if get_val s SENSOR_5_ABNORMAL_ALARM \<noteq> 0 then s
      else if fan_stopped s then set_val CONTROL_COOL2_3 0 s
      else set_val CONTROL_COOL2_3 status s)"

text \<open>Here the branch of the stopped fan does not return.\<close>

definition control_cool2_4 :: "int \<Rightarrow> ctl \<Rightarrow> ctl" where
  "control_cool2_4 status s =
     (if get_val s TEST_COOL2_4_MODE \<noteq> 0 then s
      else if get_val s SENSOR_6_ABNORMAL_ALARM \<noteq> 0 then s
      else let s1 = (if fan_stopped s then set_val CONTROL_COOL2_4 0 s else s) in set_val CONTROL_COOL2_4 status s1)"

definition control_cool2 :: "int \<Rightarrow> int \<Rightarrow> ctl \<Rightarrow> ctl" where
  "control_cool2 type status s =
     (if type = 1 then control_cool2_1 status s
      else if type = 2 then control_cool2_2 status s
      else if type = 3 then control_cool2_3 status s
      else if type = 4 then control_cool2_4 status s
      else s)"

definition control_cold_hot_water :: "int \<Rightarrow> ctl \<Rightarrow> ctl" where
  "control_cold_hot_water status s = set_val CONTROL_COLD_HOT_WATER status s"

definition control_blower :: "int \<Rightarrow> ctl \<Rightarrow> ctl" where
  "control_blower status s =
     (if get_val s TEST_BLOWER_MODE \<noteq> 0 then s
      else if g_fan_status s = 1 then set_val CONTROL_BLOWER 0 s
      else set_val CONTROL_BLOWER status s)"

definition control_open_damper :: "int \<Rightarrow> ctl \<Rightarrow> ctl" where
  "control_open_damper status s =
     (if get_val s DETECT_DAMPER_FULLY_OPEN \<noteq> 0 then set_val CONTROL_DAMPER_OPEN 0 s
      else set_val CONTROL_DAMPER_OPEN status (set_val CONTROL_DAMPER_CLOSE 0 s))"

definition control_close_damper :: "int \<Rightarrow> int \<Rightarrow> ctl \<Rightarrow> ctl" where
  "control_close_damper status schedule s =
     (if get_val s DETECT_DAMPER_FULLY_CLOSE \<noteq> 0 then set_val CONTROL_DAMPER_CLOSE 0 s
      else let s1 = set_val CONTROL_DAMPER_OPEN 0 s in
        if schedule = 1 then
          (if get_val s1 R_AI_AD > get_val s1 P_AO_AD then set_val CONTROL_DAMPER_CLOSE status s1
           else set_val CONTROL_DAMPER_CLOSE 0 s1)
        else set_val CONTROL_DAMPER_CLOSE status s1)"

definition control_damper :: "int \<Rightarrow> int \<Rightarrow> int \<Rightarrow> ctl \<Rightarrow> ctl" where
  "control_damper type status schedule s =
     (if get_val s TEST_DAMPER_OPEN_MODE \<noteq> 0 \<or> get_val s TEST_DAMPER_CLOSE_MODE \<noteq> 0 then s
      else if fan_stopped s then control_open_damper 0 s
      else if type = 1 then control_open_damper status s
      else if type = 2 then control_close_damper status schedule s
      else s)"

definition control_cool :: "int \<Rightarrow> ctl \<Rightarrow> ctl" where
  "control_cool status s =
     (if get_val s TEST_COOL_MODE \<noteq> 0 then s
      else if fan_stopped s then set_val CONTROL_COOL 0 s
      else set_val CONTROL_COOL status s)"

text \<open>The third test is that of the address of the lamp, a constant, not of its cell.\<close>

definition control_spray :: "int \<Rightarrow> ctl \<Rightarrow> ctl" where
  "control_spray status s =
     (if get_val s TEST_SPRAY_MODE \<noteq> 0 then s
      else if get_val s SENSOR_2_ABNORMAL_ALARM \<noteq> 0 then set_val CONTROL_SPRAY 0 s
      else if OUT_ST_HM_HIGH_ALARM \<noteq> 0 then set_val CONTROL_SPRAY 0 s
      else if fan_stopped s then set_val CONTROL_SPRAY 0 s
      else set_val CONTROL_SPRAY status s)"

definition control_egg :: "ctl \<Rightarrow> ctl" where
  "control_egg s =
     (if get_val s TEST_FILP_EGG_MODE \<noteq> 0 then s
      else let dir = get_uval s P_EGG_FLIPPING_DIRECTION; time = to_ushort (get_uval s P_HH10 * 60);
             s1 = set_val P_EGG_FLIPPING_EXECUTION_STATUS 1 s;
             s2 = set_val P_EGG_FLIPPING_TIME time s1;
             s3 = set_val P_EGG_FLIPPING_DIRECTION (if dir = 0 then 1 else 0) s2
           in set_val EGG_FLIPPING_TRIGGER_STATUS 1 s3)"

section \<open>The mode words\<close>

definition get_run_mode :: "int \<Rightarrow> ctl \<Rightarrow> int" where
  "get_run_mode type s =
     fold (\<lambda>i mode. if i \<in> (if type \<noteq> 0 then {6, 7, 8, 9, 12, 13} else {6, 7, 8, 9}) then mode
        else to_ushort (mode + get_uval s (SYSTEM_INIT + i) * 2 ^ i)) [0..<14] 0"

definition set_run_mode :: "int \<Rightarrow> ctl \<Rightarrow> ctl" where
  "set_run_mode mode =
     fold (\<lambda>i s. if i \<in> {6, 7, 8, 9, 11, 12} then s else set_uval (SYSTEM_INIT + i) (to_ushort mode div 2 ^ i mod 2) s) [0..<14]"

definition get_test_mode :: "ctl \<Rightarrow> int" where
  "get_test_mode s = fold (\<lambda>i mode. to_ushort (mode + get_uval s (R_BTN_TP_MAIN + i) * 2 ^ i)) [0..<12] 0"

definition set_test_mode :: "int \<Rightarrow> ctl \<Rightarrow> ctl" where
  "set_test_mode mode = fold (\<lambda>i. set_uval (R_BTN_TP_MAIN + i) (to_ushort mode div 2 ^ i mod 2)) [0..<12]"

section \<open>The lamps\<close>

definition lamp :: "nat \<Rightarrow> nat \<Rightarrow> ctl \<Rightarrow> ctl" where
  "lamp to from s = (if get_uval s from \<noteq> 0 then set_uval to 1 s else set_uval to 0 s)"

definition direction_func :: "ctl \<Rightarrow> ctl" where
  "direction_func s =
     (let s1 = (if g_fan_status s = 1 then
                  (if get_val s R_SYNC_MOTOR_CONTROL_PARA = 1 \<or> get_val s R_SYNC_MOTOR_CONTROL_PARA = 2
                   then set_uval OUT_ST_FAN_STATUS 1 s else set_uval OUT_ST_FAN_STATUS 0 s)
                else lamp OUT_ST_FAN_STATUS CONTROL_FAN s);
          s2 = lamp OUT_ST_TP_MAIN_STATUS CONTROL_MAIN_HEAT s1;
          s3 = lamp OUT_ST_TP_AID_STATUS CONTROL_AUX_HEAT s2;
          s4 = lamp OUT_ST_HM_STATUS CONTROL_SPRAY s3;
          s5 = lamp OUT_ST_EGG_STATUS DETECT_FLIP_EGG s4;
          s6 = lamp OUT_ST_AD_OPEN_STATUS CONTROL_DAMPER_OPEN s5;
          s7 = lamp OUT_ST_AD_CLOSE_STATUS CONTROL_DAMPER_CLOSE s6;
          s8 = lamp OUT_ST_WT_CL_STATUS CONTROL_COOL s7;
          s9 = lamp OUT_ST_TP_RF1_STATUS CONTROL_COOL2_1 s8;
          s10 = lamp OUT_ST_TP_RF2_STATUS CONTROL_COOL2_2 s9;
          s11 = lamp OUT_ST_TP_RF3_STATUS CONTROL_COOL2_3 s10
      in lamp OUT_ST_TP_RF4_STATUS CONTROL_COOL2_4 s11)"

end
