(* ===== verification/PidCalc.thy ===== *)
theory PidCalc
  imports Actuators
begin

text \<open>
  \<open>src/src/job_tc.cpp\<close>: the PID calculation of the temperature and of the humidity with its anti-windup sum in the shared
  memory, the duty of the main heater and of the spray, and the delayed switches of cooler, blower and damper. Constants
  such as \<open>10000L\<close> are \<open>long\<close>, whose largest value is the parameter \<open>lmax\<close>; every signed operation that can leave its
  type is checked and gives None where C says nothing.
\<close>

section \<open>The PID calculation\<close>

definition clamp :: "int \<Rightarrow> int \<Rightarrow> int \<Rightarrow> int" where
  "clamp lo hi x = (if x < lo then lo else if x > hi then hi else x)"

definition pid_p :: "int \<Rightarrow> int \<Rightarrow> int \<Rightarrow> int \<Rightarrow> int \<Rightarrow> int option" where
  "pid_p lmax p en sp pv = do {
     xp \<leftarrow> (if p > 0 then
              if \<bar>en\<bar> \<le> p sdiv 2 then do { a \<leftarrow> fits lmax (10000 * en); b \<leftarrow> fits lmax (a sdiv p + 5000); Some (to_int b) }
              else if sp > pv then Some 10000 else Some 0
            else Some 0);
     Some (clamp 0 10000 xp) }"

definition pid_i :: "int \<Rightarrow> nat \<Rightarrow> int \<Rightarrow> int \<Rightarrow> int \<Rightarrow> ctl \<Rightarrow> (int \<times> ctl) option" where
  "pid_i lmax acc i p en s = do {
     (xi, s1) \<leftarrow> (if i > 0 \<and> \<bar>en\<bar> \<le> p sdiv 2 then do {
                   sum \<leftarrow> fits INT_MAX (get_int s acc + en);
                   let s1 = set_int acc sum s;
                   a \<leftarrow> fits lmax (50 * get_int s1 acc);
                   Some (to_int (a sdiv i), s1) }
                 else Some (0, set_int acc 0 s));
     Some (clamp (-10000) 10000 xi, s1) }"

definition pid_windup :: "nat \<Rightarrow> int \<Rightarrow> int \<Rightarrow> ctl \<Rightarrow> ctl option" where
  "pid_windup acc vn en s =
     (if vn > 15000 \<or> vn < -5000 then do { sum \<leftarrow> fits INT_MAX (get_int s acc - en); Some (set_int acc sum s) } else Some s)"

definition pid_d :: "int \<Rightarrow> int \<Rightarrow> int \<Rightarrow> int \<Rightarrow> int \<Rightarrow> pid_static \<Rightarrow> int option" where
  "pid_d lmax d p en vn st =
     (if d > 0 \<and> \<bar>en\<bar> \<le> p sdiv 2 then do { a \<leftarrow> fits lmax (2 * d * (vn - vn_1 st)); Some (to_int a) } else Some 0)"

text \<open>\<open>yn\<close> and the statics: the common part of \<open>pid_calc1\<close> and \<open>pid_calc2\<close>, on the cells of their parameters.\<close>

definition pid_yn :: "int \<Rightarrow> nat \<Rightarrow> nat \<Rightarrow> nat \<Rightarrow> nat \<Rightarrow> int \<Rightarrow> int \<Rightarrow> pid_static \<Rightarrow> ctl \<Rightarrow> (int \<times> pid_static \<times> ctl) option" where
  "pid_yn lmax P I D acc pv sp st s = do {
     en \<leftarrow> fits INT_MAX (sp - pv);
     p \<leftarrow> get_x10_val s P;
     xp \<leftarrow> pid_p lmax p en sp pv;
     (xi, s1) \<leftarrow> pid_i lmax acc (get_e10_val s I) p en s;
     let vn = xp + xi;
     s2 \<leftarrow> pid_windup acc vn en s1;
     let d = get_e10_val s2 D;
     xd \<leftarrow> pid_d lmax d p en vn st;
     wn \<leftarrow> fits INT_MAX (vn + xd);
     a \<leftarrow> fits INT_MAX (d * 100 * wn_1 st);
     iv \<leftarrow> fits INT_MAX (wn + a sdiv 500);
     let jv = 1 + d * 100 sdiv 500;
     if jv = 0 then None
     else do {
       yn \<leftarrow> fits INT_MAX (iv sdiv jv);
       Some (yn, \<lparr>vn_1 = vn, wn_1 = wn, yn_1 = yn\<rparr>, s2) } }"

definition pid_calc1 :: "int \<Rightarrow> int \<Rightarrow> int \<Rightarrow> ctl \<Rightarrow> (int \<times> ctl) option" where
  "pid_calc1 lmax pv sp s = do {
     (yn, st, s1) \<leftarrow> pid_yn lmax P_TEMP_P P_TEMP_I P_TEMP_D PID_TEMP_SUM pv sp (st_temp s) s;
     let s2 = s1\<lparr>st_temp := st\<rparr>;
     let pidv = (if yn > 10000 then 10000 else if yn < 0 then 0 else yn);
     let pidv = (if pidv > get_val s2 P_TEMP_OHI * 100 then get_val s2 P_TEMP_OHI * 100 else pidv);
     let pidv = (if pidv < get_val s2 P_TEMP_OLO * 100 then get_val s2 P_TEMP_OLO * 100 else pidv);
     Some (pidv, s2) }"

definition pid_calc2 :: "int \<Rightarrow> int \<Rightarrow> int \<Rightarrow> ctl \<Rightarrow> (int \<times> ctl) option" where
  "pid_calc2 lmax pv sp s = do {
     (yn, st, s1) \<leftarrow> pid_yn lmax P_HUM_P P_HUM_I P_HUM_D PID_HUMI_SUM pv sp (st_humi s) s;
     let s2 = s1\<lparr>st_humi := st\<rparr>;
     let pidv = (if yn > 10000 then 10000 else if yn < 0 then 0 else yn);
     let pidv = (pidv - 5000) * 2;
     let pidv = (if pidv > get_val s2 P_HUM_OHI * 100 then get_val s2 P_HUM_OHI * 100 else pidv);
     let pidv = (if pidv < get_val s2 P_HUM_OLO * 100 then get_val s2 P_HUM_OLO * 100 else pidv);
     Some (pidv, s2) }"

section \<open>The duties\<close>

definition main_heater :: "int \<Rightarrow> int \<Rightarrow> ctl \<Rightarrow> int option" where
  "main_heater lmax pid s = do {
     let DUTY_HI = 10 * get_val s P_TEMP_OHI;
     let DUTY_LO = 10 * get_val s P_TEMP_OLO;
     a \<leftarrow> fits INT_MAX (pid sdiv 10 - get_val s P_HLO * 10);
     b \<leftarrow> fits lmax (100 * a);
     let c = get_val s P_HHI - get_val s P_HLO;
     if c = 0 then None
     else do {
       q \<leftarrow> fits lmax (b sdiv c);
       let duty = to_int q;
       let duty = (if duty \<ge> DUTY_HI then DUTY_HI else if duty \<le> DUTY_LO then DUTY_LO else duty);
       if get_val s R_AI_TP_MAIN \<ge> get_val s P_AO_TP_MAIN then Some 0
       else do {
         p \<leftarrow> get_x10_val s P_TEMP_P;
         if get_val s R_AI_TP_MAIN < get_val s P_AO_TP_MAIN - p sdiv 2 then Some DUTY_HI else Some duty } } }"

text \<open>The window of \<open>pid_filter\<close> in the shared memory: \<open>int\<close>s in the byte order of the machine.\<close>

definition window_get :: "(nat \<Rightarrow> 16 word) \<Rightarrow> nat \<Rightarrow> nat \<Rightarrow> int list" where
  "window_get m a n = map (\<lambda>k. sint (bytes_int (cell_bytes (m (a + 2 * k)) @ cell_bytes (m (a + 2 * k + 1))))) [0..<n]"

definition window_put :: "nat \<Rightarrow> int list \<Rightarrow> (nat \<Rightarrow> 16 word) \<Rightarrow> nat \<Rightarrow> 16 word" where
  "window_put a xs m j =
     (if a \<le> j \<and> j < a + 2 * length xs then
        let bs = int_bytes (word_of_int (xs ! ((j - a) div 2))) in
        if (j - a) mod 2 = 0 then bytes_cell (take 2 bs) else bytes_cell (drop 2 bs)
      else m j)"

definition filter_at :: "nat \<Rightarrow> 8 word \<Rightarrow> int \<Rightarrow> ctl \<Rightarrow> (int \<times> ctl) option" where
  "filter_at a num pid s = do {
     (ave, p) \<leftarrow> pid_filter pid (window_get (shm_out s) a (unat num)) num;
     Some (ave, s\<lparr>shm_out := window_put a p (shm_out s)\<rparr>) }"

text \<open>The average is assigned to an \<open>unsigned int\<close> before it is divided.\<close>

definition spray_duty :: "int \<Rightarrow> ctl \<Rightarrow> (int \<times> ctl) option" where
  "spray_duty pid s = do {
     (ave, s1) \<leftarrow> filter_at FILTER_PID_HUMI_ARR 50 pid s;
     let duty = to_uint ave div 10;
     let duty = (if duty > 10 * get_val s1 P_HUM_OHI then 10 * get_val s1 P_HUM_OHI
                 else if duty < 10 * get_val s1 P_HUM_OLO then 10 * get_val s1 P_HUM_OLO else duty);
     p \<leftarrow> get_x10_val s1 P_HUM_P;
     let point_stp = (if get_val s1 P_HUM_SPR < p sdiv 2 then get_val s1 P_HUM_SPR else p sdiv 2);
     let pv = get_val s1 R_AI_HM; let sp = get_val s1 P_AO_HM;
     Some (if pv < sp - p sdiv 2 then 10 * get_val s1 P_HUM_OHI
           else if pv > sp then 0
           else if pv \<ge> sp - p sdiv 2 \<and> pv \<le> sp + point_stp then duty
           else 0, s1) }"

section \<open>The delayed switches\<close>

text \<open>
  \<open>op\<close> is 1000 or 0, so the two comparisons with 500 tell whether the switch is asked for; \<open>hold\<close> is what clears the
  counter from outside before it is looked at.
\<close>

definition switch_count :: "bool \<Rightarrow> switch \<Rightarrow> int" where
  "switch_count on st = (if retf st \<noteq> 0 then (if on then nn st else nn st - 1) else if on then nn st + 1 else nn st - 1)"

definition switch_step :: "bool \<Rightarrow> bool \<Rightarrow> int \<Rightarrow> switch \<Rightarrow> switch" where
  "switch_step on hold limit st =
     (let n = (if hold then 0 else switch_count on st);
          r = (if n > limit then 1 else retf st)
      in if n \<le> 0 then \<lparr>nn = 0, retf = 0\<rparr> else \<lparr>nn = n, retf = r\<rparr>)"

definition cool :: "int \<Rightarrow> ctl \<Rightarrow> int \<times> ctl" where
  "cool pid s =
     (let st = switch_step (pid \<le> get_val s P_COL * 100) False (get_val s P_TCO) (st_cool s)
      in (if get_val s R_AI_TP_MAIN \<le> get_val s P_AO_TP_MAIN then 0 else retf st, s\<lparr>st_cool := st\<rparr>))"

definition blower :: "int \<Rightarrow> ctl \<Rightarrow> int \<times> ctl" where
  "blower pid s =
     (let st = switch_step (pid < get_val s P_BLO * 100) False (get_val s P_TBL) (st_blower s)
      in (if get_val s R_AI_TP_MAIN \<le> get_val s P_AO_TP_MAIN then 0 else retf st, s\<lparr>st_blower := st\<rparr>))"

definition db_open :: "int \<Rightarrow> ctl \<Rightarrow> int \<times> ctl" where
  "db_open pid s =
     (let tmin = (if db_stoke s > 10050 then get_val s P_TCL else get_val s P_TOP);
          st = switch_step (pid < get_val s P_OPE * 100) (get_val s PID_TEMP_DB_CLOSE \<noteq> 0) tmin (st_open s)
      in (if get_val s R_AI_TP_MAIN \<le> get_val s P_AO_TP_MAIN then 0 else retf st, s\<lparr>st_open := st\<rparr>))"

definition db_close :: "int \<Rightarrow> ctl \<Rightarrow> int \<times> ctl" where
  "db_close pid s =
     (let tmin = (if db_stoke s < 9950 then get_val s P_TCL else get_val s P_TOP);
          st = switch_step (pid > get_val s P_OPE * 100) (get_val s PID_TEMP_DB_OPEN \<noteq> 0) tmin (st_close s)
      in (if get_val s R_AI_TP_MAIN \<ge> get_val s P_AO_TP_MAIN then 0 else retf st, s\<lparr>st_close := st\<rparr>))"

section \<open>One pass\<close>

definition pid_temp_outputs :: "int \<Rightarrow> int \<Rightarrow> ctl \<Rightarrow> ctl" where
  "pid_temp_outputs h ave s =
     (let s5 = set_uval PID_TEMP_MAIN_HEATER h s;
          (c, s6) = cool ave s5;
          s7 = set_uval PID_TEMP_COOL c s6;
          (o1, s8) = db_open ave s7;
          s9 = set_uval PID_TEMP_DB_OPEN o1 s8;
          (c1, s10) = db_close ave s9
      in set_uval PID_TEMP_DB_CLOSE c1 s10)"

definition pid_temp_init :: "int \<Rightarrow> ctl \<Rightarrow> ctl option" where
  "pid_temp_init lmax s = do {
     (v, s1) \<leftarrow> pid_calc1 lmax (get_val s R_AI_TP_MAIN) (get_val s P_AO_TP_MAIN) s;
     let s2 = set_int PID_TEMP_VALUE v s1;
     (ave, s3) \<leftarrow> filter_at FILTER_PID_TEMP_ARR 10 v s2;
     let s4 = set_int PID_TEMP_NEW_FILTER_VALUE ave s3;
     h \<leftarrow> main_heater lmax ave s4;
     Some (pid_temp_outputs h ave s4) }"

definition pid_humi_init :: "int \<Rightarrow> ctl \<Rightarrow> ctl option" where
  "pid_humi_init lmax s = do {
     (v, s1) \<leftarrow> pid_calc2 lmax (get_val s R_AI_HM) (get_val s P_AO_HM) s;
     let s2 = set_int PID_HUMI_VALUE v s1;
     (d, s3) \<leftarrow> spray_duty v s2;
     Some (set_int PID_HUMI_NEW_HUMIDIFICATION d s3) }"


section \<open>The sum cannot wind up\<close>

lemma clamp_range: "lo \<le> hi \<Longrightarrow> lo \<le> clamp lo hi x \<and> clamp lo hi x \<le> hi"
  by (simp add: clamp_def)

lemma sdiv_small: "\<bar>a\<bar> \<le> b \<Longrightarrow> 0 < n \<Longrightarrow> \<bar>a sdiv n\<bar> \<le> b" for a b n :: int
proof -
  assume a: "\<bar>a\<bar> \<le> b" "0 < n"
  then have "b * 1 \<le> b * n" by (intro mult_left_mono) linarith+
  then have "- b * n \<le> a" "a \<le> b * n" using a(1) by linarith+
  from sdiv_bounds[OF this a(2)] show ?thesis by linarith
qed

lemma sdiv_ge: "k * n \<le> a \<Longrightarrow> 0 < n \<Longrightarrow> k \<le> a sdiv n" for a k n :: int
proof -
  assume a: "k * n \<le> a" "0 < n"
  then have "\<bar>a\<bar> * 1 \<le> \<bar>a\<bar> * n" by (intro mult_left_mono) linarith+
  then have "a \<le> \<bar>a\<bar> * n" by linarith
  from sdiv_bounds(1)[OF a(1) this a(2)] show ?thesis .
qed

lemma sdiv_le: "a \<le> k * n \<Longrightarrow> 0 < n \<Longrightarrow> a sdiv n \<le> k" for a k n :: int
  using sdiv_ge[of "- k" n "- a"] by (simp add: sdiv_minus)

lemma pid_p_ok:
  assumes "INT_MAX \<le> lmax" "0 \<le> p" "p \<le> 10000" "\<bar>en\<bar> \<le> 65535"
  shows "\<exists>xp. pid_p lmax p en sp pv = Some xp \<and> 0 \<le> xp \<and> xp \<le> 10000 \<and>
    (\<bar>en\<bar> \<le> p sdiv 2 \<longrightarrow> (0 < en \<longrightarrow> 5000 < xp) \<and> (en < 0 \<longrightarrow> xp < 5000))"
proof (cases "0 < p \<and> \<bar>en\<bar> \<le> p sdiv 2")
  case True
  then have "\<bar>en\<bar> \<le> p div 2" using assms(2) by (simp add: sdiv_pos)
  then have e: "2 * \<bar>en\<bar> \<le> p" by linarith
  have "- 5000 * p \<le> 10000 * en" "10000 * en \<le> 5000 * p" using e by linarith+
  note q = sdiv_bounds[OF this conjunct1[OF True]]
  have "1 \<le> (10000 * en) sdiv p" if "0 < en" by (rule sdiv_ge) (use that assms(3) True in linarith)+
  then have 1: "0 < en \<longrightarrow> 0 < (10000 * en) sdiv p" by force
  have "(10000 * en) sdiv p \<le> -1" if "en < 0" by (rule sdiv_le) (use that assms(3) True in linarith)+
  then have "en < 0 \<longrightarrow> (10000 * en) sdiv p < 0" by force
  with 1 show ?thesis using True q e assms(1,3)
    by (simp add: pid_p_def fits_in INT_MAX_def to_int_in clamp_def)
next
  case False
  then have "\<bar>en\<bar> \<le> p sdiv 2 \<Longrightarrow> en = 0" using assms(2) by (auto simp: sdiv_pos)
  moreover have "\<exists>xp. pid_p lmax p en sp pv = Some xp \<and> 0 \<le> xp \<and> xp \<le> 10000"
    using False by (auto simp: pid_p_def clamp_def)
  ultimately show ?thesis by fastforce
qed

text \<open>The sum stays within 200 times the integral time: what would carry it beyond is undone.\<close>

lemma pid_sum_ok:
  assumes "INT_MAX \<le> lmax" "0 \<le> p" "p \<le> 10000" "0 \<le> i" "i \<le> 3276" "\<bar>get_int s a\<bar> \<le> 200 * i"
    and xp: "0 \<le> xp" "xp \<le> 10000" "\<bar>en\<bar> \<le> p sdiv 2 \<longrightarrow> (0 < en \<longrightarrow> 5000 < xp) \<and> (en < 0 \<longrightarrow> xp < 5000)"
  shows "\<exists>xi s1 s2. pid_i lmax a i p en s = Some (xi, s1) \<and> - 10000 \<le> xi \<and> xi \<le> 10000 \<and>
    pid_windup a (xp + xi) en s1 = Some s2 \<and> \<bar>get_int s2 a\<bar> \<le> 200 * i \<and>
    (\<exists>w. s2 = s\<lparr>shm_out := write_int (shm_out s) a w\<rparr>)"
proof (cases "0 < i \<and> \<bar>en\<bar> \<le> p sdiv 2")
  case False
  then have "pid_i lmax a i p en s = Some (0, set_int a 0 s)" by (auto simp: pid_i_def clamp_def)
  moreover have "pid_windup a (xp + 0) en (set_int a 0 s) = Some (set_int a 0 s)" using xp(1,2) by (simp add: pid_windup_def)
  moreover have "get_int (set_int a 0 s) a = 0" by (simp add: cells to_int_in)
  moreover have "set_int a 0 s = s\<lparr>shm_out := write_int (shm_out s) a 0\<rparr>" by (simp add: set_int_def)
  ultimately show ?thesis using assms(4)
    by (intro exI[of _ 0] exI[of _ "set_int a 0 s"]) auto
next
  case True
  let ?S = "get_int s a"
  let ?xi = "clamp (-10000) 10000 ((50 * (?S + en)) sdiv i)"
  have "\<bar>en\<bar> \<le> p div 2" using True assms(2) by (simp add: sdiv_pos)
  then have en: "\<bar>en\<bar> \<le> 5000" using assms(3) by linarith
  have S: "\<bar>?S + en\<bar> \<le> 660200" using en assms(5,6) by linarith
  have "\<bar>50 * (?S + en)\<bar> \<le> 33010000" using S by (simp add: abs_mult)
  note q = sdiv_small[OF this conjunct1[OF True]]
  have i0: "0 < i" using True by simp
  let ?s1 = "set_int a (?S + en) s"
  have g: "get_int ?s1 a = ?S + en" using S by (simp add: cells to_int_in)
  have i: "pid_i lmax a i p en s = Some (?xi, ?s1)"
    using True S q g assms(1) by (simp add: pid_i_def fits_in INT_MAX_def to_int_in)
  have up: "xp + ?xi > 15000" if "?S + en > 200 * i"
  proof -
    have "0 < en" using that assms(6) by linarith
    moreover have "10000 \<le> (50 * (?S + en)) sdiv i" by (rule sdiv_ge[OF _ i0]) (use that in \<open>simp add: algebra_simps\<close>)
    ultimately show ?thesis using xp True by (simp add: clamp_def)
  qed
  have down: "xp + ?xi < - 5000" if "?S + en < - 200 * i"
  proof -
    have "en < 0" using that assms(6) by linarith
    moreover have "(50 * (?S + en)) sdiv i \<le> - 10000" by (rule sdiv_le[OF _ i0]) (use that in \<open>simp add: algebra_simps\<close>)
    ultimately show ?thesis using xp True by (simp add: clamp_def)
  qed
  have c: "- 10000 \<le> ?xi" "?xi \<le> 10000" using clamp_range[of "-10000" 10000] by simp_all
  show ?thesis
  proof (cases "xp + ?xi > 15000 \<or> xp + ?xi < - 5000")
    case True
    have "pid_windup a (xp + ?xi) en ?s1 = Some (set_int a ?S ?s1)"
      using True g assms(5,6) by (simp add: pid_windup_def fits_in INT_MAX_def)
    moreover have "get_int (set_int a ?S ?s1) a = ?S" using assms(5,6) by (simp add: cells to_int_in)
    moreover have "set_int a ?S ?s1 = s\<lparr>shm_out := write_int (shm_out s) a (word_of_int ?S)\<rparr>"
      by (simp add: set_int_def write_int_twice)
    ultimately show ?thesis using i c assms(6) by metis
  next
    case False
    then have "pid_windup a (xp + ?xi) en ?s1 = Some ?s1" by (simp add: pid_windup_def)
    moreover have "\<not> ?S + en > 200 * i" "\<not> ?S + en < - 200 * i" using False up down by blast+
    then have "\<bar>get_int ?s1 a\<bar> \<le> 200 * i" unfolding g by linarith
    ultimately show ?thesis using i c by (metis set_int_def)
  qed
qed


text \<open>What holds of the statics between two calls, when the derivative time is at most 18.\<close>

definition pid_ok :: "pid_static \<Rightarrow> bool" where
  "pid_ok st \<longleftrightarrow> - 10000 \<le> vn_1 st \<and> vn_1 st \<le> 20000 \<and> \<bar>wn_1 st\<bar> \<le> 1100000"

lemma pid_yn_ok:
  assumes "INT_MAX \<le> lmax" "get_x10_val s P = Some p" "0 \<le> p" "p \<le> 10000" "0 \<le> get_e10_val s I" "0 \<le> get_e10_val s D" "get_e10_val s D \<le> 18"
    and "\<bar>sp - pv\<bar> \<le> 65535" "pid_ok st" "\<bar>get_int s a\<bar> \<le> 200 * get_e10_val s I" "D \<noteq> a" "D \<noteq> Suc a" "get_e10_val s I \<le> 3276"
  shows "\<exists>yn st' w. pid_yn lmax P I D a pv sp st s = Some (yn, st', s\<lparr>shm_out := write_int (shm_out s) a w\<rparr>) \<and>
    pid_ok st' \<and> \<bar>get_int (s\<lparr>shm_out := write_int (shm_out s) a w\<rparr>) a\<bar> \<le> 200 * get_e10_val s I"
proof -
  let ?en = "sp - pv" and ?i = "get_e10_val s I" and ?d = "get_e10_val s D"
  obtain xp where xp: "pid_p lmax p ?en sp pv = Some xp" "0 \<le> xp" "xp \<le> 10000"
    "\<bar>?en\<bar> \<le> p sdiv 2 \<longrightarrow> (0 < ?en \<longrightarrow> 5000 < xp) \<and> (?en < 0 \<longrightarrow> xp < 5000)"
    using pid_p_ok[OF assms(1,3,4,8)] by blast
  obtain xi s1 s2 w where xi: "pid_i lmax a ?i p ?en s = Some (xi, s1)" "- 10000 \<le> xi" "xi \<le> 10000"
    "pid_windup a (xp + xi) ?en s1 = Some s2" "\<bar>get_int s2 a\<bar> \<le> 200 * ?i" "s2 = s\<lparr>shm_out := write_int (shm_out s) a w\<rparr>"
    using pid_sum_ok[OF assms(1,3,4,5,13,10) xp(2-4)] by blast
  let ?vn = "xp + xi"
  have d2: "get_e10_val s2 D = ?d" using assms(11,12) by (simp add: xi(6) get_e10_val_def write_int_other)
  have dv: "\<bar>?vn - vn_1 st\<bar> \<le> 30000" using xp(2,3) xi(2,3) assms(9) by (auto simp: pid_ok_def)
  have "\<bar>2 * ?d * (?vn - vn_1 st)\<bar> \<le> 36 * 30000"
    unfolding abs_mult using assms(6,7) dv by (intro mult_mono) auto
  then have b: "- 1080000 \<le> 2 * ?d * (?vn - vn_1 st)" "2 * ?d * (?vn - vn_1 st) \<le> 1080000" by (simp_all only: abs_le_iff) simp_all
  have "fits lmax (2 * ?d * (?vn - vn_1 st)) = Some (2 * ?d * (?vn - vn_1 st))"
    using b assms(1) unfolding INT_MAX_def by (intro fits_in) linarith+
  moreover have "to_int (2 * ?d * (?vn - vn_1 st)) = 2 * ?d * (?vn - vn_1 st)" using b by (intro to_int_in) linarith+
  ultimately obtain xd where xd: "pid_d lmax ?d p ?en ?vn st = Some xd" "\<bar>xd\<bar> \<le> 1080000"
    using b by (cases "?d > 0 \<and> \<bar>?en\<bar> \<le> p sdiv 2") (auto simp: pid_d_def abs_le_iff)
  have wn: "\<bar>?vn + xd\<bar> \<le> 1100000" using xd(2) xp(2,3) xi(2,3) by linarith
  have "\<bar>?d * 100 * wn_1 st\<bar> \<le> 1800 * 1100000"
    unfolding abs_mult using assms(6,7,9) by (intro mult_mono) (auto simp: pid_ok_def)
  then have a: "\<bar>?d * 100 * wn_1 st\<bar> \<le> 1980000000" by simp
  have "\<bar>(?d * 100 * wn_1 st) sdiv 500\<bar> \<le> 1980000000" by (rule sdiv_small[OF a]) simp
  then have iv: "\<bar>?vn + xd + (?d * 100 * wn_1 st) sdiv 500\<bar> \<le> 1981100000" using wn by linarith
  have jv: "0 < 1 + ?d * 100 sdiv 500" using assms(6) by (simp add: sdiv_pos)
  note q = sdiv_small[OF iv jv]
  have "fits INT_MAX ?en = Some ?en" using assms(8) by (simp add: fits_in INT_MAX_def)
  moreover have "fits INT_MAX (?vn + xd) = Some (?vn + xd)" using wn by (simp add: fits_in INT_MAX_def)
  moreover have "fits INT_MAX (?d * 100 * wn_1 st) = Some (?d * 100 * wn_1 st)" using a unfolding INT_MAX_def by (intro fits_in) linarith+
  moreover have "fits INT_MAX (?vn + xd + (?d * 100 * wn_1 st) sdiv 500) = Some (?vn + xd + (?d * 100 * wn_1 st) sdiv 500)"
    using iv unfolding INT_MAX_def by (intro fits_in) linarith+
  moreover have "fits INT_MAX ((?vn + xd + (?d * 100 * wn_1 st) sdiv 500) sdiv (1 + ?d * 100 sdiv 500)) =
      Some ((?vn + xd + (?d * 100 * wn_1 st) sdiv 500) sdiv (1 + ?d * 100 sdiv 500))"
    using q unfolding INT_MAX_def by (intro fits_in) linarith+
  moreover have "pid_ok \<lparr>vn_1 = ?vn, wn_1 = ?vn + xd, yn_1 = y\<rparr>" for y using wn xp(2,3) xi(2,3) by (simp add: pid_ok_def)
  ultimately show ?thesis using assms(2) xp(1) xi(1,4,5) xd(1) jv d2 unfolding xi(6)[symmetric]
    by (simp add: pid_yn_def xi(6)[symmetric]) (metis xi(6))
qed


lemma static_cells [cells]:
  "get_val (s\<lparr>st_temp := x\<rparr>) i = get_val s i" "get_val (s\<lparr>st_humi := x\<rparr>) i = get_val s i"
  "get_val (s\<lparr>st_cool := y\<rparr>) i = get_val s i" "get_val (s\<lparr>st_blower := y\<rparr>) i = get_val s i"
  "get_uval (s\<lparr>st_cool := y\<rparr>) i = get_uval s i" "get_uval (s\<lparr>st_open := y\<rparr>) i = get_uval s i" "get_uval (s\<lparr>st_close := y\<rparr>) i = get_uval s i"
  "get_val (s\<lparr>st_open := y\<rparr>) i = get_val s i" "get_val (s\<lparr>st_close := y\<rparr>) i = get_val s i"
  "get_e10_val (s\<lparr>st_temp := x\<rparr>) i = get_e10_val s i" "get_e10_val (s\<lparr>st_cool := y\<rparr>) i = get_e10_val s i"
  "get_e10_val (s\<lparr>st_open := y\<rparr>) i = get_e10_val s i" "get_e10_val (s\<lparr>st_close := y\<rparr>) i = get_e10_val s i"
  "get_x10_val (s\<lparr>st_temp := x\<rparr>) i = get_x10_val s i"
  "get_int (s\<lparr>st_temp := x\<rparr>) i = get_int s i" "get_int (s\<lparr>st_cool := y\<rparr>) i = get_int s i"
  "get_int (s\<lparr>st_open := y\<rparr>) i = get_int s i" "get_int (s\<lparr>st_close := y\<rparr>) i = get_int s i"
  by (simp_all add: get_val_def get_uval_def get_e10_val_def get_x10_val_def get_int_def)

definition tuned :: "nat \<Rightarrow> nat \<Rightarrow> nat \<Rightarrow> ctl \<Rightarrow> bool" where
  "tuned P I D s \<longleftrightarrow> 0 \<le> get_val s P \<and> get_val s P \<le> 1000 \<and> 0 \<le> get_val s I \<and> 0 \<le> get_val s D \<and> get_val s D < 190"

definition wound :: "nat \<Rightarrow> nat \<Rightarrow> ctl \<Rightarrow> bool" where
  "wound I acc s \<longleftrightarrow> \<bar>get_int s acc\<bar> \<le> 200 * get_e10_val s I"

lemma set_int_word: "s\<lparr>shm_out := write_int (shm_out s) a w\<rparr> = set_int a (sint w) s"
  by (simp add: set_int_def)

lemma tuned_yn:
  assumes "INT_MAX \<le> lmax" "tuned P I D s" "\<bar>sp - pv\<bar> \<le> 65535" "pid_ok st" "wound I a s"
    and "D \<noteq> a" "D \<noteq> Suc a" "I \<noteq> a" "I \<noteq> Suc a"
  obtains yn st' x where "pid_yn lmax P I D a pv sp st s = Some (yn, st', set_int a x s)" "pid_ok st'" "wound I a (set_int a x s)"
proof -
  have p: "get_x10_val s P = Some (get_val s P * 10)" using assms(2) by (intro get_x10_val_in) (simp add: tuned_def)
  have "0 \<le> get_e10_val s I" "get_e10_val s I \<le> 3276" "0 \<le> get_e10_val s D" "get_e10_val s D \<le> 18"
    using assms(2) get_ranges(2)[of s I] unfolding get_e10_val_val tuned_def
    by (auto simp: sdiv_pos)
  with pid_yn_ok[OF assms(1) p, of I D sp pv st a] assms obtain yn st' w where
    "pid_yn lmax P I D a pv sp st s = Some (yn, st', s\<lparr>shm_out := write_int (shm_out s) a w\<rparr>)" "pid_ok st'"
    "\<bar>get_int (s\<lparr>shm_out := write_int (shm_out s) a w\<rparr>) a\<bar> \<le> 200 * get_e10_val s I"
    by (auto simp: tuned_def wound_def)
  moreover from this(3) have "wound I a (set_int a (sint w) s)" using assms(8,9) by (simp add: wound_def set_int_word cells)
  ultimately show ?thesis using that by (simp add: set_int_word)
qed

lemma pid_calc1_ok:
  assumes "INT_MAX \<le> lmax" "tuned P_TEMP_P P_TEMP_I P_TEMP_D s" "\<bar>sp - pv\<bar> \<le> 65535" "pid_ok (st_temp s)" "wound P_TEMP_I PID_TEMP_SUM s"
    and "get_val s P_TEMP_OLO \<le> get_val s P_TEMP_OHI"
  obtains v st x where "pid_calc1 lmax pv sp s = Some (v, (set_int PID_TEMP_SUM x s)\<lparr>st_temp := st\<rparr>)" "pid_ok st"
    "wound P_TEMP_I PID_TEMP_SUM (set_int PID_TEMP_SUM x s)" "get_val s P_TEMP_OLO * 100 \<le> v" "v \<le> get_val s P_TEMP_OHI * 100"
proof -
  obtain yn st x where y: "pid_yn lmax P_TEMP_P P_TEMP_I P_TEMP_D PID_TEMP_SUM pv sp (st_temp s) s = Some (yn, st, set_int PID_TEMP_SUM x s)"
    "pid_ok st" "wound P_TEMP_I PID_TEMP_SUM (set_int PID_TEMP_SUM x s)"
    by (rule tuned_yn[OF assms(1-5)]) simp_all
  obtain v where "pid_calc1 lmax pv sp s = Some (v, (set_int PID_TEMP_SUM x s)\<lparr>st_temp := st\<rparr>)"
    "get_val s P_TEMP_OLO * 100 \<le> v" "v \<le> get_val s P_TEMP_OHI * 100"
    using y(1) assms(6) by (simp add: pid_calc1_def cells Let_def)
  then show ?thesis using that y(2,3) by blast
qed


section \<open>The window in the memory\<close>

lemma window_cells:
  assumes "k < length xs"
  shows "window_put a xs m (a + 2 * k) = bytes_cell (take 2 (int_bytes (word_of_int (xs ! k))))"
    "window_put a xs m (Suc (a + 2 * k)) = bytes_cell (drop 2 (int_bytes (word_of_int (xs ! k))))"
proof -
  have "(2 * k + 1) div 2 = k" "(2 * k + 1) mod 2 = 1" by simp_all
  then show "window_put a xs m (a + 2 * k) = bytes_cell (take 2 (int_bytes (word_of_int (xs ! k))))"
    "window_put a xs m (Suc (a + 2 * k)) = bytes_cell (drop 2 (int_bytes (word_of_int (xs ! k))))"
    using assms by (auto simp: window_put_def Let_def)
qed

lemma window_get_put:
  assumes "\<forall>x \<in> set xs. - 32768 \<le> x \<and> x < 32768"
  shows "window_get (window_put a xs m) a (length xs) = xs"
proof (rule nth_equalityI)
  fix k
  assume "k < length (window_get (window_put a xs m) a (length xs))"
  then have k: "k < length xs" by (simp add: window_get_def)
  obtain b0 b1 b2 b3 where b: "int_bytes (word_of_int (xs ! k)) = [b0, b1, b2, b3]" by (simp add: int_bytes_def)
  have "- 32768 \<le> xs ! k" "xs ! k < 32768" using assms k by simp_all
  then have "to_int (xs ! k) = xs ! k" by (intro to_int_in) simp_all
  then show "window_get (window_put a xs m) a (length xs) ! k = xs ! k"
    using k bytes_int_bytes[of "word_of_int (xs ! k)"] by (simp add: window_get_def window_cells b to_int_def)
qed (simp add: window_get_def)

lemma window_get_same: "(\<And>j. a \<le> j \<Longrightarrow> j < a + 2 * n \<Longrightarrow> m j = m' j) \<Longrightarrow> window_get m a n = window_get m' a n"
  by (auto simp: window_get_def)

lemma window_put_other: "j < a \<or> a + 2 * length xs \<le> j \<Longrightarrow> window_put a xs m j = m j"
  by (auto simp: window_put_def)

lemma pid_filter_length: "pid_filter v p n = Some (ave, p') \<Longrightarrow> length p' = length p"
proof -
  have "shift_window k q = Some q' \<Longrightarrow> length q' = length q" for k and q q' :: "int list"
    by (induction k q arbitrary: q' rule: shift_window.induct) (auto simp: bind_eq_Some_conv arr_set_def split: if_splits)
  then show "pid_filter v p n = Some (ave, p') \<Longrightarrow> length p' = length p"
    by (auto simp: pid_filter_def bind_eq_Some_conv arr_set_def split: if_splits)
qed

definition window_ok :: "nat \<Rightarrow> nat \<Rightarrow> ctl \<Rightarrow> bool" where
  "window_ok a n s \<longleftrightarrow> (\<forall>x \<in> set (window_get (shm_out s) a n). - 32768 \<le> x \<and> x \<le> 32767)"

lemma filter_at_ok:
  assumes "window_ok a (unat n) s" "0 < n" "- 32768 \<le> v" "v \<le> 32767"
  obtains ave m where "filter_at a n v s = Some (ave, s\<lparr>shm_out := m\<rparr>)" "- 32768 \<le> ave" "ave \<le> 32767"
    "window_ok a (unat n) (s\<lparr>shm_out := m\<rparr>)" "\<forall>j. j < a \<or> a + 2 * unat n \<le> j \<longrightarrow> m j = shm_out s j"
proof -
  let ?p = "window_get (shm_out s) a (unat n)"
  have l: "length ?p = unat n" by (simp add: window_get_def)
  have r: "\<forall>x \<in> set (v # ?p). - 32768 \<le> x \<and> x \<le> 32767" using assms by (simp add: window_ok_def)
  have "unat n \<le> length ?p" using l by simp
  from pid_filter_run[OF assms(2) this r] obtain ave p where f: "pid_filter v ?p n = Some (ave, p)"
    "p = v # take (unat n - 1) ?p @ drop (unat n) ?p" "- 32768 \<le> ave" "ave \<le> 32767" by auto
  have lp: "length p = unat n" using pid_filter_length[OF f(1)] l by simp
  have "set p \<subseteq> set (v # ?p)" using f(2) set_take_subset[of "unat n - 1" ?p] set_drop_subset[of "unat n" ?p] by auto
  then have "\<forall>x \<in> set p. - 32768 \<le> x \<and> x \<le> 32767" using r by blast
  moreover from this have "\<forall>x \<in> set p. - 32768 \<le> x \<and> x < 32768" by fastforce
  ultimately have "window_ok a (unat n) (s\<lparr>shm_out := window_put a p (shm_out s)\<rparr>)"
    using window_get_put[of p a "shm_out s"] lp by (simp add: window_ok_def)
  moreover have "\<forall>j. j < a \<or> a + 2 * unat n \<le> j \<longrightarrow> window_put a p (shm_out s) j = shm_out s j"
    using window_put_other lp by metis
  ultimately show ?thesis using that f by (simp add: filter_at_def)
qed


section \<open>The duty of the main heater\<close>

lemma main_heater_ok:
  assumes "INT_MAX \<le> lmax" "- 32768 \<le> pid" "pid \<le> 32767" "get_val s P_HHI \<noteq> get_val s P_HLO" "0 \<le> get_val s P_TEMP_P" "get_val s P_TEMP_P \<le> 1000"
    and "get_val s P_TEMP_OLO \<le> get_val s P_TEMP_OHI"
  obtains h where "main_heater lmax pid s = Some h" "get_val s R_AI_TP_MAIN \<ge> get_val s P_AO_TP_MAIN \<longrightarrow> h = 0"
    "get_val s R_AI_TP_MAIN < get_val s P_AO_TP_MAIN \<longrightarrow> 10 * get_val s P_TEMP_OLO \<le> h \<and> h \<le> 10 * get_val s P_TEMP_OHI"
    "get_val s R_AI_TP_MAIN < get_val s P_AO_TP_MAIN - 5 * get_val s P_TEMP_P \<longrightarrow> h = 10 * get_val s P_TEMP_OHI"
proof -
  have p: "get_x10_val s P_TEMP_P = Some (get_val s P_TEMP_P * 10)" using assms(5,6) by (intro get_x10_val_in) simp
  have h: "(get_val s P_TEMP_P * 10) sdiv 2 = 5 * get_val s P_TEMP_P" using assms(5) by (simp add: sdiv_pos)
  have "\<bar>pid sdiv 10\<bar> \<le> 32768" by (rule sdiv_small) (use assms(2,3) in auto)
  then have a: "\<bar>pid sdiv 10 - get_val s P_HLO * 10\<bar> \<le> 360448" using get_ranges(1,2)[of s P_HLO] by linarith
  let ?b = "100 * (pid sdiv 10 - get_val s P_HLO * 10)"
  let ?c = "get_val s P_HHI - get_val s P_HLO"
  have b: "\<bar>?b\<bar> \<le> 36044800" using a by (simp add: abs_mult)
  have "\<bar>?b sdiv ?c\<bar> \<le> 36044800"
  proof (cases "0 < ?c")
    case True
    show ?thesis by (rule sdiv_small[OF b True])
  next
    case False
    then have "0 < - ?c" using assms(4) by simp
    from sdiv_small[OF b this] show ?thesis by (simp only: sdiv_minus_right abs_minus_cancel)
  qed
  then have q: "to_int (?b sdiv ?c) = ?b sdiv ?c" "fits lmax (?b sdiv ?c) = Some (?b sdiv ?c)"
    using assms(1) unfolding INT_MAX_def by (intro to_int_in fits_in; linarith)+
  have "fits INT_MAX (pid sdiv 10 - get_val s P_HLO * 10) = Some (pid sdiv 10 - get_val s P_HLO * 10)"
    using a unfolding INT_MAX_def by (intro fits_in) linarith+
  moreover have "fits lmax ?b = Some ?b" using b assms(1) unfolding INT_MAX_def by (intro fits_in) linarith+
  moreover have "?c \<noteq> 0" using assms(4) by simp
  ultimately have m: "main_heater lmax pid s = (if get_val s R_AI_TP_MAIN \<ge> get_val s P_AO_TP_MAIN then Some 0
      else if get_val s R_AI_TP_MAIN < get_val s P_AO_TP_MAIN - 5 * get_val s P_TEMP_P then Some (10 * get_val s P_TEMP_OHI)
      else Some (if ?b sdiv ?c \<ge> 10 * get_val s P_TEMP_OHI then 10 * get_val s P_TEMP_OHI
             else if ?b sdiv ?c \<le> 10 * get_val s P_TEMP_OLO then 10 * get_val s P_TEMP_OLO else ?b sdiv ?c))"
    using q p h by (simp add: main_heater_def Let_def)
  show ?thesis
  proof (cases "get_val s R_AI_TP_MAIN \<ge> get_val s P_AO_TP_MAIN")
    case True
    then show ?thesis using that[of 0] m assms(5) by simp
  next
    case False
    then show ?thesis using assms(7) m
      by (intro that[of "if get_val s R_AI_TP_MAIN < get_val s P_AO_TP_MAIN - 5 * get_val s P_TEMP_P then 10 * get_val s P_TEMP_OHI
        else if ?b sdiv ?c \<ge> 10 * get_val s P_TEMP_OHI then 10 * get_val s P_TEMP_OHI
        else if ?b sdiv ?c \<le> 10 * get_val s P_TEMP_OLO then 10 * get_val s P_TEMP_OLO else ?b sdiv ?c"]) simp_all
  qed
qed

end
