(* ===== verification/TempPid.thy ===== *)
theory TempPid
  imports PidCalc
begin

text \<open>
  One pass of the temperature control, \<open>pid_temp_init\<close>: what holds between the passes, and what the pass gives.
\<close>

section \<open>A pass of the temperature\<close>

text \<open>What holds between the passes, whatever the sensors show.\<close>

definition temp_loop :: "ctl \<Rightarrow> bool" where
  "temp_loop s \<longleftrightarrow> tuned P_TEMP_P P_TEMP_I P_TEMP_D s \<and> pid_ok (st_temp s) \<and> wound P_TEMP_I PID_TEMP_SUM s \<and>
     window_ok FILTER_PID_TEMP_ARR 10 s \<and> get_val s P_HHI \<noteq> get_val s P_HLO \<and>
     0 \<le> get_val s P_TEMP_OLO \<and> get_val s P_TEMP_OLO \<le> get_val s P_TEMP_OHI \<and> get_val s P_TEMP_OHI \<le> 100"

lemma switch_cells:
  "cool v s = (fst (cool v s), s\<lparr>st_cool := st_cool (snd (cool v s))\<rparr>)"
  "db_open v s = (fst (db_open v s), s\<lparr>st_open := st_open (snd (db_open v s))\<rparr>)"
  "db_close v s = (fst (db_close v s), s\<lparr>st_close := st_close (snd (db_close v s))\<rparr>)"
  by (simp_all add: cool_def db_open_def db_close_def Let_def)


lemma get_same_cell:
  "m j = shm_out s j \<Longrightarrow> get_val (s\<lparr>shm_out := m\<rparr>) j = get_val s j"
  "m j = shm_out s j \<Longrightarrow> get_e10_val (s\<lparr>shm_out := m\<rparr>) j = get_e10_val s j"
  "m j = shm_out s j \<Longrightarrow> get_x10_val (s\<lparr>shm_out := m\<rparr>) j = get_x10_val s j"
  "m j = shm_out s j \<Longrightarrow> m (Suc j) = shm_out s (Suc j) \<Longrightarrow> get_int (s\<lparr>shm_out := m\<rparr>) j = get_int s j"
  by (simp_all add: get_val_def get_e10_val_def get_x10_val_def get_int_def read_int_def)

lemma window_ok_set [cells]:
  "i < a \<or> a + 2 * n \<le> i \<Longrightarrow> window_ok a n (set_val i x s) = window_ok a n s"
  "i < a \<or> a + 2 * n \<le> i \<Longrightarrow> window_ok a n (set_uval i x s) = window_ok a n s"
  "Suc i < a \<or> a + 2 * n \<le> i \<Longrightarrow> window_ok a n (set_int i x s) = window_ok a n s"
  "Suc i < a \<or> a + 2 * n \<le> i \<Longrightarrow> window_ok a n (set_time i x s) = window_ok a n s"
  "window_ok a n (s\<lparr>st_temp := y\<rparr>) = window_ok a n s" "window_ok a n (s\<lparr>st_cool := z\<rparr>) = window_ok a n s"
  "window_ok a n (s\<lparr>st_open := z\<rparr>) = window_ok a n s" "window_ok a n (s\<lparr>st_close := z\<rparr>) = window_ok a n s"
proof -
  have same: "(\<And>j. a \<le> j \<Longrightarrow> j < a + 2 * n \<Longrightarrow> m j = shm_out s j) \<Longrightarrow> window_ok a n (s\<lparr>shm_out := m\<rparr>) = window_ok a n s" for m
    using window_get_same[of a n m "shm_out s"] by (simp add: window_ok_def)
  show "i < a \<or> a + 2 * n \<le> i \<Longrightarrow> window_ok a n (set_val i x s) = window_ok a n s"
    "i < a \<or> a + 2 * n \<le> i \<Longrightarrow> window_ok a n (set_uval i x s) = window_ok a n s"
    "Suc i < a \<or> a + 2 * n \<le> i \<Longrightarrow> window_ok a n (set_int i x s) = window_ok a n s"
    "Suc i < a \<or> a + 2 * n \<le> i \<Longrightarrow> window_ok a n (set_time i x s) = window_ok a n s"
    unfolding set_val_def set_uval_def set_int_def set_time_def by (rule same; auto simp: write_int_other)+
qed (simp_all add: window_ok_def)

lemma static_set [cells]:
  "st_temp (set_val i x s) = st_temp s" "st_temp (set_uval i x s) = st_temp s" "st_temp (set_int i x s) = st_temp s"
  by (simp_all add: set_val_def set_uval_def set_int_def)

lemma get_same:
  "shm_out s' j = shm_out s j \<Longrightarrow> get_val s' j = get_val s j"
  "shm_out s' j = shm_out s j \<Longrightarrow> get_e10_val s' j = get_e10_val s j"
  "shm_out s' j = shm_out s j \<Longrightarrow> shm_out s' (Suc j) = shm_out s (Suc j) \<Longrightarrow> get_int s' j = get_int s j"
  by (simp_all add: get_val_def get_e10_val_def get_int_def read_int_def)

lemma window_ok_same: "(\<And>j. a \<le> j \<Longrightarrow> j < a + 2 * n \<Longrightarrow> shm_out s' j = shm_out s j) \<Longrightarrow> window_ok a n s' = window_ok a n s"
  using window_get_same[of a n "shm_out s'" "shm_out s"] by (simp add: window_ok_def)

lemma temp_loop_same:
  assumes "\<And>j. j < 904 \<Longrightarrow> shm_out s' j = shm_out s j" "st_temp s' = st_temp s" "temp_loop s"
  shows "temp_loop s'"
proof -
  have "window_ok FILTER_PID_TEMP_ARR 10 s' = window_ok FILTER_PID_TEMP_ARR 10 s" by (rule window_ok_same) (simp add: assms(1))
  moreover have "get_val s' j = get_val s j" "get_e10_val s' j = get_e10_val s j" if "j < 904" for j
    using that by (auto intro: get_same assms(1))
  moreover have "get_int s' PID_TEMP_SUM = get_int s PID_TEMP_SUM" by (rule get_same(3); rule assms(1)) simp_all
  ultimately show ?thesis using assms(2,3) by (simp add: temp_loop_def tuned_def wound_def)
qed

text \<open>The end of the pass: the duty and the switches, written to four cells.\<close>

lemma pid_temp_outputs_ok:
  fixes h ave s
  defines "s' \<equiv> pid_temp_outputs h ave s"
  shows "get_uval s' PID_TEMP_MAIN_HEATER = to_ushort h" "get_val s' PID_TEMP_DB_OPEN = 0 \<or> get_val s' PID_TEMP_DB_CLOSE = 0"
    "j \<notin> {910, 924, 928, 930} \<Longrightarrow> shm_out s' j = shm_out s j" "st_temp s' = st_temp s" "st_humi s' = st_humi s"
proof -
  define s5 where "s5 = set_uval PID_TEMP_MAIN_HEATER h s"
  obtain c x where 1: "cool ave s5 = (c, s5\<lparr>st_cool := x\<rparr>)" using switch_cells(1) by blast
  define s7 where "s7 = set_uval PID_TEMP_COOL c (s5\<lparr>st_cool := x\<rparr>)"
  obtain o1 y where 2: "db_open ave s7 = (o1, s7\<lparr>st_open := y\<rparr>)" using switch_cells(2) by blast
  define s9 where "s9 = set_uval PID_TEMP_DB_OPEN o1 (s7\<lparr>st_open := y\<rparr>)"
  obtain c1 z where 3: "db_close ave s9 = (c1, s9\<lparr>st_close := z\<rparr>)" using switch_cells(3) by blast
  have s': "s' = set_uval PID_TEMP_DB_CLOSE c1 (s9\<lparr>st_close := z\<rparr>)"
    by (simp add: s'_def pid_temp_outputs_def Let_def s5_def[symmetric] 1 2 3 s7_def[symmetric] s9_def[symmetric])
  have g: "get_val s9 j = get_val s7 j" if "j < 700" for j using that by (simp add: s9_def cells)
  have "o1 = 0 \<or> c1 = 0"
    using arg_cong[OF 2, of fst] arg_cong[OF 3, of fst] by (auto simp: db_open_def db_close_def Let_def g split: if_splits)
  then show "get_val s' PID_TEMP_DB_OPEN = 0 \<or> get_val s' PID_TEMP_DB_CLOSE = 0" unfolding s' by (auto simp: s9_def cells)
  show "get_uval s' PID_TEMP_MAIN_HEATER = to_ushort h" unfolding s' by (simp add: s9_def s7_def s5_def cells)
  show "shm_out s' j = shm_out s j" if "j \<notin> {910, 924, 928, 930}"
    using that unfolding s' by (simp add: s9_def s7_def s5_def set_uval_def)
  show "st_temp s' = st_temp s" "st_humi s' = st_humi s" unfolding s' by (simp_all add: s9_def s7_def s5_def set_uval_def)
qed

lemma pid_temp_init_run:
  assumes "INT_MAX \<le> lmax" "temp_loop s"
  shows "\<exists>s'. pid_temp_init lmax s = Some s' \<and> temp_loop s' \<and>
    (let pv = get_val s R_AI_TP_MAIN; sp = get_val s P_AO_TP_MAIN; h = get_uval s' PID_TEMP_MAIN_HEATER in
       (sp \<le> pv \<longrightarrow> h = 0) \<and> (pv < sp \<longrightarrow> 10 * get_val s P_TEMP_OLO \<le> h \<and> h \<le> 10 * get_val s P_TEMP_OHI) \<and>
       (pv < sp - 5 * get_val s P_TEMP_P \<longrightarrow> h = 10 * get_val s P_TEMP_OHI)) \<and>
    (get_val s' PID_TEMP_DB_OPEN = 0 \<or> get_val s' PID_TEMP_DB_CLOSE = 0) \<and>
    (\<forall>j. j \<notin> {700..<720} \<union> {902..930} \<longrightarrow> shm_out s' j = shm_out s j) \<and> st_humi s' = st_humi s"
proof -
  let ?pv = "get_val s R_AI_TP_MAIN" and ?sp = "get_val s P_AO_TP_MAIN"
  note inv = assms(2)[unfolded temp_loop_def]
  have "\<bar>?sp - ?pv\<bar> \<le> 65535" using get_ranges(1,2)[of s R_AI_TP_MAIN] get_ranges(1,2)[of s P_AO_TP_MAIN] by linarith
  then obtain v st x where c: "pid_calc1 lmax ?pv ?sp s = Some (v, (set_int PID_TEMP_SUM x s)\<lparr>st_temp := st\<rparr>)" "pid_ok st"
    "wound P_TEMP_I PID_TEMP_SUM (set_int PID_TEMP_SUM x s)" "get_val s P_TEMP_OLO * 100 \<le> v" "v \<le> get_val s P_TEMP_OHI * 100"
    using pid_calc1_ok[OF assms(1)] inv by blast
  let ?s1 = "(set_int PID_TEMP_SUM x s)\<lparr>st_temp := st\<rparr>"
  let ?s2 = "set_int PID_TEMP_VALUE v ?s1"
  have w: "window_ok FILTER_PID_TEMP_ARR (unat (10 :: 8 word)) ?s2" using inv by (simp add: cells)
  have vr: "- 32768 \<le> v" "v \<le> 32767" using c(4,5) inv by linarith+
  obtain ave m where f: "filter_at FILTER_PID_TEMP_ARR 10 v ?s2 = Some (ave, ?s2\<lparr>shm_out := m\<rparr>)" "- 32768 \<le> ave" "ave \<le> 32767"
    "window_ok FILTER_PID_TEMP_ARR 10 (?s2\<lparr>shm_out := m\<rparr>)" "\<forall>j. j < 700 \<or> 720 \<le> j \<longrightarrow> m j = shm_out ?s2 j"
    by (rule filter_at_ok[OF w _ vr]) simp_all
  define s4 where "s4 = set_int PID_TEMP_NEW_FILTER_VALUE ave (?s2\<lparr>shm_out := m\<rparr>)"
  have m2: "m j = shm_out (set_int PID_TEMP_SUM x s) j" if "j < 700 \<or> 720 \<le> j" "j < 904" for j
    using f(5)[rule_format, of j] that by (auto simp: set_int_def write_int_other)
  have same: "shm_out s4 j = shm_out (set_int PID_TEMP_SUM x s) j" if "j < 700 \<or> 720 \<le> j" "j < 904" for j
    using m2[OF that] that by (simp add: s4_def set_int_def write_int_other)
  have g: "get_val s4 j = get_val s j" "get_e10_val s4 j = get_e10_val s j" if "j < 700" for j
    using get_same(1,2)[OF same[of j]] that by (simp_all add: cells)
  have i: "get_int s4 PID_TEMP_SUM = get_int (set_int PID_TEMP_SUM x s) PID_TEMP_SUM" by (rule get_same(3); rule same) simp_all
  have w4: "window_ok FILTER_PID_TEMP_ARR 10 s4" using f(4) by (simp add: s4_def cells)
  have st4: "st_temp s4 = st" by (simp add: s4_def set_int_def)
  have t4: "temp_loop s4" using inv c(2,3) w4 by (simp add: temp_loop_def tuned_def wound_def g i st4 cells)
  obtain h where h: "main_heater lmax ave s4 = Some h" "?pv \<ge> ?sp \<longrightarrow> h = 0"
    "?pv < ?sp \<longrightarrow> 10 * get_val s P_TEMP_OLO \<le> h \<and> h \<le> 10 * get_val s P_TEMP_OHI"
    "?pv < ?sp - 5 * get_val s P_TEMP_P \<longrightarrow> h = 10 * get_val s P_TEMP_OHI"
    using main_heater_ok[OF assms(1) f(2,3), of s4] inv by (auto simp: g tuned_def)
  let ?s' = "pid_temp_outputs h ave s4"
  have run: "pid_temp_init lmax s = Some ?s'" using c(1) f(1) h(1) by (simp add: pid_temp_init_def s4_def)
  note o = pid_temp_outputs_ok[where h = h and ave = ave and s = s4]
  have "shm_out ?s' j = shm_out s4 j" if "j < 904" for j by (rule o(3)) (use that in auto)
  then have t: "temp_loop ?s'" by (rule temp_loop_same[OF _ o(4) t4])
  have "0 \<le> h" "h < 65536" using h(2,3) inv by linarith+
  then have u: "get_uval ?s' PID_TEMP_MAIN_HEATER = h" using o(1) by (simp add: to_ushort_in)
  have f4: "shm_out s4 j = shm_out s j" if "j \<notin> {700..<720} \<union> {902..930}" for j
    using f(5)[rule_format, of j] that by (auto simp: s4_def set_int_def write_int_other)
  have frame: "\<forall>j. j \<notin> {700..<720} \<union> {902..930} \<longrightarrow> shm_out ?s' j = shm_out s j" using o(3) f4 by auto
  have hu: "st_humi ?s' = st_humi s" using o(5) by (simp add: s4_def set_int_def)
  show ?thesis using run t o(2) h(2-4) u frame hu by (intro exI[of _ ?s']) (simp only: Let_def simp_thms)
qed

text \<open>
  C3. One pass of the temperature control, from every state that holds between passes (parameters in range: proportional
  band up to 1000, derivative time below 190 tenths, heater points apart, output limits within 0 to 100; the sum within 200
  times the integral time): nothing overflows or divides by zero, the same holds afterwards, so that the sum can never wind
  up; the duty of the main heater is 0 at or above the set value, within the output limits below it, and the upper limit
  below the band; and opening and closing the damper are never asked for together.
\<close>

theorem pid_temp_init_ok:
  assumes "INT_MAX \<le> lmax" "temp_loop s"
  shows "\<exists>s'. pid_temp_init lmax s = Some s' \<and> temp_loop s' \<and>
    (let pv = get_val s R_AI_TP_MAIN; sp = get_val s P_AO_TP_MAIN; h = get_uval s' PID_TEMP_MAIN_HEATER in
       (sp \<le> pv \<longrightarrow> h = 0) \<and> (pv < sp \<longrightarrow> 10 * get_val s P_TEMP_OLO \<le> h \<and> h \<le> 10 * get_val s P_TEMP_OHI) \<and>
       (pv < sp - 5 * get_val s P_TEMP_P \<longrightarrow> h = 10 * get_val s P_TEMP_OHI)) \<and>
    (get_val s' PID_TEMP_DB_OPEN = 0 \<or> get_val s' PID_TEMP_DB_CLOSE = 0)"
  using pid_temp_init_run[OF assms] by blast

theorem pid_temp_init_ok_witness:
  "\<exists>s'. pid_temp_init INT_MAX (set_val P_TEMP_OHI 80 (set_val P_HHI 50 power_on)) = Some s' \<and> get_uval s' PID_TEMP_MAIN_HEATER = 0"
proof -
  let ?s = "set_val P_TEMP_OHI 80 (set_val P_HHI 50 power_on)"
  have "get_e10_val ?s P_TEMP_I = 0" "get_int ?s PID_TEMP_SUM = 0" by (simp_all add: cells)
  moreover have "window_ok FILTER_PID_TEMP_ARR 10 ?s"
  proof -
    have "bytes_int (cell_bytes (0 :: 16 word) @ cell_bytes (0 :: 16 word)) = 0" by (simp add: bytes_int_def cell_bytes_def)
    then show ?thesis by (simp add: cells) (simp add: window_ok_def window_get_def power_on_def)
  qed
  moreover have "st_temp ?s = \<lparr>vn_1 = 0, wn_1 = 0, yn_1 = 0\<rparr>" by (simp add: cells) (simp add: power_on_def)
  ultimately have "temp_loop ?s" by (simp add: temp_loop_def tuned_def wound_def pid_ok_def to_short_in cells)
  from pid_temp_init_ok[OF order_refl this] show ?thesis by (auto simp: Let_def cells)
qed

section \<open>The delay of a switch\<close>

lemma switch_on: "(switch_step True False t ^^ k) \<lparr>nn = 0, retf = 0\<rparr> = \<lparr>nn = min (int k) (t + 1), retf = (if t < int k then 1 else 0)\<rparr>"
  if "0 \<le> t"
  using that by (induction k) (auto simp: switch_step_def switch_count_def Let_def)

lemma switch_off:
  "(switch_step False False t ^^ m) \<lparr>nn = min (int k) (t + 1), retf = (if t < int k then 1 else 0)\<rparr> =
    \<lparr>nn = max 0 (min (int k) (t + 1) - int m), retf = (if t < int k \<and> int m \<le> t then 1 else 0)\<rparr>" if "0 \<le> t"
  using that by (induction m) (auto simp: switch_step_def switch_count_def Let_def)

lemma cool_cells: "get_val (snd (cool p s)) i = get_val s i"
  by (simp add: cool_def Let_def cells)

lemma cool_runs:
  "(\<And>p. p \<in> set ps \<Longrightarrow> p \<le> get_val s P_COL * 100 \<longleftrightarrow> on) \<Longrightarrow>
    st_cool (fold (\<lambda>p s. snd (cool p s)) ps s) = (switch_step on False (get_val s P_TCO) ^^ length ps) (st_cool s) \<and>
    (\<forall>i. get_val (fold (\<lambda>p s. snd (cool p s)) ps s) i = get_val s i)"
proof (induction ps arbitrary: s)
  case (Cons p ps)
  have "st_cool (snd (cool p s)) = switch_step on False (get_val s P_TCO) (st_cool s)" using Cons.prems[of p] by (simp add: cool_def Let_def)
  then show ?case using Cons by (simp add: cool_cells funpow_swap1)
qed simp

text \<open>
  The cooler of the PID is switched by a delay: with the parameters unchanged, passes that ask for it turn the switch on
  after more than \<open>P_TCO\<close> of them and count no further than one above it, and then as many passes that do not ask turn
  it off again, no fewer.
\<close>

theorem cool_delay:
  assumes "st_cool s = \<lparr>nn = 0, retf = 0\<rparr>" "0 \<le> get_val s P_TCO"
    and "\<forall>p \<in> set ps. p \<le> get_val s P_COL * 100" "\<forall>q \<in> set qs. get_val s P_COL * 100 < q"
  shows "let t = get_val s P_TCO; run = fold (\<lambda>p s. snd (cool p s)); a = run ps s; b = run qs a in
    nn (st_cool a) = min (int (length ps)) (t + 1) \<and> retf (st_cool a) = (if t < int (length ps) then 1 else 0) \<and>
    nn (st_cool b) = max 0 (nn (st_cool a) - int (length qs)) \<and>
    retf (st_cool b) = (if t < int (length ps) \<and> int (length qs) \<le> t then 1 else 0)"
proof -
  let ?run = "fold (\<lambda>p s. snd (cool p s))"
  have a: "st_cool (?run ps s) = \<lparr>nn = min (int (length ps)) (get_val s P_TCO + 1), retf = (if get_val s P_TCO < int (length ps) then 1 else 0)\<rparr>"
    "\<forall>i. get_val (?run ps s) i = get_val s i"
    using cool_runs[of ps s True] assms(1-3) by (simp_all only: switch_on simp_thms)
  have "st_cool (?run qs (?run ps s)) = (switch_step False False (get_val s P_TCO) ^^ length qs) (st_cool (?run ps s))"
    using cool_runs[of qs "?run ps s" False] assms(4) a(2) by fastforce
  then show ?thesis using a(1) by (simp add: switch_off assms(2) Let_def)
qed

theorem cool_delay_witness:
  "retf (st_cool (fold (\<lambda>p s. snd (cool p s)) [0, 0, 0] (set_val P_TCO 2 power_on))) = 1"
proof -
  have "st_cool (set_val P_TCO 2 power_on) = \<lparr>nn = 0, retf = 0\<rparr>" by (simp add: set_val_def power_on_def)
  moreover have "get_val (set_val P_TCO 2 power_on) P_TCO = 2" "get_val (set_val P_TCO 2 power_on) P_COL = 0" by (simp_all add: cells to_short_in)
  ultimately show ?thesis using cool_delay[of "set_val P_TCO 2 power_on" "[0, 0, 0]" "[]"] by (simp add: Let_def)
qed

end
