(* ===== verification/Humidity.thy ===== *)
theory Humidity
  imports TempPid
begin

text \<open>
  The humidity: \<open>logic_process_humi_func\<close> on the PID of \<open>src/src/job_tc.cpp\<close>. It is total and keeps its sum and its window in
  range; and whatever it decides, the humidifier stays off.
\<close>

section \<open>The function\<close>

definition logic_process_humi_func :: "int \<Rightarrow> ctl \<Rightarrow> ctl option" where
  "logic_process_humi_func lmax s = do {
     p \<leftarrow> get_x10_val s P_HUM_P;
     let humi = get_val s R_AI_HM;
     let sp = get_val s P_AO_HM;
     let half = p sdiv 2;
     let spr = get_val s P_HUM_SPR;
     let point_stp = (if spr < half then spr else half);
     if get_val s R_AI_TP_MAIN > get_val s LOW_TEMP_ALARM_VALUE then
       if humi < sp - half then Some (set_int PID_PERIOD_COUNT_HUMI 0 (set_int PID_HUMI_SUM 0 (control_spray 1 s)))
       else if humi \<ge> sp - half \<and> humi \<le> sp + point_stp then do {
         s1 \<leftarrow> pid_humi_init lmax s;
         let old = get_int s1 PID_HUMI_OLD_HUMIDIFICATION;
         let new = get_int s1 PID_HUMI_NEW_HUMIDIFICATION;
         changed \<leftarrow> (if old = 0 \<and> new \<noteq> 0 then Some True else do { d \<leftarrow> fits INT_MAX (new - old); a \<leftarrow> fits INT_MAX \<bar>d\<bar>; Some (a \<ge> 500) });
         m \<leftarrow> fits INT_MAX (new * get_uval s1 P_HUM_TO);
         let period_count = to_uint (m sdiv 1000);
         let s2 = (if get_time s1 PID_PERIOD_COUNT_HUMI = 0 \<or> changed then
                     set_time PID_PERIOD_COUNT_HUMI (get_uval s1 P_HUM_TO)
                       (set_time PID_ON_COUNT_HUMI (to_uint (get_uval s1 P_HUM_TO - period_count)) s1)
                   else if get_time s1 PID_PERIOD_COUNT_HUMI > 0 \<and> get_time s1 PID_PERIOD_COUNT_HUMI \<ge> get_time s1 PID_ON_COUNT_HUMI \<and>
                          humi < sp + spr then control_spray 1 s1
                   else control_spray 0 s1);
         Some (set_int PID_HUMI_OLD_HUMIDIFICATION new s2) }
       else if humi \<ge> sp + spr then Some (set_int PID_PERIOD_COUNT_HUMI 0 (set_int PID_HUMI_SUM 0 (control_spray 0 s)))
       else Some s
     else Some (set_int PID_PERIOD_COUNT_HUMI 0 (set_int PID_HUMI_SUM 0 (control_spray 0 s))) }"

section \<open>The PID of the humidity\<close>

definition humi_loop :: "ctl \<Rightarrow> bool" where
  "humi_loop s \<longleftrightarrow> tuned P_HUM_P P_HUM_I P_HUM_D s \<and> pid_ok (st_humi s) \<and> wound P_HUM_I PID_HUMI_SUM s \<and>
     window_ok FILTER_PID_HUMI_ARR 50 s \<and> 0 \<le> get_val s P_HUM_OLO \<and> get_val s P_HUM_OLO \<le> get_val s P_HUM_OHI \<and> get_val s P_HUM_OHI \<le> 100"

lemma pid_calc2_ok:
  assumes "INT_MAX \<le> lmax" "tuned P_HUM_P P_HUM_I P_HUM_D s" "\<bar>sp - pv\<bar> \<le> 65535" "pid_ok (st_humi s)" "wound P_HUM_I PID_HUMI_SUM s"
    and "get_val s P_HUM_OLO \<le> get_val s P_HUM_OHI"
  obtains v st x where "pid_calc2 lmax pv sp s = Some (v, (set_int PID_HUMI_SUM x s)\<lparr>st_humi := st\<rparr>)" "pid_ok st"
    "wound P_HUM_I PID_HUMI_SUM (set_int PID_HUMI_SUM x s)" "get_val s P_HUM_OLO * 100 \<le> v" "v \<le> get_val s P_HUM_OHI * 100"
proof -
  obtain yn st x where y: "pid_yn lmax P_HUM_P P_HUM_I P_HUM_D PID_HUMI_SUM pv sp (st_humi s) s = Some (yn, st, set_int PID_HUMI_SUM x s)"
    "pid_ok st" "wound P_HUM_I PID_HUMI_SUM (set_int PID_HUMI_SUM x s)"
    by (rule tuned_yn[OF assms(1-5)]) simp_all
  obtain v where "pid_calc2 lmax pv sp s = Some (v, (set_int PID_HUMI_SUM x s)\<lparr>st_humi := st\<rparr>)"
    "get_val s P_HUM_OLO * 100 \<le> v" "v \<le> get_val s P_HUM_OHI * 100"
    using y(1) assms(6) by (simp add: pid_calc2_def cells Let_def)
  then show ?thesis using that y(2,3) by blast
qed

lemma spray_duty_ok:
  assumes "window_ok FILTER_PID_HUMI_ARR 50 s" "0 \<le> v" "v \<le> 32767" "0 \<le> get_val s P_HUM_P" "get_val s P_HUM_P \<le> 1000"
    and "0 \<le> get_val s P_HUM_OLO" "get_val s P_HUM_OLO \<le> get_val s P_HUM_OHI" "get_val s P_HUM_OHI \<le> 100"
  obtains d m where "spray_duty v s = Some (d, s\<lparr>shm_out := m\<rparr>)" "0 \<le> d" "d \<le> 1000" "get_val s P_AO_HM < get_val s R_AI_HM \<longrightarrow> d = 0"
    "window_ok FILTER_PID_HUMI_ARR 50 (s\<lparr>shm_out := m\<rparr>)"
    "\<forall>j. j < 800 \<or> 900 \<le> j \<longrightarrow> m j = shm_out s j"
proof -
  have w: "window_ok FILTER_PID_HUMI_ARR (unat (50 :: 8 word)) s" using assms(1) by simp
  obtain ave m where f: "filter_at FILTER_PID_HUMI_ARR 50 v s = Some (ave, s\<lparr>shm_out := m\<rparr>)"
    "window_ok FILTER_PID_HUMI_ARR 50 (s\<lparr>shm_out := m\<rparr>)" "\<forall>j. j < 800 \<or> 900 \<le> j \<longrightarrow> m j = shm_out s j"
    by (rule filter_at_ok[OF w, of v]) (use assms(2,3) in simp_all)
  have g: "get_val (s\<lparr>shm_out := m\<rparr>) j = get_val s j" "get_x10_val (s\<lparr>shm_out := m\<rparr>) j = get_x10_val s j" if "j < 800" for j
    using get_same_cell(1,3)[of m j s] f(3) that by simp_all
  have p: "get_x10_val s P_HUM_P = Some (get_val s P_HUM_P * 10)" using assms(4,5) by (intro get_x10_val_in) simp
  have "0 \<le> uint (word_of_int ave :: 32 word) div 10" by (simp add: pos_imp_zdiv_nonneg_iff)
  then have u: "0 \<le> to_uint ave div 10" by (simp only: to_uint_def)
  have h: "0 \<le> (get_val s P_HUM_P * 10) sdiv 2" using assms(4) by (simp add: sdiv_pos)
  obtain d where "spray_duty v s = Some (d, s\<lparr>shm_out := m\<rparr>)" "0 \<le> d" "d \<le> 1000" "get_val s P_AO_HM < get_val s R_AI_HM \<longrightarrow> d = 0"
    using assms(6-8) u h by (simp add: spray_duty_def f(1) Let_def g p)
  then show ?thesis using that f(2,3) by blast
qed

lemma humi_cells [cells]: "get_int (s\<lparr>st_humi := y\<rparr>) i = get_int s i"
  by (simp add: get_int_def)

text \<open>One pass of the PID; \<open>m\<close> differs from the memory before in the window and in the cells 934 to 937, 940 and 941.\<close>

lemma pid_humi_init_run:
  assumes "INT_MAX \<le> lmax" "humi_loop s"
  obtains s' d where "pid_humi_init lmax s = Some s'" "humi_loop s'" "get_int s' PID_HUMI_NEW_HUMIDIFICATION = d" "0 \<le> d" "d \<le> 1000"
    "get_val s P_AO_HM < get_val s R_AI_HM \<longrightarrow> d = 0"
    "\<forall>j. j \<notin> {800..<900} \<union> {934..937} \<union> {940, 941} \<longrightarrow> shm_out s' j = shm_out s j" "g_fan_status s' = g_fan_status s"
    "st_temp s' = st_temp s"
proof -
  let ?pv = "get_val s R_AI_HM" and ?sp = "get_val s P_AO_HM"
  note inv = assms(2)[unfolded humi_loop_def]
  have "\<bar>?sp - ?pv\<bar> \<le> 65535" using get_ranges(1,2)[of s R_AI_HM] get_ranges(1,2)[of s P_AO_HM] by linarith
  then obtain v st x where c: "pid_calc2 lmax ?pv ?sp s = Some (v, (set_int PID_HUMI_SUM x s)\<lparr>st_humi := st\<rparr>)" "pid_ok st"
    "wound P_HUM_I PID_HUMI_SUM (set_int PID_HUMI_SUM x s)" "get_val s P_HUM_OLO * 100 \<le> v" "v \<le> get_val s P_HUM_OHI * 100"
    using pid_calc2_ok[OF assms(1)] inv by blast
  define s2 where "s2 = set_int PID_HUMI_VALUE v ((set_int PID_HUMI_SUM x s)\<lparr>st_humi := st\<rparr>)"
  have o2: "shm_out s2 j = shm_out s j" if "j \<notin> {934..937}" for j
    using that by (auto simp: s2_def set_int_def write_int_other)
  have g2: "get_val s2 j = get_val s j" "get_e10_val s2 j = get_e10_val s j" if "j < 900" for j
    using get_same[OF o2[of j]] that by simp_all
  have w2: "window_ok FILTER_PID_HUMI_ARR 50 s2" using inv window_ok_same[of FILTER_PID_HUMI_ARR 50 s2 s] o2 by simp
  have i2: "get_int s2 PID_HUMI_SUM = get_int (set_int PID_HUMI_SUM x s) PID_HUMI_SUM"
    by (simp add: s2_def cells)
  have v: "0 \<le> v" "v \<le> 32767" using c(4,5) inv by linarith+
  have pr: "0 \<le> get_val s2 P_HUM_P" "get_val s2 P_HUM_P \<le> 1000" "0 \<le> get_val s2 P_HUM_OLO" "get_val s2 P_HUM_OLO \<le> get_val s2 P_HUM_OHI"
    "get_val s2 P_HUM_OHI \<le> 100" using inv by (simp_all add: g2 tuned_def)
  obtain d m where d: "spray_duty v s2 = Some (d, s2\<lparr>shm_out := m\<rparr>)" "0 \<le> d" "d \<le> 1000" "get_val s2 P_AO_HM < get_val s2 R_AI_HM \<longrightarrow> d = 0"
    "window_ok FILTER_PID_HUMI_ARR 50 (s2\<lparr>shm_out := m\<rparr>)" "\<forall>j. j < 800 \<or> 900 \<le> j \<longrightarrow> m j = shm_out s2 j"
    by (rule spray_duty_ok[OF w2 v pr])
  define s' where "s' = set_int PID_HUMI_NEW_HUMIDIFICATION d (s2\<lparr>shm_out := m\<rparr>)"
  have o': "shm_out s' j = shm_out s2 j" if "j \<notin> {800..<900} \<union> {940, 941}" for j
    using that d(6) by (auto simp: s'_def set_int_def write_int_other)
  have g': "get_val s' j = get_val s2 j" "get_e10_val s' j = get_e10_val s2 j" if "j < 800" for j
    using get_same[OF o'[of j]] that by simp_all
  have i': "get_int s' PID_HUMI_SUM = get_int s2 PID_HUMI_SUM" by (rule get_same(3); rule o') simp_all
  have w': "window_ok FILTER_PID_HUMI_ARR 50 s'" using d(5) by (simp add: s'_def cells)
  have st: "st_humi s' = st" by (simp add: s'_def s2_def set_int_def)
  have "humi_loop s'" using inv c(2,3) w' by (simp add: humi_loop_def tuned_def wound_def g' g2 i' i2 st cells)
  moreover have "pid_humi_init lmax s = Some s'" using c(1) d(1) by (simp add: pid_humi_init_def s2_def[symmetric] s'_def)
  moreover have "get_int s' PID_HUMI_NEW_HUMIDIFICATION = d" using d(2,3) by (simp add: s'_def cells to_int_in)
  moreover have "get_val s P_AO_HM < get_val s R_AI_HM \<longrightarrow> d = 0" using d(4) by (simp add: g2)
  moreover have "\<forall>j. j \<notin> {800..<900} \<union> {934..937} \<union> {940, 941} \<longrightarrow> shm_out s' j = shm_out s j" using o' o2 by auto
  moreover have "g_fan_status s' = g_fan_status s" "st_temp s' = st_temp s" by (simp_all add: s'_def s2_def set_int_def)
  ultimately show ?thesis using that d(2,3) by blast
qed

section \<open>The humidifier stays off\<close>

lemma control_spray_off: "control_spray x s = s \<or> control_spray x s = set_val CONTROL_SPRAY 0 s"
  by (simp add: control_spray_def)

lemma spray_cells:
  "j \<noteq> CONTROL_SPRAY \<Longrightarrow> shm_out (control_spray x s) j = shm_out s j" "st_humi (control_spray x s) = st_humi s"
  "get_val (control_spray x s) CONTROL_SPRAY \<in> {0, get_val s CONTROL_SPRAY}"
  using control_spray_off[of x s] by (auto simp: set_val_def[of CONTROL_SPRAY 0] cells) (auto simp: set_val_def[symmetric] cells to_short_in)

lemma spray_temp: "st_temp (control_spray x s) = st_temp s"
  using control_spray_off[of x s] by (auto simp: set_val_def)

definition humi_ready :: "ctl \<Rightarrow> bool" where
  "humi_ready s \<longleftrightarrow> humi_loop s \<and> \<bar>get_int s PID_HUMI_OLD_HUMIDIFICATION\<bar> \<le> 1000"

lemma humi_loop_same:
  assumes "\<And>j. j < 900 \<Longrightarrow> j \<noteq> CONTROL_SPRAY \<Longrightarrow> shm_out s' j = shm_out s j" "st_humi s' = st_humi s"
    and "wound P_HUM_I PID_HUMI_SUM s'" "humi_loop s"
  shows "humi_loop s'"
proof -
  have "window_ok FILTER_PID_HUMI_ARR 50 s' = window_ok FILTER_PID_HUMI_ARR 50 s" by (rule window_ok_same) (simp add: assms(1))
  moreover have "get_val s' j = get_val s j" if "j < 900" "j \<noteq> CONTROL_SPRAY" for j
    using that assms(1) by (auto intro: get_same)
  ultimately show ?thesis using assms(2-4) by (simp add: humi_loop_def tuned_def)
qed

definition humi_reset :: "ctl \<Rightarrow> ctl" where
  "humi_reset s = set_int PID_PERIOD_COUNT_HUMI 0 (set_int PID_HUMI_SUM 0 s)"

lemma humi_reset_ok:
  assumes "humi_ready s"
  shows "humi_ready (humi_reset (control_spray x s))" "get_val (humi_reset (control_spray x s)) CONTROL_SPRAY \<in> {0, get_val s CONTROL_SPRAY}"
proof -
  let ?t = "control_spray x s" and ?s' = "humi_reset (control_spray x s)"
  have o: "shm_out ?s' j = shm_out s j" if "j \<notin> {CONTROL_SPRAY, 934, 935, 942, 943}" for j
    using that spray_cells(1)[of j x s] by (auto simp: humi_reset_def set_int_def write_int_other)
  have i: "get_e10_val ?s' P_HUM_I = get_e10_val s P_HUM_I" by (rule get_same(2); rule o) simp
  have "get_int ?s' PID_HUMI_OLD_HUMIDIFICATION = get_int s PID_HUMI_OLD_HUMIDIFICATION" by (rule get_same(3); rule o) simp_all
  moreover have "0 \<le> get_e10_val s P_HUM_I"
    using assms by (auto simp: humi_ready_def humi_loop_def tuned_def get_e10_val_val sdiv_pos pos_imp_zdiv_nonneg_iff)
  then have "wound P_HUM_I PID_HUMI_SUM ?s'" by (simp add: wound_def i) (simp add: humi_reset_def cells to_int_in)
  moreover have "st_humi ?s' = st_humi s" using spray_cells(2)[of x s] by (simp add: humi_reset_def set_int_def)
  ultimately show "humi_ready ?s'" using assms o humi_loop_same[of ?s' s] by (simp add: humi_ready_def)
  show "get_val ?s' CONTROL_SPRAY \<in> {0, get_val s CONTROL_SPRAY}" using spray_cells(3)[of x s] by (simp add: humi_reset_def cells)
qed

definition humi_band :: "ctl \<Rightarrow> bool" where
  "humi_band s \<longleftrightarrow> (let half = 5 * get_val s P_HUM_P; spr = get_val s P_HUM_SPR
     in get_val s R_AI_TP_MAIN > get_val s LOW_TEMP_ALARM_VALUE \<and> get_val s R_AI_HM \<ge> get_val s P_AO_HM - half \<and>
        get_val s R_AI_HM \<le> get_val s P_AO_HM + (if spr < half then spr else half))"

text \<open>Within the band: the period starts anew, or the spray is asked for.\<close>

lemma humi_band_run:
  assumes "INT_MAX \<le> lmax" "humi_ready s" "humi_band s"
  obtains s1 d t c s2 where "logic_process_humi_func lmax s = Some (set_int PID_HUMI_OLD_HUMIDIFICATION d s2)"
    "pid_humi_init lmax s = Some s1" "humi_loop s1" "0 \<le> d" "d \<le> 1000" "get_val s P_AO_HM < get_val s R_AI_HM \<longrightarrow> d = 0"
    "\<forall>j. j \<notin> {800..<900} \<union> {934..937} \<union> {940, 941} \<longrightarrow> shm_out s1 j = shm_out s j" "g_fan_status s1 = g_fan_status s" "st_temp s1 = st_temp s"
    "s2 = set_time PID_PERIOD_COUNT_HUMI (get_uval s1 P_HUM_TO)
       (set_time PID_ON_COUNT_HUMI (to_uint (get_uval s1 P_HUM_TO - to_uint (d * get_uval s1 P_HUM_TO sdiv 1000))) s1) \<or>
     get_time s1 PID_PERIOD_COUNT_HUMI \<noteq> 0 \<and> s2 = control_spray t s1"
proof -
  have lo: "humi_loop s" and old: "\<bar>get_int s PID_HUMI_OLD_HUMIDIFICATION\<bar> \<le> 1000" using assms(2) by (simp_all add: humi_ready_def)
  have pr: "0 \<le> get_val s P_HUM_P" "get_val s P_HUM_P \<le> 1000" using lo by (simp_all add: humi_loop_def tuned_def)
  have p: "get_x10_val s P_HUM_P = Some (get_val s P_HUM_P * 10)" using pr by (intro get_x10_val_in) simp
  have h: "(get_val s P_HUM_P * 10) sdiv 2 = 5 * get_val s P_HUM_P" using pr(1) by (simp add: sdiv_pos)
  obtain s1 d where i: "pid_humi_init lmax s = Some s1" "humi_loop s1" "get_int s1 PID_HUMI_NEW_HUMIDIFICATION = d" "0 \<le> d" "d \<le> 1000"
    "get_val s P_AO_HM < get_val s R_AI_HM \<longrightarrow> d = 0"
    "\<forall>j. j \<notin> {800..<900} \<union> {934..937} \<union> {940, 941} \<longrightarrow> shm_out s1 j = shm_out s j" "g_fan_status s1 = g_fan_status s" "st_temp s1 = st_temp s"
    by (rule pid_humi_init_run[OF assms(1) lo])
  have o: "get_int s1 PID_HUMI_OLD_HUMIDIFICATION = get_int s PID_HUMI_OLD_HUMIDIFICATION" by (rule get_same(3)) (simp_all add: i(7))
  have f: "fits INT_MAX (d - get_int s PID_HUMI_OLD_HUMIDIFICATION) = Some (d - get_int s PID_HUMI_OLD_HUMIDIFICATION)"
    "fits INT_MAX \<bar>d - get_int s PID_HUMI_OLD_HUMIDIFICATION\<bar> = Some \<bar>d - get_int s PID_HUMI_OLD_HUMIDIFICATION\<bar>"
    using old i(4,5) unfolding INT_MAX_def by (intro fits_in; linarith)+
  have "\<bar>d * get_uval s1 P_HUM_TO\<bar> \<le> 1000 * 65536" unfolding abs_mult
    using i(4,5) get_ranges(3,4)[of s1 P_HUM_TO] by (intro mult_mono) linarith+
  then have m: "fits INT_MAX (d * get_uval s1 P_HUM_TO) = Some (d * get_uval s1 P_HUM_TO)" unfolding INT_MAX_def by (intro fits_in) linarith+
  define ch where "ch \<longleftrightarrow> get_int s PID_HUMI_OLD_HUMIDIFICATION = 0 \<and> d \<noteq> 0 \<or> 500 \<le> \<bar>d - get_int s PID_HUMI_OLD_HUMIDIFICATION\<bar>"
  have b: "get_val s R_AI_TP_MAIN > get_val s LOW_TEMP_ALARM_VALUE" "\<not> get_val s R_AI_HM < get_val s P_AO_HM - 5 * get_val s P_HUM_P"
    "get_val s R_AI_HM \<ge> get_val s P_AO_HM - 5 * get_val s P_HUM_P \<and>
      get_val s R_AI_HM \<le> get_val s P_AO_HM + (if get_val s P_HUM_SPR < 5 * get_val s P_HUM_P then get_val s P_HUM_SPR else 5 * get_val s P_HUM_P)"
    using assms(3) by (simp_all add: humi_band_def Let_def)
  have ch': "(if get_int s PID_HUMI_OLD_HUMIDIFICATION = 0 \<and> d \<noteq> 0 then Some True
      else Some (500 \<le> \<bar>d - get_int s PID_HUMI_OLD_HUMIDIFICATION\<bar>)) = Some ch" by (auto simp: ch_def)
  let ?A = "set_time PID_PERIOD_COUNT_HUMI (get_uval s1 P_HUM_TO)
       (set_time PID_ON_COUNT_HUMI (to_uint (get_uval s1 P_HUM_TO - to_uint (d * get_uval s1 P_HUM_TO sdiv 1000))) s1)"
  have run: "logic_process_humi_func lmax s = Some (set_int PID_HUMI_OLD_HUMIDIFICATION d
      (if get_time s1 PID_PERIOD_COUNT_HUMI = 0 \<or> ch then ?A
       else if get_time s1 PID_PERIOD_COUNT_HUMI > 0 \<and> get_time s1 PID_PERIOD_COUNT_HUMI \<ge> get_time s1 PID_ON_COUNT_HUMI \<and>
               get_val s R_AI_HM < get_val s P_AO_HM + get_val s P_HUM_SPR then control_spray 1 s1
       else control_spray 0 s1))"
    unfolding logic_process_humi_func_def p Let_def bind.bind_lunit h
    by (simp only: b if_True if_False simp_thms i(1,3) o f m ch' bind.bind_lunit)
  show ?thesis
  proof (cases "get_time s1 PID_PERIOD_COUNT_HUMI = 0 \<or> ch")
    case True
    then show ?thesis using run that[OF _ i(1,2,4-9)] by auto
  next
    case False
    then show ?thesis using run that[OF _ i(1,2,4-9), of "control_spray 1 s1" 1] that[OF _ i(1,2,4-9), of "control_spray 0 s1" 0] by (auto split: if_splits)
  qed
qed

definition humi_frame :: "ctl \<Rightarrow> ctl \<Rightarrow> bool" where
  "humi_frame s s' \<longleftrightarrow> (\<forall>j. j \<notin> {CONTROL_SPRAY} \<union> {800..<900} \<union> {934..945} \<longrightarrow> shm_out s' j = shm_out s j) \<and> st_temp s' = st_temp s"

lemma humi_band_ok:
  assumes "INT_MAX \<le> lmax" "humi_ready s" "humi_band s"
  shows "\<exists>s'. logic_process_humi_func lmax s = Some s' \<and> humi_ready s' \<and> get_val s' CONTROL_SPRAY \<in> {0, get_val s CONTROL_SPRAY} \<and>
    humi_frame s s'"
proof -
  obtain s1 d t c s2 where b: "logic_process_humi_func lmax s = Some (set_int PID_HUMI_OLD_HUMIDIFICATION d s2)"
    "pid_humi_init lmax s = Some s1" "humi_loop s1" "0 \<le> d" "d \<le> 1000" "get_val s P_AO_HM < get_val s R_AI_HM \<longrightarrow> d = 0"
    "\<forall>j. j \<notin> {800..<900} \<union> {934..937} \<union> {940, 941} \<longrightarrow> shm_out s1 j = shm_out s j" "g_fan_status s1 = g_fan_status s" "st_temp s1 = st_temp s"
    "s2 = set_time PID_PERIOD_COUNT_HUMI (get_uval s1 P_HUM_TO)
       (set_time PID_ON_COUNT_HUMI (to_uint (get_uval s1 P_HUM_TO - to_uint (d * get_uval s1 P_HUM_TO sdiv 1000))) s1) \<or>
     get_time s1 PID_PERIOD_COUNT_HUMI \<noteq> 0 \<and> s2 = control_spray t s1"
    by (rule humi_band_run[OF assms])
  let ?s' = "set_int PID_HUMI_OLD_HUMIDIFICATION d s2"
  have c2: "shm_out s2 j = shm_out s1 j" if "j \<notin> {CONTROL_SPRAY} \<union> {942..945}" for j
    using b(10) that spray_cells(1)[of j t s1] by (auto simp: set_time_def write_int_other)
  have st2: "st_humi s2 = st_humi s1" using b(10) spray_cells(2)[of t s1] by (auto simp: set_time_def)
  have o: "shm_out ?s' j = shm_out s1 j" if "j \<notin> {CONTROL_SPRAY, 938, 939} \<union> {942..945}" for j
    using c2[of j] that by (auto simp: set_int_def write_int_other)
  have i: "get_e10_val ?s' P_HUM_I = get_e10_val s1 P_HUM_I" by (rule get_same(2); rule o) simp
  have w: "get_int ?s' PID_HUMI_SUM = get_int s1 PID_HUMI_SUM" by (rule get_same(3); rule o) simp_all
  have "wound P_HUM_I PID_HUMI_SUM ?s'" using b(3) by (simp add: wound_def i w humi_loop_def)
  moreover have "st_humi ?s' = st_humi s1" by (simp add: set_int_def st2)
  ultimately have "humi_loop ?s'" using o humi_loop_same[of ?s' s1] b(3) by simp
  moreover have "get_int ?s' PID_HUMI_OLD_HUMIDIFICATION = d" using b(4,5) by (simp add: cells to_int_in)
  ultimately have "humi_ready ?s'" using b(4,5) by (simp add: humi_ready_def)
  moreover have "get_val s1 CONTROL_SPRAY = get_val s CONTROL_SPRAY" by (rule get_same(1)) (simp add: b(7))
  then have "get_val ?s' CONTROL_SPRAY \<in> {0, get_val s CONTROL_SPRAY}" using b(10) spray_cells(3)[of t s1] by (auto simp: cells)
  moreover have "humi_frame s ?s'"
    using o b(7,9,10) spray_temp[of t s1] by (auto simp: humi_frame_def set_int_def set_time_def)
  ultimately show ?thesis using b(1) by blast
qed

lemma humi_reset_frame: "humi_frame s (humi_reset (control_spray x s))"
  using spray_cells(1)[of _ x s] spray_temp[of x s] by (auto simp: humi_frame_def humi_reset_def set_int_def write_int_other)

lemma humidity_run:
  assumes "INT_MAX \<le> lmax" "humi_ready s"
  shows "\<exists>s'. logic_process_humi_func lmax s = Some s' \<and> humi_ready s' \<and> get_val s' CONTROL_SPRAY \<in> {0, get_val s CONTROL_SPRAY} \<and>
    humi_frame s s'"
proof (cases "humi_band s")
  case True
  then show ?thesis by (rule humi_band_ok[OF assms])
next
  case False
  have "0 \<le> get_val s P_HUM_P" "get_val s P_HUM_P \<le> 1000" using assms(2) by (simp_all add: humi_ready_def humi_loop_def tuned_def)
  then have p: "get_x10_val s P_HUM_P = Some (get_val s P_HUM_P * 10)" "(get_val s P_HUM_P * 10) sdiv 2 = 5 * get_val s P_HUM_P"
    by (auto intro: get_x10_val_in simp: sdiv_pos)
  have "\<exists>x. logic_process_humi_func lmax s = Some (humi_reset (control_spray x s)) \<or> logic_process_humi_func lmax s = Some s"
    using False by (auto simp: logic_process_humi_func_def humi_band_def p Let_def humi_reset_def)
  then show ?thesis using humi_reset_ok[OF assms(2)] assms(2) humi_reset_frame by (auto simp: humi_frame_def)
qed

text \<open>
  C16. The humidity control never fails and never switches the humidifier on: from every state with parameters in range and the
  sum, the window and the last duty in range, whatever the sensors, alarms and set values are, it returns, the ranges hold
  again, and the output of the humidifier is off or what it was. For the lamp of the high humidity is tested by its address
  and not by its cell, so that every request to switch on ends in switching off.
\<close>

theorem humidifier_stays_off:
  assumes "INT_MAX \<le> lmax" "humi_ready s"
  shows "\<exists>s'. logic_process_humi_func lmax s = Some s' \<and> humi_ready s' \<and> get_val s' CONTROL_SPRAY \<in> {0, get_val s CONTROL_SPRAY}"
  using humidity_run[OF assms] by blast

lemma humi_ready_power_on: "humi_ready power_on"
proof -
  have "window_ok FILTER_PID_HUMI_ARR 50 power_on"
  proof -
    have "bytes_int (cell_bytes (0 :: 16 word) @ cell_bytes (0 :: 16 word)) = 0" by (simp add: bytes_int_def cell_bytes_def)
    then show ?thesis by (simp add: window_ok_def window_get_def power_on_def)
  qed
  moreover have "st_humi power_on = \<lparr>vn_1 = 0, wn_1 = 0, yn_1 = 0\<rparr>" by (simp add: power_on_def)
  ultimately show ?thesis by (simp add: humi_ready_def humi_loop_def tuned_def wound_def pid_ok_def)
qed

theorem humidifier_stays_off_witness:
  "\<exists>s'. logic_process_humi_func INT_MAX power_on = Some s' \<and> get_val s' CONTROL_SPRAY = 0"
  using humidifier_stays_off[OF order_refl humi_ready_power_on] by auto

lemma get_second_cell: "get_val (set_time a x s) (Suc a) = to_short x"
proof -
  let ?w = "word_of_int x :: 32 word"
  obtain b0 b1 b2 b3 where b: "int_bytes ?w = [b0, b1, b2, b3]" "b0 = ucast ?w" "b1 = ucast (drop_bit 8 ?w)" by (simp add: int_bytes_def)
  have "swap_cell (bytes_cell [b1, b0]) = bytes_cell [b0, b1]"
    using cell_bytes_cell[of b1 b0] by (simp add: swap_cell_bytes cell_bytes_def)
  also have "\<dots> = ucast ?w" unfolding b(2,3) bytes_cell_of
  proof (rule bit_word_eqI)
    fix n
    assume "n < LENGTH(16)"
    then show "bit ((ucast (ucast ?w :: 8 word) :: 16 word) OR push_bit 8 (ucast (ucast (drop_bit 8 ?w) :: 8 word))) n = bit (ucast ?w :: 16 word) n"
      by (cases "n < 8") (auto simp: bit_simps)
  qed
  also have "\<dots> = word_of_int x" by (auto simp: bit_eq_iff bit_simps)
  finally show ?thesis by (simp add: get_val_def shm2short_def set_time_def write_int_def Let_def b(1) swap_int_list to_short_def)
qed

text \<open>
  C39. The period of the humidity overwrites the damper: \<open>PID_ON_COUNT_HUMI\<close> takes the cells 944 and 945, and 945 is
  \<open>PID_AD_VALUE\<close>, from which the PID of the damper measures how far it may open. A period that begins while the air is
  more humid than its set value stores \<open>P_HUM_TO\<close>, a number of seconds, as that position.
\<close>

theorem humidity_overwrites_damper:
  assumes "INT_MAX \<le> lmax" "humi_ready s" "humi_band s" "get_val s P_AO_HM < get_val s R_AI_HM" "get_time s PID_PERIOD_COUNT_HUMI = 0"
  shows "\<exists>s'. logic_process_humi_func lmax s = Some s' \<and> get_val s' PID_AD_VALUE = get_val s P_HUM_TO"
proof -
  obtain s1 d t c s2 where b: "logic_process_humi_func lmax s = Some (set_int PID_HUMI_OLD_HUMIDIFICATION d s2)"
    "pid_humi_init lmax s = Some s1" "humi_loop s1" "0 \<le> d" "d \<le> 1000" "get_val s P_AO_HM < get_val s R_AI_HM \<longrightarrow> d = 0"
    "\<forall>j. j \<notin> {800..<900} \<union> {934..937} \<union> {940, 941} \<longrightarrow> shm_out s1 j = shm_out s j" "g_fan_status s1 = g_fan_status s" "st_temp s1 = st_temp s"
    "s2 = set_time PID_PERIOD_COUNT_HUMI (get_uval s1 P_HUM_TO)
       (set_time PID_ON_COUNT_HUMI (to_uint (get_uval s1 P_HUM_TO - to_uint (d * get_uval s1 P_HUM_TO sdiv 1000))) s1) \<or>
     get_time s1 PID_PERIOD_COUNT_HUMI \<noteq> 0 \<and> s2 = control_spray t s1"
    by (rule humi_band_run[OF assms(1-3)])
  have "get_time s1 PID_PERIOD_COUNT_HUMI = get_time s PID_PERIOD_COUNT_HUMI"
    using b(7) by (simp add: get_time_def read_int_def)
  moreover have "get_uval s1 P_HUM_TO = get_uval s P_HUM_TO" using b(7) by (simp add: get_uval_def)
  moreover have "to_uint (get_uval s P_HUM_TO) = get_uval s P_HUM_TO" "to_uint 0 = 0"
    using get_ranges(3,4)[of s P_HUM_TO] by (simp_all add: to_uint_in)
  moreover have "0 sdiv 1000 = (0 :: int)" by simp
  ultimately have "s2 = set_time PID_PERIOD_COUNT_HUMI (get_uval s P_HUM_TO) (set_time PID_ON_COUNT_HUMI (get_uval s P_HUM_TO) s1)"
    using b(6,10) assms(4,5) by simp
  moreover have "get_val (set_time PID_ON_COUNT_HUMI (get_uval s P_HUM_TO) s1) PID_AD_VALUE = get_val s P_HUM_TO"
    using get_second_cell[of PID_ON_COUNT_HUMI "get_uval s P_HUM_TO" s1] by simp
  ultimately have "get_val (set_int PID_HUMI_OLD_HUMIDIFICATION d s2) PID_AD_VALUE = get_val s P_HUM_TO" by (simp add: cells)
  then show ?thesis using b(1) by blast
qed

theorem humidity_overwrites_damper_witness:
  defines "s \<equiv> set_val R_AI_TP_MAIN 1 (set_val P_HUM_P 6 (set_val P_HUM_SPR 10 (set_val R_AI_HM 5 (set_val P_HUM_TO 60 power_on))))"
  shows "\<exists>s'. logic_process_humi_func INT_MAX s = Some s' \<and> get_val s' PID_AD_VALUE = 60"
proof -
  have w: "window_ok FILTER_PID_HUMI_ARR 50 s"
    using humi_ready_power_on by (simp add: s_def cells humi_ready_def humi_loop_def)
  have "st_humi s = st_humi power_on" by (simp add: s_def set_val_def)
  then have "pid_ok (st_humi s)" using humi_ready_power_on by (simp add: humi_ready_def humi_loop_def)
  with w have "humi_ready s"
    by (simp add: humi_ready_def humi_loop_def tuned_def wound_def) (simp add: s_def cells to_short_in)
  moreover have "humi_band s" by (simp add: humi_band_def s_def cells to_short_in Let_def)
  ultimately have "\<exists>s'. logic_process_humi_func INT_MAX s = Some s' \<and> get_val s' PID_AD_VALUE = get_val s P_HUM_TO"
    by (rule humidity_overwrites_damper[OF order_refl]) (simp_all add: s_def cells to_short_in)
  moreover have "get_val s P_HUM_TO = 60" by (simp add: s_def cells to_short_in)
  ultimately show ?thesis by simp
qed

end
