(* ===== verification/ControlLoops.thy ===== *)
theory ControlLoops
  imports Humidity
begin

text \<open>
  The two control loops of the air, temperature and humidity, on the one memory they share: their passes alternate in any order with
  everything else that happens, and neither disturbs the other.
\<close>

section \<open>The contract of a loop\<close>

text \<open>A pass that returns in every ready state, and steps of the whole system that keep its states ready.\<close>

locale control_loop =
  fixes pass :: "'s \<Rightarrow> 's option"
    and ready :: "'s \<Rightarrow> bool"
    and step :: "'s \<Rightarrow> 's \<Rightarrow> bool"
  assumes pass_returns: "ready s \<Longrightarrow> \<exists>s'. pass s = Some s'"
    and step_ready: "ready s \<Longrightarrow> step s t \<Longrightarrow> ready t"
begin

lemma stays_ready: "step\<^sup>*\<^sup>* s t \<Longrightarrow> ready s \<Longrightarrow> ready t"
  by (induction rule: rtranclp_induct) (auto intro: step_ready)

lemma always_returns: "step\<^sup>*\<^sup>* s t \<Longrightarrow> ready s \<Longrightarrow> \<exists>t'. pass t = Some t'"
  by (auto intro: pass_returns stays_ready)

end

section \<open>The cells of the loops\<close>

definition temp_cells :: "nat set" where
  "temp_cells = {P_TEMP_P, P_TEMP_I, P_TEMP_D, P_TEMP_OHI, P_TEMP_OLO, P_HHI, P_HLO} \<union> {700..<720} \<union> {902, 903}"

definition humi_cells :: "nat set" where
  "humi_cells = {P_HUM_P, P_HUM_I, P_HUM_D, P_HUM_OHI, P_HUM_OLO} \<union> {800..<900} \<union> {934, 935, 938, 939}"

lemma temp_loop_frame:
  assumes "\<And>j. j \<in> temp_cells \<Longrightarrow> shm_out s' j = shm_out s j" "st_temp s' = st_temp s" "temp_loop s"
  shows "temp_loop s'"
proof -
  have "window_ok FILTER_PID_TEMP_ARR 10 s' = window_ok FILTER_PID_TEMP_ARR 10 s"
    by (rule window_ok_same) (simp add: assms(1) temp_cells_def)
  moreover have "get_val s' j = get_val s j" "get_e10_val s' j = get_e10_val s j" if "j \<in> temp_cells" for j
    using that by (auto intro: get_same assms(1))
  moreover have "get_int s' PID_TEMP_SUM = get_int s PID_TEMP_SUM" by (rule get_same(3); rule assms(1)) (simp_all add: temp_cells_def)
  ultimately show ?thesis using assms(2,3) by (simp add: temp_loop_def tuned_def wound_def temp_cells_def)
qed

lemma humi_ready_frame:
  assumes "\<And>j. j \<in> humi_cells \<Longrightarrow> shm_out s' j = shm_out s j" "st_humi s' = st_humi s" "humi_ready s"
  shows "humi_ready s'"
proof -
  have "window_ok FILTER_PID_HUMI_ARR 50 s' = window_ok FILTER_PID_HUMI_ARR 50 s"
    by (rule window_ok_same) (simp add: assms(1) humi_cells_def)
  moreover have "get_val s' j = get_val s j" "get_e10_val s' j = get_e10_val s j" if "j \<in> humi_cells" for j
    using that by (auto intro: get_same assms(1))
  moreover have "get_int s' PID_HUMI_SUM = get_int s PID_HUMI_SUM"
    "get_int s' PID_HUMI_OLD_HUMIDIFICATION = get_int s PID_HUMI_OLD_HUMIDIFICATION"
    by (rule get_same(3); rule assms(1); simp add: humi_cells_def)+
  ultimately show ?thesis using assms(2,3) by (simp add: humi_ready_def humi_loop_def tuned_def wound_def humi_cells_def)
qed

section \<open>The loops together\<close>

definition loops_ready :: "int \<Rightarrow> ctl \<Rightarrow> bool" where
  "loops_ready lmax s \<longleftrightarrow> INT_MAX \<le> lmax \<and> temp_loop s \<and> humi_ready s"

inductive loop_step :: "int \<Rightarrow> ctl \<Rightarrow> ctl \<Rightarrow> bool" for lmax where
  temperature: "pid_temp_init lmax s = Some s' \<Longrightarrow> loop_step lmax s s'"
| humidity: "logic_process_humi_func lmax s = Some s' \<Longrightarrow> loop_step lmax s s'"
| elsewhere: "\<forall>j \<in> temp_cells \<union> humi_cells. shm_out s' j = shm_out s j \<Longrightarrow> st_temp s' = st_temp s \<Longrightarrow> st_humi s' = st_humi s \<Longrightarrow>
    loop_step lmax s s'"

lemma temperature_ready:
  assumes "loops_ready lmax s"
  obtains s' where "pid_temp_init lmax s = Some s'" "loops_ready lmax s'"
proof -
  have r: "INT_MAX \<le> lmax" "temp_loop s" "humi_ready s" using assms by (simp_all add: loops_ready_def)
  obtain s' where s': "pid_temp_init lmax s = Some s'" "temp_loop s'" "st_humi s' = st_humi s"
    and f: "\<forall>j. j \<notin> {700..<720} \<union> {902..930} \<longrightarrow> shm_out s' j = shm_out s j"
    using pid_temp_init_run[OF r(1,2)] by blast
  have "humi_ready s'" by (rule humi_ready_frame[OF _ s'(3) r(3)]) (use f in \<open>auto simp: humi_cells_def\<close>)
  then show ?thesis using that s'(1,2) r(1) by (simp add: loops_ready_def)
qed

lemma humidity_ready:
  assumes "loops_ready lmax s"
  obtains s' where "logic_process_humi_func lmax s = Some s'" "loops_ready lmax s'"
proof -
  have r: "INT_MAX \<le> lmax" "temp_loop s" "humi_ready s" using assms by (simp_all add: loops_ready_def)
  obtain s' where s': "logic_process_humi_func lmax s = Some s'" "humi_ready s'" "humi_frame s s'"
    using humidity_run[OF r(1,3)] by blast
  have "temp_loop s'" by (rule temp_loop_frame[OF _ _ r(2)]) (use s'(3) in \<open>auto simp: humi_frame_def temp_cells_def\<close>)
  then show ?thesis using that s'(1,2) r(1) by (simp add: loops_ready_def)
qed

lemma loop_step_ready: "loop_step lmax s t \<Longrightarrow> loops_ready lmax s \<Longrightarrow> loops_ready lmax t"
proof (induction rule: loop_step.induct)
  case (temperature s s')
  then show ?case by (metis temperature_ready option.inject)
next
  case (humidity s s')
  then show ?case by (metis humidity_ready option.inject)
next
  case (elsewhere s' s)
  then show ?case by (auto simp: loops_ready_def intro: temp_loop_frame[of s' s] humi_ready_frame[of s' s])
qed

interpretation temperature_loop: control_loop "pid_temp_init lmax" "loops_ready lmax" "loop_step lmax" for lmax
  by unfold_locales (auto elim: temperature_ready intro: loop_step_ready)

interpretation humidity_loop: control_loop "logic_process_humi_func lmax" "loops_ready lmax" "loop_step lmax" for lmax
  by unfold_locales (auto elim: humidity_ready intro: loop_step_ready)

text \<open>
  C4. The control of the air never stops: from parameters in range and sums at rest, whatever the order in which the passes of
  temperature and humidity come, and whatever else happens to the rest of the memory (sensors, set values, alarms, the timer,
  all other functions), the next pass of either returns: nothing ever overflows or divides by zero, and no sum leaves its range.
\<close>

theorem control_loops_never_stop:
  assumes "INT_MAX \<le> lmax" "temp_loop s" "humi_ready s" "(loop_step lmax)\<^sup>*\<^sup>* s t"
  shows "(\<exists>t'. pid_temp_init lmax t = Some t') \<and> (\<exists>t'. logic_process_humi_func lmax t = Some t') \<and>
    wound P_TEMP_I PID_TEMP_SUM t \<and> wound P_HUM_I PID_HUMI_SUM t"
proof -
  have r: "loops_ready lmax s" using assms(1-3) by (simp add: loops_ready_def)
  have "loops_ready lmax t" using temperature_loop.stays_ready[OF assms(4) r] .
  then have "wound P_TEMP_I PID_TEMP_SUM t" "wound P_HUM_I PID_HUMI_SUM t" by (simp_all add: loops_ready_def temp_loop_def humi_ready_def humi_loop_def)
  then show ?thesis using temperature_loop.always_returns[OF assms(4) r] humidity_loop.always_returns[OF assms(4) r] by simp
qed

lemma loops_ready_start: "temp_loop (set_val P_HHI 50 power_on)" "humi_ready (set_val P_HHI 50 power_on)"
proof -
  let ?s = "set_val P_HHI 50 power_on"
  have b: "bytes_int (cell_bytes (0 :: 16 word) @ cell_bytes (0 :: 16 word)) = 0" by (simp add: bytes_int_def cell_bytes_def)
  have "window_ok FILTER_PID_TEMP_ARR 10 ?s" using b by (simp add: cells) (simp add: window_ok_def window_get_def power_on_def)
  moreover have "st_temp ?s = \<lparr>vn_1 = 0, wn_1 = 0, yn_1 = 0\<rparr>" by (simp add: cells) (simp add: power_on_def)
  ultimately show "temp_loop ?s" by (simp add: temp_loop_def tuned_def wound_def pid_ok_def to_short_in cells)
  show "humi_ready ?s"
    by (rule humi_ready_frame[OF _ _ humi_ready_power_on]) (auto simp: set_val_def humi_cells_def)
qed

theorem control_loops_never_stop_witness:
  "\<exists>t t'. logic_process_humi_func INT_MAX (set_val P_HHI 50 power_on) = Some t \<and> pid_temp_init INT_MAX t = Some t'"
proof -
  let ?s = "set_val P_HHI 50 power_on"
  obtain t where t: "logic_process_humi_func INT_MAX ?s = Some t"
    using control_loops_never_stop[OF order_refl loops_ready_start, of ?s] by auto
  then have "(loop_step INT_MAX)\<^sup>*\<^sup>* ?s t" by (intro r_into_rtranclp humidity)
  from control_loops_never_stop[OF order_refl loops_ready_start this] t show ?thesis by auto
qed

end
