(* ===== verification/Timer.thy ===== *)
theory Timer
  imports Actuators
begin

text \<open>
  \<open>timer_callback_func\<close> of \<open>src/src/jincubator.cpp\<close>, which the alarm signal calls every tenth of a second: it follows the
  damper by the time its motor runs and counts the seconds of all delays down.
\<close>

section \<open>The damper\<close>

definition countdown :: "nat \<Rightarrow> ctl \<Rightarrow> ctl" where
  "countdown c s = (if get_uval s c > 0 then set_uval c (get_uval s c - 1) s else s)"

definition damper_open_tick :: "ctl \<Rightarrow> ctl" where
  "damper_open_tick s =
     (if get_uval s DETECT_DAMPER_FULLY_OPEN > 0 then
        let s1 = set_uval CONTROL_DAMPER_OPEN 0 s;
            s2 = set_uval R_AI_AD (get_uval s1 DAMPER_MAX_LEN) s1;
            s3 = set_val TEST_DAMPER_OPEN_MODE 0 s2
        in set_val R_BTN_DR_ON 0 s3
      else if get_uval s CONTROL_DAMPER_OPEN > 0 then
        let s1 = set_uval AIR_DOOR_CLOSING_RUNNING_STATUS 0 s;
            s2 = (if get_uval s1 AIR_DOOR_OPEN_RUNNING_STATUS = 0 then
                    let t1 = set_uval AIR_DOOR_OPEN_RUNNING_TIME (get_uval s1 DAMPER_TIME_OPEN + get_uval s1 AIR_DOOR_CLOSING_RUNNING_TIME) s1;
                        t2 = set_uval AIR_DOOR_CLOSING_RUNNING_TIME 0 t1
                    in set_uval AIR_DOOR_OPEN_RUNNING_STATUS 1 t2
                  else s1);
            s3 = (if get_uval s2 AIR_DOOR_OPEN_RUNNING_TIME = 0 \<and> get_uval s2 AIR_DOOR_OPEN_RUNNING_STATUS = 1 then
                    if get_val s2 R_AI_AD < get_val s2 DAMPER_MAX_LEN then
                      set_uval AIR_DOOR_OPEN_RUNNING_STATUS 0 (set_uval R_AI_AD (get_val s2 R_AI_AD + 1) s2)
                    else s2
                  else s2)
        in countdown AIR_DOOR_OPEN_RUNNING_TIME s3
      else s)"

definition damper_close_tick :: "ctl \<Rightarrow> ctl" where
  "damper_close_tick s =
     (if get_uval s DETECT_DAMPER_FULLY_CLOSE > 0 then
        let s1 = set_uval CONTROL_DAMPER_CLOSE 0 s;
            s2 = set_uval R_AI_AD (get_uval s1 DAMPER_MIN_LEN) s1;
            s3 = set_val TEST_DAMPER_CLOSE_MODE 0 s2
        in set_val R_BTN_DR_OFF 0 s3
      else if get_uval s CONTROL_DAMPER_CLOSE > 0 then
        let s1 = set_uval AIR_DOOR_OPEN_RUNNING_STATUS 0 s;
            s2 = (if get_uval s1 AIR_DOOR_CLOSING_RUNNING_STATUS = 0 then
                    let t1 = set_uval AIR_DOOR_CLOSING_RUNNING_TIME (get_uval s1 DAMPER_TIME_CLOSE + get_uval s1 AIR_DOOR_OPEN_RUNNING_TIME) s1;
                        t2 = set_uval AIR_DOOR_OPEN_RUNNING_TIME 0 t1
                    in set_uval AIR_DOOR_CLOSING_RUNNING_STATUS 1 t2
                  else s1);
            s3 = (if get_uval s2 AIR_DOOR_CLOSING_RUNNING_TIME = 0 \<and> get_uval s2 AIR_DOOR_CLOSING_RUNNING_STATUS = 1 then
                    if get_val s2 R_AI_AD > get_val s2 DAMPER_MIN_LEN then
                      set_uval AIR_DOOR_CLOSING_RUNNING_STATUS 0 (set_val R_AI_AD (get_val s2 R_AI_AD - 1) s2)
                    else s2
                  else s2)
        in countdown AIR_DOOR_CLOSING_RUNNING_TIME s3
      else s)"

section \<open>The seconds\<close>

definition count_up :: "nat \<Rightarrow> nat \<Rightarrow> ctl \<Rightarrow> ctl" where
  "count_up on c s = (if get_val s on \<noteq> 0 then set_time c (get_time s c + 1) s else s)"

definition countdown_time :: "nat \<Rightarrow> ctl \<Rightarrow> ctl" where
  "countdown_time c s = (if get_time s c > 0 then set_time c (get_time s c - 1) s else s)"

text \<open>The counters in the order of the code.\<close>

definition second_counters :: "nat list" where
  "second_counters =
     [TEST_BTN_TIME, P_EGG_FLIPPING_TIME, EGG_FLIPPING_SIGNAL_ALARM_TIME, NO_EGG_FLIPPING_SIGNAL_ALARM_TIME, FAN_ALARM_TIME,
      ALARM_SUPPRESSION_TIME, CALIBRATION_RUN_TIME, CARBON_DIOXIDE_OPERATING_TIME, CARBON_DIOXIDE_STOP_TIME,
      HIGH_HUMIDITY_ALARM_DELAY_TIME,
      REFLUX_TEMP_1_WORK_TIME, RETURN_TEMP_1_STOP_TIME, REFLUX_TEMP_1_DELAY_TIME,
      REFLUX_TEMP_2_WORK_TIME, RETURN_TEMP_2_STOP_TIME, REFLUX_TEMP_2_DELAY_TIME,
      REFLUX_TEMP_3_WORK_TIME, RETURN_TEMP_3_STOP_TIME, REFLUX_TEMP_3_DELAY_TIME,
      REFLUX_TEMP_4_WORK_TIME, RETURN_TEMP_4_STOP_TIME, REFLUX_TEMP_4_DELAY_TIME,
      RETURN_TEMP_HIGH_TEMP_ALARM_TIME, RETURN_TEMP_LOW_TEMP_ALARM_TIME,
      PID_ON_COUNT_MAIN_HEATER, PID_ON_COUNT_COOL, PID_ON_COUNT_BLOWER, PID_ON_COUNT_DB_OPEN, PID_ON_COUNT_DB_CLOSE]"

definition timer_second :: "ctl \<Rightarrow> ctl" where
  "timer_second s =
     (let s1 = count_up R_RUN_SECOND_STATUS R_RUN_SECOND_HIGH s;
          s2 = count_up R_RUN_SYSTEM_SECOND_STATUS R_RUN_SYSTEM_SECOND_HIGH s1;
          s3 = fold countdown second_counters s2
      in countdown_time PID_PERIOD_COUNT_HUMI s3)"

text \<open>Signals other than the alarm do nothing.\<close>

definition timer_callback_func :: "ctl \<Rightarrow> ctl" where
  "timer_callback_func s =
     (let s1 = damper_close_tick (damper_open_tick s);
          s2 = s1\<lparr>minute_count := minute_count s1 + 1\<rparr>
      in if minute_count s2 \<ge> 10 then timer_second (s2\<lparr>minute_count := 0\<rparr>) else s2)"

section \<open>What a second changes\<close>

lemma minute_cells [cells]:
  "get_val (s\<lparr>minute_count := x\<rparr>) i = get_val s i" "get_uval (s\<lparr>minute_count := x\<rparr>) i = get_uval s i"
  "get_time (s\<lparr>minute_count := x\<rparr>) i = get_time s i" "get_int (s\<lparr>minute_count := x\<rparr>) i = get_int s i"
  "minute_count (set_val i y s) = minute_count s" "minute_count (set_uval i y s) = minute_count s"
  "minute_count (set_time i y s) = minute_count s"
  by (simp_all add: get_val_def get_uval_def get_time_def get_int_def set_val_def set_uval_def set_time_def)

lemma get_uval_nonneg [simp]: "0 \<le> get_uval s i"
  by (simp add: get_ranges)

lemma get_countdown:
  "get_uval (countdown c s) j = (if j = c then max 0 (get_uval s j - 1) else get_uval s j)"
proof (cases "get_uval s c > 0")
  case True
  then show ?thesis using get_ranges(4)[of s c] by (simp add: countdown_def cells to_ushort_in)
next
  case False
  then have "get_uval s c = 0" using get_ranges(3)[of s c] by linarith
  then show ?thesis by (simp add: countdown_def del: get_uval_0)
qed

lemma get_val_countdown: "j \<noteq> c \<Longrightarrow> get_val (countdown c s) j = get_val s j"
  by (simp add: countdown_def cells)

lemma get_time_countdown: "j \<noteq> c \<Longrightarrow> Suc j \<noteq> c \<Longrightarrow> get_time (countdown c s) j = get_time s j"
  by (simp add: countdown_def cells)

lemma get_countdowns:
  "distinct cs \<Longrightarrow> get_uval (fold countdown cs s) j = (if j \<in> set cs then max 0 (get_uval s j - 1) else get_uval s j)"
  by (induction cs arbitrary: s) (auto simp: get_countdown)

lemma get_val_countdowns: "j \<notin> set cs \<Longrightarrow> get_val (fold countdown cs s) j = get_val s j"
  by (induction cs arbitrary: s) (auto simp: get_val_countdown)

lemma get_time_countdowns: "j \<notin> set cs \<Longrightarrow> Suc j \<notin> set cs \<Longrightarrow> get_time (fold countdown cs s) j = get_time s j"
  by (induction cs arbitrary: s) (auto simp: get_time_countdown)

lemma second_counters_distinct: "distinct second_counters"
  by (simp add: second_counters_def)

lemma get_count_up:
  "j \<noteq> c \<Longrightarrow> j \<noteq> Suc c \<Longrightarrow> get_uval (count_up on c s) j = get_uval s j"
  "j \<noteq> c \<Longrightarrow> j \<noteq> Suc c \<Longrightarrow> get_val (count_up on c s) j = get_val s j"
  "j \<noteq> c \<Longrightarrow> j \<noteq> Suc c \<Longrightarrow> Suc j \<noteq> c \<Longrightarrow> get_time (count_up on c s) j = get_time s j"
  "get_time (count_up on c s) c = (if get_val s on = 0 then get_time s c else to_uint (get_time s c + 1))"
  by (simp_all add: count_up_def cells)

lemma get_countdown_time:
  "j \<noteq> c \<Longrightarrow> j \<noteq> Suc c \<Longrightarrow> get_uval (countdown_time c s) j = get_uval s j"
  "j \<noteq> c \<Longrightarrow> j \<noteq> Suc c \<Longrightarrow> get_val (countdown_time c s) j = get_val s j"
  "j \<noteq> c \<Longrightarrow> j \<noteq> Suc c \<Longrightarrow> Suc j \<noteq> c \<Longrightarrow> get_time (countdown_time c s) j = get_time s j"
  by (simp_all add: countdown_time_def cells)

lemma timer_second_uval:
  "j \<notin> {276, 277, 280, 281, 942, 943} \<Longrightarrow>
    get_uval (timer_second s) j = (if j \<in> set second_counters then max 0 (get_uval s j - 1) else get_uval s j)"
  by (simp add: timer_second_def Let_def get_countdown_time get_countdowns[OF second_counters_distinct] get_count_up)

lemma timer_second_val:
  "j \<notin> {276, 277, 280, 281, 942, 943} \<Longrightarrow> j \<notin> set second_counters \<Longrightarrow> get_val (timer_second s) j = get_val s j"
  by (simp add: timer_second_def Let_def get_countdown_time get_val_countdowns get_count_up)

end
