(* ===== verification/Reflux.thy ===== *)
theory Reflux
  imports Timer
begin

text \<open>
  The four circuits of the return water, each in a normal mode and a mode of preheating: eight functions of
  \<open>src/src/jincubator.cpp\<close> with the same text up to the cells they use. The text is defined once on a record of these
  cells; every function is its instance, with the differences the code has.
\<close>

section \<open>The circuits\<close>

record circuit =
  delay_time :: nat
  work_time :: nat
  stop_time :: nat
  work_cycle :: nat
  hot_init :: nat
  cold_init :: nat
  water :: nat
  valve :: int

text \<open>One mode: \<open>init\<close> is its cell of initialisation and \<open>work_valve\<close> the number that the branch of the work time opens.\<close>

definition retemp_pulse :: "circuit \<Rightarrow> nat \<Rightarrow> int \<Rightarrow> ctl \<Rightarrow> ctl" where
  "retemp_pulse c init work_valve s =
     (let s1 = (if get_uval s init = 0 then
                  set_uval init 1 (set_uval (work_cycle c) 0 (set_uval (work_time c) (get_uval s P_RTEMP_GZS) s))
                else s)
      in if get_uval s1 (work_cycle c) < get_uval s1 P_RTEMP_ZQC then
           if get_uval s1 (work_time c) > 0 then control_cool2 work_valve 1 s1
           else
             let s2 = (if get_uval s1 init = 1 then
                         set_uval init 2 (set_uval (stop_time c) (to_ushort (get_uval s1 P_RTEMP_ZQS - get_uval s1 P_RTEMP_GZS)) s1)
                       else s1)
             in if get_uval s2 (stop_time c) > 0 then control_cool2 (valve c) 0 s2
                else if get_uval s2 init = 2 then
                  let s3 = set_uval (work_time c) (get_uval s2 P_RTEMP_GZS) s2;
                      s4 = set_uval (work_cycle c) (get_uval s3 (work_cycle c) + 1) s3
                  in set_uval init 1 s4
                else s2
         else control_cool2 (valve c) 1 s1)"

definition retemp_cold :: "circuit \<Rightarrow> int \<Rightarrow> (ctl \<Rightarrow> int) \<Rightarrow> ctl \<Rightarrow> ctl" where
  "retemp_cold c work_valve setting s =
     (let s1 = control_cold_hot_water 0 (set_uval (hot_init c) 0 s)
      in if get_uval s1 (delay_time c) = 0 then
           if get_uval s1 (water c) > setting s1 then retemp_pulse c (cold_init c) work_valve s1
           else set_uval (cold_init c) 0 (control_cool2 (valve c) 0 s1)
         else s1)"

definition retemp_hot :: "circuit \<Rightarrow> nat \<Rightarrow> ctl \<Rightarrow> ctl" where
  "retemp_hot c setting_cell s =
     (let s1 = control_cold_hot_water 1 (set_uval (cold_init c) 0 s)
      in if get_uval s1 (delay_time c) = 0 then
           if get_uval s1 (water c) < to_ushort (get_val s1 setting_cell) then retemp_pulse c (hot_init c) (valve c) s1
           else set_uval (hot_init c) 0 (control_cool2 (valve c) 0 s1)
         else s1)"

definition circuit1 :: circuit where
  "circuit1 = \<lparr>delay_time = REFLUX_TEMP_1_DELAY_TIME, work_time = REFLUX_TEMP_1_WORK_TIME, stop_time = RETURN_TEMP_1_STOP_TIME,
     work_cycle = RETURN_TEMP_1_WORK_CYCLE, hot_init = RETURN_TEMP_1_HOT_WATER_OPERAT_INIT,
     cold_init = REFLOW_TEMP_1_COLD_WATER_OPERAT_INIT, water = R_AI_TP_RF1, valve = 1\<rparr>"

definition circuit2 :: circuit where
  "circuit2 = \<lparr>delay_time = REFLUX_TEMP_2_DELAY_TIME, work_time = REFLUX_TEMP_2_WORK_TIME, stop_time = RETURN_TEMP_2_STOP_TIME,
     work_cycle = RETURN_TEMP_2_WORK_CYCLE, hot_init = RETURN_TEMP_2_HOT_WATER_OPERAT_INIT,
     cold_init = REFLOW_TEMP_2_COLD_WATER_OPERAT_INIT, water = R_AI_TP_RF2, valve = 2\<rparr>"

definition circuit3 :: circuit where
  "circuit3 = \<lparr>delay_time = REFLUX_TEMP_3_DELAY_TIME, work_time = REFLUX_TEMP_3_WORK_TIME, stop_time = RETURN_TEMP_3_STOP_TIME,
     work_cycle = RETURN_TEMP_3_WORK_CYCLE, hot_init = RETURN_TEMP_3_HOT_WATER_OPERAT_INIT,
     cold_init = REFLOW_TEMP_3_COLD_WATER_OPERAT_INIT, water = R_AI_TP_RF3, valve = 3\<rparr>"

definition circuit4 :: circuit where
  "circuit4 = \<lparr>delay_time = REFLUX_TEMP_4_DELAY_TIME, work_time = REFLUX_TEMP_4_WORK_TIME, stop_time = RETURN_TEMP_4_STOP_TIME,
     work_cycle = RETURN_TEMP_4_WORK_CYCLE, hot_init = RETURN_TEMP_4_HOT_WATER_OPERAT_INIT,
     cold_init = REFLOW_TEMP_4_COLD_WATER_OPERAT_INIT, water = R_AI_TP_RF4, valve = 4\<rparr>"

section \<open>The functions\<close>

text \<open>All four compare the day with the cell of the first circuit.\<close>

definition normal_logic_process_retemp1_func :: "ctl \<Rightarrow> ctl" where
  "normal_logic_process_retemp1_func s =
     (if odd (get_uval s REFLUX_TEMPERATURE) then
        if get_val s R_RUN_DAY \<ge> get_val s P_PRE_TP_RF1_DAY then retemp_cold circuit1 1 (\<lambda>s. to_ushort (get_val s P_AO_TP_RF1)) s
        else retemp_hot circuit1 P_AO_TP_RF1 s
      else control_cool2 1 0 s)"

definition normal_logic_process_retemp2_func :: "ctl \<Rightarrow> ctl" where
  "normal_logic_process_retemp2_func s =
     (if odd (get_uval s REFLUX_TEMPERATURE div 2) then
        if get_val s R_RUN_DAY \<ge> get_val s P_PRE_TP_RF1_DAY then retemp_cold circuit2 2 (\<lambda>s. to_ushort (get_val s P_AO_TP_RF2)) s
        else retemp_hot circuit2 P_AO_TP_RF2 s
      else control_cool2 2 0 s)"

definition normal_logic_process_retemp3_func :: "ctl \<Rightarrow> ctl" where
  "normal_logic_process_retemp3_func s =
     (if odd (get_uval s REFLUX_TEMPERATURE div 4) then
        if get_val s R_RUN_DAY \<ge> get_val s P_PRE_TP_RF1_DAY then retemp_cold circuit3 3 (\<lambda>s. to_ushort (get_val s P_AO_TP_RF3)) s
        else retemp_hot circuit3 P_AO_TP_RF3 s
      else control_cool2 3 0 s)"

text \<open>The fourth circuit opens the first valve in its work time with cold water.\<close>

definition normal_logic_process_retemp4_func :: "ctl \<Rightarrow> ctl" where
  "normal_logic_process_retemp4_func s =
     (if odd (get_uval s REFLUX_TEMPERATURE div 8) then
        if get_val s R_RUN_DAY \<ge> get_val s P_PRE_TP_RF1_DAY then retemp_cold circuit4 1 (\<lambda>s. to_ushort (get_val s P_AO_TP_RF4)) s
        else retemp_hot circuit4 P_AO_TP_RF4 s
      else control_cool2 4 0 s)"

text \<open>The set value of preheating is read as a \<open>float\<close> of hundredths, which is positive when the cell is.\<close>

definition pre_logic_process_retemp1_func :: "ctl \<Rightarrow> ctl" where
  "pre_logic_process_retemp1_func s =
     (if odd (get_uval s REFLUX_TEMPERATURE) then
        if get_val s P_PRE_TP_RF1 > 0 then retemp_cold circuit1 1 (\<lambda>s. to_ushort (get_val s P_AO_TP_RF1)) s
        else retemp_hot circuit1 P_AO_TP_RF1 s
      else control_cool2 1 0 s)"

definition pre_logic_process_retemp2_func :: "ctl \<Rightarrow> ctl" where
  "pre_logic_process_retemp2_func s =
     (if odd (get_uval s REFLUX_TEMPERATURE div 2) then
        if get_val s P_PRE_TP_RF2 > 0 then retemp_cold circuit2 2 (\<lambda>s. to_ushort (get_val s P_AO_TP_RF2)) s
        else retemp_hot circuit2 P_AO_TP_RF2 s
      else control_cool2 2 0 s)"

definition pre_logic_process_retemp3_func :: "ctl \<Rightarrow> ctl" where
  "pre_logic_process_retemp3_func s =
     (if odd (get_uval s REFLUX_TEMPERATURE div 4) then
        if get_val s P_PRE_TP_RF3 > 0 then retemp_cold circuit3 3 (\<lambda>s. to_ushort (get_val s P_AO_TP_RF3)) s
        else retemp_hot circuit3 P_AO_TP_RF3 s
      else control_cool2 3 0 s)"

definition pre_logic_process_retemp4_func :: "ctl \<Rightarrow> ctl" where
  "pre_logic_process_retemp4_func s =
     (if odd (get_uval s REFLUX_TEMPERATURE div 8) then
        if get_val s P_PRE_TP_RF4 > 0 then retemp_cold circuit4 1 (\<lambda>s. get_uval s P_AO_TP_RF4) s
        else retemp_hot circuit4 P_AO_TP_RF4 s
      else control_cool2 4 0 s)"

end
