(* ===== verification/Damper.thy ===== *)
theory Damper
  imports Timer
begin

text \<open>
  The damper of the air: \<open>damper_control_func\<close> decides between opening, closing and stopping, \<open>pid_air_door_open\<close> limits what
  the PID may open, and the timer follows the position. No order of these, of the commands of the test buttons and of
  changes of any other cell drives the motor both ways, or takes the position out of its limits.
\<close>

section \<open>The decisions\<close>

text \<open>\<open>damper_check\<close>, \<open>damper_co2\<close>, \<open>damper_dbo_exact\<close> and \<open>damper_dbo_open\<close> are the blocks of \<open>damper_control_func\<close>.\<close>

definition damper_check :: "int \<Rightarrow> int \<Rightarrow> ctl \<Rightarrow> ctl" where
  "damper_check current setting s =
     (if get_val s CONTROL_DB_OPEN_CALIBRATION_STATUS = 0 \<and> get_val s CONTROL_DB_CLISE_CALIBRATION_STATUS = 0 then
        if get_val s DETECT_DAMPER_FULLY_CLOSE \<noteq> 0 then set_val CONTROL_DB_OPEN_CALIBRATION_STATUS 1 (control_damper 1 0 0 s)
        else control_damper 2 1 0 s
      else if get_val s CONTROL_DB_OPEN_CALIBRATION_STATUS \<noteq> 0 \<and> get_val s CONTROL_DB_CLISE_CALIBRATION_STATUS = 0 then
        if current \<ge> setting \<or> get_val s DETECT_DAMPER_FULLY_OPEN \<noteq> 0 then
          set_val CONTROL_DB_CLISE_CALIBRATION_STATUS 1 (set_val STATUS_DAMPER_CHECK 0 (control_damper 1 0 0 s))
        else control_damper 1 1 0 s
      else s)"

definition damper_co2 :: "ctl \<Rightarrow> ctl" where
  "damper_co2 s =
     (let s1 = (if get_uval s CARBON_DIOXIDE_OPERATING_TIME > 0 then control_damper 1 1 0 s
                else if get_val s CARBON_DIOXIDE_INIT = 0 then
                  let fan_stop_time = to_ushort (get_uval s P_CO2_ZQC - get_uval s P_CO2_GZS)
                  in set_val CARBON_DIOXIDE_INIT 1 (set_uval CARBON_DIOXIDE_STOP_TIME fan_stop_time (set_uval CARBON_DIOXIDE_OPERATING_TIME 0 s))
                else s);
          s2 = (if get_uval s1 CARBON_DIOXIDE_STOP_TIME > 0 then control_damper 1 0 0 s1
                else if get_val s1 CARBON_DIOXIDE_INIT = 1 then
                  set_val CARBON_DIOXIDE_INIT 0 (set_uval CARBON_DIOXIDE_STOP_TIME 0
                    (set_uval CARBON_DIOXIDE_OPERATING_TIME (get_uval s1 P_CO2_GZS) s1))
                else s1)
      in if get_uval s2 CARBON_DIOXIDE_STOP_TIME = 0 \<and> get_uval s2 CARBON_DIOXIDE_OPERATING_TIME = 0 then control_damper 1 0 0 s2 else s2)"

definition damper_dbo_exact :: "int \<Rightarrow> ctl \<Rightarrow> ctl" where
  "damper_dbo_exact current s =
     (let s1 = (if current = get_val s P_HUM_DBO then control_damper 1 0 0 s else s);
          s2 = (if current < get_val s1 P_HUM_DBO then control_damper 1 1 0 s1 else s1)
      in if current > get_val s2 P_HUM_DBO then control_damper 2 1 0 s2 else s2)"

definition damper_dbo_open :: "int \<Rightarrow> ctl \<Rightarrow> ctl" where
  "damper_dbo_open current s = (if current < get_val s P_HUM_DBO then control_damper 1 1 0 s else control_damper 1 0 0 s)"

text \<open>The set value is 0: the damper stays closed unless there is a reason.\<close>

definition damper_closed :: "int \<Rightarrow> ctl \<Rightarrow> ctl" where
  "damper_closed current s =
     (if get_val s HIGH_TEMP_ALARM_STATUS \<noteq> 0 then control_damper 1 1 0 s
      else if get_val s CARBON_DIOXIDE_WARNING_LIGHT \<noteq> 0 then damper_co2 s
      else if get_val s HIGH_HUMI_ALARM_STATUS \<noteq> 0 \<and> get_val s R_AI_TP_MAIN > get_val s LOW_TEMP_ALARM_VALUE then damper_dbo_exact current s
      else if get_val s R_AI_HM \<ge> get_val s P_AO_HM + get_val s P_HUM_SPO \<and> get_val s R_AI_TP_MAIN > get_val s LOW_TEMP_ALARM_VALUE then
        damper_dbo_exact current s
      else control_damper 2 1 0 s)"

definition damper_pid :: "ctl \<Rightarrow> ctl" where
  "damper_pid s =
     (let s1 = (if get_val s PID_TEMP_MODE_STATUS = 0 then set_val PID_TEMP_MODE_STATUS 1 (set_val PID_AD_VALUE (get_val s R_AI_AD) s) else s)
      in if get_uval s1 PID_ON_COUNT_DB_OPEN > 0 \<and> get_uval s1 PID_ON_COUNT_DB_OPEN \<ge> get_uval s1 (PID_ON_COUNT_DB_OPEN + 1) \<and>
           get_val s1 PID_AD_OPEN_STATUS \<noteq> 0 then control_damper 1 1 0 s1
         else if get_uval s1 PID_ON_COUNT_DB_CLOSE > 0 \<and> get_uval s1 PID_ON_COUNT_DB_CLOSE \<ge> get_uval s1 (PID_ON_COUNT_DB_CLOSE + 1) then
           control_damper 2 1 1 s1
         else control_damper 1 0 0 s1)"

text \<open>The set value is positive.\<close>

definition damper_open_set :: "int \<Rightarrow> int \<Rightarrow> ctl \<Rightarrow> ctl option" where
  "damper_open_set current setting s =
     (if current < setting then Some (control_damper 1 1 0 s)
      else if get_val s HIGH_TEMP_ALARM_STATUS \<noteq> 0 then Some (control_damper 1 1 0 s)
      else if get_val s CARBON_DIOXIDE_WARNING_LIGHT \<noteq> 0 then Some (damper_co2 s)
      else if get_val s HIGH_HUMI_ALARM_STATUS \<noteq> 0 \<and> get_val s R_AI_TP_MAIN > get_val s LOW_TEMP_ALARM_VALUE then
        Some (damper_dbo_open current s)
      else if get_val s R_AI_HM \<ge> get_val s P_AO_HM + get_val s P_HUM_SPO \<and> get_val s R_AI_TP_MAIN \<ge> get_val s LOW_TEMP_ALARM_VALUE then
        Some (damper_dbo_open current s)
      else do {
        p \<leftarrow> get_x10_val s P_TEMP_P;
        let pv = get_val s R_AI_TP_MAIN;
        let sp = get_val s P_AO_TP_MAIN;
        Some (if pv < sp - p sdiv 2 then control_damper 2 1 1 s
              else if pv \<ge> sp - p sdiv 2 \<and> pv \<le> sp + p sdiv 2 then damper_pid s
              else if pv > sp + p sdiv 2 then control_damper 1 1 0 s
              else if current = setting then control_damper 2 0 0 s
              else control_damper 2 0 0 s) })"

definition damper_control_func :: "ctl \<Rightarrow> ctl option" where
  "damper_control_func s =
     (let current = to_ushort (get_val s R_AI_AD); setting = to_ushort (get_val s P_AO_AD)
      in if get_val s STATUS_DAMPER_CHECK \<noteq> 0 then Some (damper_check current setting s)
         else
           let s1 = set_val CONTROL_DB_OPEN_CALIBRATION_STATUS 0 s;
               s2 = set_val CONTROL_DB_CLISE_CALIBRATION_STATUS 0 s1;
               s3 = set_val CONTROL_DB_CLOSE_TO_OPEN_TIME_STATUS 0 s2;
               s4 = set_val CONTROL_DB_OPEN_TO_CLOSE_TIME_STATUS 0 s3
           in if setting = 0 then Some (damper_closed current s4) else damper_open_set current setting s4)"

definition pid_air_door_open :: "ctl \<Rightarrow> ctl option" where
  "pid_air_door_open s =
     (let d = to_short (get_val s R_AI_TP_MAIN - get_val s P_AO_TP_MAIN);
          upto = (\<lambda>n. Some (if get_val s R_AI_AD \<ge> get_val s PID_AD_VALUE + n then set_val PID_AD_OPEN_STATUS 0 s
                            else set_val PID_AD_OPEN_STATUS 1 s))
      in if d > 0 then do {
           p \<leftarrow> get_x10_val s P_TEMP_P;
           if d \<le> p sdiv 6 \<and> d > 0 then upto 10
           else if d \<le> p sdiv 3 \<and> d > p sdiv 6 then upto 20
           else if d \<le> p sdiv 2 \<and> d > p sdiv 3 then upto 30
           else Some s }
         else Some s)"

section \<open>Never both ways, never beyond the limits\<close>

definition interlocked :: "ctl \<Rightarrow> bool" where
  "interlocked s \<longleftrightarrow> get_val s CONTROL_DAMPER_OPEN = 0 \<or> get_val s CONTROL_DAMPER_CLOSE = 0"

definition in_stroke :: "ctl \<Rightarrow> bool" where
  "in_stroke s \<longleftrightarrow> get_val s DAMPER_MIN_LEN \<le> get_val s R_AI_AD \<and> get_val s R_AI_AD \<le> get_val s DAMPER_MAX_LEN"

definition damper_ok :: "ctl \<Rightarrow> bool" where
  "damper_ok s \<longleftrightarrow> interlocked s \<and> in_stroke s"

inductive damper_step :: "ctl \<Rightarrow> ctl \<Rightarrow> bool" where
  func: "damper_control_func s = Some s' \<Longrightarrow> damper_step s s'"
| pid_limit: "pid_air_door_open s = Some s' \<Longrightarrow> damper_step s s'"
| command: "damper_step s (control_damper type status schedule s)"
| test_open: "damper_step s (control_open_damper status s)"
| test_close: "damper_step s (control_close_damper status schedule s)"
| timer: "damper_step s (timer_callback_func s)"
| elsewhere: "i \<notin> {CONTROL_DAMPER_OPEN, CONTROL_DAMPER_CLOSE, R_AI_AD, DAMPER_MIN_LEN, DAMPER_MAX_LEN} \<Longrightarrow> damper_step s (set_val i x s)"
| elsewhere_int: "{i, i + 1} \<inter> {CONTROL_DAMPER_OPEN, CONTROL_DAMPER_CLOSE, R_AI_AD, DAMPER_MIN_LEN, DAMPER_MAX_LEN} = {} \<Longrightarrow>
    damper_step s (set_int i x s)"

lemma damper_ok_set [simp]:
  "i \<notin> {42, 43, 203, 81, 80} \<Longrightarrow> damper_ok (set_val i x s) = damper_ok s"
  "i \<notin> {42, 43, 203, 81, 80} \<Longrightarrow> damper_ok (set_uval i x s) = damper_ok s"
  by (simp_all add: damper_ok_def interlocked_def in_stroke_def cells)

lemma get_val_fan: "fan_stopped (set_val i x s) = fan_stopped s" if "i \<noteq> 242" for i
  using that by (simp add: fan_stopped_def cells)

lemma control_open_damper_ok: "damper_ok s \<Longrightarrow> damper_ok (control_open_damper x s)"
  by (simp add: damper_ok_def interlocked_def in_stroke_def control_open_damper_def cells)

lemma control_close_damper_ok: "damper_ok s \<Longrightarrow> damper_ok (control_close_damper x y s)"
  by (simp add: damper_ok_def interlocked_def in_stroke_def control_close_damper_def Let_def cells)

lemma control_damper_ok: "damper_ok s \<Longrightarrow> damper_ok (control_damper t x y s)"
  by (simp add: control_damper_def control_open_damper_ok control_close_damper_ok)

lemma damper_check_ok: "damper_ok s \<Longrightarrow> damper_ok (damper_check c d s)"
  by (simp add: damper_check_def control_damper_ok)

lemma damper_co2_ok: "damper_ok s \<Longrightarrow> damper_ok (damper_co2 s)"
  by (simp add: damper_co2_def Let_def control_damper_ok)

lemma damper_dbo_ok: "damper_ok s \<Longrightarrow> damper_ok (damper_dbo_exact c s)" "damper_ok s \<Longrightarrow> damper_ok (damper_dbo_open c s)"
  by (simp_all add: damper_dbo_exact_def damper_dbo_open_def Let_def control_damper_ok)

lemma damper_pid_ok: "damper_ok s \<Longrightarrow> damper_ok (damper_pid s)"
  by (simp add: damper_pid_def Let_def control_damper_ok)

lemmas damper_parts_ok = control_damper_ok damper_check_ok damper_co2_ok damper_dbo_ok damper_pid_ok

lemma damper_control_func_ok: "damper_ok s \<Longrightarrow> damper_control_func s = Some s' \<Longrightarrow> damper_ok s'"
  by (auto simp: damper_control_func_def damper_closed_def damper_open_set_def Let_def bind_eq_Some_conv damper_parts_ok split: if_splits)

lemma pid_air_door_open_ok: "damper_ok s \<Longrightarrow> pid_air_door_open s = Some s' \<Longrightarrow> damper_ok s'"
  by (auto simp: pid_air_door_open_def Let_def bind_eq_Some_conv split: if_splits)

lemma to_short_step: "a < get_val s i \<Longrightarrow> - 32768 \<le> a \<Longrightarrow> to_short (a + 1) = a + 1" "get_val s i < a \<Longrightarrow> a \<le> 32767 \<Longrightarrow> to_short (a - 1) = a - 1"
  using get_ranges(1,2)[of s i] by (simp_all add: to_short_in)

lemma damper_ok_countdown [simp]: "c \<notin> {42, 43, 203, 81, 80} \<Longrightarrow> damper_ok (countdown c s) = damper_ok s"
  by (simp add: countdown_def)

lemma damper_ok_move:
  "damper_ok s \<Longrightarrow> get_val s R_AI_AD < get_val s DAMPER_MAX_LEN \<Longrightarrow> damper_ok (set_uval R_AI_AD (get_val s R_AI_AD + 1) s)"
  "damper_ok s \<Longrightarrow> get_val s DAMPER_MIN_LEN < get_val s R_AI_AD \<Longrightarrow> damper_ok (set_val R_AI_AD (get_val s R_AI_AD - 1) s)"
  using get_ranges(1,2)[of s R_AI_AD]
  by (simp_all add: damper_ok_def interlocked_def in_stroke_def cells to_short_step[where s = s])

lemma damper_open_tick_ok: "damper_ok s \<Longrightarrow> damper_ok (damper_open_tick s)"
  by (simp add: damper_open_tick_def Let_def damper_ok_move)
    (auto simp: damper_ok_def interlocked_def in_stroke_def cells)

lemma damper_close_tick_ok: "damper_ok s \<Longrightarrow> damper_ok (damper_close_tick s)"
  by (simp add: damper_close_tick_def Let_def damper_ok_move)
    (auto simp: damper_ok_def interlocked_def in_stroke_def cells)

lemma timer_ok: "damper_ok s \<Longrightarrow> damper_ok (timer_callback_func s)"
proof -
  have m: "damper_ok (s\<lparr>minute_count := x\<rparr>) = damper_ok s" for x s
    by (simp add: damper_ok_def interlocked_def in_stroke_def cells)
  have "damper_ok s \<Longrightarrow> damper_ok (timer_second s)" for s
    by (simp add: damper_ok_def interlocked_def in_stroke_def timer_second_val second_counters_def)
  then show "damper_ok s \<Longrightarrow> ?thesis"
    by (simp add: timer_callback_func_def Let_def damper_open_tick_ok damper_close_tick_ok m)
qed

lemma damper_step_ok: "damper_step s s' \<Longrightarrow> damper_ok s \<Longrightarrow> damper_ok s'"
proof (induction rule: damper_step.induct)
  case (elsewhere_int i s x)
  then show ?case by (auto simp: damper_ok_def interlocked_def in_stroke_def cells)
qed (auto intro: damper_control_func_ok pid_air_door_open_ok control_damper_ok control_open_damper_ok control_close_damper_ok timer_ok)

text \<open>
  C1. Whatever the order in which the decisions of the damper, the commands of the test buttons, the timer and changes of
  any other cell (sensors, alarms, parameters, the reports of the other functions) happen: the motor of the damper is never
  driven in both directions, and the position stays within the limits.
\<close>

theorem damper_interlock:
  assumes "damper_step\<^sup>*\<^sup>* s s'" "get_val s CONTROL_DAMPER_OPEN = 0 \<or> get_val s CONTROL_DAMPER_CLOSE = 0"
    and "get_val s DAMPER_MIN_LEN \<le> get_val s R_AI_AD" "get_val s R_AI_AD \<le> get_val s DAMPER_MAX_LEN"
  shows "(get_val s' CONTROL_DAMPER_OPEN = 0 \<or> get_val s' CONTROL_DAMPER_CLOSE = 0) \<and>
    get_val s' DAMPER_MIN_LEN \<le> get_val s' R_AI_AD \<and> get_val s' R_AI_AD \<le> get_val s' DAMPER_MAX_LEN"
proof -
  have "damper_ok s" using assms(2-4) by (simp add: damper_ok_def interlocked_def in_stroke_def)
  with assms(1) have "damper_ok s'" by (induction rule: rtranclp_induct) (auto intro: damper_step_ok)
  then show ?thesis by (simp add: damper_ok_def interlocked_def in_stroke_def)
qed

theorem damper_interlock_witness:
  "get_val (timer_callback_func (control_damper 2 1 0 power_on)) CONTROL_DAMPER_OPEN = 0 \<or>
   get_val (timer_callback_func (control_damper 2 1 0 power_on)) CONTROL_DAMPER_CLOSE = 0"
proof -
  have "damper_step\<^sup>*\<^sup>* power_on (timer_callback_func (control_damper 2 1 0 power_on))"
    by (meson command damper_step.timer rtranclp.rtrancl_refl rtranclp.rtrancl_into_rtrancl)
  from damper_interlock[OF this] show ?thesis by simp
qed

section \<open>A high temperature opens\<close>

lemma damper_high_temp_run:
  assumes "get_val s HIGH_TEMP_ALARM_STATUS \<noteq> 0" "get_val s STATUS_DAMPER_CHECK = 0"
    and "get_val s TEST_DAMPER_OPEN_MODE = 0" "get_val s TEST_DAMPER_CLOSE_MODE = 0" "\<not> fan_stopped s"
  shows "\<exists>s'. damper_control_func s = Some s' \<and>
    (if get_val s DETECT_DAMPER_FULLY_OPEN = 0 then get_val s' CONTROL_DAMPER_OPEN = 1 \<and> get_val s' CONTROL_DAMPER_CLOSE = 0
     else get_val s' CONTROL_DAMPER_OPEN = 0)"
  using assms by (simp add: damper_control_func_def damper_closed_def damper_open_set_def Let_def control_damper_def control_open_damper_def
      get_val_fan cells to_short_in)

text \<open>
  With the alarm of the high temperature, no calibration and no test of the damper, and the fan not stopped, the damper is
  driven open and not closed, or stands at its end, whatever the set value, the gas, the humidity and the PID ask for.
\<close>

theorem damper_high_temp_opens:
  assumes "get_val s HIGH_TEMP_ALARM_STATUS \<noteq> 0" "get_val s STATUS_DAMPER_CHECK = 0"
    and "get_val s TEST_DAMPER_OPEN_MODE = 0" "get_val s TEST_DAMPER_CLOSE_MODE = 0" "\<not> fan_stopped s"
  shows "\<exists>s'. damper_control_func s = Some s' \<and>
    (if get_val s DETECT_DAMPER_FULLY_OPEN = 0 then get_val s' CONTROL_DAMPER_OPEN = 1 \<and> get_val s' CONTROL_DAMPER_CLOSE = 0
     else get_val s' CONTROL_DAMPER_OPEN = 0)"
  using assms by (rule damper_high_temp_run)

theorem damper_high_temp_opens_witness:
  "\<exists>s'. damper_control_func (set_val HIGH_TEMP_ALARM_STATUS 1 power_on) = Some s' \<and> get_val s' CONTROL_DAMPER_OPEN = 1"
proof -
  have "\<not> fan_stopped (set_val HIGH_TEMP_ALARM_STATUS 1 power_on)" by (simp add: fan_stopped_def cells) (simp add: power_on_def)
  with damper_high_temp_opens[of "set_val HIGH_TEMP_ALARM_STATUS 1 power_on"] show ?thesis by (auto simp: cells to_short_in)
qed

end
