(* ===== verification/Stroke.thy ===== *)
theory Stroke
  imports Damper
begin

text \<open>
  How the timer follows a damper that is held open: the cells of the stroke behave as the step of three numbers, and the
  position rises by one in every \<open>DAMPER_TIME_OPEN + 1\<close> calls.
\<close>

section \<open>The stroke as three numbers\<close>

definition stroke_abs :: "ctl \<Rightarrow> int \<times> int \<times> int" where
  "stroke_abs s = (get_uval s AIR_DOOR_OPEN_RUNNING_STATUS, get_uval s AIR_DOOR_OPEN_RUNNING_TIME, get_val s R_AI_AD)"

definition stroke_step :: "int \<Rightarrow> int \<Rightarrow> int \<times> int \<times> int \<Rightarrow> int \<times> int \<times> int" where
  "stroke_step t m = (\<lambda>(st, c, p).
     let (st1, c1) = (if st = 0 then (1, t) else (st, c));
         (st2, p1) = (if c1 = 0 \<and> st1 = 1 \<and> p < m then (0, p + 1) else (st1, p))
     in (st2, max 0 (c1 - 1), p1))"

definition held_open :: "int \<Rightarrow> int \<Rightarrow> ctl \<Rightarrow> bool" where
  "held_open t m s \<longleftrightarrow> get_val s DETECT_DAMPER_FULLY_OPEN = 0 \<and> get_val s DETECT_DAMPER_FULLY_CLOSE = 0 \<and>
     0 < get_uval s CONTROL_DAMPER_OPEN \<and> get_val s CONTROL_DAMPER_CLOSE = 0 \<and> get_uval s DAMPER_TIME_OPEN = t \<and>
     get_val s DAMPER_MAX_LEN = m \<and> get_val s AIR_DOOR_CLOSING_RUNNING_TIME = 0"

lemma get_uval_pos: "0 < get_uval s i \<longleftrightarrow> get_val s i \<noteq> 0"
  using get_ranges(3)[of s i] get_uval_0[of s i] by linarith

lemma timer_held:
  assumes "get_val (damper_open_tick s) DETECT_DAMPER_FULLY_CLOSE = 0" "get_val (damper_open_tick s) CONTROL_DAMPER_CLOSE = 0"
    and "j \<notin> {276, 277, 280, 281, 942, 943}" "j \<notin> set second_counters"
  shows "get_uval (timer_callback_func s) j = get_uval (damper_open_tick s) j" "get_val (timer_callback_func s) j = get_val (damper_open_tick s) j"
proof -
  have "damper_close_tick (damper_open_tick s) = damper_open_tick s"
    using assms(1,2) by (simp add: damper_close_tick_def get_uval_pos)
  then show "get_uval (timer_callback_func s) j = get_uval (damper_open_tick s) j" "get_val (timer_callback_func s) j = get_val (damper_open_tick s) j"
    using assms(3,4) by (simp_all add: timer_callback_func_def Let_def timer_second_uval timer_second_val cells)
qed

lemma open_tick_held:
  assumes "held_open t m s"
  shows "held_open t m (damper_open_tick s)" "stroke_abs (damper_open_tick s) = stroke_step t m (stroke_abs s)"
proof -
  have z: "get_uval s AIR_DOOR_CLOSING_RUNNING_TIME = 0" "get_uval s DETECT_DAMPER_FULLY_OPEN = 0" using assms by (simp_all add: held_open_def)
  have t: "to_ushort t = t" using assms get_ranges(3,4)[of s DAMPER_TIME_OPEN] by (intro to_ushort_in) (simp_all add: held_open_def)
  show "held_open t m (damper_open_tick s)"
    using assms by (simp add: held_open_def damper_open_tick_def Let_def get_uval_pos cells get_countdown get_val_countdown to_short_in)
  show "stroke_abs (damper_open_tick s) = stroke_step t m (stroke_abs s)"
    using assms z t get_ranges(1,2)[of s R_AI_AD] get_ranges(2)[of s DAMPER_MAX_LEN]
    by (simp add: held_open_def damper_open_tick_def stroke_abs_def stroke_step_def Let_def cells get_countdown get_val_countdown
        to_ushort_in to_short_in del: get_uval_0)
qed

lemma timer_stroke:
  assumes "held_open t m s"
  shows "held_open t m (timer_callback_func s) \<and> stroke_abs (timer_callback_func s) = stroke_step t m (stroke_abs s)"
proof -
  note h = open_tick_held[OF assms]
  have f: "get_uval (timer_callback_func s) j = get_uval (damper_open_tick s) j" "get_val (timer_callback_func s) j = get_val (damper_open_tick s) j"
    if "j \<notin> {276, 277, 280, 281, 942, 943}" "j \<notin> set second_counters" for j
    using timer_held[OF _ _ that] h(1) by (simp_all add: held_open_def)
  show ?thesis using h by (simp add: held_open_def stroke_abs_def f second_counters_def)
qed

lemma timer_strokes:
  "held_open t m s \<Longrightarrow> held_open t m ((timer_callback_func ^^ k) s) \<and> stroke_abs ((timer_callback_func ^^ k) s) = (stroke_step t m ^^ k) (stroke_abs s)"
proof (induction k)
  case (Suc k)
  then show ?case using timer_stroke[of t m "(timer_callback_func ^^ k) s"] by simp
qed simp

section \<open>One step of the damper\<close>

lemma stroke_wait: "0 \<le> j \<Longrightarrow> (stroke_step t m ^^ k) (1, int k + j, p) = (1, j, p)"
proof (induction k arbitrary: j)
  case (Suc k)
  have "(stroke_step t m ^^ Suc k) (1, int (Suc k) + j, p) = stroke_step t m ((stroke_step t m ^^ k) (1, int k + (j + 1), p))" by (simp add: ac_simps)
  also have "\<dots> = (1, j, p)" using Suc.prems by (simp only: Suc.IH) (simp add: stroke_step_def)
  finally show ?case .
qed simp

lemma stroke_one: "p < m \<Longrightarrow> (stroke_step (int t) m ^^ Suc t) (0, c, p) = (0, 0, p + 1)"
proof (cases t)
  case 0
  then show "p < m \<Longrightarrow> ?thesis" by (simp add: stroke_step_def)
next
  case (Suc u)
  assume "p < m"
  have "(stroke_step (int t) m ^^ Suc t) (0, c, p) = stroke_step (int t) m ((stroke_step (int t) m ^^ u) (stroke_step (int t) m (0, c, p)))"
    by (simp add: Suc funpow_swap1)
  also have "stroke_step (int t) m (0, c, p) = (1, int u + 0, p)" by (simp add: stroke_step_def Suc)
  also have "stroke_step (int t) m ((stroke_step (int t) m ^^ u) (1, int u + 0, p)) = (0, 0, p + 1)"
    using \<open>p < m\<close> by (simp only: stroke_wait order_refl) (simp add: stroke_step_def)
  finally show ?thesis .
qed

lemma stroke_many: "p + int n \<le> m \<Longrightarrow> (stroke_step (int t) m ^^ (n * Suc t)) (0, c, p) = (0, if n = 0 then c else 0, p + int n)"
proof (induction n arbitrary: c p)
  case (Suc n)
  have "(stroke_step (int t) m ^^ (Suc n * Suc t)) (0, c, p) = (stroke_step (int t) m ^^ (n * Suc t)) ((stroke_step (int t) m ^^ Suc t) (0, c, p))"
    by (simp only: mult_Suc add.commute[of "Suc t"] funpow_add o_apply)
  also have "(stroke_step (int t) m ^^ Suc t) (0, c, p) = (0, 0, p + 1)" by (rule stroke_one) (use Suc.prems in simp)
  finally show ?case using Suc by simp
qed simp

text \<open>
  C24. A damper whose opening is held on, starting without a rest of an earlier movement, is taken to be one step further
  after every \<open>DAMPER_TIME_OPEN + 1\<close> calls of the timer: after \<open>n (t + 1)\<close> calls it has moved by \<open>n\<close>, up to its limit.
\<close>

theorem damper_stroke:
  assumes "get_val s DETECT_DAMPER_FULLY_OPEN = 0" "get_val s DETECT_DAMPER_FULLY_CLOSE = 0" "get_val s CONTROL_DAMPER_OPEN \<noteq> 0"
    and "get_val s CONTROL_DAMPER_CLOSE = 0" "get_uval s DAMPER_TIME_OPEN = int t" "get_val s AIR_DOOR_CLOSING_RUNNING_TIME = 0"
    and "get_val s AIR_DOOR_OPEN_RUNNING_STATUS = 0" "get_val s R_AI_AD + int n \<le> get_val s DAMPER_MAX_LEN"
  shows "get_val ((timer_callback_func ^^ (n * (t + 1))) s) R_AI_AD = get_val s R_AI_AD + int n"
proof -
  have "held_open (int t) (get_val s DAMPER_MAX_LEN) s" using assms by (simp add: held_open_def get_uval_pos)
  moreover have "stroke_abs s = (0, get_uval s AIR_DOOR_OPEN_RUNNING_TIME, get_val s R_AI_AD)" using assms(7) by (simp add: stroke_abs_def)
  ultimately have "stroke_abs ((timer_callback_func ^^ (n * Suc t)) s) = (0, if n = 0 then get_uval s AIR_DOOR_OPEN_RUNNING_TIME else 0, get_val s R_AI_AD + int n)"
    using timer_strokes[of "int t" "get_val s DAMPER_MAX_LEN" s "n * Suc t"] stroke_many[OF assms(8), of t] by simp
  then show ?thesis by (simp add: stroke_abs_def)
qed

theorem damper_stroke_witness:
  "get_val ((timer_callback_func ^^ (160 * (78 + 1)))
     (set_val DAMPER_MAX_LEN 160 (set_val DAMPER_TIME_OPEN 78 (set_val CONTROL_DAMPER_OPEN 1 power_on)))) R_AI_AD = 160"
  using damper_stroke[of "set_val DAMPER_MAX_LEN 160 (set_val DAMPER_TIME_OPEN 78 (set_val CONTROL_DAMPER_OPEN 1 power_on))" 78 160]
  by (simp add: cells to_short_in to_ushort_in)

end
