(* ===== verification/RefluxDuty.thy ===== *)
theory RefluxDuty
  imports Reflux Stroke
begin

text \<open>
  The valves of the return water in time: runs of their functions by the main loop, calls of the timer by its signal and writes of
  everything else to other cells, in any order. While the water stays too warm a function behaves as a step of
  five numbers, whose schedule has a closed form as soon as the function runs at least twice in each second.
\<close>

section \<open>What a call of the timer changes\<close>





lemma minute_countdown [cells]: "minute_count (countdown c s) = minute_count s"
  by (simp add: countdown_def cells)




lemma timer_fields [simp]: "g_fan_status (timer_callback_func s) = g_fan_status s"
proof -
  have f: "g_fan_status (countdown c s) = g_fan_status s" "g_fan_status (count_up a c s) = g_fan_status s"
    "g_fan_status (countdown_time c s) = g_fan_status s" for a c s
    by (simp_all add: countdown_def count_up_def countdown_time_def cells)
  have "g_fan_status (fold countdown cs s) = g_fan_status s" for cs s by (induction cs arbitrary: s) (simp_all add: f)
  then have "g_fan_status (timer_second s) = g_fan_status s" for s by (simp add: timer_second_def Let_def f)
  moreover have "g_fan_status (damper_close_tick (damper_open_tick s)) = g_fan_status s"
    by (simp add: damper_close_tick_def Let_def cells f) (simp add: damper_open_tick_def Let_def cells f)
  ultimately show ?thesis by (simp add: timer_callback_func_def Let_def)
qed

section \<open>The schedule of five numbers\<close>











section \<open>Histories\<close>

text \<open>
  The main loop runs the function, the signal calls the timer, and anything else is a write to some cell: what happens is a list of
  these events. A second ends with the call of the timer that completes its ten; \<open>m\<close> calls of the first second have
  come before.
\<close>

datatype event = Run | Tick | Write nat int

primrec happens :: "(ctl \<Rightarrow> ctl) \<Rightarrow> event \<Rightarrow> ctl \<Rightarrow> ctl" where
  "happens f Run s = f s"
| "happens f Tick s = timer_callback_func s"
| "happens f (Write i x) s = set_val i x s"

definition history :: "(ctl \<Rightarrow> ctl) \<Rightarrow> event list \<Rightarrow> ctl \<Rightarrow> ctl" where
  "history f es s = fold (happens f) es s"

definition runs :: "event list \<Rightarrow> nat" where
  "runs es = length (filter ((=) Run) es)"

definition ticks :: "event list \<Rightarrow> nat" where
  "ticks es = length (filter ((=) Tick) es)"

definition spares :: "nat set \<Rightarrow> event list \<Rightarrow> bool" where
  "spares cells es \<longleftrightarrow> (\<forall>i x. Write i x \<in> set es \<longrightarrow> i \<notin> cells)"



lemma history_simps [simp]:
  "history f [] s = s" "history f (e # es) s = history f es (happens f e s)" "history f (es @ es') s = history f es' (history f es s)"
  by (simp_all add: history_def)

lemma counts_simps [simp]:
  "runs [] = 0" "runs (e # es) = (if e = Run then 1 else 0) + runs es" "runs (es @ es') = runs es + runs es'"
  "ticks [] = 0" "ticks (e # es) = (if e = Tick then 1 else 0) + ticks es" "ticks (es @ es') = ticks es + ticks es'"
  "spares cs []" "spares cs (e # es) \<longleftrightarrow> (\<forall>i x. e = Write i x \<longrightarrow> i \<notin> cs) \<and> spares cs es" "spares cs (es @ es') \<longleftrightarrow> spares cs es \<and> spares cs es'"
  by (auto simp: runs_def ticks_def spares_def)

section \<open>The contract of a pulsed valve\<close>


section \<open>The first three circuits\<close>




















section \<open>The fourth circuit\<close>

text \<open>
  C38. The fourth circuit opens the wrong valve: with cold water, within its work time, it switches the first valve on and leaves
  its own as it is, which is off after the last pause; its own valve opens only when all cycles are through.
\<close>

theorem retemp4_opens_valve_1:
  assumes "odd (get_uval s REFLUX_TEMPERATURE div 8)" "get_val s P_PRE_TP_RF1_DAY \<le> get_val s R_RUN_DAY" "get_val s REFLUX_TEMP_4_DELAY_TIME = 0"
    and "get_uval s P_AO_TP_RF4 < get_uval s R_AI_TP_RF4" "get_val s REFLOW_TEMP_4_COLD_WATER_OPERAT_INIT \<noteq> 0"
    and "get_uval s RETURN_TEMP_4_WORK_CYCLE < get_uval s P_RTEMP_ZQC" "get_val s REFLUX_TEMP_4_WORK_TIME \<noteq> 0"
    and "get_val s TEST_COOL2_1_MODE = 0" "get_val s SENSOR_3_ABNORMAL_ALARM = 0" "\<not> fan_stopped s"
  shows "get_val (normal_logic_process_retemp4_func s) CONTROL_COOL2_1 = 1 \<and>
    get_val (normal_logic_process_retemp4_func s) CONTROL_COOL2_4 = get_val s CONTROL_COOL2_4"
proof -
  define s1 where "s1 = control_cold_hot_water 0 (set_uval RETURN_TEMP_4_HOT_WATER_OPERAT_INIT 0 s)"
  have g: "get_val s1 j = get_val s j" "get_uval s1 j = get_uval s j" if "j \<notin> {CONTROL_COLD_HOT_WATER, RETURN_TEMP_4_HOT_WATER_OPERAT_INIT}" for j
    using that by (simp_all add: s1_def control_cold_hot_water_def cells)
  have "fan_stopped s1 = fan_stopped s" by (simp add: fan_stopped_def g) (simp add: s1_def control_cold_hot_water_def cells)
  moreover have "normal_logic_process_retemp4_func s = retemp_pulse circuit4 REFLOW_TEMP_4_COLD_WATER_OPERAT_INIT 1 s1"
    using assms(1-4) g by (simp add: normal_logic_process_retemp4_func_def retemp_cold_def Let_def s1_def[symmetric] circuit4_def)
  ultimately show ?thesis using assms(5-10) g
    by (simp add: retemp_pulse_def circuit4_def Let_def control_cool2_def control_cool2_1_def get_uval_pos cells to_short_in)
qed

theorem retemp4_opens_valve_1_witness:
  defines "s \<equiv> set_val REFLUX_TEMPERATURE 8 (set_val R_AI_TP_RF4 30 (set_val REFLOW_TEMP_4_COLD_WATER_OPERAT_INIT 1
    (set_val REFLUX_TEMP_4_WORK_TIME 5 (set_val P_RTEMP_ZQC 3 power_on))))"
  shows "get_val (normal_logic_process_retemp4_func s) CONTROL_COOL2_1 = 1 \<and> get_val (normal_logic_process_retemp4_func s) CONTROL_COOL2_4 = 0"
proof -
  have "\<not> fan_stopped s" by (simp add: fan_stopped_def s_def cells) (simp add: power_on_def)
  then show ?thesis using retemp4_opens_valve_1[of s] by (simp add: s_def cells to_short_in to_ushort_in)
qed

end
