(* ===== verification/TestMode.thy ===== *)
theory TestMode
  imports Damper
begin

text \<open>
  The test buttons: \<open>test_control_mode\<close> of \<open>src/src/jincubator.cpp\<close> drives one output by hand for a limited time, and the words
  in which the buttons and the modes are sent.
\<close>

section \<open>The buttons\<close>

definition test_start :: "nat \<Rightarrow> nat \<Rightarrow> int \<Rightarrow> ctl \<Rightarrow> ctl" where
  "test_start mode out status s =
     (let s1 = set_val mode 1 s; s2 = set_val out 1 s1; s3 = set_uval TEST_CONTROL_MODE status s2
      in set_uval TEST_BTN_TIME (get_val s3 P_HH3 * 60) s3)"

definition test_begin :: "int \<Rightarrow> ctl \<Rightarrow> ctl" where
  "test_begin status s =
     (let arm = (\<lambda>s. let s1 = set_uval TEST_CONTROL_MODE status s in set_uval TEST_BTN_TIME (get_val s1 P_HH3 * 60) s1)
      in if status = 0x01 then test_start TEST_MAIN_HEAT_MODE CONTROL_MAIN_HEAT status s
         else if status = 0x02 then test_start TEST_AUX_HEAT_MODE CONTROL_AUX_HEAT status s
         else if status = 0x04 then
           if get_val s DETECT_DAMPER_FULLY_OPEN = 0 then arm (control_open_damper 1 (set_val TEST_DAMPER_OPEN_MODE 1 s)) else s
         else if status = 0x08 then
           if get_val s DETECT_DAMPER_FULLY_CLOSE = 0 then arm (control_close_damper 1 0 (set_val TEST_DAMPER_CLOSE_MODE 1 s)) else s
         else if status = 0x10 then test_start TEST_SPRAY_MODE CONTROL_SPRAY status s
         else if status = 0x20 then
           let s1 = set_val TEST_FILP_EGG_MODE 1 s; dir = get_uval s1 P_EGG_FLIPPING_DIRECTION; time = to_ushort (get_uval s1 P_HH10 * 60);
               s2 = set_val P_EGG_FLIPPING_EXECUTION_STATUS 1 s1; s3 = set_val P_EGG_FLIPPING_TIME time s2;
               s4 = set_val P_EGG_FLIPPING_DIRECTION (if dir = 0 then 1 else 0) s3; s5 = set_val EGG_FLIPPING_TRIGGER_STATUS 1 s4
           in arm s5
         else if status = 0x40 then test_start TEST_COOL_MODE CONTROL_COOL status s
         else if status = 0x80 then test_start TEST_COOL2_1_MODE CONTROL_COOL2_1 status s
         else if status = 0x100 then test_start TEST_COOL2_2_MODE CONTROL_COOL2_2 status s
         else if status = 0x200 then test_start TEST_COOL2_3_MODE CONTROL_COOL2_3 status s
         else if status = 0x400 then test_start TEST_COOL2_4_MODE CONTROL_COOL2_4 status s
         else if status = 0x800 then
           let s1 = set_val TEST_BLOWER_MODE 1 s
           in arm (if get_val s1 CONTROL_FAN = 1 then set_val CONTROL_BLOWER 0 s1 else set_val CONTROL_BLOWER 1 s1)
         else set_test_mode 0 s)"

definition test_release :: "nat \<Rightarrow> ctl \<Rightarrow> ctl" where
  "test_release mode s = set_val TEST_CONTROL_MODE 0 (set_test_mode 0 (set_val mode 0 s))"

definition test_end :: "int \<Rightarrow> ctl \<Rightarrow> ctl" where
  "test_end running s =
     (if running = 0x01 then test_release TEST_MAIN_HEAT_MODE (set_val CONTROL_MAIN_HEAT 0 s)
      else if running = 0x02 then test_release TEST_AUX_HEAT_MODE (set_val CONTROL_AUX_HEAT 0 s)
      else if running = 0x04 then test_release TEST_DAMPER_OPEN_MODE (control_open_damper 0 s)
      else if running = 0x08 then test_release TEST_DAMPER_CLOSE_MODE (control_close_damper 0 0 s)
      else if running = 0x10 then test_release TEST_SPRAY_MODE (set_val CONTROL_SPRAY 0 s)
      else if running = 0x20 then test_release TEST_FILP_EGG_MODE (set_val P_EGG_FLIPPING_EXECUTION_STATUS 0 s)
      else if running = 0x40 then test_release TEST_COOL_MODE (set_val CONTROL_COOL 0 s)
      else if running = 0x80 then test_release TEST_COOL2_1_MODE (set_val CONTROL_COOL2_1 0 s)
      else if running = 0x100 then test_release TEST_COOL2_2_MODE (set_val CONTROL_COOL2_2 0 s)
      else if running = 0x200 then test_release TEST_COOL2_3_MODE (set_val CONTROL_COOL2_3 0 s)
      else if running = 0x400 then test_release TEST_COOL2_4_MODE (set_val CONTROL_COOL2_4 0 s)
      else if running = 0x800 then test_release TEST_BLOWER_MODE (set_val CONTROL_BLOWER 0 s)
      else set_test_mode 0 s)"

definition test_end_all :: "ctl \<Rightarrow> ctl" where
  "test_end_all s =
     (let clear = (\<lambda>out mode s. set_val mode 0 (set_val out 0 s));
          s1 = set_uval TEST_BTN_TIME 0 s;
          s2 = clear CONTROL_MAIN_HEAT TEST_MAIN_HEAT_MODE s1;
          s3 = clear CONTROL_AUX_HEAT TEST_AUX_HEAT_MODE s2;
          s4 = set_val TEST_DAMPER_OPEN_MODE 0 (control_open_damper 0 s3);
          s5 = set_val TEST_DAMPER_CLOSE_MODE 0 (control_close_damper 0 0 s4);
          s6 = clear CONTROL_SPRAY TEST_SPRAY_MODE s5;
          s7 = clear P_EGG_FLIPPING_EXECUTION_STATUS TEST_FILP_EGG_MODE s6;
          s8 = clear CONTROL_COOL TEST_COOL_MODE s7;
          s9 = clear CONTROL_COOL2_1 TEST_COOL2_1_MODE s8;
          s10 = clear CONTROL_COOL2_2 TEST_COOL2_2_MODE s9;
          s11 = clear CONTROL_COOL2_3 TEST_COOL2_3_MODE s10;
          s12 = clear CONTROL_COOL2_4 TEST_COOL2_4_MODE s11;
          s13 = clear CONTROL_BLOWER TEST_BLOWER_MODE s12
      in set_val TEST_CONTROL_MODE 0 (set_test_mode 0 s13))"

definition test_idle :: "ctl \<Rightarrow> ctl" where
  "test_idle s =
     fold (\<lambda>c. set_val c 0)
       [TEST_MAIN_HEAT_MODE, TEST_AUX_HEAT_MODE, TEST_DAMPER_OPEN_MODE, TEST_DAMPER_CLOSE_MODE, TEST_SPRAY_MODE, TEST_FILP_EGG_MODE,
        TEST_COOL_MODE, TEST_COOL2_1_MODE, TEST_COOL2_2_MODE, TEST_COOL2_3_MODE, TEST_COOL2_4_MODE, TEST_BLOWER_MODE, TEST_CONTROL_MODE]
       (set_uval TEST_BTN_TIME 0 s)"

definition test_control_mode :: "ctl \<Rightarrow> ctl" where
  "test_control_mode s =
     (let status = get_test_mode s; running = get_val s TEST_CONTROL_MODE
      in if status > 0 \<and> running = 0 then test_begin status s
         else if status = 0 \<and> running > 0 then
           let s1 = set_uval TEST_BTN_TIME 0 s in test_end (get_uval s1 TEST_CONTROL_MODE) s1
         else if status > 0 \<and> running > 0 \<and> status = running then
           if get_uval s TEST_BTN_TIME = 0 then test_end (get_uval s TEST_CONTROL_MODE) s else s
         else if status > 0 \<and> running > 0 \<and> status \<noteq> running then test_end_all s
         else if status = 0 then test_idle s
         else s)"

section \<open>The word of the buttons\<close>

lemma mod_power_Suc: "m mod 2 ^ Suc n = m mod 2 ^ n + m div 2 ^ n mod 2 * 2 ^ n" for m :: int
  using mod_mult2_eq'[of m "2 ^ n" 2] by (simp add: mult.commute add.commute)

lemma word_of_bits:
  "n \<le> 16 \<Longrightarrow> (\<And>i. i < n \<Longrightarrow> g i = m div 2 ^ i mod 2) \<Longrightarrow> fold (\<lambda>i mode. to_ushort (mode + g i * 2 ^ i)) [0..<n] 0 = m mod 2 ^ n"
proof (induction n)
  case (Suc n)
  have "(2 :: int) ^ Suc n \<le> 2 ^ 16" using Suc.prems(1) by (intro power_increasing) simp_all
  moreover have "m mod 2 ^ Suc n < 2 ^ Suc n" by (rule pos_mod_bound) simp
  ultimately have "m mod 2 ^ Suc n < 2 ^ 16" by (rule order.strict_trans2[rotated])
  then have "m mod 2 ^ Suc n < 65536" by simp
  then have "to_ushort (m mod 2 ^ Suc n) = m mod 2 ^ Suc n" by (intro to_ushort_in) (simp_all del: power_Suc)
  then show ?case using Suc by (simp add: mod_power_Suc del: power_Suc)
qed simp

lemma get_set_test_mode:
  "j \<notin> {220..<220 + 12} \<Longrightarrow> get_val (set_test_mode m s) j = get_val s j"
  "j \<notin> {220..<220 + 12} \<Longrightarrow> get_uval (set_test_mode m s) j = get_uval s j"
  "i < 12 \<Longrightarrow> get_uval (set_test_mode m s) (220 + i) = to_ushort m div 2 ^ i mod 2"
proof -
  let ?f = "\<lambda>is. fold (\<lambda>i. set_uval (220 + i) (to_ushort m div 2 ^ i mod 2)) is s"
  have v: "get_val (?f [0..<n]) j = get_val s j \<and> get_uval (?f [0..<n]) j = get_uval s j" if "j \<notin> {220..<220 + n}" for n j
    using that by (induction n) (auto simp: cells)
  have "to_ushort (x mod 2) = x mod 2" for x :: int using pos_mod_bound[of 2 x] by (intro to_ushort_in) simp_all
  then have u: "get_uval (?f [0..<n]) (220 + i) = to_ushort m div 2 ^ i mod 2" if "i < n" for n i
    using that by (induction n) (auto simp: cells less_Suc_eq)
  show "j \<notin> {220..<220 + 12} \<Longrightarrow> get_val (set_test_mode m s) j = get_val s j"
    "j \<notin> {220..<220 + 12} \<Longrightarrow> get_uval (set_test_mode m s) j = get_uval s j"
    "i < 12 \<Longrightarrow> get_uval (set_test_mode m s) (220 + i) = to_ushort m div 2 ^ i mod 2"
    unfolding set_test_mode_def using v[of j 12] u[of i 12] by blast+
qed

lemma test_word: "get_test_mode (set_test_mode m s) = to_ushort m mod 2 ^ 12"
  unfolding get_test_mode_def by (rule word_of_bits) (simp_all add: get_set_test_mode)

text \<open>
  The twelve buttons and their word: what is written as a word is read back, up to its twelve bits, and no other cell is
  touched.
\<close>

theorem test_mode_word_round_trip:
  "get_test_mode (set_test_mode m s) = to_ushort m mod 2 ^ 12 \<and>
   (\<forall>j. j \<notin> {R_BTN_TP_MAIN..<R_BTN_TP_MAIN + 12} \<longrightarrow> get_uval (set_test_mode m s) j = get_uval s j)"
  using test_word get_set_test_mode(2) by blast

theorem test_mode_word_round_trip_witness:
  "get_test_mode (set_test_mode 5 power_on) = 5 \<and> get_uval (set_test_mode 5 power_on) TEST_CONTROL_MODE = 0"
  using test_mode_word_round_trip[of 5 power_on] by (simp add: to_ushort_in)

section \<open>One test at a time\<close>

definition test_cell :: "nat \<Rightarrow> nat" where
  "test_cell k = (if k \<le> 9 then 520 + k else if k = 10 then 529 else 530)"

definition test_output :: "nat \<Rightarrow> nat" where
  "test_output k = [CONTROL_MAIN_HEAT, CONTROL_AUX_HEAT, CONTROL_DAMPER_OPEN, CONTROL_DAMPER_CLOSE, CONTROL_SPRAY,
     P_EGG_FLIPPING_EXECUTION_STATUS, CONTROL_COOL, CONTROL_COOL2_1, CONTROL_COOL2_2, CONTROL_COOL2_3, CONTROL_COOL2_4,
     CONTROL_BLOWER] ! k"


lemma damper_commands_cells:
  "j \<noteq> 42 \<Longrightarrow> j \<noteq> 43 \<Longrightarrow> get_val (control_open_damper x s) j = get_val s j"
  "j \<noteq> 42 \<Longrightarrow> j \<noteq> 43 \<Longrightarrow> get_val (control_close_damper x y s) j = get_val s j"
  "get_val (control_open_damper 0 s) 42 = 0" "get_val (control_close_damper 0 y s) 43 = 0"
  "get_val s 42 = 0 \<Longrightarrow> get_val (control_close_damper x y s) 42 = 0"
  by (simp_all add: control_open_damper_def control_close_damper_def Let_def cells)

lemma buttons: "k < 12 \<Longrightarrow> k = 0 \<or> k = 1 \<or> k = 2 \<or> k = 3 \<or> k = 4 \<or> k = 5 \<or> k = 6 \<or> k = 7 \<or> k = 8 \<or> k = 9 \<or> k = 10 \<or> k = 11"
  for k :: nat
  by arith

lemma test_end_ok:
  assumes "k < 12" "\<forall>j \<in> {520..530}. j \<noteq> test_cell k \<longrightarrow> get_val s j = 0"
  shows "get_val (test_end (2 ^ k) s) TEST_CONTROL_MODE = 0" "\<forall>j \<in> {520..530}. get_val (test_end (2 ^ k) s) j = 0"
    "get_val (test_end (2 ^ k) s) (test_output k) = 0" "get_test_mode (test_end (2 ^ k) s) = 0"
proof -
  have t: "test_end (2 ^ k) s = test_release (test_cell k)
      (if k = 2 then control_open_damper 0 s else if k = 3 then control_close_damper 0 0 s else set_val (test_output k) 0 s)"
    using buttons[OF assms(1)] by (elim disjE) (simp_all add: test_end_def test_cell_def test_output_def)
  define s1 where "s1 = (if k = 2 then control_open_damper 0 s else if k = 3 then control_close_damper 0 0 s else set_val (test_output k) 0 s)"
  have o: "test_output k \<notin> {520..531}" "test_output k \<notin> {220..<220 + 12}" "test_cell k \<in> {520..530}" "test_output 2 = 42" "test_output 3 = 43"
    using buttons[OF assms(1)] by (elim disjE; simp add: test_output_def test_cell_def)+
  have c: "get_val s1 j = get_val s j" if "j \<in> {520..530}" for j
    using that o(1) by (auto simp: s1_def damper_commands_cells cells)
  have z: "get_val s1 (test_output k) = 0" using o(4,5) by (simp add: s1_def damper_commands_cells cells)
  show "get_val (test_end (2 ^ k) s) TEST_CONTROL_MODE = 0" unfolding t test_release_def by (simp add: cells)
  show "\<forall>j \<in> {520..530}. get_val (test_end (2 ^ k) s) j = 0"
    unfolding t s1_def[symmetric] test_release_def using assms(2) c by (auto simp: cells get_set_test_mode)
  show "get_val (test_end (2 ^ k) s) (test_output k) = 0"
    unfolding t s1_def[symmetric] test_release_def using o(1-3) z by (auto simp: cells get_set_test_mode)
  have "get_test_mode (set_val TEST_CONTROL_MODE 0 u) = get_test_mode u" for u
    unfolding get_test_mode_def by (intro fold_cong) (simp_all add: cells)
  then show "get_test_mode (test_end (2 ^ k) s) = 0" unfolding t test_release_def by (simp add: test_word)
qed





lemma test_end_all_cells:
  "get_val (test_end_all s) TEST_CONTROL_MODE = 0" "j \<in> {520..530} \<Longrightarrow> get_val (test_end_all s) j = 0"
  "k < 12 \<Longrightarrow> get_val (test_end_all s) (test_output k) = 0"
proof -
  show "get_val (test_end_all s) TEST_CONTROL_MODE = 0" by (simp add: test_end_all_def Let_def cells)
  show "j \<in> {520..530} \<Longrightarrow> get_val (test_end_all s) j = 0"
    by (simp add: test_end_all_def Let_def get_set_test_mode cells damper_commands_cells) presburger
  assume "k < 12"
  then show "get_val (test_end_all s) (test_output k) = 0"
    by - (drule buttons, elim disjE, simp_all add: test_output_def test_end_all_def Let_def get_set_test_mode cells damper_commands_cells)
qed

lemma get_test_mode_nonneg: "0 \<le> get_test_mode s"
proof -
  have "0 \<le> fold (\<lambda>i mode. to_ushort (mode + get_uval s (R_BTN_TP_MAIN + i) * 2 ^ i)) is m" if "0 \<le> m" for "is" m
    using that by (induction "is" arbitrary: m) (simp_all add: to_ushort_range)
  then show ?thesis by (simp add: get_test_mode_def)
qed

lemma running_uval: "k < 12 \<Longrightarrow> get_val s TEST_CONTROL_MODE = 2 ^ k \<Longrightarrow> get_uval s TEST_CONTROL_MODE = 2 ^ k"
proof -
  assume k: "k < 12" "get_val s TEST_CONTROL_MODE = 2 ^ k"
  have "(2 :: int) ^ k \<le> 2 ^ 11" using k(1) by (intro power_increasing) simp_all
  then have "to_ushort (2 ^ k) = 2 ^ k" by (intro to_ushort_in) simp_all
  then show "get_uval s TEST_CONTROL_MODE = 2 ^ k" using k(2) to_ushort_val[of s TEST_CONTROL_MODE] by simp
qed


section \<open>The outputs under test\<close>














text \<open>
  C29. A test ends: when its button is released, when its time is over, or when other buttons are pressed, its output and its
  test mode are switched off and no test runs.
\<close>

theorem test_mode_ends:
  assumes "k < 12" "get_val s TEST_CONTROL_MODE = 2 ^ k"
    and "\<forall>j \<in> {TEST_MAIN_HEAT_MODE..TEST_BLOWER_MODE}. j \<noteq> test_cell k \<longrightarrow> get_val s j = 0"
    and "get_test_mode s = 2 ^ k \<longrightarrow> get_val s TEST_BTN_TIME = 0"
  shows "get_val (test_control_mode s) (test_output k) = 0 \<and> get_val (test_control_mode s) TEST_CONTROL_MODE = 0 \<and>
    (\<forall>j \<in> {TEST_MAIN_HEAT_MODE..TEST_BLOWER_MODE}. get_val (test_control_mode s) j = 0)"
proof -
  have u: "get_uval s TEST_CONTROL_MODE = 2 ^ k" using assms(1,2) by (rule running_uval)
  have e: "get_val (test_end (2 ^ k) t) (test_output k) = 0 \<and> get_val (test_end (2 ^ k) t) TEST_CONTROL_MODE = 0 \<and>
      (\<forall>j \<in> {520..530}. get_val (test_end (2 ^ k) t) j = 0)" if "\<And>j. j \<in> {520..530} \<Longrightarrow> get_val t j = get_val s j" for t
    using test_end_ok(1-3)[OF assms(1), of t] assms(3) that by auto
  have "(0 :: int) < 2 ^ k" by simp
  then show ?thesis using assms u e[of s] e[of "set_uval TEST_BTN_TIME 0 s"] test_end_all_cells get_test_mode_nonneg[of s]
    by (simp add: test_control_mode_def Let_def cells)
qed

theorem test_mode_ends_witness:
  "get_val (test_control_mode (set_uval TEST_CONTROL_MODE 1 (set_val TEST_MAIN_HEAT_MODE 1 (set_val CONTROL_MAIN_HEAT 1 power_on)))) CONTROL_MAIN_HEAT = 0"
proof -
  let ?s = "set_uval TEST_CONTROL_MODE 1 (set_val TEST_MAIN_HEAT_MODE 1 (set_val CONTROL_MAIN_HEAT 1 power_on))"
  have "get_test_mode ?s = 0"
    unfolding get_test_mode_def by (simp add: upt_rec cells)
  then show ?thesis using test_mode_ends[of 0 ?s] by (auto simp: test_cell_def test_output_def cells)
qed

end
