(* ===== verification/SetPara.thy ===== *)
theory SetPara
  imports Actuators
begin

text \<open>
  The set values of the day: \<open>update_set_para\<close> looks them up in eight tables of thirty days and values, \<open>preheat_set_para\<close> takes
  those of the preheating. The tables are kept sorted by day, with zeros after the last entry.
\<close>

section \<open>The search\<close>

text \<open>
  The test of entry \<open>i\<close> of the table at \<open>day\<close>. The day before it, \<open>head_para_time\<close>, is read from the table at \<open>heads\<close>: that of
  the temperature in six of the eight loops.
\<close>

definition para_fits :: "ctl \<Rightarrow> int \<Rightarrow> nat \<Rightarrow> nat \<Rightarrow> nat \<Rightarrow> bool" where
  "para_fits s now heads day i =
     (let head = (if i > 0 then get_uval s (heads + (i - 1) * 2) else 0);
          current = get_uval s (day + i * 2)
      in now \<ge> head \<and> now \<ge> current \<and>
         (i < 29 \<longrightarrow> (let next = get_uval s (day + (i + 1) * 2) in now < next \<or> next \<le> 0)))"

text \<open>The loop of the temperature, which writes the first value again as long as the first day is to come.\<close>

primrec temp_loop_from :: "int \<Rightarrow> nat list \<Rightarrow> ctl \<Rightarrow> ctl" where
  "temp_loop_from now [] s = s"
| "temp_loop_from now (i # is) s =
     (if i < 29 then
        if now \<ge> get_uval s P_SET_TP_MAIN_DAY then
          if para_fits s now P_SET_TP_MAIN_DAY P_SET_TP_MAIN_DAY i then set_uval P_AO_TP_MAIN (get_val s (P_SET_TP_MAIN_VAL + i * 2)) s
          else temp_loop_from now is s
        else temp_loop_from now is (set_uval P_AO_TP_MAIN (get_val s P_SET_TP_MAIN_VAL) s)
      else if para_fits s now P_SET_TP_MAIN_DAY P_SET_TP_MAIN_DAY i then set_uval P_AO_TP_MAIN (get_val s (P_SET_TP_MAIN_VAL + i * 2)) s
      else temp_loop_from now is s)"

text \<open>The other loops; those of the return water add the set value of the temperature.\<close>

definition para_loop :: "int \<Rightarrow> nat \<Rightarrow> nat \<Rightarrow> nat \<Rightarrow> nat \<Rightarrow> bool \<Rightarrow> ctl \<Rightarrow> ctl" where
  "para_loop now heads day val out relative s =
     (case find (para_fits s now heads day) [0..<30] of
        None \<Rightarrow> s
      | Some i \<Rightarrow> set_uval out (to_short ((if relative then get_val s P_AO_TP_MAIN else 0) + get_val s (val + i * 2))) s)"

definition para_defaults :: "ctl \<Rightarrow> ctl" where
  "para_defaults s =
     (let s1 = set_uval P_AO_TP_MAIN (get_uval s P_SET_TP_MAIN_VAL) s;
          s2 = set_uval P_AO_HM (get_uval s1 P_SET_HM_VAL) s1;
          s3 = set_uval P_AO_CO (get_uval s2 P_SET_CO_VAL) s2;
          s4 = set_uval P_AO_AD (get_uval s3 P_SET_AD_VAL) s3;
          s5 = set_uval P_AO_TP_RF1 (get_uval s4 P_AO_TP_MAIN + get_uval s4 P_SET_TP_RF1_VAL) s4;
          s6 = set_uval P_AO_TP_RF2 (get_uval s5 P_AO_TP_MAIN + get_uval s5 P_SET_TP_RF2_VAL) s5;
          s7 = set_uval P_AO_TP_RF3 (get_uval s6 P_AO_TP_MAIN + get_uval s6 P_SET_TP_RF3_VAL) s6
      in set_uval P_AO_TP_RF4 (get_uval s7 P_AO_TP_MAIN + get_uval s7 P_SET_TP_RF4_VAL) s7)"

definition update_set_para :: "ctl \<Rightarrow> ctl" where
  "update_set_para s =
     (let now = get_uval s R_RUN_DAY;
          s1 = para_defaults s;
          s2 = temp_loop_from now [0..<30] s1;
          s3 = para_loop now P_SET_TP_MAIN_DAY P_SET_HM_DAY P_SET_HM_VAL P_AO_HM False s2;
          s4 = para_loop now P_SET_TP_MAIN_DAY P_SET_CO_DAY P_SET_CO_VAL P_AO_CO False s3;
          s5 = para_loop now P_SET_TP_MAIN_DAY P_SET_AD_DAY P_SET_AD_VAL P_AO_AD False s4;
          s6 = para_loop now P_SET_TP_MAIN_DAY P_SET_TP_RF1_DAY P_SET_TP_RF1_VAL P_AO_TP_RF1 True s5;
          s7 = para_loop now P_SET_TP_MAIN_DAY P_SET_TP_RF2_DAY P_SET_TP_RF2_VAL P_AO_TP_RF2 True s6;
          s8 = para_loop now P_SET_TP_RF3_DAY P_SET_TP_RF3_DAY P_SET_TP_RF3_VAL P_AO_TP_RF3 True s7
      in para_loop now P_SET_TP_RF4_DAY P_SET_TP_RF4_DAY P_SET_TP_RF4_VAL P_AO_TP_RF4 True s8)"

definition preheat_set_para :: "ctl \<Rightarrow> ctl" where
  "preheat_set_para s =
     (let s0 = fold (\<lambda>c. set_uval c 0) [P_AO_TP_MAIN, P_AO_HM, P_AO_CO, P_AO_AD, P_AO_TP_RF1, P_AO_TP_RF2, P_AO_TP_RF3, P_AO_TP_RF4] s;
          s1 = set_uval P_AO_TP_MAIN (get_val s0 P_PRE_TP_MAIN) s0;
          s2 = set_uval P_AO_HM (get_val s1 P_PRE_HM) s1;
          s3 = set_uval P_AO_CO (get_val s2 P_PRE_CO) s2;
          s4 = set_uval P_AO_AD (get_val s3 P_PRE_AD) s3;
          s5 = set_uval P_AO_TP_RF1 (to_short (get_val s4 P_AO_TP_MAIN + get_val s4 P_PRE_TP_RF1)) s4;
          s6 = set_uval P_AO_TP_RF2 (to_short (get_val s5 P_AO_TP_MAIN + get_val s5 P_PRE_TP_RF2)) s5;
          s7 = set_uval P_AO_TP_RF3 (to_short (get_val s6 P_AO_TP_MAIN + get_val s6 P_PRE_TP_RF3)) s6
      in set_uval P_AO_TP_RF4 (to_short (get_val s7 P_AO_TP_MAIN + get_val s7 P_PRE_TP_RF4)) s7)"

section \<open>What the search finds\<close>

definition day_table :: "ctl \<Rightarrow> nat \<Rightarrow> nat \<Rightarrow> bool" where
  "day_table s day k \<longleftrightarrow> (\<forall>i. Suc i < k \<longrightarrow> get_uval s (day + i * 2) < get_uval s (day + Suc i * 2)) \<and>
     (\<forall>i. k \<le> i \<longrightarrow> i < 30 \<longrightarrow> get_uval s (day + i * 2) = 0)"

definition day_entry :: "ctl \<Rightarrow> nat \<Rightarrow> nat \<Rightarrow> int \<Rightarrow> nat \<Rightarrow> bool" where
  "day_entry s day k now i \<longleftrightarrow> i < k \<and> get_uval s (day + i * 2) \<le> now \<and> (Suc i < k \<longrightarrow> now < get_uval s (day + Suc i * 2))"

lemma day_table_mono:
  assumes "day_table s day k" "i \<le> j" "j < k"
  shows "get_uval s (day + i * 2) \<le> get_uval s (day + j * 2)"
  using assms(2,3)
proof (induction j rule: dec_induct)
  case (step j)
  then have "get_uval s (day + j * 2) < get_uval s (day + Suc j * 2)" using assms(1) unfolding day_table_def by blast
  then show ?case using step by simp
qed simp

lemma para_fits_before:
  assumes "day_table s day k" "k \<le> 30" "day_entry s day k now i" "j < i"
  shows "\<not> para_fits s now heads day j"
proof -
  have i: "i < k" "get_uval s (day + i * 2) \<le> now" using assms(3) by (simp_all add: day_entry_def)
  have "get_uval s (day + j * 2) < get_uval s (day + Suc j * 2)"
    using assms(1,4) i(1) unfolding day_table_def by (meson Suc_leI order_le_less_trans)
  moreover have "get_uval s (day + Suc j * 2) \<le> get_uval s (day + i * 2)" by (rule day_table_mono[OF assms(1)]) (use assms(4) i in auto)
  moreover have "0 \<le> get_uval s (day + j * 2)" by (simp add: get_ranges)
  ultimately show ?thesis using i assms(2,4) by (simp add: para_fits_def Let_def)
qed

lemma para_fits_at:
  assumes "day_table s day k" "k \<le> 30" "day_entry s day k now i" "0 \<le> now"
  shows "para_fits s now heads day i \<longleftrightarrow> i = 0 \<or> get_uval s (heads + (i - 1) * 2) \<le> now"
proof -
  have "now < get_uval s (day + (i + 1) * 2) \<or> get_uval s (day + (i + 1) * 2) \<le> 0" if "i < 29"
  proof (cases "Suc i < k")
    case False
    then have "get_uval s (day + Suc i * 2) = 0" using assms(1)[unfolded day_table_def, THEN conjunct2, rule_format, of "Suc i"] that by linarith
    then show ?thesis by (simp del: get_uval_0)
  qed (use assms(3) in \<open>simp add: day_entry_def\<close>)
  then show ?thesis using assms(3,4) unfolding para_fits_def Let_def day_entry_def by auto
qed

lemma find_first: "(\<And>j. j < i \<Longrightarrow> \<not> P j) \<Longrightarrow> P i \<Longrightarrow> i < n \<Longrightarrow> find P [0..<n] = Some i"
  by (auto simp: find_Some_iff intro!: exI[of _ i])

lemma temp_loop_find:
  assumes "get_uval s P_SET_TP_MAIN_DAY \<le> now"
  shows "temp_loop_from now is s = (case find (para_fits s now P_SET_TP_MAIN_DAY P_SET_TP_MAIN_DAY) is of
      None \<Rightarrow> s | Some i \<Rightarrow> set_uval P_AO_TP_MAIN (get_val s (P_SET_TP_MAIN_VAL + i * 2)) s)"
  using assms by (induction "is") (auto split: option.splits)

lemma para_loop_cells: "j \<noteq> out \<Longrightarrow> get_uval (para_loop now heads day val out rel s) j = get_uval s j"
  by (simp add: para_loop_def cells split: option.splits)

lemma para_defaults_cells:
  "j \<notin> {100..107} \<Longrightarrow> get_uval (para_defaults s) j = get_uval s j" "j \<notin> {100..107} \<Longrightarrow> get_val (para_defaults s) j = get_val s j"
  "get_uval (para_defaults s) P_AO_TP_MAIN = get_uval s P_SET_TP_MAIN_VAL" "get_uval (para_defaults s) P_AO_HM = get_uval s P_SET_HM_VAL"
  by (auto simp: para_defaults_def Let_def cells to_ushort_in get_ranges)

lemma temp_loop_cells: "j \<noteq> P_AO_TP_MAIN \<Longrightarrow> get_uval (temp_loop_from now is s) j = get_uval s j"
  by (induction "is" arbitrary: s) (simp_all add: cells)

lemma update_temp:
  "get_uval (update_set_para s) P_AO_TP_MAIN = get_uval (temp_loop_from (get_uval s R_RUN_DAY) [0..<30] (para_defaults s)) P_AO_TP_MAIN"
  by (simp add: update_set_para_def Let_def para_loop_cells)

lemma table_cells:
  assumes "\<And>j. j \<ge> 1000 \<Longrightarrow> get_uval t j = get_uval s j" "1000 \<le> day"
  shows "day_table t day k = day_table s day k" "day_entry t day k now i = day_entry s day k now i"
    "1000 \<le> heads \<Longrightarrow> para_fits t now heads day i = para_fits s now heads day i"
  using assms by (simp_all add: day_table_def day_entry_def para_fits_def Let_def)

lemma temperature_schedule_run:
  assumes "k \<le> 30" "\<forall>i. Suc i < k \<longrightarrow> get_uval s (P_SET_TP_MAIN_DAY + i * 2) < get_uval s (P_SET_TP_MAIN_DAY + Suc i * 2)"
    and "\<forall>i. k \<le> i \<longrightarrow> i < 30 \<longrightarrow> get_uval s (P_SET_TP_MAIN_DAY + i * 2) = 0"
    and "i < k" "get_uval s (P_SET_TP_MAIN_DAY + i * 2) \<le> get_uval s R_RUN_DAY"
    and "Suc i < k \<longrightarrow> get_uval s R_RUN_DAY < get_uval s (P_SET_TP_MAIN_DAY + Suc i * 2)"
  shows "get_val (update_set_para s) P_AO_TP_MAIN = get_val s (P_SET_TP_MAIN_VAL + i * 2)"
proof -
  let ?now = "get_uval s R_RUN_DAY" and ?d = "para_defaults s"
  have c: "get_uval ?d j = get_uval s j" if "j \<ge> 1000" for j using that by (simp add: para_defaults_cells)
  have t: "day_table ?d P_SET_TP_MAIN_DAY k" "day_entry ?d P_SET_TP_MAIN_DAY k ?now i"
    unfolding table_cells(1,2)[of ?d s P_SET_TP_MAIN_DAY, OF c, simplified]
    using assms unfolding day_table_def day_entry_def by blast+
  have m: "get_uval s (P_SET_TP_MAIN_DAY + j * 2) \<le> get_uval s (P_SET_TP_MAIN_DAY + i * 2)" if "j \<le> i" for j
    by (rule day_table_mono[of _ _ k]) (use assms that in \<open>simp_all add: day_table_def\<close>)
  have "get_uval ?d P_SET_TP_MAIN_DAY \<le> ?now" using m[of 0] assms(5) c by simp
  moreover have "find (para_fits ?d ?now P_SET_TP_MAIN_DAY P_SET_TP_MAIN_DAY) [0..<30] = Some i"
  proof (rule find_first)
    show "\<not> para_fits ?d ?now P_SET_TP_MAIN_DAY P_SET_TP_MAIN_DAY j" if "j < i" for j
      by (rule para_fits_before[OF t(1) assms(1) t(2) that])
    show "para_fits ?d ?now P_SET_TP_MAIN_DAY P_SET_TP_MAIN_DAY i"
      using para_fits_at[OF t(1) assms(1) t(2)] m[of "i - 1"] assms(5) c by (simp add: get_ranges)
  qed (use assms in simp)
  ultimately have "get_uval (update_set_para s) P_AO_TP_MAIN = to_ushort (get_val ?d (P_SET_TP_MAIN_VAL + i * 2))"
    unfolding update_temp by (subst temp_loop_find) (simp_all add: cells)
  then have "get_uval (update_set_para s) P_AO_TP_MAIN = get_uval s (P_SET_TP_MAIN_VAL + i * 2)" using c by simp
  then show ?thesis by (metis to_short_uval)
qed

text \<open>
  C11. The set value of the temperature is that of the day: for a table whose used entries are sorted by day, followed by zeros,
  and a first day that has come, \<open>update_set_para\<close> stores the value of the last entry that is not later than now.
\<close>

theorem temperature_schedule:
  assumes "k \<le> 30" "\<forall>i. Suc i < k \<longrightarrow> get_uval s (P_SET_TP_MAIN_DAY + i * 2) < get_uval s (P_SET_TP_MAIN_DAY + Suc i * 2)"
    and "\<forall>i. k \<le> i \<longrightarrow> i < 30 \<longrightarrow> get_uval s (P_SET_TP_MAIN_DAY + i * 2) = 0"
    and "i < k" "get_uval s (P_SET_TP_MAIN_DAY + i * 2) \<le> get_uval s R_RUN_DAY"
    and "Suc i < k \<longrightarrow> get_uval s R_RUN_DAY < get_uval s (P_SET_TP_MAIN_DAY + Suc i * 2)"
  shows "get_val (update_set_para s) P_AO_TP_MAIN = get_val s (P_SET_TP_MAIN_VAL + i * 2)"
  using assms by (rule temperature_schedule_run)

text \<open>A table of two entries, the rest unused: day 0 with 3800, day 5 with 3700; now it is day 7.\<close>

theorem temperature_schedule_witness:
  "get_val (update_set_para (set_val P_SET_TP_MAIN_VAL 3800 (set_val (P_SET_TP_MAIN_DAY + 2) 5 (set_val (P_SET_TP_MAIN_VAL + 2) 3700
     (set_val R_RUN_DAY 7 power_on))))) P_AO_TP_MAIN = 3700"
proof -
  let ?s = "set_val P_SET_TP_MAIN_VAL 3800 (set_val (P_SET_TP_MAIN_DAY + 2) 5 (set_val (P_SET_TP_MAIN_VAL + 2) 3700 (set_val R_RUN_DAY 7 power_on)))"
  have "get_val (update_set_para ?s) P_AO_TP_MAIN = get_val ?s (P_SET_TP_MAIN_VAL + 1 * 2)"
    by (rule temperature_schedule[where k = 2]) (auto simp: cells to_ushort_in)
  then show ?thesis by (simp add: cells to_short_in)
qed

text \<open>
  C37. Before the first day of a table with unused entries the temperature is set to the value of the thirtieth, unused entry,
  and not to the first value, which the loop means to set: the last test has no condition on the first day.
\<close>

theorem temperature_before_first_day:
  assumes "get_uval s R_RUN_DAY < get_uval s P_SET_TP_MAIN_DAY" "get_val s (P_SET_TP_MAIN_DAY + 28 * 2) = 0" "get_val s (P_SET_TP_MAIN_DAY + 29 * 2) = 0"
  shows "get_val (update_set_para s) P_AO_TP_MAIN = get_val s (P_SET_TP_MAIN_VAL + 29 * 2)"
proof -
  let ?now = "get_uval s R_RUN_DAY" and ?d = "para_defaults s"
  have skip: "temp_loop_from ?now (is @ [29]) t = temp_loop_from ?now [29] (fold (\<lambda>i t. set_uval P_AO_TP_MAIN (get_val t P_SET_TP_MAIN_VAL) t) is t)"
    if "\<forall>i \<in> set is. i < 29" "get_uval t P_SET_TP_MAIN_DAY = get_uval s P_SET_TP_MAIN_DAY" for "is" t
    using that assms(1) by (induction "is" arbitrary: t) (auto simp: cells)
  have f: "get_uval (fold (\<lambda>i t. set_uval P_AO_TP_MAIN (get_val t P_SET_TP_MAIN_VAL) t) is t) j = get_uval t j" if "j \<noteq> P_AO_TP_MAIN" for "is" t j
    using that by (induction "is" arbitrary: t) (simp_all add: cells)
  have u: "[0..<30] = [0..<29] @ [29]" using upt_Suc_append[of 0 29] by (simp only: numeral_eq_Suc) (simp add: numeral_eq_Suc)
  let ?t = "fold (\<lambda>i t. set_uval P_AO_TP_MAIN (get_val t P_SET_TP_MAIN_VAL) t) [0..<29] ?d"
  have c: "get_uval ?t j = get_uval s j" if "j \<ge> 1000" for j
    by (rule trans[OF f para_defaults_cells(1)]) (use that in simp_all)
  have "para_fits ?t ?now P_SET_TP_MAIN_DAY P_SET_TP_MAIN_DAY 29"
    using c assms(2,3) get_ranges(3)[of s R_RUN_DAY] by (simp add: para_fits_def Let_def del: get_uval_0) (simp del: get_uval_0 flip: get_uval_0)
  then have "temp_loop_from ?now [29] ?t = set_uval P_AO_TP_MAIN (get_val ?t (P_SET_TP_MAIN_VAL + 29 * 2)) ?t" by simp
  moreover have "temp_loop_from ?now [0..<30] ?d = temp_loop_from ?now [29] ?t"
    unfolding u by (rule skip) (simp_all add: para_defaults_cells)
  ultimately have "get_uval (update_set_para s) P_AO_TP_MAIN = to_ushort (get_val ?t (P_SET_TP_MAIN_VAL + 29 * 2))"
    unfolding update_temp by (simp add: cells)
  then have "get_uval (update_set_para s) P_AO_TP_MAIN = get_uval s (P_SET_TP_MAIN_VAL + 29 * 2)" using c by simp
  then show ?thesis by (metis to_short_uval)
qed

theorem temperature_before_first_day_witness:
  "get_val (update_set_para (set_val P_SET_TP_MAIN_VAL 3800 (set_val P_SET_TP_MAIN_DAY 5 power_on))) P_AO_TP_MAIN = 0"
proof -
  let ?s = "set_val P_SET_TP_MAIN_VAL 3800 (set_val P_SET_TP_MAIN_DAY 5 power_on)"
  have "get_val (update_set_para ?s) P_AO_TP_MAIN = get_val ?s (P_SET_TP_MAIN_VAL + 29 * 2)"
    by (rule temperature_before_first_day) (simp_all add: cells to_ushort_in)
  then show ?thesis by (simp add: cells)
qed

lemma humidity_schedule_run:
  assumes "\<forall>i. Suc i < 30 \<longrightarrow> get_uval s (P_SET_HM_DAY + i * 2) < get_uval s (P_SET_HM_DAY + Suc i * 2)"
    and "i < 30" "get_uval s (P_SET_HM_DAY + i * 2) \<le> get_uval s R_RUN_DAY"
    and "Suc i < 30 \<longrightarrow> get_uval s R_RUN_DAY < get_uval s (P_SET_HM_DAY + Suc i * 2)"
  shows "get_val (update_set_para s) P_AO_HM =
    get_val s (P_SET_HM_VAL + (if i = 0 \<or> get_uval s (P_SET_TP_MAIN_DAY + (i - 1) * 2) \<le> get_uval s R_RUN_DAY then i else 0) * 2)"
proof -
  let ?now = "get_uval s R_RUN_DAY"
  define t where "t = temp_loop_from ?now [0..<30] (para_defaults s)"
  have c: "get_uval t j = get_uval s j" if "j \<ge> 1000" for j
    unfolding t_def by (rule trans[OF temp_loop_cells para_defaults_cells(1)]) (use that in simp_all)
  have h: "get_uval t P_AO_HM = get_uval s P_SET_HM_VAL" unfolding t_def using para_defaults_cells(4)[of s] by (simp add: temp_loop_cells)
  have d: "day_table t P_SET_HM_DAY 30" "day_entry t P_SET_HM_DAY 30 ?now i"
    unfolding table_cells(1,2)[of t s P_SET_HM_DAY, OF c, simplified]
    using assms unfolding day_table_def day_entry_def by auto
  let ?P = "para_fits t ?now P_SET_TP_MAIN_DAY P_SET_HM_DAY"
  have before: "\<not> ?P j" if "j < i" for j by (rule para_fits_before[OF d(1) order_refl d(2) that])
  have at: "?P i \<longleftrightarrow> i = 0 \<or> get_uval s (P_SET_TP_MAIN_DAY + (i - 1) * 2) \<le> ?now"
    using para_fits_at[OF d(1) order_refl d(2)] c by (simp add: get_ranges)
  have after: "\<not> ?P j" if "i < j" "j < 30" for j
  proof -
    have "get_uval t (P_SET_HM_DAY + Suc i * 2) \<le> get_uval t (P_SET_HM_DAY + j * 2)"
      by (rule day_table_mono[OF d(1)]) (use that in auto)
    moreover have "?now < get_uval t (P_SET_HM_DAY + Suc i * 2)" using d(2) that by (simp add: day_entry_def)
    ultimately show ?thesis by (simp add: para_fits_def Let_def)
  qed
  have "get_uval (update_set_para s) P_AO_HM = get_uval (para_loop ?now P_SET_TP_MAIN_DAY P_SET_HM_DAY P_SET_HM_VAL P_AO_HM False t) P_AO_HM"
    by (simp add: update_set_para_def Let_def para_loop_cells t_def)
  also have "\<dots> = get_uval s (P_SET_HM_VAL + (if ?P i then i else 0) * 2)"
  proof (cases "?P i")
    case True
    then have "find ?P [0..<30] = Some i" using before assms(2) by (intro find_first)
    then show ?thesis using True c by (simp add: para_loop_def cells to_short_in get_ranges)
  next
    case False
    have "\<not> ?P j" if "j < 30" for j using before[of j] after[of j] False that by (metis linorder_neqE_nat)
    then have "find ?P [0..<30] = None" by (simp add: find_None_iff)
    then show ?thesis using False h by (simp add: para_loop_def)
  qed
  finally have "get_uval (update_set_para s) P_AO_HM = get_uval s (P_SET_HM_VAL + (if ?P i then i else 0) * 2)" .
  then show ?thesis unfolding at by (metis to_short_uval)
qed

text \<open>
  C22. The set value of the humidity is that of the day only if the day before in the table of the temperature has come as
  well: from a full sorted table, \<open>update_set_para\<close> stores the value of the last entry not later than now if the entry of the
  temperature before that number is not later either, and otherwise the value of the first entry.
\<close>

theorem humidity_schedule:
  assumes "\<forall>i. Suc i < 30 \<longrightarrow> get_uval s (P_SET_HM_DAY + i * 2) < get_uval s (P_SET_HM_DAY + Suc i * 2)"
    and "i < 30" "get_uval s (P_SET_HM_DAY + i * 2) \<le> get_uval s R_RUN_DAY"
    and "Suc i < 30 \<longrightarrow> get_uval s R_RUN_DAY < get_uval s (P_SET_HM_DAY + Suc i * 2)"
  shows "get_val (update_set_para s) P_AO_HM =
    get_val s (P_SET_HM_VAL + (if i = 0 \<or> get_uval s (P_SET_TP_MAIN_DAY + (i - 1) * 2) \<le> get_uval s R_RUN_DAY then i else 0) * 2)"
  using assms by (rule humidity_schedule_run)

text \<open>Humidity entries on the days 0, 1, 2, and on; the temperature stays at its first entry until day 1000: at day 2 the humidity falls back.\<close>

definition days_written :: "nat \<Rightarrow> ctl \<Rightarrow> ctl" where
  "days_written day s = fold (\<lambda>i. set_uval (day + i * 2) (int i)) [0..<30] s"

lemma days_written_cells:
  "i < 30 \<Longrightarrow> get_uval (days_written day s) (day + i * 2) = int i" "j < day \<Longrightarrow> get_uval (days_written day s) j = get_uval s j"
  "odd (day + j) \<Longrightarrow> get_uval (days_written day s) j = get_uval s j"
proof -
  have a: "get_uval (fold (\<lambda>i. set_uval (day + i * 2) (int i)) [0..<n] s) (day + i * 2) = (if i < n then int i else get_uval s (day + i * 2))"
    if "n \<le> 30" for n i
    using that by (induction n) (auto simp: cells to_ushort_in)
  have b: "get_uval (fold (\<lambda>i. set_uval (day + i * 2) (int i)) [0..<n] s) j = get_uval s j" if "j < day \<or> odd (day + j)" for n j
    using that by (induction n) (auto simp: cells)
  show "i < 30 \<Longrightarrow> get_uval (days_written day s) (day + i * 2) = int i" "j < day \<Longrightarrow> get_uval (days_written day s) j = get_uval s j"
    "odd (day + j) \<Longrightarrow> get_uval (days_written day s) j = get_uval s j"
    unfolding days_written_def using a[of 30 i] b[of j 30] by auto
qed

theorem humidity_schedule_witness:
  "get_val (update_set_para (days_written P_SET_HM_DAY (set_val (P_SET_TP_MAIN_DAY + 2) 1000 (set_val (P_SET_HM_VAL + 4) 60 (set_val P_SET_HM_VAL 55
     (set_val R_RUN_DAY 2 power_on)))))) P_AO_HM = 55"
proof -
  let ?t = "set_val (P_SET_TP_MAIN_DAY + 2) 1000 (set_val (P_SET_HM_VAL + 4) 60 (set_val P_SET_HM_VAL 55 (set_val R_RUN_DAY 2 power_on)))"
  let ?s = "days_written P_SET_HM_DAY ?t"
  have d: "get_uval ?s (P_SET_HM_DAY + i * 2) = int i" if "i < 30" for i using days_written_cells(1)[OF that] .
  have n: "get_uval ?s R_RUN_DAY = 2" "get_uval ?s (P_SET_TP_MAIN_DAY + (2 - 1) * 2) = 1000" "get_uval ?s P_SET_HM_VAL = 55"
    by (simp_all add: days_written_cells(2,3) cells to_ushort_in)
  have "get_val (update_set_para ?s) P_AO_HM =
      get_val ?s (P_SET_HM_VAL + (if (2::nat) = 0 \<or> get_uval ?s (P_SET_TP_MAIN_DAY + (2 - 1) * 2) \<le> get_uval ?s R_RUN_DAY then 2 else 0) * 2)"
  proof (rule humidity_schedule)
    show "\<forall>i. Suc i < 30 \<longrightarrow> get_uval ?s (P_SET_HM_DAY + i * 2) < get_uval ?s (P_SET_HM_DAY + Suc i * 2)"
    proof (intro allI impI)
      fix i :: nat
      assume "Suc i < 30"
      then show "get_uval ?s (P_SET_HM_DAY + i * 2) < get_uval ?s (P_SET_HM_DAY + Suc i * 2)" using d[of i] d[of "Suc i"] by simp
    qed
    show "get_uval ?s (P_SET_HM_DAY + 2 * 2) \<le> get_uval ?s R_RUN_DAY" unfolding n(1) using d[of 2] by simp
    show "Suc 2 < 30 \<longrightarrow> get_uval ?s R_RUN_DAY < get_uval ?s (P_SET_HM_DAY + Suc 2 * 2)" unfolding n(1) using d[of "Suc 2"] by simp
  qed simp
  also have "\<dots> = get_val ?s P_SET_HM_VAL" unfolding n by simp
  also have "\<dots> = to_short (get_uval ?s P_SET_HM_VAL)" by simp
  also have "\<dots> = 55" unfolding n by (simp add: to_short_in)
  finally show ?thesis .
qed

end
