(* ===== verification/Preset.thy ===== *)
theory Preset
  imports SetPara
begin

text \<open>
  The presets of the factory, \<open>preset_para_init\<close> of \<open>src/src/jincubator.cpp\<close>: eight tables of thirty days. With them the search
  of the set values is right on every day.
\<close>

section \<open>The tables\<close>

text \<open>The writes of a table: day and value of each entry in turn.\<close>

definition preset_table :: "nat \<Rightarrow> nat \<Rightarrow> int list \<Rightarrow> int list \<Rightarrow> ctl \<Rightarrow> ctl" where
  "preset_table day val ds vs = fold (\<lambda>i s. set_val (val + 2 * i) (vs ! i) (set_val (day + 2 * i) (ds ! i) s)) [0..<30]"

text \<open>The days are the same in all tables, in hundredths.\<close>

definition preset_days :: "int list" where
  "preset_days =
    [0, 100, 200, 300, 400, 500, 600, 700, 800, 900, 1000, 1100, 1200, 1300, 1400,
     1500, 1600, 1700, 1800, 1900, 2000, 2100, 2200, 2300, 2400, 2500, 2600, 2700, 2800, 2900]"

definition preset_temp_values :: "int list" where
  "preset_temp_values =
    [3810, 3800, 3790, 3790, 3790, 3790, 3790, 3780, 3780, 3780, 3770, 3770, 3770, 3770, 3760,
     3760, 3760, 3760, 3750, 3750, 3720, 3720, 3710, 3710, 3700, 3700, 3650, 3650, 3600, 3600]"

definition preset_tp_main :: "ctl \<Rightarrow> ctl" where
  "preset_tp_main s =
     preset_table P_SET_TP_MAIN_DAY P_SET_TP_MAIN_VAL preset_days
       preset_temp_values
       (set_val P_PRE_TP_MAIN 2500 s)"

definition preset_humi_values :: "int list" where
  "preset_humi_values =
    [3150, 3150, 3150, 3150, 3000, 3000, 3000, 3000, 3000, 3000, 2950, 2950, 2950, 2950, 2950,
     2900, 2900, 2900, 2900, 2900, 2850, 2850, 2850, 2850, 2850, 2800, 2800, 2800, 2800, 2800]"

definition preset_hm :: "ctl \<Rightarrow> ctl" where
  "preset_hm s =
     preset_table P_SET_HM_DAY P_SET_HM_VAL preset_days
       preset_humi_values
       (set_val P_PRE_HM 3150 s)"

definition preset_co :: "ctl \<Rightarrow> ctl" where
  "preset_co s =
     preset_table P_SET_CO_DAY P_SET_CO_VAL preset_days
       [10000, 10000, 10000, 10000, 10000, 10000, 10000, 10000, 10000, 10000, 9000, 9000, 9000, 9000, 9000, 8000, 8000, 8000, 8000, 8000, 7000, 7000, 7000, 7000, 7000, 6000, 6000, 6000, 6000, 6000]
       (set_val P_PRE_CO 5000 s)"

definition preset_ad :: "ctl \<Rightarrow> ctl" where
  "preset_ad s =
     preset_table P_SET_AD_DAY P_SET_AD_VAL preset_days
       [0, 0, 0, 0, 0, 0, 0, 0, 0, 0, 10, 10, 10, 10, 15, 15, 15, 15, 15, 20, 20, 20, 20, 20, 25, 25, 25, 25, 25, 25]
       (set_val P_PRE_AD 30 s)"

definition preset_tp_rf1 :: "ctl \<Rightarrow> ctl" where
  "preset_tp_rf1 s =
     preset_table P_SET_TP_RF1_DAY P_SET_TP_RF1_VAL preset_days
       [-10, -10, -10, -10, -10, -10, -10, -10, -10, 20, 20, 20, 20, 20, 20, 15, 15, 15, 15, 15, 20, 20, 20, 20, 20, 30, 30, 30, 30, 30]
       (set_val P_PRE_TP_RF1 (-10) (set_val P_PRE_TP_RF1_DAY 900 s))"

definition preset_tp_rf2 :: "ctl \<Rightarrow> ctl" where
  "preset_tp_rf2 s =
     preset_table P_SET_TP_RF2_DAY P_SET_TP_RF2_VAL preset_days
       [-10, -10, -10, -10, -10, -10, -10, -10, -10, 20, 20, 20, 20, 20, 20, 15, 15, 15, 15, 15, 20, 20, 20, 20, 20, 30, 30, 30, 30, 30]
       (set_val P_PRE_TP_RF2 (-10) (set_val P_PRE_TP_RF2_DAY 900 s))"

definition preset_tp_rf3 :: "ctl \<Rightarrow> ctl" where
  "preset_tp_rf3 s =
     preset_table P_SET_TP_RF3_DAY P_SET_TP_RF3_VAL preset_days
       [-10, -10, -10, -10, -10, -10, -10, -10, -10, 20, 20, 20, 20, 20, 20, 15, 15, 15, 15, 15, 20, 20, 20, 20, 20, 30, 30, 30, 30, 30]
       (set_val P_PRE_TP_RF3 (-10) (set_val P_PRE_TP_RF3_DAY 900 s))"

definition preset_tp_rf4 :: "ctl \<Rightarrow> ctl" where
  "preset_tp_rf4 s =
     preset_table P_SET_TP_RF4_DAY P_SET_TP_RF4_VAL preset_days
       [-10, -10, -10, -10, -10, -10, -10, -10, -10, 20, 20, 20, 20, 20, 20, 15, 15, 15, 15, 15, 20, 20, 20, 20, 20, 30, 30, 30, 30, 30]
       (set_val P_PRE_TP_RF4 (-10) (set_val P_PRE_TP_RF4_DAY 900 s))"

definition preset_para_init :: "nat \<Rightarrow> ctl \<Rightarrow> ctl" where
  "preset_para_init mode s =
     (if S_PRE_TP_MAIN = mode then preset_tp_main s
      else if S_PRE_HM = mode then preset_hm s
      else if S_PRE_CO = mode then preset_co s
      else if S_PRE_AD = mode then preset_ad s
      else if S_PRE_TP_RF1 = mode then preset_tp_rf1 s
      else if S_PRE_TP_RF2 = mode then preset_tp_rf2 s
      else if S_PRE_TP_RF3 = mode then preset_tp_rf3 s
      else if S_PRE_TP_RF4 = mode then preset_tp_rf4 s
      else s)"

section \<open>The presets and the search\<close>

lemma preset_table_cells:
  assumes "val = Suc day" "i < 30"
  shows "get_uval (preset_table day val ds vs s) (day + i * 2) = to_ushort (ds ! i)"
    "get_val (preset_table day val ds vs s) (val + i * 2) = to_short (vs ! i)"
    "j < day \<or> val + 58 < j \<Longrightarrow> get_uval (preset_table day val ds vs s) j = get_uval s j"
    "j < day \<or> val + 58 < j \<Longrightarrow> get_val (preset_table day val ds vs s) j = get_val s j"
proof -
  let ?f = "\<lambda>n. fold (\<lambda>i s. set_val (val + 2 * i) (vs ! i) (set_val (day + 2 * i) (ds ! i) s)) [0..<n] s"
  have p: "day + 2 * i \<noteq> Suc (day + 2 * k)" "Suc (day + 2 * i) \<noteq> day + 2 * k" for i k by presburger+
  have a: "get_uval (?f n) (day + i * 2) = to_ushort (ds ! i)" if "i < n" for i n
    using that p unfolding assms(1) by (induction n) (auto simp: cells less_Suc_eq mult.commute)
  have b: "get_val (?f n) (val + i * 2) = to_short (vs ! i)" if "i < n" for i n
    using that p unfolding assms(1) by (induction n) (auto simp: cells less_Suc_eq mult.commute)
  have c: "get_uval (?f n) j = get_uval s j \<and> get_val (?f n) j = get_val s j" if "n \<le> 30" "j < day \<or> val + 58 < j" for j n
    using that assms(1) by (induction n) (auto simp: cells)
  show "get_uval (preset_table day val ds vs s) (day + i * 2) = to_ushort (ds ! i)"
    "get_val (preset_table day val ds vs s) (val + i * 2) = to_short (vs ! i)"
    "j < day \<or> val + 58 < j \<Longrightarrow> get_uval (preset_table day val ds vs s) j = get_uval s j"
    "j < day \<or> val + 58 < j \<Longrightarrow> get_val (preset_table day val ds vs s) j = get_val s j"
    unfolding preset_table_def using a[OF assms(2)] b[OF assms(2)] c[of 30 j] by blast+
qed

lemma preset_days_nth: "i < 30 \<Longrightarrow> preset_days ! i = 100 * int i"
proof -
  have e: "preset_days = map (\<lambda>i. 100 * int i) [0..<30]" unfolding preset_days_def by (simp add: upt_rec)
  assume "i < 30"
  then show ?thesis unfolding e by (subst nth_map_upt) simp_all
qed

lemma preset_values_range:
  "i < 30 \<Longrightarrow> to_short (preset_temp_values ! i) = preset_temp_values ! i" "i < 30 \<Longrightarrow> to_short (preset_humi_values ! i) = preset_humi_values ! i"
proof -
  have "\<forall>x \<in> set preset_temp_values \<union> set preset_humi_values. to_short x = x" "length preset_temp_values = 30" "length preset_humi_values = 30"
    by (simp_all add: preset_temp_values_def preset_humi_values_def to_short_in)
  then show "i < 30 \<Longrightarrow> to_short (preset_temp_values ! i) = preset_temp_values ! i" "i < 30 \<Longrightarrow> to_short (preset_humi_values ! i) = preset_humi_values ! i"
    by auto
qed

text \<open>
  C8. With the presets of temperature and humidity the set values are those of the day, on every day: \<open>update_set_para\<close>
  stores the entry whose number is the day, and from the thirtieth day on the last one. (The days of both tables are the same,
  so that the wrong table in the search of the humidity does no harm.)
\<close>

theorem presets_schedule:
  assumes "get_uval s R_RUN_DAY = int d"
  shows "let t = update_set_para (preset_para_init S_PRE_HM (preset_para_init S_PRE_TP_MAIN s)); i = min 29 (d div 100)
    in get_val t P_AO_TP_MAIN = preset_temp_values ! i \<and> get_val t P_AO_HM = preset_humi_values ! i"
proof -
  let ?p = "preset_para_init S_PRE_HM (preset_para_init S_PRE_TP_MAIN s)"
  define i where "i = min 29 (d div 100)"
  have p: "?p = preset_hm (preset_tp_main s)" by (simp add: preset_para_init_def)
  have u: "to_ushort (preset_days ! j) = 100 * int j" if "j < 30" for j
    using that by (simp add: preset_days_nth to_ushort_in)
  have hm: "get_uval ?p (P_SET_HM_DAY + j * 2) = 100 * int j" "get_val ?p (P_SET_HM_VAL + j * 2) = preset_humi_values ! j" if "j < 30" for j
    unfolding p preset_hm_def using preset_table_cells(1,2)[of P_SET_HM_VAL P_SET_HM_DAY j] that u preset_values_range by simp_all
  have tp: "get_uval ?p (P_SET_TP_MAIN_DAY + j * 2) = 100 * int j" "get_val ?p (P_SET_TP_MAIN_VAL + j * 2) = preset_temp_values ! j" if "j < 30" for j
  proof -
    have "get_uval ?p (P_SET_TP_MAIN_DAY + j * 2) = get_uval (preset_tp_main s) (P_SET_TP_MAIN_DAY + j * 2)"
      "get_val ?p (P_SET_TP_MAIN_VAL + j * 2) = get_val (preset_tp_main s) (P_SET_TP_MAIN_VAL + j * 2)"
      unfolding p preset_hm_def using preset_table_cells(3,4)[of P_SET_HM_VAL P_SET_HM_DAY 0] that by (simp_all add: cells)
    then show "get_uval ?p (P_SET_TP_MAIN_DAY + j * 2) = 100 * int j" "get_val ?p (P_SET_TP_MAIN_VAL + j * 2) = preset_temp_values ! j"
      unfolding preset_tp_main_def using preset_table_cells(1,2)[of P_SET_TP_MAIN_VAL P_SET_TP_MAIN_DAY j] that u preset_values_range by simp_all
  qed
  have now: "get_uval ?p R_RUN_DAY = int d"
    unfolding p preset_hm_def preset_tp_main_def
    using preset_table_cells(3)[of P_SET_HM_VAL P_SET_HM_DAY 0 R_RUN_DAY] preset_table_cells(3)[of P_SET_TP_MAIN_VAL P_SET_TP_MAIN_DAY 0 R_RUN_DAY] assms
    by (simp add: cells)
  have i: "i < 30" "100 * i \<le> d" "Suc i < 30 \<longrightarrow> d < 100 * Suc i" by (auto simp: i_def)
  have a: "100 * int i \<le> int d" using i(2) by linarith
  have b: "Suc i < 30 \<longrightarrow> int d < 100 * int (Suc i)" using i(3) by linarith
  have step: "get_uval ?p (day + j * 2) < get_uval ?p (day + Suc j * 2)"
    if "\<And>j. j < 30 \<Longrightarrow> get_uval ?p (day + j * 2) = 100 * int j" "Suc j < 30" for day j
    using that(2) by (simp only: that(1)[OF that(2)] that(1)[OF Suc_lessD[OF that(2)]]) simp
  have until: "Suc i < 30 \<longrightarrow> get_uval ?p R_RUN_DAY < get_uval ?p (day + Suc i * 2)"
    if "\<And>j. j < 30 \<Longrightarrow> get_uval ?p (day + j * 2) = 100 * int j" for day
    using b by (metis now that)
  have since: "get_uval ?p (day + i * 2) \<le> get_uval ?p R_RUN_DAY" if "\<And>j. j < 30 \<Longrightarrow> get_uval ?p (day + j * 2) = 100 * int j" for day
    unfolding now that[OF i(1)] by (rule a)
  have "get_val (update_set_para ?p) P_AO_TP_MAIN = get_val ?p (P_SET_TP_MAIN_VAL + i * 2)"
    by (rule temperature_schedule_run[where k = 30])
      (use step[OF tp(1)] until[OF tp(1)] since[OF tp(1)] i(1) in \<open>blast | simp\<close>)+
  moreover have "get_val (update_set_para ?p) P_AO_HM =
      get_val ?p (P_SET_HM_VAL + (if i = 0 \<or> get_uval ?p (P_SET_TP_MAIN_DAY + (i - 1) * 2) \<le> get_uval ?p R_RUN_DAY then i else 0) * 2)"
    by (rule humidity_schedule_run) (use step[OF hm(1)] until[OF hm(1)] since[OF hm(1)] i(1) in blast)+
  moreover have "get_uval ?p (P_SET_TP_MAIN_DAY + (i - 1) * 2) \<le> get_uval ?p R_RUN_DAY" using tp(1)[of "i - 1"] i a now by simp
  ultimately show ?thesis using tp(2) hm(2) i(1) by (simp add: Let_def i_def)
qed

theorem presets_schedule_witness:
  "get_val (update_set_para (preset_para_init S_PRE_HM (preset_para_init S_PRE_TP_MAIN (set_val R_RUN_DAY 1850 power_on)))) P_AO_TP_MAIN = 3750"
  using presets_schedule[of "set_val R_RUN_DAY 1850 power_on" 1850] by (simp add: Let_def cells to_ushort_in preset_temp_values_def)

end
