(* ===== verification/Alarm.thy ===== *)
theory Alarm
  imports Damper
begin

text \<open>
  The alarms of \<open>src/src/jincubator.cpp\<close>: the alarm values of \<open>temp_update_para_data\<close>, the alarms of temperature, humidity,
  return water, carbon dioxide and sensors of \<open>thread_alarm_func\<close>, and the thread that turns the eggs. What a thread keeps in
  local variables between its rounds is a parameter here.
\<close>

section \<open>The alarm values\<close>

definition alarm_values :: "nat \<Rightarrow> nat \<Rightarrow> nat \<Rightarrow> nat \<Rightarrow> nat \<Rightarrow> nat \<Rightarrow> ctl \<Rightarrow> ctl" where
  "alarm_values mode sp ah al high low s =
     (let s1 = (if get_uval s mode = 1 then
                  let h = to_short (get_val s sp + get_val s ah); l = to_short (get_val s sp - get_val s al)
                  in set_val low l (set_val high h s)
                else s)
      in if get_uval s1 mode = 0 then
           let t = set_val high (get_val s1 ah) s1 in set_val low (get_val t al) t
         else s1)"

text \<open>For the return water all four circuits follow in each of the two branches; their cells are different, so circuit by circuit is the same.\<close>

definition temp_update_para_data :: "ctl \<Rightarrow> ctl" where
  "temp_update_para_data s =
     (let s1 = alarm_values P_TEMP_ALO P_AO_TP_MAIN P_TEMP_AH P_TEMP_AL HIGH_TEMP_ALARM_VALUE LOW_TEMP_ALARM_VALUE s;
          s2 = alarm_values P_HUM_ALO P_AO_HM P_HUM_AH P_HUM_AL HIGH_HUMI_ALARM_VALUE LOW_HUMI_ALARM_VALUE s1;
          ret = (\<lambda>sp. alarm_values P_RTEMP_ALO sp P_RTEMP_AH P_RTEMP_AL);
          s3 = ret P_AO_TP_RF1 HIGH_TEMP_ALARM_VALUE_FOR_REFLUX_TEMP_1 LOW_TEMP_ALARM_VALUE_FOR_REFLUX_TEMP_1 s2;
          s4 = ret P_AO_TP_RF2 HIGH_TEMP_ALARM_VALUE_FOR_REFLUX_TEMP_2 LOW_TEMP_ALARM_VALUE_FOR_REFLUX_TEMP_2 s3;
          s5 = ret P_AO_TP_RF3 HIGH_TEMP_ALARM_VALUE_FOR_REFLUX_TEMP_3 LOW_TEMP_ALARM_VALUE_FOR_REFLUX_TEMP_3 s4
      in ret P_AO_TP_RF4 HIGH_TEMP_ALARM_VALUE_FOR_REFLUX_TEMP_4 LOW_TEMP_ALARM_VALUE_FOR_REFLUX_TEMP_4 s5)"

section \<open>The alarms\<close>

definition two_cells :: "nat \<Rightarrow> nat \<Rightarrow> int \<Rightarrow> ctl \<Rightarrow> ctl" where
  "two_cells light status x s = set_val status x (set_val light x s)"


definition alarm_low_temp :: "ctl \<Rightarrow> ctl" where
  "alarm_low_temp s =
     (let s1 = (if get_val s R_AI_TP_MAIN \<le> get_val s LOW_TEMP_ALARM_VALUE - get_val s P_HYS \<and> get_val s DETECT_AUX_HIGH_TEMP = 0
                then two_cells OUT_ST_TP_LOW_ALARM LOW_TEMP_ALARM_STATUS 1 s else s)
      in if get_val s1 R_AI_TP_MAIN > get_val s1 LOW_TEMP_ALARM_VALUE \<and> get_val s1 DETECT_AUX_HIGH_TEMP = 0
         then two_cells OUT_ST_TP_LOW_ALARM LOW_TEMP_ALARM_STATUS 0 s1 else s1)"

definition alarm_high_humi :: "ctl \<Rightarrow> ctl" where
  "alarm_high_humi s =
     (let s1 = (if get_val s R_AI_HM \<ge> get_val s HIGH_HUMI_ALARM_VALUE + get_val s P_HYS then
                  if get_val s HIGH_HUMIDITY_ALARM_DELAY_STATUS = 0 then
                    set_val HIGH_HUMIDITY_ALARM_DELAY_STATUS 1 (set_val HIGH_HUMIDITY_ALARM_DELAY_TIME (to_short (get_val s P_HH11 * 60)) s)
                  else if get_val s HIGH_HUMIDITY_ALARM_DELAY_TIME = 0 then two_cells OUT_ST_HM_HIGH_ALARM HIGH_HUMI_ALARM_STATUS 1 s
                  else two_cells OUT_ST_HM_HIGH_ALARM HIGH_HUMI_ALARM_STATUS 0 s
                else s)
      in if get_val s1 R_AI_HM < get_val s1 HIGH_HUMI_ALARM_VALUE
         then two_cells OUT_ST_HM_HIGH_ALARM HIGH_HUMI_ALARM_STATUS 0 (set_val HIGH_HUMIDITY_ALARM_DELAY_STATUS 0 s1) else s1)"

definition alarm_low_humi :: "ctl \<Rightarrow> ctl" where
  "alarm_low_humi s =
     (let s1 = (if get_val s R_AI_HM \<le> get_val s LOW_HUMI_ALARM_VALUE - get_val s P_HYS
                then two_cells OUT_ST_HM_LOW_ALARM LOW_HUMI_ALARM_STATUS 1 s else s)
      in if get_val s1 R_AI_HM > get_val s1 LOW_HUMI_ALARM_VALUE then two_cells OUT_ST_HM_LOW_ALARM LOW_HUMI_ALARM_STATUS 0 s1 else s1)"

text \<open>The return water of one circuit: its bit, its cells and its sensor.\<close>

definition alarm_reflux :: "int \<Rightarrow> nat \<Rightarrow> nat \<Rightarrow> nat \<Rightarrow> nat \<Rightarrow> nat \<Rightarrow> nat \<Rightarrow> ctl \<Rightarrow> ctl" where
  "alarm_reflux bit_value water high low high_status low_status sensor s =
     (if odd (get_uval s REFLUX_TEMPERATURE div bit_value) then
        let s1 = (if get_val s water \<ge> get_val s high + get_val s P_RTEMP_HYS then set_val high_status 1 s else s);
            s2 = (if get_val s1 water < get_val s1 high then set_val high_status 0 s1 else s1);
            s3 = (if get_val s2 water \<le> get_val s2 low - get_val s2 P_RTEMP_HYS then set_val low_status 1 s2 else s2)
        in if get_val s3 water > get_val s3 low then set_val low_status 0 s3 else s3
      else set_val sensor 0 (set_val low_status 0 (set_val high_status 0 s)))"

definition alarm_refluxes :: "ctl \<Rightarrow> ctl" where
  "alarm_refluxes s =
     (let s1 = alarm_reflux 1 R_AI_TP_RF1 HIGH_TEMP_ALARM_VALUE_FOR_REFLUX_TEMP_1 LOW_TEMP_ALARM_VALUE_FOR_REFLUX_TEMP_1
                 RETURN_TEMPE_HIGH_TEMP_ALARM_STATUS_1 RETURN_TEMP_LOW_TEMP_ALARM_STATUS_1 SENSOR_3_ABNORMAL_ALARM s;
          s2 = alarm_reflux 2 R_AI_TP_RF2 HIGH_TEMP_ALARM_VALUE_FOR_REFLUX_TEMP_2 LOW_TEMP_ALARM_VALUE_FOR_REFLUX_TEMP_2
                 RETURN_TEMPE_HIGH_TEMP_ALARM_STATUS_2 RETURN_TEMP_LOW_TEMP_ALARM_STATUS_2 SENSOR_4_ABNORMAL_ALARM s1;
          s3 = alarm_reflux 4 R_AI_TP_RF3 HIGH_TEMP_ALARM_VALUE_FOR_REFLUX_TEMP_3 LOW_TEMP_ALARM_VALUE_FOR_REFLUX_TEMP_3
                 RETURN_TEMPE_HIGH_TEMP_ALARM_STATUS_3 RETURN_TEMP_LOW_TEMP_ALARM_STATUS_3 SENSOR_5_ABNORMAL_ALARM s2
      in alarm_reflux 8 R_AI_TP_RF4 HIGH_TEMP_ALARM_VALUE_FOR_REFLUX_TEMP_4 LOW_TEMP_ALARM_VALUE_FOR_REFLUX_TEMP_4
           RETURN_TEMPE_HIGH_TEMP_ALARM_STATUS_4 RETURN_TEMP_LOW_TEMP_ALARM_STATUS_4 SENSOR_6_ABNORMAL_ALARM s3)"

definition alarm_co2 :: "ctl \<Rightarrow> ctl" where
  "alarm_co2 s =
     (let clear = (\<lambda>s. set_uval CARBON_DIOXIDE_WARNING_LIGHT 0 (set_uval OUT_ST_CO2_ALARM 0 s))
      in if get_uval s P_CO2_STATUS \<noteq> 0 then
           let s1 = (if get_uval s R_AI_CO \<ge> get_uval s P_AO_CO + get_uval s P_CO2_AH + get_uval s P_CO2_HYS
                     then set_uval CARBON_DIOXIDE_WARNING_LIGHT 1 (set_uval OUT_ST_CO2_ALARM 1 s) else s)
           in if get_uval s1 R_AI_CO < get_uval s1 P_AO_CO + get_uval s1 P_CO2_AH then clear s1 else s1
         else clear s)"

text \<open>The word of the sensors; the third circuit is tested with the bits of the first two.\<close>

definition alarm_sensors :: "ctl \<Rightarrow> ctl" where
  "alarm_sensors s =
     (let r = get_uval s REFLUX_TEMPERATURE;
          mutation = (if get_val s SENSOR_MUTATION_STATUS = 1 then 1 else 0);
          status = to_ushort (get_val s SENSOR_1_ABNORMAL_ALARM + get_val s SENSOR_2_ABNORMAL_ALARM * 2 +
            (if r mod 2 \<noteq> 0 then get_val s SENSOR_3_ABNORMAL_ALARM * 4 else 0) +
            (if r div 2 mod 2 \<noteq> 0 then get_val s SENSOR_4_ABNORMAL_ALARM * 8 else 0) +
            (if r mod 4 \<noteq> 0 then get_val s SENSOR_5_ABNORMAL_ALARM * 16 else 0) +
            (if r div 8 mod 2 \<noteq> 0 then get_val s SENSOR_6_ABNORMAL_ALARM * 32 else 0) +
            get_val s SENSOR_CO2_ALARM * 64 + mutation * 128 + get_val s CARBON_DIOXIDE_WARNING_LIGHT * 256);
          s1 = set_uval ALARM_PT100_TOTAL status s
      in if status > 0 then set_uval OUT_ST_SENSOR_ABNORMAL_ALARM 1 s1 else set_uval OUT_ST_SENSOR_ABNORMAL_ALARM 0 s1)"

section \<open>The eggs\<close>

text \<open>
  One round of \<open>flip_egg_func\<close>: \<open>status\<close> is \<open>sys_now_time_status\<close>, and \<open>elapsed\<close> the whole seconds of the monotonic clock since
  its start was taken.
\<close>

definition flip_egg_motor :: "int \<Rightarrow> int \<times> ctl \<Rightarrow> int \<times> ctl" where
  "flip_egg_motor elapsed = (\<lambda>(status, s).
     (if get_uval s P_EGG_FLIPPING_EXECUTION_STATUS \<noteq> 0 then
        let status1 = (if status \<noteq> 0 then 0 else status)
        in if status1 = 0 then
             if elapsed \<ge> 0 \<and> elapsed \<le> get_val s EGG_FLIPP_INGINTERVAL then
               (status1, if get_uval s P_EGG_FLIPPING_DIRECTION \<noteq> 0 then set_uval FILP_EGG_OFF 0 (set_uval FILP_EGG_ON 1 s)
                         else set_uval FILP_EGG_OFF 1 (set_uval FILP_EGG_ON 0 s))
             else (1, set_val P_EGG_FLIPPING_EXECUTION_STATUS 0 (set_uval FILP_EGG_OFF 0 (set_uval FILP_EGG_ON 0 s)))
           else (status1, s)
      else (1, set_uval FILP_EGG_OFF 0 (set_uval FILP_EGG_ON 0 s))))"

definition flip_egg_count :: "ctl \<Rightarrow> ctl" where
  "flip_egg_count s =
     (if get_val s EGG_FLIPPING_TRIGGER_STATUS \<noteq> 0 then
        let s1 = (if get_val s DETECT_FLIP_EGG = 0 then set_val EGG_FLIPPING_ACCUMULATION_STATE 1 s else s)
        in if get_val s1 EGG_FLIPPING_ACCUMULATION_STATE = 1 \<and> get_val s1 DETECT_FLIP_EGG = 1 then
             set_val EGG_FLIPPING_TRIGGER_STATUS 0 (set_val EGG_FLIPPING_ACCUMULATION_STATE 0
               (set_val R_AI_TP_EGG (to_short (get_val s1 R_AI_TP_EGG + 1)) s1))
           else s1
      else set_val EGG_FLIPPING_ACCUMULATION_STATE 0 s)"

definition flip_egg_round :: "int \<Rightarrow> int \<times> ctl \<Rightarrow> int \<times> ctl" where
  "flip_egg_round elapsed = (\<lambda>(status, s).
     (let s1 = set_uval P_EGG_TIME (get_val s P_EGG_FLIPPING_TIME) s;
          s2 = (if get_uval s1 P_EGG_FLIPPING_TIME = 0 then control_egg s1 else s1);
          (status1, s3) = flip_egg_motor elapsed (status, s2)
      in (status1, flip_egg_count s3)))"

section \<open>The band of the high temperature\<close>








text \<open>
  The sensor of the third circuit is shown by the wrong circuits: when it alone is abnormal, the lamp of the sensors is on
  exactly when the first or the second circuit is in use, whether or not the third one is.
\<close>

theorem third_sensor_lamp:
  assumes "get_val s SENSOR_1_ABNORMAL_ALARM = 0" "get_val s SENSOR_2_ABNORMAL_ALARM = 0" "get_val s SENSOR_3_ABNORMAL_ALARM = 0"
    and "get_val s SENSOR_4_ABNORMAL_ALARM = 0" "get_val s SENSOR_5_ABNORMAL_ALARM = 1" "get_val s SENSOR_6_ABNORMAL_ALARM = 0"
    and "get_val s SENSOR_CO2_ALARM = 0" "get_val s SENSOR_MUTATION_STATUS = 0" "get_val s CARBON_DIOXIDE_WARNING_LIGHT = 0"
  shows "get_val (alarm_sensors s) OUT_ST_SENSOR_ABNORMAL_ALARM = (if get_uval s REFLUX_TEMPERATURE mod 4 = 0 then 0 else 1)"
proof -
  have "alarm_sensors s = (let status = to_ushort (if get_uval s REFLUX_TEMPERATURE mod 4 \<noteq> 0 then 16 else 0);
      s1 = set_uval ALARM_PT100_TOTAL status s
    in if status > 0 then set_uval OUT_ST_SENSOR_ABNORMAL_ALARM 1 s1 else set_uval OUT_ST_SENSOR_ABNORMAL_ALARM 0 s1)"
    unfolding alarm_sensors_def Let_def assms
    by (simp only: mult_zero_left mult_1_left add_0_left add_0_right if_cancel if_False zero_neq_one)
  then show ?thesis by (simp add: Let_def cells to_ushort_in)
qed

theorem third_sensor_lamp_witness:
  "get_val (alarm_sensors (set_val REFLUX_TEMPERATURE 4 (set_val SENSOR_5_ABNORMAL_ALARM 1 power_on))) OUT_ST_SENSOR_ABNORMAL_ALARM = 0"
  using third_sensor_lamp[of "set_val REFLUX_TEMPERATURE 4 (set_val SENSOR_5_ABNORMAL_ALARM 1 power_on)"] by (simp add: cells to_ushort_in)

section \<open>The motor of the eggs\<close>

lemma flip_egg_count_cells:
  "get_val (flip_egg_count s) FILP_EGG_ON = get_val s FILP_EGG_ON" "get_val (flip_egg_count s) FILP_EGG_OFF = get_val s FILP_EGG_OFF"
  "get_val (flip_egg_count s) P_EGG_FLIPPING_EXECUTION_STATUS = get_val s P_EGG_FLIPPING_EXECUTION_STATUS"
  by (simp_all add: flip_egg_count_def Let_def cells)

lemma flip_egg_motor_cells:
  "get_val (snd (flip_egg_motor e (st, s))) FILP_EGG_ON = 0 \<or> get_val (snd (flip_egg_motor e (st, s))) FILP_EGG_OFF = 0"
  "get_val s EGG_FLIPP_INGINTERVAL < e \<Longrightarrow> get_val (snd (flip_egg_motor e (st, s))) FILP_EGG_ON = 0 \<and>
     get_val (snd (flip_egg_motor e (st, s))) FILP_EGG_OFF = 0 \<and> get_val (snd (flip_egg_motor e (st, s))) P_EGG_FLIPPING_EXECUTION_STATUS = 0"
  by (auto simp: flip_egg_motor_def Let_def cells)

lemma egg_interval: "get_val (control_egg s) EGG_FLIPP_INGINTERVAL = get_val s EGG_FLIPP_INGINTERVAL"
  by (simp add: control_egg_def Let_def cells)

text \<open>
  The eggs: after every round of the thread, from any state and with any reading of the clock, the motor is not driven both
  ways, and once the time of a turn is over it stands still and the turn is done.
\<close>

theorem flip_egg_safe:
  "(let s' = snd (flip_egg_round elapsed (status, s)) in
     (get_val s' FILP_EGG_ON = 0 \<or> get_val s' FILP_EGG_OFF = 0) \<and>
     (elapsed \<le> get_val s EGG_FLIPP_INGINTERVAL \<or>
      get_val s' FILP_EGG_ON = 0 \<and> get_val s' FILP_EGG_OFF = 0 \<and> get_val s' P_EGG_FLIPPING_EXECUTION_STATUS = 0))"
proof -
  define s2 where "s2 = (let s1 = set_uval P_EGG_TIME (get_val s P_EGG_FLIPPING_TIME) s in if get_uval s1 P_EGG_FLIPPING_TIME = 0 then control_egg s1 else s1)"
  have "get_val s2 EGG_FLIPP_INGINTERVAL = get_val s EGG_FLIPP_INGINTERVAL" by (simp add: s2_def Let_def egg_interval cells)
  moreover have "snd (flip_egg_round elapsed (status, s)) = flip_egg_count (snd (flip_egg_motor elapsed (status, s2)))"
    by (simp add: flip_egg_round_def s2_def Let_def split: prod.splits)
  ultimately show ?thesis using flip_egg_motor_cells[where e = elapsed and st = status and s = s2] by (auto simp: flip_egg_count_cells Let_def)
qed

theorem flip_egg_safe_witness:
  "get_val (snd (flip_egg_round 7 (1, power_on))) FILP_EGG_ON = 0 \<and> get_val (snd (flip_egg_round 7 (1, power_on))) FILP_EGG_OFF = 0"
  using flip_egg_safe[of 7 1 power_on] by (simp add: Let_def)

end
